(* ===== verification/Prelude.thy ===== *)
theory Prelude
  imports Main "HOL-Library.Monad_Syntax" "HOL-Library.Sublist"
begin

text \<open>
  What every component of the development shares: the fact collections, the conventions for
  exceptions, and generic lemmas about lists and options.

  A Python exception is the value \<open>None\<close> of an \<open>option\<close>; the command-line entry point of the
  scripts catches every exception in one place and turns it into "no write", so the model does
  not tell exceptions apart.  A function that cannot raise has a plain result.
\<close>

named_theorems json_simps \<open>facts that evaluate dictionary access\<close>
named_theorems log_simps \<open>facts about the lifecycle log\<close>
named_theorems store_simps \<open>facts that read back a written record\<close>
named_theorems frame_simps \<open>facts that say which parts of the state an operation leaves alone\<close>

subsection \<open>Generators that may raise\<close>

text \<open>
  Python's \<open>any(p(x) for x in xs)\<close> stops at the first true element, and an exception raised by
  an element that is reached aborts the whole expression.
\<close>

fun any_opt :: "('a \<Rightarrow> bool option) \<Rightarrow> 'a list \<Rightarrow> bool option" where
  "any_opt p [] = Some False"
| "any_opt p (x # xs) =
     (case p x of None \<Rightarrow> None | Some True \<Rightarrow> Some True | Some False \<Rightarrow> any_opt p xs)"

lemma any_opt_total:
  assumes "\<And>x. x \<in> set xs \<Longrightarrow> p x = Some (q x)"
  shows "any_opt p xs = Some (\<exists>x \<in> set xs. q x)"
  using assms by (induction xs) (auto split: bool.splits)

lemma any_opt_True:
  "any_opt p xs = Some True \<Longrightarrow> \<exists>x \<in> set xs. p x = Some True"
  by (induction xs) (auto split: option.splits bool.splits)

lemma any_opt_False:
  "any_opt p xs = Some False \<Longrightarrow> x \<in> set xs \<Longrightarrow> p x = Some False"
  by (induction xs) (auto split: option.splits bool.splits)

lemma any_opt_append_Some:
  "any_opt p xs = Some False \<Longrightarrow> any_opt p (xs @ ys) = any_opt p ys"
  by (induction xs) (auto split: option.splits bool.splits)

lemma any_opt_append_True:
  "any_opt p xs = Some True \<Longrightarrow> any_opt p (xs @ ys) = Some True"
  by (induction xs) (auto split: option.splits bool.splits)

text \<open>A loop that threads a state and may raise.\<close>

fun fold_opt :: "('a \<Rightarrow> 's \<Rightarrow> 's option) \<Rightarrow> 'a list \<Rightarrow> 's \<Rightarrow> 's option" where
  "fold_opt f [] s = Some s"
| "fold_opt f (x # xs) s = (case f x s of None \<Rightarrow> None | Some s' \<Rightarrow> fold_opt f xs s')"

lemma fold_opt_append:
  "fold_opt f (xs @ ys) s = Option.bind (fold_opt f xs s) (fold_opt f ys)"
  by (induction xs arbitrary: s) (auto split: option.splits)

text \<open>
  The invariant rule for such a loop: a property kept by every iteration that returns holds of
  the state the loop returns.
\<close>

lemma fold_opt_invariant:
  assumes "fold_opt f xs s = Some t" and "P s"
    and "\<And>x s s'. x \<in> set xs \<Longrightarrow> P s \<Longrightarrow> f x s = Some s' \<Longrightarrow> P s'"
  shows "P t"
  using assms
proof (induction xs arbitrary: s)
  case Nil
  then show ?case by simp
next
  case (Cons x xs)
  from Cons.prems(1) obtain s' where s': "f x s = Some s'" "fold_opt f xs s' = Some t"
    by (auto split: option.splits)
  have "P s'" using Cons.prems(2,3) s'(1) by auto
  then show ?case using Cons.IH [OF s'(2)] Cons.prems(3) by auto
qed

text \<open>The same rule for a relation between the first and the last state of the loop.\<close>

lemma fold_opt_relation:
  assumes "fold_opt f xs s = Some t" and "\<And>s. R s s"
    and "\<And>a b c. R a b \<Longrightarrow> R b c \<Longrightarrow> R a c"
    and "\<And>x s s'. x \<in> set xs \<Longrightarrow> f x s = Some s' \<Longrightarrow> R s s'"
  shows "R s t"
proof -
  have "\<And>x s' s''. x \<in> set xs \<Longrightarrow> R s s' \<Longrightarrow> f x s' = Some s'' \<Longrightarrow> R s s''"
    using assms(3,4) by blast
  then show ?thesis using fold_opt_invariant [of f xs s t "R s"] assms(1,2) by blast
qed

subsection \<open>First occurrences\<close>

text \<open>
  \<open>list(dict.fromkeys(xs))\<close> and the loops \<open>if v not in merged: merged.append(v)\<close> keep the
  first occurrence of each value, in order.  \<open>eq\<close> is the equality the membership test uses.
\<close>

fun merge_new :: "('a \<Rightarrow> 'a \<Rightarrow> bool) \<Rightarrow> 'a list \<Rightarrow> 'a list \<Rightarrow> 'a list" where
  "merge_new eq acc [] = acc"
| "merge_new eq acc (x # xs) =
     (if \<exists>y \<in> set acc. eq y x then merge_new eq acc xs else merge_new eq (acc @ [x]) xs)"

abbreviation dedup :: "'a list \<Rightarrow> 'a list" where
  "dedup xs \<equiv> merge_new (=) [] xs"

lemma merge_new_append: "merge_new eq acc (xs @ ys) = merge_new eq (merge_new eq acc xs) ys"
  by (induction eq acc xs rule: merge_new.induct) auto

lemma merge_new_prefix: "prefix acc (merge_new eq acc xs)"
  by (induction eq acc xs rule: merge_new.induct) (auto dest: append_prefixD)

lemma set_acc_merge_new: "x \<in> set acc \<Longrightarrow> x \<in> set (merge_new eq acc xs)"
  by (meson merge_new_prefix set_mono_prefix subsetD)

lemma set_merge_new_subset: "set (merge_new eq acc xs) \<subseteq> set acc \<union> set xs"
  by (induction eq acc xs rule: merge_new.induct) auto

lemma set_merge_new [simp]: "set (merge_new (=) acc xs) = set acc \<union> set xs"
proof -
  have "eq = (=) \<Longrightarrow> set (merge_new eq acc xs) = set acc \<union> set xs" for eq
    by (induction eq acc xs rule: merge_new.induct) auto
  then show ?thesis by simp
qed

lemma distinct_merge_new: "distinct acc \<Longrightarrow> distinct (merge_new (=) acc xs)"
proof -
  have "eq = (=) \<Longrightarrow> distinct acc \<Longrightarrow> distinct (merge_new eq acc xs)" for eq
    by (induction eq acc xs rule: merge_new.induct) auto
  then show "distinct acc \<Longrightarrow> distinct (merge_new (=) acc xs)" by simp
qed

lemma merge_new_absorb:
  "(\<And>x. x \<in> set xs \<Longrightarrow> \<exists>y \<in> set acc. eq y x) \<Longrightarrow> merge_new eq acc xs = acc"
  by (induction eq acc xs rule: merge_new.induct) auto

lemma merge_new_covers:
  "(\<And>x. x \<in> set xs \<Longrightarrow> eq x x) \<Longrightarrow> x \<in> set xs \<Longrightarrow> \<exists>y \<in> set (merge_new eq acc xs). eq y x"
proof (induction eq acc xs rule: merge_new.induct)
  case (1 eq acc)
  then show ?case by simp
next
  case (2 eq acc z zs)
  show ?case
  proof (cases "\<exists>y \<in> set acc. eq y z")
    case True
    then show ?thesis using 2 by (auto intro: set_acc_merge_new)
  next
    case False
    have "z \<in> set (merge_new eq (acc @ [z]) zs)"
      by (rule set_acc_merge_new) simp
    then show ?thesis using 2 False by auto
  qed
qed

text \<open>
  A list no two positions of which are equal under the membership test: what the loop produces,
  and what it leaves alone when it runs over it again.
\<close>

fun no_dup :: "('a \<Rightarrow> 'a \<Rightarrow> bool) \<Rightarrow> 'a list \<Rightarrow> 'a list \<Rightarrow> bool" where
  "no_dup eq acc [] = True"
| "no_dup eq acc (x # xs) = ((\<forall>y \<in> set acc. \<not> eq y x) \<and> no_dup eq (acc @ [x]) xs)"

lemma no_dup_append: "no_dup eq acc (xs @ ys) = (no_dup eq acc xs \<and> no_dup eq (acc @ xs) ys)"
  by (induction xs arbitrary: acc) auto

lemma no_dup_merge_new_id: "no_dup eq acc xs \<Longrightarrow> merge_new eq acc xs = acc @ xs"
  by (induction eq acc xs rule: merge_new.induct) auto

lemma no_dup_merge_new: "no_dup eq [] acc \<Longrightarrow> no_dup eq [] (merge_new eq acc xs)"
  by (induction eq acc xs rule: merge_new.induct) (auto simp: no_dup_append)

lemma merge_new_idem:
  "merge_new eq [] (merge_new eq [] xs) = merge_new eq [] xs"
  by (simp add: no_dup_merge_new no_dup_merge_new_id)

lemma merge_new_again:
  assumes "\<And>x. x \<in> set ys \<Longrightarrow> eq x x"
  shows "merge_new eq [] (merge_new eq [] (xs @ ys) @ ys) = merge_new eq [] (xs @ ys)"
proof -
  have "merge_new eq (merge_new eq [] (xs @ ys)) ys = merge_new eq [] (xs @ ys)"
    using assms by (intro merge_new_absorb) (simp add: merge_new_append merge_new_covers)
  then show ?thesis by (simp only: merge_new_append [of _ _ _ ys] merge_new_idem [of eq "xs @ ys", unfolded merge_new_append])
qed

subsection \<open>Prefixes of logs\<close>

text \<open>An append-only log only ever grows at its end.\<close>

lemma prefix_snocI [intro]: "prefix xs ys \<Longrightarrow> prefix xs (ys @ [y])"
  by (auto simp: prefix_def)

lemma prefix_if_snoc [simp]: "prefix xs (if b then xs else xs @ [y])"
  by simp

section \<open>Lists of computations\<close>

text \<open>All the results, or \<open>None\<close> as soon as one element raises.\<close>

fun traverse :: "('a \<Rightarrow> 'b option) \<Rightarrow> 'a list \<Rightarrow> 'b list option" where
  "traverse f [] = Some []"
| "traverse f (x # xs) =
     (case f x of None \<Rightarrow> None | Some y \<Rightarrow> map_option (Cons y) (traverse f xs))"

lemma traverse_cong [fundef_cong]:
  "xs = ys \<Longrightarrow> (\<And>x. x \<in> set ys \<Longrightarrow> f x = g x) \<Longrightarrow> traverse f xs = traverse g ys"
  by (induction ys arbitrary: xs) (auto split: option.split)

lemma traverse_map: "(\<And>x. x \<in> set xs \<Longrightarrow> f x = Some (g x)) \<Longrightarrow> traverse f xs = Some (map g xs)"
  by (induction xs) auto

lemma traverse_Some: "traverse f xs = Some ys \<longleftrightarrow> list_all2 (\<lambda>x y. f x = Some y) xs ys"
proof (induction xs arbitrary: ys)
  case (Cons x xs)
  then show ?case by (cases ys) (auto split: option.splits)
qed auto

lemma traverse_in:
  assumes "traverse f xs = Some ys" and "y \<in> set ys"
  obtains x where "x \<in> set xs" "f x = Some y"
proof -
  obtain i where i: "i < length ys" "y = ys ! i" using assms(2) by (auto simp: in_set_conv_nth)
  have "list_all2 (\<lambda>x y. f x = Some y) xs ys" using assms(1) by (simp add: traverse_Some)
  then have "f (xs ! i) = Some y" "i < length xs" using i by (auto dest: list_all2_nthD2 list_all2_lengthD)
  then show thesis using that [of "xs ! i"] by simp
qed

section \<open>The greatest of a list\<close>

lemma fold_max_ge: "(b::nat) \<le> fold (\<lambda>x best. max best (g x)) xs b"
proof (induction xs arbitrary: b)
  case (Cons x xs)
  have "b \<le> max b (g x)" by simp
  also have "\<dots> \<le> fold (\<lambda>x best. max best (g x)) xs (max b (g x))" by (rule Cons)
  finally show ?case by simp
qed simp

lemma fold_max_mem: "x \<in> set xs \<Longrightarrow> g x \<le> fold (\<lambda>x best. max best (g x)) xs (b::nat)"
proof (induction xs arbitrary: b)
  case (Cons y xs)
  show ?case
  proof (cases "x = y")
    case True
    have "g x \<le> max b (g y)" using True by simp
    also have "\<dots> \<le> fold (\<lambda>x best. max best (g x)) xs (max b (g y))" by (rule fold_max_ge)
    finally show ?thesis by simp
  qed (use Cons in simp)
qed simp

end
