(* ===== verification/PyText.thy ===== *)
theory PyText
  imports Prelude
begin

text \<open>
  Python's \<open>str\<close> as a character list.  A \<open>char\<close> of HOL is one of the code points U+0000 to
  U+00FF, so a \<open>string\<close> is a Python string all of whose characters are in that range; on these
  strings the definitions below agree with Python's methods exactly (whitespace, line
  boundaries, digits and case mapping included).  Characters beyond U+00FF are outside the model.
\<close>

subsection \<open>Character classes\<close>

text \<open>\<open>str.isspace\<close>, which is also what \<open>\s\<close> means in the \<open>re\<close> module.\<close>

definition space_chars :: "char list" where
  "space_chars = [CHR 0x09, CHR 0x0A, CHR 0x0B, CHR 0x0C, CHR 0x0D, CHR 0x1C, CHR 0x1D,
     CHR 0x1E, CHR 0x1F, CHR 0x20, CHR 0x85, CHR 0xA0]"

definition is_space :: "char \<Rightarrow> bool" where
  "is_space c \<longleftrightarrow> c \<in> set space_chars"

text \<open>\<open>\d\<close> is the class of decimal digits; \<open>str.isdigit\<close> also accepts the superscripts.\<close>

definition is_decimal :: "char \<Rightarrow> bool" where
  "is_decimal c \<longleftrightarrow> c \<in> set ''0123456789''"

definition is_digit_char :: "char \<Rightarrow> bool" where
  "is_digit_char c \<longleftrightarrow> is_decimal c \<or> c \<in> {CHR 0xB2, CHR 0xB3, CHR 0xB9}"

definition lower_char :: "char \<Rightarrow> char" where
  "lower_char c = (let n = (of_char c :: nat) in
     if (65 \<le> n \<and> n \<le> 90) \<or> (192 \<le> n \<and> n \<le> 222 \<and> n \<noteq> 215) then char_of (n + 32) else c)"

definition lower :: "string \<Rightarrow> string" where
  "lower s = map lower_char s"

subsection \<open>Stripping\<close>

definition lstrip :: "string \<Rightarrow> string" where
  "lstrip s = dropWhile is_space s"

definition rstrip :: "string \<Rightarrow> string" where
  "rstrip s = rev (dropWhile is_space (rev s))"

definition strip :: "string \<Rightarrow> string" where
  "strip s = rstrip (lstrip s)"

text \<open>\<open>s.rstrip(chars)\<close> with an explicit set of characters.\<close>

definition rstrip_chars :: "char list \<Rightarrow> string \<Rightarrow> string" where
  "rstrip_chars cs s = rev (dropWhile (\<lambda>c. c \<in> set cs) (rev s))"

lemma strip_Nil [simp]: "strip [] = []" "lstrip [] = []" "rstrip [] = []"
  by (simp_all add: strip_def lstrip_def rstrip_def)

lemma rstrip_snoc: "rstrip (s @ [c]) = (if is_space c then rstrip s else s @ [c])"
  by (simp add: rstrip_def)

lemma rstrip_prefix: "prefix (rstrip s) s"
  by (metis rstrip_def rev_rev_ident suffix_dropWhile suffix_to_prefix)

lemma rstrip_idem [simp]: "rstrip (rstrip s) = rstrip s"
  by (simp add: rstrip_def dropWhile_idem)

lemma lstrip_idem [simp]: "lstrip (lstrip s) = lstrip s"
  by (simp add: lstrip_def)

lemma lstrip_id: "s = [] \<or> \<not> is_space (hd s) \<Longrightarrow> lstrip s = s"
  by (cases s) (auto simp: lstrip_def)

lemma rstrip_id: "s = [] \<or> \<not> is_space (last s) \<Longrightarrow> rstrip s = s"
  by (cases s rule: rev_cases) (auto simp: rstrip_def)

lemma last_rstrip: "rstrip s \<noteq> [] \<Longrightarrow> \<not> is_space (last (rstrip s))"
  by (induction s rule: rev_induct) (auto simp: rstrip_snoc split: if_splits)

lemma hd_rstrip: "rstrip s \<noteq> [] \<Longrightarrow> hd (rstrip s) = hd s"
  using rstrip_prefix [of s] by (metis hd_append2 prefix_def)

lemma hd_lstrip: "lstrip s \<noteq> [] \<Longrightarrow> \<not> is_space (hd (lstrip s))"
  by (simp add: lstrip_def hd_dropWhile)

lemma strip_idem [simp]: "strip (strip s) = strip s"
proof (cases "strip s = []")
  case True
  then show ?thesis by simp
next
  case False
  then have "hd (strip s) = hd (lstrip s)" "lstrip s \<noteq> []"
    by (auto simp: strip_def hd_rstrip)
  then have "lstrip (strip s) = strip s" by (simp add: hd_lstrip lstrip_id)
  then show ?thesis by (simp add: strip_def)
qed

subsection \<open>Lines\<close>

text \<open>
  \<open>str.splitlines\<close> breaks at \<open>\n\<close>, \<open>\r\<close>, \<open>\r\n\<close> and at the separators VT, FF, FS, GS, RS and
  NEL.  \<open>split_lines_ends\<close> gives each line with its terminator, which is what
  \<open>splitlines(keepends=True)\<close> concatenates.
\<close>

definition is_line_break :: "char \<Rightarrow> bool" where
  "is_line_break c \<longleftrightarrow> c \<in> set [CHR 0x0A, CHR 0x0B, CHR 0x0C, CHR 0x0D, CHR 0x1C, CHR 0x1D,
     CHR 0x1E, CHR 0x85]"

fun split_lines_aux :: "string \<Rightarrow> string \<Rightarrow> (string \<times> string) list" where
  "split_lines_aux cur [] = (if cur = [] then [] else [(rev cur, [])])"
| "split_lines_aux cur (c # cs) =
     (if c = CHR 0x0D \<and> cs \<noteq> [] \<and> hd cs = CHR 0x0A
      then (rev cur, [c, hd cs]) # split_lines_aux [] (tl cs)
      else if is_line_break c then (rev cur, [c]) # split_lines_aux [] cs
      else split_lines_aux (c # cur) cs)"

definition split_lines_ends :: "string \<Rightarrow> (string \<times> string) list" where
  "split_lines_ends s = split_lines_aux [] s"

definition splitlines :: "string \<Rightarrow> string list" where
  "splitlines s = map fst (split_lines_ends s)"

definition splitlines_keep :: "string \<Rightarrow> string list" where
  "splitlines_keep s = map (\<lambda>(l, t). l @ t) (split_lines_ends s)"

text \<open>Reading a file in text mode turns \<open>\r\n\<close> and \<open>\r\<close> into \<open>\n\<close>.\<close>

fun unix_newlines :: "string \<Rightarrow> string" where
  "unix_newlines [] = []"
| "unix_newlines [c] = [if c = CHR 0x0D then CHR 0x0A else c]"
| "unix_newlines (c # d # cs) =
     (if c = CHR 0x0D
      then CHR 0x0A # (if d = CHR 0x0A then unix_newlines cs else unix_newlines (d # cs))
      else c # unix_newlines (d # cs))"

lemma unix_newlines_id: "CHR 0x0D \<notin> set s \<Longrightarrow> unix_newlines s = s"
  by (induction s rule: unix_newlines.induct) auto

text \<open>
  The scanner's equation is applied by case on the next character, never unfolded blindly.
\<close>

lemma split_lines_crlf:
  "split_lines_aux cur (CHR 0x0D # CHR 0x0A # cs) = (rev cur, [CHR 0x0D, CHR 0x0A]) # split_lines_aux [] cs"
  by simp

lemma split_lines_break:
  "is_line_break c \<Longrightarrow> \<not> (c = CHR 0x0D \<and> cs \<noteq> [] \<and> hd cs = CHR 0x0A) \<Longrightarrow>
   split_lines_aux cur (c # cs) = (rev cur, [c]) # split_lines_aux [] cs"
  by (simp only: split_lines_aux.simps if_False if_True)

lemma split_lines_char:
  assumes "\<not> is_line_break c"
  shows "split_lines_aux cur (c # cs) = split_lines_aux (c # cur) cs"
proof -
  have "c \<noteq> CHR 0x0D" using assms by (auto simp: is_line_break_def)
  then show ?thesis using assms by (simp only: split_lines_aux.simps if_False simp_thms)
qed

declare split_lines_aux.simps(2) [simp del]

text \<open>The three cases of the scanner as an induction rule.\<close>

lemma split_lines_induct [case_names Nil crlf break_char char]:
  assumes "\<And>cur. P cur []"
    and "\<And>cur cs. P [] cs \<Longrightarrow> P cur (CHR 0x0D # CHR 0x0A # cs)"
    and "\<And>cur c cs. is_line_break c \<Longrightarrow> \<not> (c = CHR 0x0D \<and> cs \<noteq> [] \<and> hd cs = CHR 0x0A)
           \<Longrightarrow> P [] cs \<Longrightarrow> P cur (c # cs)"
    and "\<And>cur c cs. \<not> is_line_break c \<Longrightarrow> P (c # cur) cs \<Longrightarrow> P cur (c # cs)"
  shows "P cur s"
proof (induction cur s rule: split_lines_aux.induct)
  case (1 cur)
  show ?case by (rule assms(1))
next
  case (2 cur c cs)
  show ?case
  proof (cases "c = CHR 0x0D \<and> cs \<noteq> [] \<and> hd cs = CHR 0x0A")
    case True
    then obtain ds where "cs = CHR 0x0A # ds" by (cases cs) auto
    then show ?thesis using 2(1) [OF True] True assms(2) by simp
  next
    case False
    then show ?thesis using 2(2,3) assms(3,4) by blast
  qed
qed

lemma concat_split_lines_aux:
  "concat (map (\<lambda>(l, t). l @ t) (split_lines_aux cur s)) = rev cur @ s"
  by (induction cur s rule: split_lines_induct)
     (simp_all add: split_lines_crlf split_lines_break split_lines_char)

lemma concat_splitlines_keep [simp]: "concat (splitlines_keep s) = s"
  by (simp add: splitlines_keep_def split_lines_ends_def concat_split_lines_aux)

lemma length_splitlines_keep [simp]: "length (splitlines_keep s) = length (splitlines s)"
  by (simp add: splitlines_keep_def splitlines_def)

lemma split_lines_aux_no_break:
  "\<forall>c \<in> set cur. \<not> is_line_break c \<Longrightarrow> (l, t) \<in> set (split_lines_aux cur s)
   \<Longrightarrow> \<forall>c \<in> set l. \<not> is_line_break c"
proof (induction cur s rule: split_lines_induct)
  case (Nil cur)
  then show ?case by (simp split: if_splits)
next
  case (crlf cur cs)
  then show ?case by (auto simp only: split_lines_crlf list.set set_rev insert_iff empty_iff prod.inject)
next
  case (break_char cur c cs)
  from break_char.prems(2) have "(l, t) = (rev cur, [c]) \<or> (l, t) \<in> set (split_lines_aux [] cs)"
    by (simp only: split_lines_break [OF break_char.hyps] list.set insert_iff)
  then show ?case
  proof
    assume "(l, t) = (rev cur, [c])"
    then show ?thesis using break_char.prems(1) by simp
  next
    assume "(l, t) \<in> set (split_lines_aux [] cs)"
    then show ?thesis using break_char.IH by simp
  qed
next
  case (char cur c cs)
  have "\<forall>d \<in> set (c # cur). \<not> is_line_break d" using char.hyps char.prems(1) by simp
  moreover have "(l, t) \<in> set (split_lines_aux (c # cur) cs)"
    using char.prems(2) by (simp only: split_lines_char [OF char.hyps])
  ultimately show ?case by (rule char.IH)
qed

lemma splitlines_no_break: "l \<in> set (splitlines s) \<Longrightarrow> \<forall>c \<in> set l. \<not> is_line_break c"
  using split_lines_aux_no_break [of "[]" l] by (auto simp: splitlines_def split_lines_ends_def)

lemma split_lines_newline: "split_lines_aux cur (CHR 0x0A # s) = (rev cur, [CHR 0x0A]) # split_lines_aux [] s"
  by (rule split_lines_break) (simp_all add: is_line_break_def)

lemma split_lines_aux_run:
  "\<forall>c \<in> set l. \<not> is_line_break c \<Longrightarrow>
   split_lines_aux cur (l @ CHR 0x0A # s) = (rev cur @ l, [CHR 0x0A]) # split_lines_aux [] s"
  by (induction l arbitrary: cur) (auto simp: split_lines_newline split_lines_char)

lemma split_lines_aux_last:
  "\<forall>c \<in> set l. \<not> is_line_break c \<Longrightarrow>
   split_lines_aux cur l = (if cur = [] \<and> l = [] then [] else [(rev cur @ l, [])])"
  by (induction l arbitrary: cur) (auto simp: split_lines_char)

subsection \<open>Joining and splitting\<close>

fun join :: "string \<Rightarrow> string list \<Rightarrow> string" where
  "join sep [] = []"
| "join sep [x] = x"
| "join sep (x # y # ys) = x @ sep @ join sep (y # ys)"

abbreviation nl :: string where "nl \<equiv> [CHR 0x0A]"

text \<open>Joining lines with newlines and splitting again gives the lines back.\<close>

definition clean_line :: "string \<Rightarrow> bool" where
  "clean_line l \<longleftrightarrow> (\<forall>c \<in> set l. \<not> is_line_break c)"

lemma clean_line_splitlines: "l \<in> set (splitlines s) \<Longrightarrow> clean_line l"
  by (simp add: clean_line_def splitlines_no_break)

lemma split_lines_join_nl:
  "\<forall>l \<in> set ls. clean_line l \<Longrightarrow> split_lines_aux [] (join nl ls @ nl) =
     (if ls = [] then [([], nl)] else map (\<lambda>l. (l, nl)) ls)"
proof (induction nl ls rule: join.induct)
  case 1
  then show ?case by (simp add: split_lines_newline)
next
  case (2 x)
  then show ?case
    using split_lines_aux_run [of x "[]" "[]"] by (simp add: clean_line_def)
next
  case (3 x y ys)
  then show ?case
    using split_lines_aux_run [of x "[]" "join nl (y # ys) @ nl"] by (simp add: clean_line_def)
qed

lemma splitlines_join_nl:
  "ls \<noteq> [] \<Longrightarrow> \<forall>l \<in> set ls. clean_line l \<Longrightarrow> splitlines (join nl ls @ nl) = ls"
  by (simp add: splitlines_def split_lines_ends_def split_lines_join_nl o_def)

text \<open>\<open>s.split(c)\<close> for a one-character separator.\<close>

fun split_on :: "char \<Rightarrow> string \<Rightarrow> string list" where
  "split_on c [] = [[]]"
| "split_on c (x # xs) =
     (if x = c then [] # split_on c xs
      else case split_on c xs of [] \<Rightarrow> [[x]] | w # ws \<Rightarrow> (x # w) # ws)"

lemma split_on_nonempty [simp]: "split_on c s \<noteq> []"
  by (cases s) (auto split: list.splits)

lemma join_split_on: "join [c] (split_on c s) = s"
proof (induction s)
  case Nil
  then show ?case by simp
next
  case (Cons x xs)
  obtain w ws where w: "split_on c xs = w # ws"
    by (cases "split_on c xs") auto
  then show ?case using Cons by (cases ws) auto
qed

text \<open>The text before the first separator and the text after it, or \<open>None\<close>.\<close>

fun cut_at :: "string \<Rightarrow> string \<Rightarrow> (string \<times> string) option" where
  "cut_at sep [] = (if sep = [] then Some ([], []) else None)"
| "cut_at sep (c # cs) =
     (if prefix sep (c # cs) then Some ([], drop (length sep) (c # cs))
      else case cut_at sep cs of None \<Rightarrow> None | Some (a, b) \<Rightarrow> Some (c # a, b))"

lemma cut_at_join: "cut_at sep s = Some (a, b) \<Longrightarrow> s = a @ sep @ b"
  by (induction sep s arbitrary: a rule: cut_at.induct)
     (auto split: if_splits option.splits simp: prefix_def)

text \<open>\<open>s.replace(old, new, 1)\<close> and \<open>s.replace(c, new)\<close> for a single character \<open>c\<close>.\<close>

definition replace_first :: "string \<Rightarrow> string \<Rightarrow> string \<Rightarrow> string" where
  "replace_first old new s = (case cut_at old s of None \<Rightarrow> s | Some (a, b) \<Rightarrow> a @ new @ b)"

definition replace_char :: "char \<Rightarrow> string \<Rightarrow> string \<Rightarrow> string" where
  "replace_char c new s = concat (map (\<lambda>x. if x = c then new else [x]) s)"

subsection \<open>Numbers\<close>

definition digit_value :: "char \<Rightarrow> int" where
  "digit_value c = int (length (takeWhile (\<lambda>d. d \<noteq> c) ''0123456789''))"

definition decimal_value :: "string \<Rightarrow> int" where
  "decimal_value s = foldl (\<lambda>n c. 10 * n + digit_value c) 0 s"

text \<open>
  \<open>int(text)\<close>: surrounding whitespace, one sign, then decimal digits with single underscores
  between them; anything else is a \<open>ValueError\<close>.
\<close>

fun digit_groups :: "string \<Rightarrow> bool" where
  "digit_groups [] = False"
| "digit_groups [c] = is_decimal c"
| "digit_groups (c # d # s) =
     (is_decimal c \<and> (if d = CHR ''_'' then digit_groups s else digit_groups (d # s)))"

definition py_int :: "string \<Rightarrow> int option" where
  "py_int text =
     (let s = strip text;
          neg = (s \<noteq> [] \<and> hd s = CHR ''-'');
          body = (if s \<noteq> [] \<and> hd s \<in> {CHR ''-'', CHR ''+''} then tl s else s)
      in if digit_groups body
         then let n = decimal_value (filter (\<lambda>c. c \<noteq> CHR ''_'') body)
              in Some (if neg then - n else n)
         else None)"

definition digit_text :: "nat \<Rightarrow> char" where
  "digit_text k = ''0123456789'' ! k"

fun nat_text :: "nat \<Rightarrow> string" where
  "nat_text n = (if n < 10 then [digit_text n] else nat_text (n div 10) @ [digit_text (n mod 10)])"

declare nat_text.simps [simp del]

definition int_text :: "int \<Rightarrow> string" where
  "int_text i = (if i < 0 then CHR ''-'' # nat_text (nat (- i)) else nat_text (nat i))"

lemma digit_cases:
  "k < (10 :: nat) \<Longrightarrow> k = 0 \<or> k = 1 \<or> k = 2 \<or> k = 3 \<or> k = 4 \<or> k = 5 \<or> k = 6 \<or> k = 7 \<or> k = 8 \<or> k = 9"
  by presburger

lemma is_decimal_digit: "k < 10 \<Longrightarrow> is_decimal (digit_text k)"
  unfolding is_decimal_def digit_text_def by (rule nth_mem) simp

lemma digit_value_digit: "k < 10 \<Longrightarrow> digit_value (digit_text k) = int k"
  by (drule digit_cases) (elim disjE; simp add: digit_value_def digit_text_def)

lemma nat_text_decimal: "c \<in> set (nat_text n) \<Longrightarrow> is_decimal c"
proof (induction n rule: nat_text.induct)
  case (1 n)
  have digit: "is_decimal (digit_text k)" if "k < 10" for k :: nat
    using that by (rule is_decimal_digit)
  show ?case
  proof (cases "n < 10")
    case True
    then show ?thesis using 1(2) digit [of n] by (simp add: nat_text.simps [of n])
  next
    case False
    then show ?thesis using 1 digit [of "n mod 10"] by (auto simp: nat_text.simps [of n])
  qed
qed

lemma nat_text_nonempty [simp]: "nat_text n \<noteq> []"
  by (subst nat_text.simps) simp

lemma nat_text_value: "decimal_value (nat_text n) = int n"
proof (induction n rule: nat_text.induct)
  case (1 n)
  have digit: "digit_value (digit_text k) = int k" if "k < 10" for k :: nat
    using that by (rule digit_value_digit)
  show ?case
  proof (cases "n < 10")
    case True
    then show ?thesis using digit [of n] by (simp add: nat_text.simps [of n] decimal_value_def)
  next
    case False
    then have "decimal_value (nat_text (n div 10)) = int (n div 10)" using 1 by simp
    then show ?thesis using False digit [of "n mod 10"]
      by (simp add: nat_text.simps [of n] decimal_value_def zdiv_int zmod_int)
  qed
qed

lemma decimal_not_space: "is_decimal c \<Longrightarrow> \<not> is_space c \<and> c \<noteq> CHR ''_'' \<and> c \<noteq> CHR ''-'' \<and> c \<noteq> CHR ''+''"
  by (auto simp: is_decimal_def is_space_def space_chars_def)

lemma digit_groups_decimal: "s \<noteq> [] \<Longrightarrow> \<forall>c \<in> set s. is_decimal c \<Longrightarrow> digit_groups s"
  by (induction s rule: digit_groups.induct) (auto simp: is_decimal_def)

lemma strip_no_space: "\<forall>c \<in> set s. \<not> is_space c \<Longrightarrow> strip s = s"
  by (cases s) (auto simp: strip_def lstrip_id rstrip_id)

lemma set_int_text: "c \<in> set (int_text i) \<Longrightarrow> is_decimal c \<or> c = CHR ''-''"
  by (auto simp: int_text_def nat_text_decimal split: if_splits)

lemma strip_int_text [simp]: "strip (int_text i) = int_text i"
proof (rule strip_no_space)
  have "\<not> is_space (CHR ''-'')" by (simp add: is_space_def space_chars_def)
  then show "\<forall>c \<in> set (int_text i). \<not> is_space c" using set_int_text decimal_not_space by blast
qed

lemma py_int_text: "py_int (int_text i) = Some i"
proof -
  have d: "\<forall>c \<in> set (nat_text n). is_decimal c" for n using nat_text_decimal by blast
  have f: "filter (\<lambda>c. c \<noteq> CHR ''_'') (nat_text n) = nat_text n" for n
    using d decimal_not_space by (intro filter_True) blast
  have g: "digit_groups (nat_text n)" for n using d by (simp add: digit_groups_decimal)
  have h: "hd (nat_text n) \<noteq> CHR ''-''" "hd (nat_text n) \<noteq> CHR ''+''" for n
    using d [of n] decimal_not_space [of "hd (nat_text n)"] by (cases "nat_text n"; auto)+
  show ?thesis
    unfolding py_int_def strip_int_text Let_def by (simp add: int_text_def f g h nat_text_value)
qed

lemma lower_int_text: "lower (int_text i) = int_text i"
proof -
  have digit: "\<forall>c \<in> set ''0123456789''. lower_char c = c" and minus: "lower_char (CHR ''-'') = CHR ''-''"
    by code_simp+
  have same: "lower_char c = c" if "is_decimal c \<or> c = CHR ''-''" for c
    using that
  proof
    assume "is_decimal c"
    then show ?thesis unfolding is_decimal_def by (rule bspec [OF digit])
  qed (simp only: minus)
  then show ?thesis unfolding lower_def by (intro map_idI same set_int_text)
qed

lemma splitlines_join:
  "\<forall>l \<in> set ls. clean_line l \<Longrightarrow>
   splitlines (join nl ls) = (if ls \<noteq> [] \<and> last ls = [] then butlast ls else ls)"
proof (induction nl ls rule: join.induct)
  case 1
  then show ?case by (simp add: splitlines_def split_lines_ends_def)
next
  case (2 x)
  then show ?case
    using split_lines_aux_last [of x "[]"] by (simp add: splitlines_def split_lines_ends_def clean_line_def)
next
  case (3 x y ys)
  have "splitlines (join nl (x # y # ys)) = x # splitlines (join nl (y # ys))"
    using 3(2) split_lines_aux_run [of x "[]" "join nl (y # ys)"]
    by (simp add: splitlines_def split_lines_ends_def clean_line_def)
  then show ?case using 3 by simp
qed

lemma rstrip_append_space: "\<forall>c \<in> set t. is_space c \<Longrightarrow> rstrip (s @ t) = rstrip s"
  by (simp add: rstrip_def) (metis dropWhile_append2 set_rev)

lemma join_snoc: "ls \<noteq> [] \<Longrightarrow> join sep (ls @ [x]) = join sep ls @ sep @ x"
  by (induction sep ls rule: join.induct) auto

lemma join_Cons: "join sep (x # xs) = x @ (if xs = [] then [] else sep @ join sep xs)"
  by (cases xs) auto

lemma strip_fixed:
  assumes "strip h = h"
  shows "lstrip h = h" and "rstrip h = h"
proof -
  have "lstrip (strip h) = strip h"
  proof (cases "strip h = []")
    case False
    then have "lstrip h \<noteq> []" "hd (strip h) = hd (lstrip h)" by (auto simp: strip_def hd_rstrip)
    then show ?thesis by (simp add: lstrip_id hd_lstrip)
  qed simp
  then show "lstrip h = h" by (simp add: assms)
  have "rstrip (strip h) = strip h" by (simp add: strip_def)
  then show "rstrip h = h" by (simp add: assms)
qed

lemma hd_not_space: "lstrip h = h \<Longrightarrow> h \<noteq> [] \<Longrightarrow> \<not> is_space (hd h)"
  using hd_lstrip [of h] by simp

lemma space_is_space [simp]: "is_space (CHR '' '')"
  by (simp add: is_space_def space_chars_def)

end
