(* ===== verification/Json.thy ===== *)
theory Json
  imports PyText "HOL-Library.AList"
begin

text \<open>
  The values the scripts read from and write to \<open>.spec-context.json\<close>: what \<open>json.loads\<close> returns.
  A Python \<open>dict\<close> is an association list in insertion order; assigning to a key that is present
  keeps its place, a new key goes to the end, as \<open>AList.update\<close> does.  A float is kept as the
  literal it was written with, since no script computes with one.
\<close>

datatype json =
    JNull
  | JBool bool
  | JInt int
  | JFloat string
  | JStr string
  | JList "json list"
  | JDict "(string \<times> json) list"

type_synonym jdict = "(string \<times> json) list"

subsection \<open>Dictionaries\<close>

text \<open>\<open>d.get(k)\<close> (an absent key reads as \<open>None\<close>), \<open>d[k] = v\<close>, \<open>d.pop(k, None)\<close>, \<open>d.setdefault(k, v)\<close>.\<close>

definition jget :: "jdict \<Rightarrow> string \<Rightarrow> json" where
  "jget d k = (case map_of d k of None \<Rightarrow> JNull | Some v \<Rightarrow> v)"

definition jput :: "string \<Rightarrow> json \<Rightarrow> jdict \<Rightarrow> jdict" where
  "jput k v d = AList.update k v d"

definition jpop :: "string \<Rightarrow> jdict \<Rightarrow> jdict" where
  "jpop k d = AList.delete k d"

definition has_key :: "jdict \<Rightarrow> string \<Rightarrow> bool" where
  "has_key d k \<longleftrightarrow> map_of d k \<noteq> None"

definition jsetdefault :: "string \<Rightarrow> json \<Rightarrow> jdict \<Rightarrow> jdict" where
  "jsetdefault k v d = (if has_key d k then d else jput k v d)"

lemma map_of_jput [simp]: "map_of (jput k v d) k' = (if k' = k then Some v else map_of d k')"
  by (simp add: jput_def update_conv')

lemma map_of_jpop [simp]: "map_of (jpop k d) k' = (if k' = k then None else map_of d k')"
  by (simp add: jpop_def delete_conv')

lemma jget_jput [json_simps]: "jget (jput k v d) k' = (if k' = k then v else jget d k')"
  by (simp add: jget_def)

lemma jget_jpop [json_simps]: "jget (jpop k d) k' = (if k' = k then JNull else jget d k')"
  by (simp add: jget_def)

lemma jget_jsetdefault [json_simps]:
  "jget (jsetdefault k v d) k' = (if k' = k \<and> \<not> has_key d k then v else jget d k')"
  by (auto simp: jsetdefault_def jget_def has_key_def)

lemma distinct_jput [simp]: "distinct (map fst d) \<Longrightarrow> distinct (map fst (jput k v d))"
  by (simp add: jput_def distinct_update)

lemma distinct_jpop [simp]: "distinct (map fst d) \<Longrightarrow> distinct (map fst (jpop k d))"
  by (simp add: jpop_def distinct_delete)

lemma jput_jput_same [simp]: "jput k v (jput k w d) = jput k v d"
  by (induction d) (auto simp: jput_def)

lemma jput_jget_same: "map_of d k = Some v \<Longrightarrow> jput k v d = d"
  by (induction d) (auto simp: jput_def split: if_splits)

lemma jpop_absent: "\<not> has_key d k \<Longrightarrow> jpop k d = d"
  by (induction d) (auto simp: has_key_def jpop_def split: if_splits)

lemma jput_new: "\<not> has_key d k \<Longrightarrow> jput k v d = d @ [(k, v)]"
  by (induction d) (auto simp: has_key_def jput_def split: if_splits)

lemma jsetdefault_present: "has_key d k \<Longrightarrow> jsetdefault k v d = d"
  by (simp add: jsetdefault_def)

lemma has_key_jput [json_simps]: "has_key (jput k' v d) k \<longleftrightarrow> k = k' \<or> has_key d k"
  by (simp add: has_key_def)

lemma has_key_jpop [json_simps]: "has_key (jpop k' d) k \<longleftrightarrow> k \<noteq> k' \<and> has_key d k"
  by (simp add: has_key_def)

lemma has_key_jsetdefault [json_simps]: "has_key (jsetdefault k' v d) k \<longleftrightarrow> k = k' \<or> has_key d k"
  by (auto simp: jsetdefault_def json_simps)

lemma jget_has_key: "jget d k \<noteq> JNull \<Longrightarrow> has_key d k"
  by (auto simp: jget_def has_key_def split: option.splits)

lemma jput_same: "has_key d k \<Longrightarrow> jget d k = v \<Longrightarrow> jput k v d = d"
  by (auto simp: has_key_def jget_def intro: jput_jget_same)

subsection \<open>Tests on values\<close>

fun truthy :: "json \<Rightarrow> bool" where
  "truthy JNull = False"
| "truthy (JBool b) = b"
| "truthy (JInt i) = (i \<noteq> 0)"
| "truthy (JFloat s) =
     (\<exists>c \<in> set (takeWhile (\<lambda>x. x \<notin> set ''eE'') s). c \<in> set ''123456789NI'')"
| "truthy (JStr s) = (s \<noteq> [])"
| "truthy (JList xs) = (xs \<noteq> [])"
| "truthy (JDict d) = (d \<noteq> [])"

fun is_dict :: "json \<Rightarrow> bool" where
  "is_dict (JDict d) = True"
| "is_dict _ = False"

fun is_list :: "json \<Rightarrow> bool" where
  "is_list (JList xs) = True"
| "is_list _ = False"

fun is_str :: "json \<Rightarrow> bool" where
  "is_str (JStr s) = True"
| "is_str _ = False"

text \<open>\<open>list(v) if isinstance(v, list) else []\<close> and the same for dictionaries.\<close>

fun list_or_empty :: "json \<Rightarrow> json list" where
  "list_or_empty (JList xs) = xs"
| "list_or_empty _ = []"

fun dict_or_empty :: "json \<Rightarrow> jdict" where
  "dict_or_empty (JDict d) = d"
| "dict_or_empty _ = []"

text \<open>
  Membership in a set of strings hashes the value first: a list or a dictionary raises
  \<open>TypeError\<close>, anything else that is not one of the strings is simply absent.
\<close>

fun in_names :: "json \<Rightarrow> string list \<Rightarrow> bool option" where
  "in_names (JStr s) names = Some (s \<in> set names)"
| "in_names (JList xs) names = None"
| "in_names (JDict d) names = None"
| "in_names v names = Some False"

lemma in_names_True: "in_names v names = Some True \<longleftrightarrow> (\<exists>s \<in> set names. v = JStr s)"
  by (cases v) auto

lemma in_names_False: "in_names v names = Some False \<Longrightarrow> s \<in> set names \<Longrightarrow> v \<noteq> JStr s"
  by (cases v) auto

text \<open>
  Python's \<open>==\<close> on these values: \<open>True == 1\<close> and \<open>False == 0\<close>, dictionaries compare without
  regard to order.  Floats compare by their literal.
\<close>

fun py_eq :: "json \<Rightarrow> json \<Rightarrow> bool"
  and py_eq_list :: "json list \<Rightarrow> json list \<Rightarrow> bool"
  and py_sub_dict :: "jdict \<Rightarrow> jdict \<Rightarrow> bool" where
  "py_eq JNull w = (w = JNull)"
| "py_eq (JBool b) w = (case w of JBool c \<Rightarrow> b = c | JInt i \<Rightarrow> i = of_bool b | _ \<Rightarrow> False)"
| "py_eq (JInt i) w = (case w of JInt j \<Rightarrow> i = j | JBool c \<Rightarrow> i = of_bool c | _ \<Rightarrow> False)"
| "py_eq (JFloat s) w = (w = JFloat s)"
| "py_eq (JStr s) w = (w = JStr s)"
| "py_eq (JList xs) w = (case w of JList ys \<Rightarrow> py_eq_list xs ys | _ \<Rightarrow> False)"
| "py_eq (JDict d) w = (case w of JDict e \<Rightarrow> length d = length e \<and> py_sub_dict d e | _ \<Rightarrow> False)"
| "py_eq_list [] ys = (ys = [])"
| "py_eq_list (x # xs) ys = (case ys of [] \<Rightarrow> False | y # ys' \<Rightarrow> py_eq x y \<and> py_eq_list xs ys')"
| "py_sub_dict [] e = True"
| "py_sub_dict ((k, v) # d) e =
     ((case map_of e k of None \<Rightarrow> False | Some w \<Rightarrow> py_eq v w) \<and> py_sub_dict d e)"

lemma py_eq_JStr [simp]: "py_eq v (JStr s) \<longleftrightarrow> v = JStr s"
  by (cases v) auto

subsection \<open>The text of a value\<close>

definition hex_text :: "nat \<Rightarrow> string" where
  "hex_text n = [''0123456789abcdef'' ! (n div 16 mod 16), ''0123456789abcdef'' ! (n mod 16)]"

definition is_printable :: "char \<Rightarrow> bool" where
  "is_printable c = (let n = (of_char c :: nat) in (32 \<le> n \<and> n < 127) \<or> (160 < n \<and> n \<noteq> 173))"

definition repr_str :: "string \<Rightarrow> string" where
  "repr_str s =
     (let q = (if CHR 0x27 \<in> set s \<and> CHR 0x22 \<notin> set s then CHR 0x22 else CHR 0x27);
          esc = (\<lambda>c. if c = q \<or> c = CHR 0x5C then [CHR 0x5C, c]
                     else if c = CHR 0x09 then [CHR 0x5C, CHR ''t'']
                     else if c = CHR 0x0A then [CHR 0x5C, CHR ''n'']
                     else if c = CHR 0x0D then [CHR 0x5C, CHR ''r'']
                     else if is_printable c then [c]
                     else [CHR 0x5C, CHR ''x''] @ hex_text (of_char c))
      in [q] @ concat (map esc s) @ [q])"

fun py_repr :: "json \<Rightarrow> string"
  and repr_list :: "json list \<Rightarrow> string list"
  and repr_dict :: "jdict \<Rightarrow> string list" where
  "py_repr JNull = ''None''"
| "py_repr (JBool b) = (if b then ''True'' else ''False'')"
| "py_repr (JInt i) = int_text i"
| "py_repr (JFloat s) = s"
| "py_repr (JStr s) = repr_str s"
| "py_repr (JList xs) = ''['' @ join '', '' (repr_list xs) @ '']''"
| "py_repr (JDict d) = ''{'' @ join '', '' (repr_dict d) @ ''}''"
| "repr_list [] = []"
| "repr_list (x # xs) = py_repr x # repr_list xs"
| "repr_dict [] = []"
| "repr_dict ((k, v) # d) = (repr_str k @ '': '' @ py_repr v) # repr_dict d"

fun py_str :: "json \<Rightarrow> string" where
  "py_str (JStr s) = s"
| "py_str v = py_repr v"

subsection \<open>Reading JSON text\<close>

definition json_space :: "char \<Rightarrow> bool" where
  "json_space c \<longleftrightarrow> c \<in> set [CHR 0x20, CHR 0x09, CHR 0x0A, CHR 0x0D]"

abbreviation skip_ws :: "string \<Rightarrow> string" where
  "skip_ws s \<equiv> dropWhile json_space s"

fun hex_digit :: "char \<Rightarrow> nat option" where
  "hex_digit c = (let i = length (takeWhile (\<lambda>d. d \<noteq> c) ''0123456789abcdef'');
                      j = length (takeWhile (\<lambda>d. d \<noteq> c) ''0123456789ABCDEF'')
                  in if i < 16 then Some i else if j < 16 then Some j else None)"

text \<open>
  The characters of a string literal after its opening quote: the value and the rest of the text.
  Control characters are refused, as the decoder's strict mode does, and an escape above U+00FF
  is outside the model's characters.
\<close>

fun json_chars :: "string \<Rightarrow> (string \<times> string) option" where
  "json_chars [] = None"
| "json_chars (c # s) =
     (if c = CHR 0x22 then Some ([], s)
      else if (of_char c :: nat) < 32 then None
      else if c \<noteq> CHR 0x5C then map_option (\<lambda>(v, r). (c # v, r)) (json_chars s)
      else case s of
        [] \<Rightarrow> None
      | e # t \<Rightarrow>
          (case map_of [(CHR 0x22, CHR 0x22), (CHR 0x5C, CHR 0x5C), (CHR ''/'', CHR ''/''),
              (CHR ''b'', CHR 0x08), (CHR ''f'', CHR 0x0C), (CHR ''n'', CHR 0x0A),
              (CHR ''r'', CHR 0x0D), (CHR ''t'', CHR 0x09)] e of
             Some d \<Rightarrow> map_option (\<lambda>(v, r). (d # v, r)) (json_chars t)
           | None \<Rightarrow>
               (case t of
                  a # b # h # l # u \<Rightarrow>
                    (if e = CHR ''u'' \<and> hex_digit a = Some 0 \<and> hex_digit b = Some 0
                     then (case (hex_digit h, hex_digit l) of
                             (Some x, Some y) \<Rightarrow>
                               map_option (\<lambda>(v, r). (char_of (16 * x + y) # v, r)) (json_chars u)
                           | _ \<Rightarrow> None)
                     else None)
                | _ \<Rightarrow> None)))"

text \<open>A number: an integer part, then an optional fraction and exponent that make it a float.\<close>

definition json_fraction :: "string \<Rightarrow> string \<times> string" where
  "json_fraction s =
     (case s of c # r \<Rightarrow>
        (let ds = takeWhile is_decimal r
         in if c = CHR ''.'' \<and> ds \<noteq> [] then (c # ds, drop (length ds) r) else ([], s))
      | [] \<Rightarrow> ([], s))"

definition json_exponent :: "string \<Rightarrow> string \<times> string" where
  "json_exponent s =
     (case s of c # r \<Rightarrow>
        (let sg = takeWhile (\<lambda>x. x \<in> set ''+-'') (take 1 r);
             ds = takeWhile is_decimal (drop (length sg) r)
         in if c \<in> set ''eE'' \<and> ds \<noteq> [] then (c # sg @ ds, drop (length sg + length ds) r)
            else ([], s))
      | [] \<Rightarrow> ([], s))"

definition json_number :: "string \<Rightarrow> (json \<times> string) option" where
  "json_number s =
     (let neg = (s \<noteq> [] \<and> hd s = CHR ''-'');
          t = (if neg then tl s else s);
          ds = (if t \<noteq> [] \<and> hd t = CHR ''0'' then ''0'' else takeWhile is_decimal t)
      in if ds = [] then None
         else let (fr, r1) = json_fraction (drop (length ds) t);
                  (ex, r2) = json_exponent r1
              in if fr = [] \<and> ex = []
                 then Some (JInt (if neg then - decimal_value ds else decimal_value ds), r2)
                 else Some (JFloat ((if neg then ''-'' else []) @ ds @ fr @ ex), r2))"

definition json_words :: "(string \<times> json) list" where
  "json_words = [(''null'', JNull), (''true'', JBool True), (''false'', JBool False),
     (''NaN'', JFloat ''NaN''), (''Infinity'', JFloat ''Infinity''),
     (''-Infinity'', JFloat ''-Infinity'')]"

text \<open>
  The recursive part takes fuel; every call spends one unit and consumes a character first, so
  the length of the text is enough.
\<close>

fun json_value :: "nat \<Rightarrow> string \<Rightarrow> (json \<times> string) option"
  and json_items :: "nat \<Rightarrow> string \<Rightarrow> (json list \<times> string) option"
  and json_members :: "nat \<Rightarrow> string \<Rightarrow> (jdict \<times> string) option" where
  "json_value 0 s = None"
| "json_value (Suc n) s =
     (case s of
        [] \<Rightarrow> None
      | c # r \<Rightarrow>
          if c = CHR 0x22 then map_option (\<lambda>(v, t). (JStr v, t)) (json_chars r)
          else if c = CHR ''['' then
            (if prefix '']'' (skip_ws r) then Some (JList [], tl (skip_ws r))
             else map_option (\<lambda>(v, t). (JList v, t)) (json_items n (skip_ws r)))
          else if c = CHR ''{'' then
            (if prefix ''}'' (skip_ws r) then Some (JDict [], tl (skip_ws r))
             else map_option (\<lambda>(v, t). (JDict (foldl (\<lambda>d (k, w). jput k w d) [] v), t))
                    (json_members n (skip_ws r)))
          else case List.find (\<lambda>(w, v). prefix w s) json_words of
              Some (w, v) \<Rightarrow> Some (v, drop (length w) s)
            | None \<Rightarrow> json_number s)"
| "json_items 0 s = None"
| "json_items (Suc n) s =
     (case json_value n s of
        None \<Rightarrow> None
      | Some (v, r) \<Rightarrow>
          (case skip_ws r of
             [] \<Rightarrow> None
           | c # t \<Rightarrow>
               if c = CHR '']'' then Some ([v], t)
               else if c = CHR '','' then map_option (\<lambda>(vs, u). (v # vs, u)) (json_items n (skip_ws t))
               else None))"
| "json_members 0 s = None"
| "json_members (Suc n) s =
     (if \<not> prefix [CHR 0x22] s then None
      else case json_chars (tl s) of
        None \<Rightarrow> None
      | Some (k, r) \<Rightarrow>
          (if \<not> prefix '':'' (skip_ws r) then None
           else case json_value n (skip_ws (tl (skip_ws r))) of
             None \<Rightarrow> None
           | Some (v, r2) \<Rightarrow>
               (case skip_ws r2 of
                  [] \<Rightarrow> None
                | c # t \<Rightarrow>
                    if c = CHR ''}'' then Some ([(k, v)], t)
                    else if c = CHR '','' then
                      map_option (\<lambda>(vs, u). ((k, v) # vs, u)) (json_members n (skip_ws t))
                    else None)))"

definition json_loads :: "string \<Rightarrow> json option" where
  "json_loads s =
     (case json_value (length s + 1) (skip_ws s) of
        None \<Rightarrow> None
      | Some (v, r) \<Rightarrow> if skip_ws r = [] then Some v else None)"

subsection \<open>Writing JSON text\<close>

text \<open>
  \<open>json.dumps(value, ensure_ascii=ascii)\<close> with the default separators.  A float is written as its
  literal.
\<close>

definition json_escape :: "bool \<Rightarrow> char \<Rightarrow> string" where
  "json_escape ascii c =
     (case map_of [(CHR 0x22, CHR 0x22), (CHR 0x5C, CHR 0x5C), (CHR 0x08, CHR ''b''), (CHR 0x0C, CHR ''f''),
         (CHR 0x0A, CHR ''n''), (CHR 0x0D, CHR ''r''), (CHR 0x09, CHR ''t'')] c of
        Some e \<Rightarrow> [CHR 0x5C, e]
      | None \<Rightarrow>
          (let n = (of_char c :: nat) in
           if n < 32 \<or> ascii \<and> 126 < n then [CHR 0x5C, CHR ''u'', CHR ''0'', CHR ''0''] @ hex_text n else [c]))"

definition json_quote :: "bool \<Rightarrow> string \<Rightarrow> string" where
  "json_quote ascii s = [CHR 0x22] @ concat (map (json_escape ascii) s) @ [CHR 0x22]"

fun json_dumps :: "bool \<Rightarrow> json \<Rightarrow> string"
  and dump_list :: "bool \<Rightarrow> json list \<Rightarrow> string list"
  and dump_dict :: "bool \<Rightarrow> jdict \<Rightarrow> string list" where
  "json_dumps a JNull = ''null''"
| "json_dumps a (JBool b) = (if b then ''true'' else ''false'')"
| "json_dumps a (JInt i) = int_text i"
| "json_dumps a (JFloat s) = s"
| "json_dumps a (JStr s) = json_quote a s"
| "json_dumps a (JList xs) = ''['' @ join '', '' (dump_list a xs) @ '']''"
| "json_dumps a (JDict d) = ''{'' @ join '', '' (dump_dict a d) @ ''}''"
| "dump_list a [] = []"
| "dump_list a (x # xs) = json_dumps a x # dump_list a xs"
| "dump_dict a [] = []"
| "dump_dict a ((k, v) # d) = (json_quote a k @ '': '' @ json_dumps a v) # dump_dict a d"

text \<open>The items a Python loop over the value visits; a number, a boolean or \<open>None\<close> raises.\<close>

fun py_iter :: "json \<Rightarrow> json list option" where
  "py_iter (JList xs) = Some xs"
| "py_iter (JStr s) = Some (map (\<lambda>c. JStr [c]) s)"
| "py_iter (JDict d) = Some (map (\<lambda>(k, v). JStr k) d)"
| "py_iter _ = None"

text \<open>\<open>list(v or [])\<close>.\<close>

definition py_iter_or_empty :: "json \<Rightarrow> json list option" where
  "py_iter_or_empty v = (if truthy v then py_iter v else Some [])"

end
