(* ===== verification/History.thy ===== *)
theory History
  imports Json
begin

text \<open>
  The append-only lifecycle log of \<open>spec_context.py\<close>: the entries under \<open>history\<close> (or the legacy
  \<open>transitions\<close>), the tests that make every append idempotent, the guard that refuses to publish
  a shorter log than the one on disk, and the ranking that keeps a spec from moving backwards.
\<close>

subsection \<open>Vocabulary\<close>

definition CANONICAL_STEPS :: "string list" where
  "CANONICAL_STEPS = [''specify'', ''clarify'', ''plan'', ''tasks'', ''analyze'', ''implement'', ''converge'']"

definition STEP_ORDER :: "string \<Rightarrow> nat option" where
  "STEP_ORDER = map_of [(''specify'', 0), (''clarify'', 1), (''plan'', 2), (''tasks'', 3),
     (''analyze'', 4), (''implement'', 5), (''converge'', 6)]"

definition STEP_COMPLETED_STATUS :: "string \<Rightarrow> string option" where
  "STEP_COMPLETED_STATUS = map_of [(''specify'', ''specified''), (''plan'', ''planned''),
     (''tasks'', ''ready-to-implement''), (''implement'', ''implemented'')]"

definition TERMINAL_STATUSES :: "string list" where
  "TERMINAL_STATUSES = [''implemented'', ''completed'', ''archived'']"

definition CROSS_STEP_TERMINAL :: "string list" where
  "CROSS_STEP_TERMINAL = [''completed'', ''archived'']"

definition SHIPPED_STATUSES :: "string list" where
  "SHIPPED_STATUSES = [''completed'', ''archived'']"

lemma shipped_is_terminal [simp]: "SHIPPED_STATUSES = CROSS_STEP_TERMINAL"
  by (simp add: SHIPPED_STATUSES_def CROSS_STEP_TERMINAL_def)

subsection \<open>Entries\<close>

fun opt_json :: "string option \<Rightarrow> json" where
  "opt_json None = JNull"
| "opt_json (Some s) = JStr s"

lemma opt_json_inject [simp]: "opt_json a = opt_json b \<longleftrightarrow> a = b"
  by (cases a; cases b) auto

text \<open>
  The entry's kind.  An old entry without one is a completion when its \<open>from\<close> repeats its own
  step and substep; a \<open>from\<close> that is truthy but not a dictionary has no \<open>get\<close> and raises.
\<close>

definition entry_kind :: "jdict \<Rightarrow> string option" where
  "entry_kind e =
     (if jget e ''kind'' = JStr ''start'' then Some ''start''
      else if jget e ''kind'' = JStr ''complete'' then Some ''complete''
      else case (if truthy (jget e ''from'') then jget e ''from'' else JDict []) of
        JDict frm \<Rightarrow>
          Some (if py_eq (jget frm ''step'') (jget e ''step'') \<and>
                   py_eq (jget frm ''substep'') (jget e ''substep'')
                then ''complete'' else ''start'')
      | _ \<Rightarrow> None)"

definition is_step_level :: "jdict \<Rightarrow> bool" where
  "is_step_level e \<longleftrightarrow> jget e ''substep'' = JNull \<and> jget e ''task'' = JNull"

definition is_per_task :: "jdict \<Rightarrow> bool" where
  "is_per_task e \<longleftrightarrow> jget e ''task'' \<noteq> JNull"

text \<open>A conjunction whose last conjunct may raise, evaluated only when the others hold.\<close>

definition guarded_kind :: "bool \<Rightarrow> jdict \<Rightarrow> string \<Rightarrow> bool option" where
  "guarded_kind g e k = (if g then map_option (\<lambda>k'. k' = k) (entry_kind e) else Some False)"

definition start_entry :: "string \<Rightarrow> string option \<Rightarrow> json \<Rightarrow> bool option" where
  "start_entry step substep j =
     (case j of
        JDict e \<Rightarrow> guarded_kind (jget e ''step'' = JStr step \<and> jget e ''substep'' = opt_json substep
                     \<and> \<not> is_per_task e) e ''start''
      | _ \<Rightarrow> Some False)"

definition has_step_start :: "json list \<Rightarrow> string \<Rightarrow> string option \<Rightarrow> bool option" where
  "has_step_start log step substep = any_opt (start_entry step substep) log"

definition complete_matches :: "string option \<Rightarrow> jdict \<Rightarrow> bool" where
  "complete_matches task e =
     (case task of
        None \<Rightarrow> is_step_level e
      | Some t \<Rightarrow> jget e ''task'' = JStr t \<or> jget e ''substep'' = JStr t)"

definition complete_entry :: "string \<Rightarrow> string option \<Rightarrow> json \<Rightarrow> bool option" where
  "complete_entry step task j =
     (case j of
        JDict e \<Rightarrow> guarded_kind (jget e ''step'' = JStr step \<and> complete_matches task e) e ''complete''
      | _ \<Rightarrow> Some False)"

definition has_complete :: "json list \<Rightarrow> string \<Rightarrow> string option \<Rightarrow> bool option" where
  "has_complete log step task = any_opt (complete_entry step task) log"

definition new_complete :: "string \<Rightarrow> string option \<Rightarrow> string option \<Rightarrow> json \<Rightarrow> json \<Rightarrow> json" where
  "new_complete step substep task by at =
     JDict ([(''step'', JStr step), (''substep'', opt_json substep)]
        @ (case task of None \<Rightarrow> [] | Some t \<Rightarrow> [(''task'', JStr t)])
        @ [(''kind'', JStr ''complete''), (''by'', by), (''at'', at)])"

definition append_complete ::
  "json list \<Rightarrow> string \<Rightarrow> string option \<Rightarrow> string option \<Rightarrow> json \<Rightarrow> json \<Rightarrow> json list option" where
  "append_complete log step substep task by at =
     map_option (\<lambda>present. if present then log else log @ [new_complete step substep task by at])
       (has_complete log step (case task of None \<Rightarrow> substep | Some t \<Rightarrow> Some t))"

definition new_start :: "string \<Rightarrow> string option \<Rightarrow> string \<Rightarrow> string \<Rightarrow> json" where
  "new_start step substep by at =
     JDict [(''step'', JStr step), (''substep'', opt_json substep), (''kind'', JStr ''start''),
            (''by'', JStr by), (''at'', JStr at)]"

text \<open>The ids of the tasks that already have an entry of their own.\<close>

definition journaled_tasks :: "json list \<Rightarrow> string list" where
  "journaled_tasks log =
     List.map_filter (\<lambda>j. case j of
        JDict e \<Rightarrow> (case jget e ''task'' of JStr t \<Rightarrow> Some t | _ \<Rightarrow> None)
      | _ \<Rightarrow> None) log"

subsection \<open>Reading and committing the log\<close>

definition canonical_log :: "jdict \<Rightarrow> json list" where
  "canonical_log ctx =
     (case jget ctx ''history'' of
        JList log \<Rightarrow> log
      | _ \<Rightarrow> (case jget ctx ''transitions'' of JList legacy \<Rightarrow> legacy | _ \<Rightarrow> []))"

definition commit_log :: "jdict \<Rightarrow> json list \<Rightarrow> jdict" where
  "commit_log ctx log = jpop ''stepHistory'' (jpop ''transitions'' (jput ''history'' (JList log) ctx))"

subsection \<open>The append-only guard\<close>

text \<open>
  What is on disk: no file, a file that does not parse (or cannot be read), or a JSON document.
\<close>

datatype ctx_file = NoFile | BadFile | DocFile json

definition entry_key :: "json \<Rightarrow> json list" where
  "entry_key j =
     (case j of
        JDict e \<Rightarrow> [jget e ''step'', jget e ''substep'', jget e ''task'', jget e ''kind'', jget e ''at'']
      | _ \<Rightarrow> [JStr ''raw'', JStr (py_repr j)])"

definition hashable :: "json \<Rightarrow> bool" where
  "hashable j \<longleftrightarrow> \<not> is_list j \<and> \<not> is_dict j"

definition key_hashable :: "json \<Rightarrow> bool" where
  "key_hashable j \<longleftrightarrow> list_all hashable (entry_key j)"

definition seen_key :: "json list \<Rightarrow> json \<Rightarrow> bool" where
  "seen_key existing e \<longleftrightarrow> list_ex (\<lambda>x. py_eq_list (entry_key x) (entry_key e)) existing"

definition guard_append_only :: "ctx_file \<Rightarrow> jdict \<Rightarrow> jdict option" where
  "guard_append_only disk ctx =
     (case jget ctx ''history'' of
        JList outgoing \<Rightarrow>
          (case disk of
             DocFile doc \<Rightarrow>
               (case jget (dict_or_empty doc) ''history'' of
                  JNull \<Rightarrow> Some ctx
                | JList existing \<Rightarrow>
                    (if length outgoing \<ge> length existing then Some ctx
                     else if list_all key_hashable (existing @ outgoing)
                     then Some (jput ''history''
                            (JList (existing @ filter (\<lambda>e. \<not> seen_key existing e) outgoing)) ctx)
                     else None)
                | other \<Rightarrow> Some (jput ''historyQuarantined'' other ctx))
           | _ \<Rightarrow> Some ctx)
      | _ \<Rightarrow> Some ctx)"

subsection \<open>The rank of a spec\<close>

definition is_more_advanced :: "jdict \<Rightarrow> string \<Rightarrow> bool option" where
  "is_more_advanced ctx step =
     (let status = jget ctx ''status'' in
      if STEP_ORDER step = None \<or> step = ''converge'' then in_names status SHIPPED_STATUSES
      else (case in_names status TERMINAL_STATUSES of
          None \<Rightarrow> None
        | Some True \<Rightarrow> Some True
        | Some False \<Rightarrow>
            (let cur = (if jget ctx ''currentStep'' = JStr ''converge'' then JStr ''implement''
                        else jget ctx ''currentStep'')
             in case in_names cur CANONICAL_STEPS of
                  None \<Rightarrow> None
                | Some False \<Rightarrow> Some False
                | Some True \<Rightarrow>
                    (case cur of JStr c \<Rightarrow> Some (the (STEP_ORDER step) < the (STEP_ORDER c))
                     | _ \<Rightarrow> Some False))))"

section \<open>Facts about the log\<close>

subsection \<open>Well-formed logs\<close>

text \<open>
  No entry of a well-formed log raises when its kind is read.  Entries that are not dictionaries
  are skipped by every reader, so they are allowed.
\<close>

definition entry_ok :: "json \<Rightarrow> bool" where
  "entry_ok j \<longleftrightarrow> (case j of JDict e \<Rightarrow> entry_kind e \<noteq> None | _ \<Rightarrow> True)"

definition log_ok :: "json list \<Rightarrow> bool" where
  "log_ok log \<longleftrightarrow> list_all entry_ok log"

lemma log_ok_append [simp]: "log_ok (xs @ ys) \<longleftrightarrow> log_ok xs \<and> log_ok ys"
  by (simp add: log_ok_def)

lemma log_ok_Nil [simp]: "log_ok []"
  by (simp add: log_ok_def)

lemma log_ok_Cons [simp]: "log_ok (x # xs) \<longleftrightarrow> entry_ok x \<and> log_ok xs"
  by (simp add: log_ok_def)

lemma new_complete_fields:
  obtains e where "new_complete step substep task by at = JDict e"
    and "jget e ''step'' = JStr step" and "jget e ''substep'' = opt_json substep"
    and "jget e ''task'' = opt_json task" and "entry_kind e = Some ''complete''"
    and "jget e ''at'' = at" and "jget e ''by'' = by"
proof -
  obtain e where e: "new_complete step substep task by at = JDict e"
    by (simp add: new_complete_def)
  show thesis
    by (rule that [OF e]; insert e; cases task)
       (auto simp: new_complete_def jget_def entry_kind_def)
qed

lemma new_start_fields:
  obtains e where "new_start step substep by at = JDict e"
    and "jget e ''step'' = JStr step" and "jget e ''substep'' = opt_json substep"
    and "jget e ''task'' = JNull" and "entry_kind e = Some ''start''"
    and "jget e ''at'' = JStr at"
  by (simp add: new_start_def jget_def entry_kind_def)

lemma entry_ok_new_complete [simp]: "entry_ok (new_complete step substep task by at)"
  by (rule new_complete_fields [of step substep task "by" at]) (simp add: entry_ok_def)

lemma entry_ok_new_start [simp]: "entry_ok (new_start step substep by at)"
  by (rule new_start_fields [of step substep "by" at]) (simp add: entry_ok_def)

text \<open>On a well-formed log the tests are total and mean what their names say.\<close>

definition is_complete_of :: "string \<Rightarrow> string option \<Rightarrow> json \<Rightarrow> bool" where
  "is_complete_of step task j \<longleftrightarrow> complete_entry step task j = Some True"

definition is_start_of :: "string \<Rightarrow> string option \<Rightarrow> json \<Rightarrow> bool" where
  "is_start_of step substep j \<longleftrightarrow> start_entry step substep j = Some True"

lemma complete_entry_total:
  "entry_ok j \<Longrightarrow> complete_entry step task j = Some (is_complete_of step task j)"
  by (auto simp: entry_ok_def is_complete_of_def complete_entry_def guarded_kind_def split: json.splits)

lemma start_entry_total:
  "entry_ok j \<Longrightarrow> start_entry step substep j = Some (is_start_of step substep j)"
  by (auto simp: entry_ok_def is_start_of_def start_entry_def guarded_kind_def split: json.splits)

lemma has_complete_total [log_simps]:
  "log_ok log \<Longrightarrow> has_complete log step task = Some (\<exists>j \<in> set log. is_complete_of step task j)"
  unfolding has_complete_def
  by (rule any_opt_total) (auto simp: log_ok_def list_all_iff complete_entry_total)

lemma has_step_start_total [log_simps]:
  "log_ok log \<Longrightarrow> has_step_start log step substep = Some (\<exists>j \<in> set log. is_start_of step substep j)"
  unfolding has_step_start_def
  by (rule any_opt_total) (auto simp: log_ok_def list_all_iff start_entry_total)

lemma has_complete_True:
  "has_complete log step task = Some True \<Longrightarrow> \<exists>j \<in> set log. is_complete_of step task j"
  by (auto simp: has_complete_def is_complete_of_def dest: any_opt_True)

lemma has_complete_False:
  "has_complete log step task = Some False \<Longrightarrow> j \<in> set log \<Longrightarrow> \<not> is_complete_of step task j"
  by (auto simp: has_complete_def is_complete_of_def dest: any_opt_False)

lemma is_complete_of_new_complete:
  "is_complete_of s (case task of None \<Rightarrow> substep | Some t \<Rightarrow> Some t) (new_complete s substep task by at)"
  by (rule new_complete_fields [of s substep task "by" at])
     (auto simp: is_complete_of_def complete_entry_def guarded_kind_def complete_matches_def
        is_step_level_def split: option.splits)

text \<open>A new completion counts for its own step only, and at the step level only without a task.\<close>

lemma is_complete_of_new_complete_iff:
  "is_complete_of s key (new_complete s' substep task by at) \<longleftrightarrow> s = s' \<and>
     (case key of None \<Rightarrow> substep = None \<and> task = None | Some t \<Rightarrow> task = Some t \<or> substep = Some t)"
  by (rule new_complete_fields [of s' substep task "by" at], cases substep; cases task; cases key)
     (auto simp: is_complete_of_def complete_entry_def guarded_kind_def complete_matches_def is_step_level_def)

lemma is_complete_of_new_start [simp]: "\<not> is_complete_of s t (new_start s' substep by at)"
  by (rule new_start_fields [of s' substep "by" at])
     (auto simp: is_complete_of_def complete_entry_def guarded_kind_def)

lemma is_start_of_new_complete [simp]: "\<not> is_start_of s t (new_complete s' substep task by at)"
  by (rule new_complete_fields [of s' substep task "by" at])
     (auto simp: is_start_of_def start_entry_def guarded_kind_def)

lemma is_start_of_new_start [simp]:
  "is_start_of s t (new_start s' substep by at) \<longleftrightarrow> s = s' \<and> t = substep"
  by (rule new_start_fields [of s' substep "by" at])
     (auto simp: is_start_of_def start_entry_def guarded_kind_def is_per_task_def)

subsection \<open>Appending\<close>

lemma append_complete_cases:
  assumes "append_complete log step substep task by at = Some log'"
  obtains (present) "log' = log"
        "has_complete log step (case task of None \<Rightarrow> substep | Some t \<Rightarrow> Some t) = Some True"
    | (added) "log' = log @ [new_complete step substep task by at]"
        "has_complete log step (case task of None \<Rightarrow> substep | Some t \<Rightarrow> Some t) = Some False"
  using assms by (auto simp: append_complete_def split: if_splits)

lemma append_complete_prefix: "append_complete log step substep task by at = Some log' \<Longrightarrow> prefix log log'"
  by (erule append_complete_cases) auto

lemma append_complete_ok: "append_complete log step substep task by at = Some log' \<Longrightarrow> log_ok log \<Longrightarrow> log_ok log'"
  by (erule append_complete_cases) auto

lemma append_complete_total [log_simps]:
  "log_ok log \<Longrightarrow> \<exists>log'. append_complete log step substep task by at = Some log'"
  by (simp add: append_complete_def has_complete_total)

lemma append_complete_records:
  assumes "append_complete log step substep task by at = Some log'"
  shows "\<exists>j \<in> set log'. is_complete_of step (case task of None \<Rightarrow> substep | Some t \<Rightarrow> Some t) j"
  using assms by (cases rule: append_complete_cases) (auto dest: has_complete_True intro: is_complete_of_new_complete)

lemma append_complete_idem:
  assumes "append_complete log step substep task by at = Some log'"
  shows "append_complete log' step substep task by' at' = Some log'"
  using assms
proof (cases rule: append_complete_cases)
  case present
  then show ?thesis by (simp add: append_complete_def)
next
  case added
  then have "has_complete log' step (case task of None \<Rightarrow> substep | Some t \<Rightarrow> Some t) = Some True"
    using is_complete_of_new_complete [of step substep task "by" at]
    by (simp add: has_complete_def any_opt_append_Some is_complete_of_def)
  then show ?thesis by (simp add: append_complete_def)
qed

text \<open>
  The idempotence invariant: each step, and each task or substep of a step, has at most one
  completion, and each step at most one start per substep.
\<close>

definition closes :: "json list \<Rightarrow> string \<Rightarrow> string option \<Rightarrow> nat" where
  "closes log step key = length (filter (is_complete_of step key) log)"

definition opens :: "json list \<Rightarrow> string \<Rightarrow> string option \<Rightarrow> nat" where
  "opens log step substep = length (filter (is_start_of step substep) log)"

definition log_inv :: "json list \<Rightarrow> bool" where
  "log_inv log \<longleftrightarrow> (\<forall>step key. closes log step key \<le> 1 \<and> opens log step key \<le> 1)"

lemma closes_none: "\<forall>j \<in> set log. \<not> is_complete_of step key j \<Longrightarrow> closes log step key = 0"
  by (simp add: closes_def filter_empty_conv)

lemma opens_none: "\<forall>j \<in> set log. \<not> is_start_of step key j \<Longrightarrow> opens log step key = 0"
  by (simp add: opens_def filter_empty_conv)

lemma append_complete_inv:
  assumes "append_complete log step substep task by at = Some log'" and "log_inv log"
    and "task = None \<or> substep = None"
  shows "log_inv log'"
  using assms(1)
proof (cases rule: append_complete_cases)
  case present
  then show ?thesis using assms(2) by simp
next
  case added
  have "closes log' s key \<le> 1" for s key
  proof (cases "s = step \<and> key = (case task of None \<Rightarrow> substep | Some t \<Rightarrow> Some t)")
    case True
    then have "closes log s key = 0"
      using added(2) by (intro closes_none) (auto dest: has_complete_False)
    then show ?thesis using added(1) by (simp add: closes_def)
  next
    case False
    then have "\<not> is_complete_of s key (new_complete step substep task by at)"
      using assms(3) by (cases task; cases substep; cases key) (auto simp: is_complete_of_new_complete_iff)
    then show ?thesis using added(1) assms(2) by (simp add: closes_def log_inv_def)
  qed
  moreover have "opens log' s key = opens log s key" for s key
    using added(1) by (simp add: opens_def)
  ultimately show ?thesis using assms(2) by (simp add: log_inv_def)
qed

lemma append_start_inv:
  assumes "has_step_start log step substep = Some False" and "log_inv log"
  shows "log_inv (log @ [new_start step substep by at])"
proof -
  have "opens (log @ [new_start step substep by at]) s key \<le> 1" for s key
  proof (cases "s = step \<and> key = substep")
    case True
    then have "opens log s key = 0"
      using assms(1) by (intro opens_none) (auto simp: has_step_start_def is_start_of_def dest: any_opt_False)
    then show ?thesis by (simp add: opens_def)
  next
    case False
    then show ?thesis using assms(2) by (auto simp: opens_def log_inv_def)
  qed
  moreover have "closes (log @ [new_start step substep by at]) s key = closes log s key" for s key
    by (simp add: closes_def)
  ultimately show ?thesis using assms(2) by (simp add: log_inv_def)
qed

lemma log_inv_Nil [simp]: "log_inv []"
  by (simp add: log_inv_def closes_def opens_def)

text \<open>
  How a log may change in one operation: it only grows at its end, stays well formed, and keeps
  the idempotence invariant.
\<close>

definition log_grows :: "json list \<Rightarrow> json list \<Rightarrow> bool" where
  "log_grows old new \<longleftrightarrow> prefix old new \<and> (log_ok old \<longrightarrow> log_ok new) \<and> (log_inv old \<longrightarrow> log_inv new)"

lemma log_grows_refl [simp, intro]: "log_grows log log"
  by (simp add: log_grows_def)

lemma log_grows_trans: "log_grows a b \<Longrightarrow> log_grows b c \<Longrightarrow> log_grows a c"
  by (auto simp: log_grows_def dest: prefix_order.trans)

lemma log_grows_prefix: "log_grows a b \<Longrightarrow> prefix a b"
  by (simp add: log_grows_def)

lemma append_complete_grows:
  assumes "append_complete log step substep task by at = Some log'" and "task = None \<or> substep = None"
  shows "log_grows log log'"
  using assms append_complete_prefix append_complete_ok append_complete_inv
  by (auto simp: log_grows_def)

lemma append_start_grows:
  "has_step_start log step substep = Some False \<Longrightarrow> log_grows log (log @ [new_start step substep by at])"
  by (auto simp: log_grows_def intro: append_start_inv)

lemma in_names_total: "hashable v \<Longrightarrow> \<exists>b. in_names v names = Some b"
  by (cases v) (auto simp: hashable_def)

lemma in_names_hashable: "in_names v names = Some b \<Longrightarrow> hashable v"
  by (cases v) (auto simp: hashable_def)

lemma hashable_JStr [simp]: "hashable (JStr s)"
  by (simp add: hashable_def)

lemma hashable_JNull [simp]: "hashable JNull"
  by (simp add: hashable_def)

lemma hashable_opt [simp]: "hashable (opt_json x)"
  by (cases x) simp_all

lemma is_more_advanced_total:
  assumes "hashable (jget ctx ''status'')" and "hashable (jget ctx ''currentStep'')"
  shows "\<exists>b. is_more_advanced ctx step = Some b"
proof -
  obtain a where a: "in_names (jget ctx ''status'') CROSS_STEP_TERMINAL = Some a"
    using in_names_total [OF assms(1)] by blast
  obtain b where b: "in_names (jget ctx ''status'') TERMINAL_STATUSES = Some b"
    using in_names_total [OF assms(1)] by blast
  define cur where "cur = (if jget ctx ''currentStep'' = JStr ''converge'' then JStr ''implement''
      else jget ctx ''currentStep'')"
  have "hashable cur" using assms(2) by (simp add: cur_def)
  then obtain c where c: "in_names cur CANONICAL_STEPS = Some c"
    using in_names_total by blast
  show ?thesis
    unfolding is_more_advanced_def Let_def cur_def [symmetric]
    by (cases b; cases c; cases cur; use c in \<open>auto simp: a b split: bool.split\<close>)
qed

subsection \<open>Committing\<close>

lemma canonical_commit [log_simps]: "canonical_log (commit_log ctx log) = log"
  by (simp add: canonical_log_def commit_log_def json_simps)

lemma jget_commit [json_simps]:
  "jget (commit_log ctx log) k =
     (if k = ''history'' then JList log
      else if k = ''transitions'' \<or> k = ''stepHistory'' then JNull else jget ctx k)"
  by (simp add: commit_log_def json_simps)

lemma canonical_log_cong:
  "jget c ''history'' = jget d ''history'' \<Longrightarrow> jget c ''transitions'' = jget d ''transitions'' \<Longrightarrow>
   canonical_log c = canonical_log d"
  by (simp only: canonical_log_def)

subsection \<open>The guard\<close>

text \<open>The list under \<open>history\<close> on disk, when there is one.\<close>

fun disk_history :: "ctx_file \<Rightarrow> json list" where
  "disk_history (DocFile (JDict d)) = list_or_empty (jget d ''history'')"
| "disk_history _ = []"

lemma guard_keeps_other_keys:
  "guard_append_only disk ctx = Some ctx' \<Longrightarrow> k \<noteq> ''history'' \<Longrightarrow> k \<noteq> ''historyQuarantined'' \<Longrightarrow>
   jget ctx' k = jget ctx k"
  by (auto simp: guard_append_only_def json_simps split: json.splits ctx_file.splits if_splits)

lemma guard_extends:
  assumes "prefix (disk_history disk) out" and "jget ctx ''history'' = JList out"
  shows "\<exists>ctx'. guard_append_only disk ctx = Some ctx' \<and>
           (\<forall>k. k \<noteq> ''historyQuarantined'' \<longrightarrow> jget ctx' k = jget ctx k)"
proof (cases disk)
  case (DocFile doc)
  show ?thesis
  proof (cases "jget (dict_or_empty doc) ''history''")
    case (JList ex)
    then have "disk_history disk = ex" using DocFile by (cases doc) (auto simp: jget_def)
    then have "length ex \<le> length out" using assms(1) prefix_length_le by blast
    then show ?thesis using DocFile JList assms(2) by (simp add: guard_append_only_def)
  qed (use DocFile assms(2) in \<open>auto simp: guard_append_only_def json_simps\<close>)
qed (use assms in \<open>auto simp: guard_append_only_def\<close>)

lemma guard_never_shortens:
  assumes "guard_append_only disk ctx = Some ctx'" and "jget ctx ''history'' = JList out"
  obtains log where "jget ctx' ''history'' = JList log" and "length (disk_history disk) \<le> length log"
    and "set out \<subseteq> set log \<or> set (disk_history disk) \<subseteq> set log"
proof (cases disk)
  case (DocFile doc)
  show thesis
  proof (cases "jget (dict_or_empty doc) ''history''")
    case (JList ex)
    then have ex: "disk_history disk = ex" using DocFile by (cases doc) (auto simp: jget_def)
    show thesis
      by (rule that [of "list_or_empty (jget ctx' ''history'')"])
         (use assms DocFile JList ex in \<open>auto simp: guard_append_only_def json_simps split: if_splits\<close>)
  qed (use assms DocFile that [of out] in
        \<open>cases doc; auto simp: guard_append_only_def json_simps jget_def\<close>)+
qed (use assms that [of out] in \<open>auto simp: guard_append_only_def\<close>)

end
