(* ===== verification/Store.thy ===== *)
theory Store
  imports History "HOL-Library.Char_ord" "HOL-Library.List_Lexorder"
begin

text \<open>
  One feature directory as the scripts see it, and the read and write of its
  \<open>.spec-context.json\<close> (\<open>spec_context.py\<close>).  Every operation is a function from the state of the
  directory to an outcome and the new state.  What comes from outside the scripts is a field of
  the state that no operation writes: the git branches, the clock, the step directories.

  A clock reading is \<open>clock st k\<close> for a tick \<open>k\<close>; an operation that reads the clock several times
  uses consecutive ticks.  A write to the file system is taken to succeed.
\<close>

text \<open>A line of \<open>.spec-context.events.jsonl\<close>: empty, unparseable (torn), or a JSON value.\<close>

datatype event_line = Blank | Torn | Event json

record feature =
  ctx_file :: ctx_file
  events :: "event_line list option"
  tasks_md :: "string option"
  md_files :: "(string \<times> string) list"
  dir_name :: string
  root_branch :: "string option"
  dir_branch :: "string option"
  node_dirs :: "(string \<times> bool) list list"
  clock :: "nat \<Rightarrow> string"
  ticks :: nat

text \<open>
  What a writer returns: the path it wrote, \<open>None\<close> because it declined, or an exception that the
  entry point reports without writing.
\<close>

datatype outcome = Wrote | Declined | Raised

subsection \<open>Reading\<close>

fun parse_ctx :: "ctx_file \<Rightarrow> jdict" where
  "parse_ctx (DocFile (JDict d)) = d"
| "parse_ctx _ = []"

definition read_ctx :: "feature \<Rightarrow> jdict" where
  "read_ctx st = parse_ctx (ctx_file st)"

definition branch_of :: "feature \<Rightarrow> string" where
  "branch_of st = (case root_branch st of None \<Rightarrow> ''main'' | Some b \<Rightarrow> b)"

definition now_json :: "feature \<Rightarrow> nat \<Rightarrow> json" where
  "now_json st k = JStr (clock st (ticks st + k))"

subsection \<open>The name of a spec\<close>

definition is_placeholder :: "string \<Rightarrow> bool" where
  "is_placeholder title =
     (let s = strip title in
      (2 \<le> length s \<and> hd s \<in> set ''[<{'' \<and> last s \<in> set '']>}'' \<and>
         CHR 0x0A \<notin> set (butlast (tl s)))
      \<or> lower s \<in> {''tbd'', ''todo'', ''feature name''})"

text \<open>\<open>PREFIX_RE.sub("", name)\<close>: drop a leading \<open>NNN-\<close>.\<close>

definition drop_number_prefix :: "string \<Rightarrow> string" where
  "drop_number_prefix name =
     (let ds = takeWhile is_decimal name; r = drop (length ds) name
      in if ds \<noteq> [] \<and> prefix ''-'' r then tl r else name)"

definition fallback_name :: "feature \<Rightarrow> string" where
  "fallback_name st =
     (let s = strip (replace_char (CHR ''-'') '' '' (drop_number_prefix (dir_name st)))
      in if s = [] then dir_name st else s)"

definition try_label :: "string \<Rightarrow> string \<Rightarrow> string option" where
  "try_label label t =
     (if prefix label t
      then (let r = lstrip (drop (length label) t)
            in if prefix '':'' r then Some (lstrip (tl r)) else None)
      else None)"

definition strip_title_label :: "string \<Rightarrow> string" where
  "strip_title_label t =
     (case List.map_filter (\<lambda>label. try_label label t) [''Feature Specification'', ''Spec'', ''Feature'']
      of [] \<Rightarrow> t | r # _ \<Rightarrow> r)"

definition ends_with :: "string \<Rightarrow> string \<Rightarrow> bool" where
  "ends_with s suf \<longleftrightarrow> suffix suf s"

definition feature_spec_path :: "feature \<Rightarrow> string" where
  "feature_spec_path st =
     (case sort (filter (\<lambda>n. ends_with n ''.spec.md'') (map fst (md_files st)))
      of [] \<Rightarrow> ''spec.md'' | n # _ \<Rightarrow> n)"

fun title_of_lines :: "string list \<Rightarrow> string option" where
  "title_of_lines [] = None"
| "title_of_lines (l # ls) =
     (let line = strip l;
          title = strip_title_label (strip (drop 2 line))
      in if prefix ''# '' line \<and> title \<noteq> [] \<and> \<not> is_placeholder title then Some title
         else title_of_lines ls)"

definition spec_name :: "feature \<Rightarrow> string" where
  "spec_name st =
     (case map_of (md_files st) (feature_spec_path st) of
        None \<Rightarrow> fallback_name st
      | Some text \<Rightarrow>
          (case title_of_lines (splitlines text) of None \<Rightarrow> fallback_name st | Some t \<Rightarrow> t))"

definition fill_required :: "feature \<Rightarrow> jdict \<Rightarrow> jdict" where
  "fill_required st ctx =
     (let ctx1 = jsetdefault ''workflow'' (JStr ''speckit'') ctx;
          recorded = jget ctx1 ''specName'';
          stale = (\<not> truthy recorded \<or> is_placeholder (py_str recorded) \<or>
                   recorded = JStr (fallback_name st));
          ctx2 = (if stale \<and> spec_name st \<noteq> [] then jput ''specName'' (JStr (spec_name st)) ctx1 else ctx1)
      in jsetdefault ''branch'' (JStr (branch_of st)) ctx2)"

subsection \<open>Writing\<close>

text \<open>\<open>atomic_write\<close>: the guard, then one publish of the whole document.\<close>

definition publish :: "jdict \<Rightarrow> feature \<Rightarrow> outcome \<times> feature" where
  "publish ctx st =
     (case guard_append_only (ctx_file st) ctx of
        None \<Rightarrow> (Raised, st)
      | Some c \<Rightarrow> (Wrote, st\<lparr>ctx_file := DocFile (JDict c)\<rparr>))"

text \<open>
  \<open>_open_ctx_or_none\<close>: \<open>None\<close> when the status cannot be hashed, \<open>Some None\<close> for a shipped spec,
  else the record with its required keys filled and its log.
\<close>

definition open_ctx :: "feature \<Rightarrow> (jdict \<times> json list) option option" where
  "open_ctx st =
     (let ctx = read_ctx st in
      case in_names (jget ctx ''status'') CROSS_STEP_TERMINAL of
        None \<Rightarrow> None
      | Some True \<Rightarrow> Some None
      | Some False \<Rightarrow> Some (Some (fill_required st ctx, canonical_log ctx)))"

text \<open>Every step the project has: the canonical ones and each directory with an \<open>_order.yml\<close>.\<close>

definition known_steps :: "feature \<Rightarrow> string list" where
  "known_steps st =
     CANONICAL_STEPS @
     concat (map (\<lambda>dir. [entry. (entry, has_order) \<leftarrow> dir,
        \<not> prefix ''_'' entry \<and> \<not> prefix ''.'' entry \<and> has_order]) (node_dirs st))"

section \<open>Facts about the store\<close>

lemma names_ctx_file [simp]:
  "fallback_name (st\<lparr>ctx_file := x\<rparr>) = fallback_name st"
  "feature_spec_path (st\<lparr>ctx_file := x\<rparr>) = feature_spec_path st"
  by (simp_all add: fallback_name_def feature_spec_path_def Let_def)

lemma spec_name_ctx_file [simp]: "spec_name (st\<lparr>ctx_file := x\<rparr>) = spec_name st"
  by (simp add: spec_name_def cong: option.case_cong)

lemma fill_required_ctx_file [simp]: "fill_required (st\<lparr>ctx_file := x\<rparr>) = fill_required st"
  by (simp add: fill_required_def branch_of_def fun_eq_iff Let_def cong: if_cong)

lemma fill_required_frame [json_simps]:
  "k \<notin> {''workflow'', ''specName'', ''branch''} \<Longrightarrow> jget (fill_required st ctx) k = jget ctx k"
  by (simp add: fill_required_def Let_def json_simps)

lemma canonical_fill_required [log_simps]: "canonical_log (fill_required st ctx) = canonical_log ctx"
  by (rule canonical_log_cong) (simp_all add: json_simps)

text \<open>A filled record is left alone, so filling is idempotent.\<close>

lemma fill_required_id:
  assumes "has_key ctx ''workflow''" and "has_key ctx ''branch''"
    and "spec_name st \<noteq> [] \<Longrightarrow> jget ctx ''specName'' = JStr (spec_name st) \<or>
           (truthy (jget ctx ''specName'') \<and> \<not> is_placeholder (py_str (jget ctx ''specName'')) \<and>
            jget ctx ''specName'' \<noteq> JStr (fallback_name st))"
  shows "fill_required st ctx = ctx"
proof -
  define stale where "stale = ((\<not> truthy (jget ctx ''specName'') \<or>
      is_placeholder (py_str (jget ctx ''specName'')) \<or>
      jget ctx ''specName'' = JStr (fallback_name st)) \<and> spec_name st \<noteq> [])"
  have "(if stale then jput ''specName'' (JStr (spec_name st)) ctx else ctx) = ctx"
  proof (cases stale)
    case True
    then have "jget ctx ''specName'' = JStr (spec_name st)" using assms(3) by (auto simp: stale_def)
    then show ?thesis by (simp add: jput_same jget_has_key)
  qed simp
  then show ?thesis
    unfolding fill_required_def Let_def jsetdefault_present [OF assms(1)] stale_def [symmetric]
    by (simp only: jsetdefault_present [OF assms(2)])
qed

lemma fill_required_keys: "has_key (fill_required st ctx) ''workflow''" "has_key (fill_required st ctx) ''branch''"
  by (simp_all add: fill_required_def Let_def json_simps)

lemma fill_required_name:
  "spec_name st \<noteq> [] \<Longrightarrow>
     jget (fill_required st ctx) ''specName'' = JStr (spec_name st) \<or>
     (truthy (jget (fill_required st ctx) ''specName'') \<and>
      \<not> is_placeholder (py_str (jget (fill_required st ctx) ''specName'')) \<and>
      jget (fill_required st ctx) ''specName'' \<noteq> JStr (fallback_name st))"
  by (auto simp: fill_required_def Let_def json_simps)

lemma fill_required_idem [simp]: "fill_required st (fill_required st ctx) = fill_required st ctx"
  by (rule fill_required_id [OF fill_required_keys fill_required_name])

lemma parse_ctx_dict: "parse_ctx f = (case f of DocFile doc \<Rightarrow> dict_or_empty doc | _ \<Rightarrow> [])"
  by (cases f rule: parse_ctx.cases) auto

lemma disk_history_canonical: "prefix (disk_history (ctx_file st)) (canonical_log (read_ctx st))"
  by (cases "ctx_file st" rule: disk_history.cases)
     (auto simp: read_ctx_def canonical_log_def split: json.splits)

lemma publish_cases:
  assumes "publish c st = (r, st')"
  obtains "r = Raised" "st' = st"
    | c' where "r = Wrote" "st' = st\<lparr>ctx_file := DocFile (JDict c')\<rparr>"
        "guard_append_only (ctx_file st) c = Some c'"
  using assms by (auto simp: publish_def split: option.splits)

lemma publish_reads_back:
  assumes "publish c st = (Wrote, st')" and "k \<noteq> ''history''" and "k \<noteq> ''historyQuarantined''"
  shows "jget (read_ctx st') k = jget c k"
  using assms by (auto simp: publish_def read_ctx_def guard_keeps_other_keys split: option.splits)

lemma publish_log_extended:
  assumes "prefix (canonical_log (read_ctx st)) log"
  shows "\<exists>st'. publish (commit_log c log) st = (Wrote, st') \<and>
           (\<forall>k. k \<noteq> ''historyQuarantined'' \<longrightarrow> jget (read_ctx st') k = jget (commit_log c log) k)"
proof -
  have "prefix (disk_history (ctx_file st)) log"
    using disk_history_canonical assms by (rule prefix_order.trans)
  then obtain c' where "guard_append_only (ctx_file st) (commit_log c log) = Some c'"
    and "\<forall>k. k \<noteq> ''historyQuarantined'' \<longrightarrow> jget c' k = jget (commit_log c log) k"
    using guard_extends [of "ctx_file st" log "commit_log c log"] by (auto simp: json_simps)
  then show ?thesis by (simp add: publish_def read_ctx_def)
qed

lemma publish_log_kept:
  assumes "jget c ''history'' = jget (read_ctx st) ''history''"
  shows "\<exists>st'. publish c st = (Wrote, st') \<and>
           (\<forall>k. k \<noteq> ''historyQuarantined'' \<longrightarrow> jget (read_ctx st') k = jget c k)"
proof (cases "\<exists>log. jget c ''history'' = JList log")
  case True
  then obtain log where log: "jget c ''history'' = JList log" by blast
  then have "prefix (disk_history (ctx_file st)) log"
    using assms by (cases "ctx_file st" rule: disk_history.cases) (auto simp: read_ctx_def)
  then show ?thesis using guard_extends [OF _ log] by (fastforce simp: publish_def read_ctx_def)
next
  case False
  then have "guard_append_only (ctx_file st) c = Some c"
    by (auto simp: guard_append_only_def split: json.splits)
  then show ?thesis by (simp add: publish_def read_ctx_def)
qed

subsection \<open>The interface the writers use\<close>

text \<open>
  What every writer above the store relies on: it reads a record, publishes a changed one, and
  reads the changes back; a log that only grew is published whole, and nothing but the publish
  changes what is read.
\<close>

locale record_store =
  fixes read :: "'s \<Rightarrow> jdict"
    and save :: "jdict \<Rightarrow> 's \<Rightarrow> outcome \<times> 's"
  assumes save_refused: "save c s = (r, s') \<Longrightarrow> r \<noteq> Wrote \<Longrightarrow> s' = s"
    and save_reads_back: "save c s = (Wrote, s') \<Longrightarrow> k \<noteq> ''history'' \<Longrightarrow> k \<noteq> ''historyQuarantined'' \<Longrightarrow>
          jget (read s') k = jget c k"
    and save_log_extended: "prefix (canonical_log (read s)) log \<Longrightarrow>
          \<exists>s'. save (commit_log c log) s = (Wrote, s') \<and>
            (\<forall>k. k \<noteq> ''historyQuarantined'' \<longrightarrow> jget (read s') k = jget (commit_log c log) k)"
    and save_log_kept: "jget c ''history'' = jget (read s) ''history'' \<Longrightarrow>
          \<exists>s'. save c s = (Wrote, s') \<and>
            (\<forall>k. k \<noteq> ''historyQuarantined'' \<longrightarrow> jget (read s') k = jget c k)"
begin

lemma save_kept_key:
  "save c s = (Wrote, s') \<Longrightarrow> jget c k = jget (read s) k \<Longrightarrow> k \<noteq> ''history'' \<Longrightarrow>
   k \<noteq> ''historyQuarantined'' \<Longrightarrow> jget (read s') k = jget (read s) k"
  by (simp add: save_reads_back)

lemma save_log:
  assumes "prefix (canonical_log (read s)) log" and "save (commit_log c log) s = (r, s')"
  shows "r = Wrote \<and> canonical_log (read s') = log"
proof -
  obtain t where t: "save (commit_log c log) s = (Wrote, t)"
    and k: "\<forall>k. k \<noteq> ''historyQuarantined'' \<longrightarrow> jget (read t) k = jget (commit_log c log) k"
    using save_log_extended [OF assms(1)] by blast
  have "canonical_log (read t) = canonical_log (commit_log c log)"
    by (rule canonical_log_cong) (simp_all add: k)
  then show ?thesis using t assms(2) by (simp add: log_simps)
qed

lemma save_log_key:
  assumes "prefix (canonical_log (read s)) log" and "save (commit_log c log) s = (r, s')"
    and "k \<noteq> ''historyQuarantined''"
  shows "jget (read s') k = jget (commit_log c log) k"
  using save_log_extended [OF assms(1), of c] assms(2,3) by auto

lemma save_same_log:
  assumes "jget c ''history'' = jget (read s) ''history''"
    and "jget c ''transitions'' = jget (read s) ''transitions''"
    and "save c s = (r, s')"
  shows "r = Wrote \<and> canonical_log (read s') = canonical_log (read s)"
proof -
  obtain t where t: "save c s = (Wrote, t)"
    and k: "\<forall>k. k \<noteq> ''historyQuarantined'' \<longrightarrow> jget (read t) k = jget c k"
    using save_log_kept [OF assms(1)] by blast
  have "canonical_log (read t) = canonical_log (read s)"
    by (rule canonical_log_cong) (simp_all add: k assms(1,2))
  then show ?thesis using t assms(3) by simp
qed

end

interpretation store: record_store read_ctx publish
proof unfold_locales
  show "publish c s = (r, s') \<Longrightarrow> r \<noteq> Wrote \<Longrightarrow> s' = s" for c s r s'
    by (erule publish_cases) auto
qed (use publish_reads_back publish_log_extended publish_log_kept in blast)+

text \<open>The log of a directory, and what publishing a grown log does to it.\<close>

definition log_of :: "feature \<Rightarrow> json list" where
  "log_of st = canonical_log (read_ctx st)"

definition status_of :: "feature \<Rightarrow> json" where
  "status_of st = jget (read_ctx st) ''status''"

definition shipped :: "feature \<Rightarrow> bool" where
  "shipped st \<longleftrightarrow> in_names (status_of st) CROSS_STEP_TERMINAL = Some True"

lemma publish_commit:
  assumes "log_grows (log_of st) log" and "publish (commit_log c log) st = (r, st')"
  shows "r = Wrote \<and> log_of st' = log"
  using store.save_log [OF _ assms(2)] assms(1) by (simp add: log_of_def log_grows_def)

lemma publish_commit_key:
  assumes "log_grows (log_of st) log" and "publish (commit_log c log) st = (r, st')"
    and "k \<noteq> ''historyQuarantined''"
  shows "jget (read_ctx st') k = jget (commit_log c log) k"
  using store.save_log_key [OF _ assms(2,3)] assms(1) by (simp add: log_of_def log_grows_def)

lemma open_ctx_cases:
  obtains "open_ctx st = None" "in_names (status_of st) CROSS_STEP_TERMINAL = None"
    | "open_ctx st = Some None" "shipped st"
    | "open_ctx st = Some (Some (fill_required st (read_ctx st), log_of st))"
        "in_names (status_of st) CROSS_STEP_TERMINAL = Some False"
proof (cases "in_names (status_of st) CROSS_STEP_TERMINAL")
  case None
  then show ?thesis by (intro that(1)) (simp_all add: open_ctx_def status_of_def Let_def)
next
  case (Some b)
  then show ?thesis
    by (cases b) (auto intro: that(2,3) simp: open_ctx_def status_of_def shipped_def log_of_def Let_def)
qed

lemma open_ctx_shipped: "shipped st \<Longrightarrow> open_ctx st = Some None"
  by (simp add: open_ctx_def shipped_def status_of_def Let_def)

lemma read_ctx_cong [store_simps]: "ctx_file st = ctx_file st' \<Longrightarrow> read_ctx st = read_ctx st'"
  by (simp add: read_ctx_def)

lemma log_of_cong: "ctx_file st = ctx_file st' \<Longrightarrow> log_of st = log_of st'"
  by (simp add: log_of_def read_ctx_def)

text \<open>The parts of the directory that a publish leaves alone.\<close>

lemma publish_frame [frame_simps]:
  assumes "publish c st = (r, st')"
  shows "events st' = events st" "tasks_md st' = tasks_md st" "md_files st' = md_files st"
    "dir_name st' = dir_name st" "root_branch st' = root_branch st" "dir_branch st' = dir_branch st"
    "node_dirs st' = node_dirs st" "clock st' = clock st" "ticks st' = ticks st"
  using assms by (auto elim: publish_cases)

subsection \<open>A concrete directory\<close>

text \<open>The directory the witnesses run on: a status, a current step, a log, and one checked task.\<close>

definition example_dir :: "string \<Rightarrow> string \<Rightarrow> json list \<Rightarrow> feature" where
  "example_dir status step log =
     \<lparr>ctx_file = DocFile (JDict [(''workflow'', JStr ''speckit''), (''specName'', JStr ''Demo''),
         (''branch'', JStr ''main''), (''currentStep'', JStr step), (''status'', JStr status),
         (''history'', JList log)]),
      events = None, tasks_md = Some ''- [x] **T001** build'', md_files = [], dir_name = ''001-demo'',
      root_branch = None, dir_branch = None, node_dirs = [],
      clock = (\<lambda>_. ''2026-01-01T00:00:00.000Z''), ticks = 0\<rparr>"

lemma example_dir_reads [simp]:
  "log_of (example_dir status step log) = log" "status_of (example_dir status step log) = JStr status"
  "jget (read_ctx (example_dir status step log)) ''currentStep'' = JStr step"
  "events (example_dir status step log) = None"
  by (simp_all add: example_dir_def log_of_def status_of_def read_ctx_def canonical_log_def jget_def)

end
