(* ===== verification/TaskSync.thy ===== *)
theory TaskSync
  imports Store
begin

text \<open>
  \<open>task_sync.py\<close>: reading and flipping the checkboxes of \<open>tasks.md\<close>, folding a task's finish into
  the record (live, or replayed from the append log), closing the implement step, and the
  marker-driven backstop.
\<close>

subsection \<open>The document without its code\<close>

text \<open>\<open>_FENCE_RE\<close>: optional whitespace, then a run of three or more backticks or tildes.\<close>

definition fence_marker :: "string \<Rightarrow> string option" where
  "fence_marker raw =
     (let s = lstrip raw;
          ticks = takeWhile (\<lambda>c. c = CHR 0x60) s;
          tildes = takeWhile (\<lambda>c. c = CHR ''~'') s
      in if 3 \<le> length ticks then Some ticks
         else if 3 \<le> length tildes then Some tildes else None)"

text \<open>
  \<open>_INLINE_CODE_RE.sub("", raw)\<close>.  At a run of \<open>n\<close> backticks the pattern takes the whole run when
  the next run is at least as long; otherwise it falls back to the longest shorter opening that
  the run itself can close, half of the run.
\<close>

lemma length_dropWhile_drop: "length (dropWhile P (drop k xs)) - j < Suc (length xs)"
  using length_dropWhile_le [of P "drop k xs"] by simp

function sub_inline_code :: "string \<Rightarrow> string" where
  "sub_inline_code s =
     (let n = length (takeWhile (\<lambda>c. c = CHR 0x60) s);
          rest = drop n s;
          after = dropWhile (\<lambda>c. c \<noteq> CHR 0x60) rest;
          m = length (takeWhile (\<lambda>c. c = CHR 0x60) after)
      in case s of
           [] \<Rightarrow> []
         | c # cs \<Rightarrow>
             if c \<noteq> CHR 0x60 then c # sub_inline_code cs
             else if n \<le> m then sub_inline_code (drop n after)
             else if 2 \<le> n then sub_inline_code (drop (2 * (n div 2)) s)
             else c # sub_inline_code cs)"
  by pat_completeness auto
termination
  by (relation "measure length") (simp_all add: length_dropWhile_drop)

declare sub_inline_code.simps [simp del]

fun prose_aux :: "string option \<Rightarrow> string list \<Rightarrow> string list" where
  "prose_aux fence [] = []"
| "prose_aux fence (raw # ls) =
     (case fence of
        Some open_fence \<Rightarrow>
          (case fence_marker raw of
             Some marker \<Rightarrow>
               (if hd marker = hd open_fence \<and> length open_fence \<le> length marker
                then prose_aux None ls else prose_aux fence ls)
           | None \<Rightarrow> prose_aux fence ls)
      | None \<Rightarrow>
          (case fence_marker raw of
             Some marker \<Rightarrow> prose_aux (Some marker) ls
           | None \<Rightarrow> sub_inline_code raw # prose_aux None ls))"

definition prose_lines :: "string \<Rightarrow> string list" where
  "prose_lines content = prose_aux None (splitlines content)"

subsection \<open>Task markers\<close>

text \<open>
  The common shape of \<open>COMPLETED_TASK_RE\<close> and \<open>PENDING_TASK_RE\<close>: a bullet, a box with one
  character, optional bold, and \<open>T\<close> with digits.  The result is the character in the box and the id.
\<close>

definition task_id_of :: "string \<Rightarrow> string option" where
  "task_id_of s =
     (case s of
        t # r \<Rightarrow> (let ds = takeWhile is_decimal r
                  in if t = CHR ''T'' \<and> ds \<noteq> [] then Some (t # ds) else None)
      | [] \<Rightarrow> None)"

definition drop_bold :: "string \<Rightarrow> string" where
  "drop_bold s = (if prefix ''**'' s then drop 2 s else s)"

definition task_box :: "string \<Rightarrow> (char \<times> string) option" where
  "task_box line =
     (case lstrip line of
        b # r \<Rightarrow>
          (if b \<in> set ''-*+''
           then (case lstrip r of
               l # c # q # r2 \<Rightarrow>
                 (if l = CHR ''['' \<and> q = CHR '']''
                  then map_option (\<lambda>tid. (c, tid)) (task_id_of (drop_bold (lstrip r2)))
                  else None)
             | _ \<Rightarrow> None)
           else None)
      | [] \<Rightarrow> None)"

definition completed_id :: "string \<Rightarrow> string option" where
  "completed_id line =
     (case task_box line of Some (c, tid) \<Rightarrow> if c \<in> set ''xX'' then Some tid else None | None \<Rightarrow> None)"

definition pending_id :: "string \<Rightarrow> string option" where
  "pending_id line =
     (case task_box line of Some (c, tid) \<Rightarrow> if is_space c then Some tid else None | None \<Rightarrow> None)"

type_synonym markers = "string list \<times> string list"

fun markers_of_lines :: "string list \<Rightarrow> markers" where
  "markers_of_lines [] = ([], [])"
| "markers_of_lines (l # ls) =
     (let (all_ids, done_ids) = markers_of_lines ls in
      case completed_id l of
        Some tid \<Rightarrow> (tid # all_ids, tid # done_ids)
      | None \<Rightarrow> (case pending_id l of Some tid \<Rightarrow> (tid # all_ids, done_ids) | None \<Rightarrow> (all_ids, done_ids)))"

definition parse_task_markers :: "string option \<Rightarrow> markers" where
  "parse_task_markers md =
     (case md of None \<Rightarrow> ([], []) | Some content \<Rightarrow> markers_of_lines (prose_lines content))"

definition flip_line :: "string list \<Rightarrow> string \<Rightarrow> string" where
  "flip_line ids line =
     (case pending_id line of
        Some tid \<Rightarrow> if tid \<in> set ids then replace_first ''[ ]'' ''[x]'' line else line
      | None \<Rightarrow> line)"

definition mark_text :: "string list \<Rightarrow> string \<Rightarrow> string" where
  "mark_text ids content = concat (map (flip_line ids) (splitlines_keep content))"

definition mark_tasks_done :: "string list \<Rightarrow> feature \<Rightarrow> feature" where
  "mark_tasks_done ids st =
     (if ids = [] then st
      else case tasks_md st of
          None \<Rightarrow> st
        | Some content \<Rightarrow> st\<lparr>tasks_md := Some (mark_text ids content)\<rparr>)"

definition tasks_at_100 :: "markers \<Rightarrow> bool" where
  "tasks_at_100 m = (fst m \<noteq> [] \<and> length (snd m) = length (fst m))"

definition feature_tasks_at_100 :: "feature \<Rightarrow> bool" where
  "feature_tasks_at_100 st = (tasks_md st \<noteq> None \<and> tasks_at_100 (parse_task_markers (tasks_md st)))"

definition gc_events_log :: "feature \<Rightarrow> feature" where
  "gc_events_log st = st\<lparr>events := None\<rparr>"

subsection \<open>Folding one finish\<close>

definition upsert_task_summary :: "jdict \<Rightarrow> string \<Rightarrow> json \<Rightarrow> json \<Rightarrow> jdict" where
  "upsert_task_summary ctx tid did files =
     (let summaries = dict_or_empty (jget ctx ''task_summaries'');
          entry0 = jput ''status'' (JStr ''DONE'') (dict_or_empty (jget summaries tid));
          entry1 = (if truthy did then jput ''did'' did entry0 else entry0);
          entry2 = (if truthy files then jput ''files'' files entry1 else entry1)
      in jput ''task_summaries'' (JDict (jput tid (JDict entry2) summaries)) ctx)"

definition fold_task_finish ::
  "jdict \<times> json list \<Rightarrow> string \<Rightarrow> json \<Rightarrow> json \<Rightarrow> json \<Rightarrow> json \<Rightarrow> markers \<Rightarrow> (jdict \<times> json list) option" where
  "fold_task_finish cl tid by did files at m =
     (let ctx1 = jput ''currentTask'' (JStr tid) (jput ''currentStep'' (JStr ''implement'') (fst cl));
          ctx2 = (if jget ctx1 ''status'' \<in> {JStr ''implemented'', JStr ''completed'', JStr ''archived''} then ctx1
                  else jput ''status'' (JStr (if tasks_at_100 m then ''implemented'' else ''implementing'')) ctx1)
      in case append_complete (snd cl) ''implement'' None (Some tid) by at of
           None \<Rightarrow> None
         | Some log' \<Rightarrow> Some (upsert_task_summary ctx2 tid did files, log'))"

definition maybe_close_implement ::
  "jdict \<times> json list \<Rightarrow> json \<Rightarrow> json \<Rightarrow> markers \<Rightarrow> (jdict \<times> json list) option" where
  "maybe_close_implement cl by at m =
     (let all_ids = fst m;
          distinct_ids = dedup all_ids;
          all_done = (all_ids \<noteq> [] \<and> length distinct_ids = length all_ids \<and> tasks_at_100 m \<and>
                      set distinct_ids \<subseteq> set (journaled_tasks (snd cl)))
      in if \<not> all_done then Some cl
         else case has_complete (snd cl) ''implement'' None of
             None \<Rightarrow> None
           | Some True \<Rightarrow> Some cl
           | Some False \<Rightarrow>
               (case append_complete (snd cl) ''implement'' None None by at of
                  None \<Rightarrow> None
                | Some log' \<Rightarrow>
                    Some (if jget (fst cl) ''status'' \<in> {JStr ''completed'', JStr ''archived''} then fst cl
                          else jput ''status'' (JStr ''implemented'') (fst cl), log')))"

subsection \<open>The operations\<close>

definition tick :: "nat \<Rightarrow> feature \<Rightarrow> feature" where
  "tick n st = st\<lparr>ticks := ticks st + n\<rparr>"

definition journal_task_finish ::
  "string \<Rightarrow> string \<Rightarrow> json \<Rightarrow> json \<Rightarrow> feature \<Rightarrow> outcome \<times> feature" where
  "journal_task_finish tid by did files st =
     (case open_ctx st of
        None \<Rightarrow> (Raised, st)
      | Some None \<Rightarrow> (Declined, st)
      | Some (Some cl) \<Rightarrow>
          (let st1 = mark_tasks_done [tid] st;
               m = parse_task_markers (tasks_md st1)
           in case Option.bind (fold_task_finish cl tid (JStr by) did files (now_json st 0) m)
                     (\<lambda>cl1. maybe_close_implement cl1 (JStr by) (now_json st 1) m) of
                None \<Rightarrow> (Raised, st1)
              | Some (ctx, log) \<Rightarrow> publish (commit_log ctx log) (tick 2 st1)))"

definition task_event :: "string \<Rightarrow> string \<Rightarrow> json \<Rightarrow> json \<Rightarrow> json \<Rightarrow> jdict" where
  "task_event tid by did files at =
     [(''step'', JStr ''implement''), (''substep'', JNull), (''task'', JStr tid),
      (''kind'', JStr ''complete''), (''by'', JStr by), (''at'', at)]
     @ (if truthy did then [(''did'', did)] else [])
     @ (if truthy files then [(''files'', files)] else [])"

definition append_task_log ::
  "string \<Rightarrow> string \<Rightarrow> json \<Rightarrow> json \<Rightarrow> feature \<Rightarrow> outcome \<times> feature" where
  "append_task_log tid by did files st =
     (case in_names (jget (read_ctx st) ''status'') CROSS_STEP_TERMINAL of
        None \<Rightarrow> (Raised, st)
      | Some True \<Rightarrow> (Declined, st)
      | Some False \<Rightarrow>
          (let old = (case events st of None \<Rightarrow> [] | Some ls \<Rightarrow> ls);
               line = Event (JDict (task_event tid by did files (now_json st 0)))
           in (Wrote, tick 1 (st\<lparr>events := Some (old @ [line])\<rparr>))))"

text \<open>
  One line of the append log.  Only string ids are ever appended; a line whose id is truthy but
  of another type is outside the model and counts as an exception.
\<close>

definition fold_event ::
  "feature \<Rightarrow> string \<Rightarrow> markers \<Rightarrow> event_line \<Rightarrow> (jdict \<times> json list) \<times> nat \<Rightarrow> ((jdict \<times> json list) \<times> nat) option" where
  "fold_event st by m line s =
     (case line of
        Blank \<Rightarrow> Some s
      | Torn \<Rightarrow> Some s
      | Event (JDict e) \<Rightarrow>
          (if \<not> truthy (jget e ''task'') then Some s
           else case jget e ''task'' of
               JStr tid \<Rightarrow>
                 map_option (\<lambda>cl. (cl, Suc (snd s)))
                   (fold_task_finish (fst s) tid
                      (case map_of e ''by'' of None \<Rightarrow> JStr by | Some v \<Rightarrow> v)
                      (jget e ''did'') (jget e ''files'')
                      (if truthy (jget e ''at'') then jget e ''at'' else now_json st (snd s)) m)
             | _ \<Rightarrow> None)
      | Event _ \<Rightarrow> None)"

definition materialize_log :: "string \<Rightarrow> feature \<Rightarrow> outcome \<times> feature" where
  "materialize_log by st =
     (case events st of
        None \<Rightarrow> (Declined, st)
      | Some ls \<Rightarrow>
          (case open_ctx st of
             None \<Rightarrow> (Raised, st)
           | Some None \<Rightarrow> (Declined, st)
           | Some (Some cl) \<Rightarrow>
               (case fold_opt (fold_event st by (parse_task_markers (tasks_md st))) ls (cl, 0) of
                  None \<Rightarrow> (Raised, st)
                | Some (cl1, k) \<Rightarrow>
                    (let st1 = mark_tasks_done (journaled_tasks (snd cl1)) st
                     in case maybe_close_implement cl1 (JStr by) (now_json st k)
                               (parse_task_markers (tasks_md st1)) of
                          None \<Rightarrow> (Raised, st1)
                        | Some (ctx, log) \<Rightarrow> publish (commit_log ctx log) (tick (Suc k) st1)))))"

text \<open>\<open>_last_finished\<close>: the latest recorded completion among \<open>done\<close>, else the last in file order.\<close>

fun last_finished_aux :: "string list \<Rightarrow> json list \<Rightarrow> (string \<times> string) option \<Rightarrow> (string \<times> string) option" where
  "last_finished_aux ids [] best = best"
| "last_finished_aux ids (j # log) best =
     (case j of
        JDict e \<Rightarrow>
          (case (jget e ''task'', jget e ''at'') of
             (JStr tid, JStr at) \<Rightarrow>
               (if tid \<in> set ids \<and> jget e ''kind'' = JStr ''complete'' \<and>
                   (case best of None \<Rightarrow> True | Some (_, best_at) \<Rightarrow> best_at \<le> at)
                then last_finished_aux ids log (Some (tid, at))
                else last_finished_aux ids log best)
           | _ \<Rightarrow> last_finished_aux ids log best)
      | _ \<Rightarrow> last_finished_aux ids log best)"

definition last_finished :: "json list \<Rightarrow> string list \<Rightarrow> string" where
  "last_finished log ids =
     (case last_finished_aux ids log None of
        Some (tid, _) \<Rightarrow> if tid \<noteq> [] then tid else last ids
      | None \<Rightarrow> last ids)"

text \<open>
  \<open>sync_tasks\<close>.  \<open>sel\<close> is \<open>None\<close> for the feature's own \<open>tasks.md\<close> and \<open>Some text\<close> for another file
  handed in (with no text when it cannot be read).
\<close>

definition sync_file :: "string option option \<Rightarrow> feature \<Rightarrow> string option" where
  "sync_file sel st = (case sel of None \<Rightarrow> tasks_md st | Some other \<Rightarrow> other)"

definition sync_fold :: "feature \<Rightarrow> string \<Rightarrow> string \<Rightarrow> json list \<times> nat \<Rightarrow> (json list \<times> nat) option" where
  "sync_fold st by tid s =
     map_option (\<lambda>log. (log, Suc (snd s)))
       (append_complete (fst s) ''implement'' None (Some tid) (JStr by) (now_json st (snd s)))"

definition sync_body ::
  "string \<Rightarrow> string \<Rightarrow> markers \<Rightarrow> feature \<Rightarrow> (jdict \<times> json list \<times> nat) option" where
  "sync_body final_status by m st =
     (let ctx = read_ctx st;
          distinct_all = dedup (fst m);
          distinct_done = dedup (snd m);
          log = canonical_log ctx;
          fresh = filter (\<lambda>tid. tid \<notin> set (journaled_tasks log)) distinct_done;
          all_done = tasks_at_100 m;
          pending = filter (\<lambda>tid. tid \<notin> set distinct_done) distinct_all;
          current = (if pending \<noteq> [] then JStr (hd pending)
                     else if distinct_done \<noteq> [] then JStr (last_finished log distinct_done) else JNull);
          ctx1 = jput ''currentTask'' current
                   (jput ''status'' (JStr (if all_done then final_status else ''implementing''))
                     (jput ''currentStep'' (JStr ''implement'') (fill_required st ctx)))
      in case fold_opt (sync_fold st by) fresh (log, 0) of
           None \<Rightarrow> None
         | Some (log1, k) \<Rightarrow>
             if all_done
             then map_option (\<lambda>log2. (ctx1, log2, Suc k))
                    (append_complete log1 ''implement'' None None (JStr by) (now_json st k))
             else Some (ctx1, log1, k))"

definition sync_tasks ::
  "string option option \<Rightarrow> string \<Rightarrow> string \<Rightarrow> feature \<Rightarrow> outcome \<times> feature" where
  "sync_tasks sel final_status by st =
     (case in_names (jget (read_ctx st) ''status'') CROSS_STEP_TERMINAL of
        None \<Rightarrow> (Raised, st)
      | Some True \<Rightarrow> (Declined, st)
      | Some False \<Rightarrow>
          (case materialize_log by st of
             (Raised, st1) \<Rightarrow> (Raised, st1)
           | (_, st1) \<Rightarrow>
               (let m = parse_task_markers (sync_file sel st1) in
                if fst m = [] then (Declined, st1)
                else case sync_body final_status by m st1 of
                    None \<Rightarrow> (Raised, st1)
                  | Some (ctx, log, k) \<Rightarrow> publish (commit_log ctx log) (tick k st1))))"

definition close_task ::
  "string \<Rightarrow> string \<Rightarrow> json \<Rightarrow> json \<Rightarrow> feature \<Rightarrow> outcome \<times> feature" where
  "close_task tid by did files st =
     (case append_task_log tid by did files st of
        (Raised, st1) \<Rightarrow> (Raised, st1)
      | (appended, st1) \<Rightarrow>
          (case materialize_log by st1 of
             (Declined, st2) \<Rightarrow> (appended, st2)
           | (folded, st2) \<Rightarrow> (folded, st2)))"

section \<open>Facts about the task operations\<close>

subsection \<open>What leaves the record alone\<close>

lemma mark_tasks_done_frame [simp]:
  "ctx_file (mark_tasks_done ids st) = ctx_file st" "events (mark_tasks_done ids st) = events st"
  "md_files (mark_tasks_done ids st) = md_files st" "clock (mark_tasks_done ids st) = clock st"
  "ticks (mark_tasks_done ids st) = ticks st"
  by (simp_all add: mark_tasks_done_def split: option.splits)

lemma tick_frame [simp]:
  "ctx_file (tick n st) = ctx_file st" "events (tick n st) = events st" "tasks_md (tick n st) = tasks_md st"
  "md_files (tick n st) = md_files st" "clock (tick n st) = clock st"
  by (simp_all add: tick_def)

lemma log_of_mark [simp]: "log_of (mark_tasks_done ids st) = log_of st" "log_of (tick n st) = log_of st"
  by (auto intro: log_of_cong)

lemma read_ctx_mark [simp]:
  "read_ctx (mark_tasks_done ids st) = read_ctx st" "read_ctx (tick n st) = read_ctx st"
  by (simp_all add: read_ctx_def)

subsection \<open>The log grows\<close>

lemma fold_task_finish_grows:
  "fold_task_finish cl tid by did files at m = Some cl' \<Longrightarrow> log_grows (snd cl) (snd cl')"
  by (auto simp: fold_task_finish_def Let_def intro: append_complete_grows split: option.splits)

lemma maybe_close_grows:
  "maybe_close_implement cl by at m = Some cl' \<Longrightarrow> log_grows (snd cl) (snd cl')"
  by (auto simp: maybe_close_implement_def Let_def intro: append_complete_grows
      split: option.splits if_splits bool.splits)

lemma fold_event_grows:
  "fold_event st by m line s = Some s' \<Longrightarrow> log_grows (snd (fst s)) (snd (fst s'))"
  by (auto simp: fold_event_def intro: fold_task_finish_grows
      split: event_line.splits json.splits if_splits)

lemma fold_events_grows:
  "fold_opt (fold_event st by m) ls s = Some s' \<Longrightarrow> log_grows (snd (fst s)) (snd (fst s'))"
  by (rule fold_opt_relation [where R = "\<lambda>a b. log_grows (snd (fst a)) (snd (fst b))"])
     (auto intro: log_grows_trans fold_event_grows)

lemma sync_fold_grows: "fold_opt (sync_fold st by) ids s = Some s' \<Longrightarrow> log_grows (fst s) (fst s')"
  by (rule fold_opt_relation [where R = "\<lambda>a b. log_grows (fst a) (fst b)"])
     (auto simp: sync_fold_def intro: log_grows_trans append_complete_grows)

lemma sync_body_grows:
  "sync_body final_status by m st = Some (ctx, log, k) \<Longrightarrow> log_grows (log_of st) log"
  by (auto simp: sync_body_def Let_def log_of_def split: option.splits if_splits
      dest!: sync_fold_grows intro: append_complete_grows log_grows_trans)

lemma publish_grows:
  assumes "publish (commit_log c log) st1 = (r, st')" and "log_grows (log_of st) log"
    and "log_of st1 = log_of st"
  shows "log_grows (log_of st) (log_of st')"
  using publish_commit [OF _ assms(1)] assms(2,3) by simp

lemma journal_task_finish_grows:
  assumes "journal_task_finish tid by did files st = (r, st')"
  shows "log_grows (log_of st) (log_of st')"
proof (cases rule: open_ctx_cases [of st])
  case 3
  then show ?thesis
    using assms
    by (auto simp: journal_task_finish_def Let_def split: option.splits bind_splits
        dest!: fold_task_finish_grows maybe_close_grows intro: log_grows_trans elim!: publish_grows)
qed (use assms in \<open>auto simp: journal_task_finish_def\<close>)

lemma append_task_log_frame:
  "append_task_log tid by did files st = (r, st') \<Longrightarrow> ctx_file st' = ctx_file st"
  by (auto simp: append_task_log_def Let_def split: option.splits bool.splits)

lemma append_task_log_grows:
  "append_task_log tid by did files st = (r, st') \<Longrightarrow> log_grows (log_of st) (log_of st')"
  using append_task_log_frame log_of_cong by (metis log_grows_refl)

lemma materialize_log_grows:
  assumes "materialize_log by st = (r, st')"
  shows "log_grows (log_of st) (log_of st')"
proof (cases rule: open_ctx_cases [of st])
  case 3
  then show ?thesis
    using assms
    by (auto simp: materialize_log_def Let_def split: option.splits
        dest!: fold_events_grows maybe_close_grows elim!: publish_grows)
       (blast intro: log_grows_trans)
qed (use assms in \<open>auto simp: materialize_log_def split: option.splits\<close>)

lemma sync_tasks_grows:
  assumes "sync_tasks sel final_status by st = (r, st')"
  shows "log_grows (log_of st) (log_of st')"
proof -
  obtain r1 st1 where m: "materialize_log by st = (r1, st1)" by fastforce
  have g: "log_grows (log_of st) (log_of st1)" using m by (rule materialize_log_grows)
  have "log_grows (log_of st1) (log_of st')" if "r1 \<noteq> Raised" "st' \<noteq> st" "st' \<noteq> st1"
    using assms m that
    by (auto simp: sync_tasks_def Let_def split: option.splits bool.splits outcome.splits if_splits
        dest!: sync_body_grows elim!: publish_grows)
  then show ?thesis
    using assms m g
    by (cases "st' = st"; cases "st' = st1"; cases "r1 = Raised")
       (auto simp: sync_tasks_def intro: log_grows_trans split: option.splits bool.splits outcome.splits)
qed

lemma close_task_grows:
  assumes "close_task tid by did files st = (r, st')"
  shows "log_grows (log_of st) (log_of st')"
proof -
  obtain r1 st1 where a: "append_task_log tid by did files st = (r1, st1)" by fastforce
  obtain r2 st2 where m: "materialize_log by st1 = (r2, st2)" by fastforce
  have "st' = st1 \<or> st' = st2"
    using assms a m by (auto simp: close_task_def split: outcome.splits)
  then show ?thesis
    using append_task_log_grows [OF a] materialize_log_grows [OF m] log_grows_trans by blast
qed

subsection \<open>A shipped spec is left alone\<close>

lemma shipped_status [simp]: "shipped st \<Longrightarrow> in_names (jget (read_ctx st) ''status'') CROSS_STEP_TERMINAL = Some True"
  by (simp add: shipped_def status_of_def)

lemma journal_task_finish_shipped: "shipped st \<Longrightarrow> journal_task_finish tid by did files st = (Declined, st)"
  by (simp add: journal_task_finish_def open_ctx_shipped)

lemma append_task_log_shipped: "shipped st \<Longrightarrow> append_task_log tid by did files st = (Declined, st)"
  by (simp add: append_task_log_def)

lemma materialize_log_shipped: "shipped st \<Longrightarrow> materialize_log by st = (Declined, st)"
  by (simp add: materialize_log_def open_ctx_shipped split: option.splits)

lemma sync_tasks_shipped: "shipped st \<Longrightarrow> sync_tasks sel final_status by st = (Declined, st)"
  by (simp add: sync_tasks_def)

lemma close_task_shipped: "shipped st \<Longrightarrow> close_task tid by did files st = (Declined, st)"
  by (simp add: close_task_def append_task_log_shipped materialize_log_shipped)

lemmas task_ops_shipped = journal_task_finish_shipped append_task_log_shipped materialize_log_shipped
  sync_tasks_shipped close_task_shipped

lemmas task_ops_grow = journal_task_finish_grows append_task_log_grows materialize_log_grows
  sync_tasks_grows close_task_grows

subsection \<open>Readable directories\<close>

text \<open>
  A directory whose record and event lines have the shapes the scripts write: no operation raises
  on it, and every operation keeps it so.
\<close>

definition event_ok :: "event_line \<Rightarrow> bool" where
  "event_ok line =
     (case line of
        Event (JDict e) \<Rightarrow> truthy (jget e ''task'') \<longrightarrow> is_str (jget e ''task'')
      | Event _ \<Rightarrow> False
      | _ \<Rightarrow> True)"

definition ctx_ok :: "jdict \<Rightarrow> bool" where
  "ctx_ok ctx \<longleftrightarrow> hashable (jget ctx ''status'') \<and> hashable (jget ctx ''currentStep'')"

definition readable :: "feature \<Rightarrow> bool" where
  "readable st \<longleftrightarrow> log_ok (log_of st) \<and> ctx_ok (read_ctx st) \<and>
     (case events st of None \<Rightarrow> True | Some ls \<Rightarrow> list_all event_ok ls)"

lemma ctx_ok_fill [simp]: "ctx_ok (fill_required st ctx) = ctx_ok ctx"
  by (simp add: ctx_ok_def json_simps)

lemma ctx_ok_jput [simp]: "ctx_ok ctx \<Longrightarrow> hashable v \<Longrightarrow> ctx_ok (jput k v ctx)"
  by (auto simp: ctx_ok_def json_simps)

lemma ctx_ok_jput_other [simp]: "k \<noteq> ''status'' \<Longrightarrow> k \<noteq> ''currentStep'' \<Longrightarrow> ctx_ok (jput k v ctx) = ctx_ok ctx"
  by (auto simp: ctx_ok_def json_simps)

lemma ctx_ok_jpop_other [simp]: "k \<noteq> ''status'' \<Longrightarrow> k \<noteq> ''currentStep'' \<Longrightarrow> ctx_ok (jpop k ctx) = ctx_ok ctx"
  by (auto simp: ctx_ok_def json_simps)

lemma ctx_ok_commit [simp]: "ctx_ok (commit_log ctx log) = ctx_ok ctx"
  by (simp add: ctx_ok_def json_simps)

text \<open>
  How a finish may change the status and the current step: not at all, or to one of the implement
  step's own.
\<close>

definition status_moves :: "jdict \<Rightarrow> jdict \<Rightarrow> bool" where
  "status_moves c d \<longleftrightarrow>
     (jget d ''status'' = jget c ''status'' \<or>
      jget d ''status'' \<in> {JStr ''implementing'', JStr ''implemented''}) \<and>
     (jget d ''currentStep'' = jget c ''currentStep'' \<or> jget d ''currentStep'' = JStr ''implement'')"

lemma status_moves_refl [simp]: "status_moves c c"
  by (simp add: status_moves_def)

lemma status_moves_trans: "status_moves a b \<Longrightarrow> status_moves b c \<Longrightarrow> status_moves a c"
  by (auto simp: status_moves_def)

lemma status_moves_fill [simp]: "status_moves (fill_required st c) d = status_moves c d"
  by (simp add: status_moves_def json_simps)

lemma upsert_task_summary_frame [json_simps]:
  "k \<noteq> ''task_summaries'' \<Longrightarrow> jget (upsert_task_summary ctx tid did files) k = jget ctx k"
  by (simp add: upsert_task_summary_def Let_def json_simps)

lemma fold_task_finish_effect:
  assumes "fold_task_finish cl tid by did files at m = Some cl'"
  shows "status_moves (fst cl) (fst cl')" and "ctx_ok (fst cl) \<Longrightarrow> ctx_ok (fst cl')"
    and "jget (fst cl') ''currentStep'' = JStr ''implement''"
proof -
  define c1 where "c1 = jput ''currentTask'' (JStr tid) (jput ''currentStep'' (JStr ''implement'') (fst cl))"
  define c2 where "c2 = (if jget c1 ''status'' \<in> {JStr ''implemented'', JStr ''completed'', JStr ''archived''} then c1
                  else jput ''status'' (JStr (if tasks_at_100 m then ''implemented'' else ''implementing'')) c1)"
  have c: "fst cl' = upsert_task_summary c2 tid did files"
    using assms by (auto simp: fold_task_finish_def Let_def c1_def c2_def split: option.splits)
  have "status_moves (fst cl) c2" by (simp add: status_moves_def c1_def c2_def json_simps)
  then show "status_moves (fst cl) (fst cl')" by (simp add: c status_moves_def json_simps)
  have "ctx_ok (fst cl) \<Longrightarrow> ctx_ok c2" by (simp add: c1_def c2_def)
  then show "ctx_ok (fst cl) \<Longrightarrow> ctx_ok (fst cl')" by (simp add: c ctx_ok_def json_simps)
  show "jget (fst cl') ''currentStep'' = JStr ''implement''" by (simp add: c c1_def c2_def json_simps)
qed

lemma maybe_close_effect:
  assumes "maybe_close_implement cl by at m = Some cl'"
  shows "status_moves (fst cl) (fst cl')" and "ctx_ok (fst cl) \<Longrightarrow> ctx_ok (fst cl')"
    and "k \<noteq> ''status'' \<Longrightarrow> jget (fst cl') k = jget (fst cl) k"
  using assms
  by (auto simp: maybe_close_implement_def Let_def status_moves_def json_simps
      split: option.splits if_splits bool.splits)

lemma fold_event_effect:
  assumes "fold_event st by m line s = Some s'"
  shows "status_moves (fst (fst s)) (fst (fst s'))" and "ctx_ok (fst (fst s)) \<Longrightarrow> ctx_ok (fst (fst s'))"
  using assms
  by (auto simp: fold_event_def split: event_line.splits json.splits if_splits
      dest: fold_task_finish_effect)

lemma fold_events_effect:
  assumes "fold_opt (fold_event st by m) ls s = Some s'"
  shows "status_moves (fst (fst s)) (fst (fst s'))" and "ctx_ok (fst (fst s)) \<Longrightarrow> ctx_ok (fst (fst s'))"
proof -
  show "status_moves (fst (fst s)) (fst (fst s'))"
    by (rule fold_opt_relation [OF assms, where R = "\<lambda>a b. status_moves (fst (fst a)) (fst (fst b))"])
       (auto intro: status_moves_trans fold_event_effect(1))
  show "ctx_ok (fst (fst s)) \<Longrightarrow> ctx_ok (fst (fst s'))"
    by (rule fold_opt_invariant [OF assms, where P = "\<lambda>a. ctx_ok (fst (fst a))"])
       (auto intro: fold_event_effect(2))
qed

text \<open>On well-formed input nothing raises.\<close>

lemma fold_task_finish_total:
  "log_ok (snd cl) \<Longrightarrow> \<exists>cl'. fold_task_finish cl tid by did files at m = Some cl'"
  using append_complete_total [of "snd cl" "''implement''" None "Some tid" "by" at]
  by (auto simp: fold_task_finish_def Let_def)

lemma maybe_close_total:
  "log_ok (snd cl) \<Longrightarrow> \<exists>cl'. maybe_close_implement cl by at m = Some cl'"
  using append_complete_total [of "snd cl" "''implement''" None None "by" at]
  by (auto simp: maybe_close_implement_def Let_def has_complete_total split: bool.splits)

lemma fold_event_total:
  assumes "event_ok line" and "log_ok (snd (fst s))"
  shows "\<exists>s'. fold_event st by m line s = Some s'"
proof (cases line)
  case (Event j)
  then obtain e where e: "j = JDict e" using assms(1) by (cases j) (simp_all add: event_ok_def)
  show ?thesis
  proof (cases "truthy (jget e ''task'')")
    case True
    then obtain tid where "jget e ''task'' = JStr tid"
      using assms(1) Event e by (cases "jget e ''task''") (simp_all add: event_ok_def)
    then show ?thesis using Event e True fold_task_finish_total [OF assms(2)]
      by (simp add: fold_event_def)
  qed (simp add: Event e fold_event_def)
qed (simp_all add: fold_event_def)

lemma fold_events_total:
  "list_all event_ok ls \<Longrightarrow> log_ok (snd (fst s)) \<Longrightarrow> \<exists>s'. fold_opt (fold_event st by m) ls s = Some s'"
proof (induction ls arbitrary: s)
  case (Cons x ls)
  then obtain s1 where s1: "fold_event st by m x s = Some s1"
    using fold_event_total [of x s st "by" m] by auto
  then have "log_ok (snd (fst s1))" using Cons.prems(2) fold_event_grows by (auto simp: log_grows_def)
  then show ?case using Cons s1 by simp
qed simp

lemma sync_fold_total: "log_ok (fst s) \<Longrightarrow> \<exists>s'. fold_opt (sync_fold st by) ids s = Some s'"
proof (induction ids arbitrary: s)
  case (Cons tid ids)
  obtain log1 where a: "append_complete (fst s) ''implement'' None (Some tid) (JStr by) (now_json st (snd s)) = Some log1"
    using append_complete_total [OF Cons.prems] by blast
  then have "log_ok log1" using Cons.prems append_complete_ok by blast
  then show ?case using Cons a by (simp add: sync_fold_def)
qed simp

lemma sync_body_total:
  assumes "log_ok (log_of st)"
  shows "\<exists>r. sync_body final_status by m st = Some r"
proof -
  let ?fresh = "filter (\<lambda>tid. tid \<notin> set (journaled_tasks (log_of st))) (dedup (snd m))"
  obtain log1 k where f: "fold_opt (sync_fold st by) ?fresh (log_of st, 0) = Some (log1, k)"
    using sync_fold_total [of "(log_of st, 0)" st "by" ?fresh] assms by auto
  then have "log_ok log1" using sync_fold_grows [OF f] assms by (simp add: log_grows_def)
  then show ?thesis
    using f append_complete_total [of log1 "''implement''" None None "JStr by" "now_json st k"]
    by (auto simp: sync_body_def Let_def log_of_def)
qed

subsection \<open>What a publish leaves behind\<close>

lemma publish_commit_effect:
  assumes "publish (commit_log c log) st1 = (r, st')" and "log_grows (log_of st) log"
    and "log_of st1 = log_of st"
  shows "r = Wrote" and "log_of st' = log" and "events st' = events st1"
    and "k \<notin> {''history'', ''transitions'', ''stepHistory'', ''historyQuarantined''} \<Longrightarrow>
          jget (read_ctx st') k = jget c k"
  using publish_commit [OF _ assms(1)] publish_commit_key [OF _ assms(1), of k] publish_frame [OF assms(1)]
    assms(2,3) by (simp_all add: json_simps)

lemma publish_readable:
  assumes "publish (commit_log c log) st1 = (r, st')" and "log_grows (log_of st) log"
    and "log_of st1 = log_of st" and "ctx_ok c" and "readable st" and "events st1 = events st"
  shows "r \<noteq> Raised \<and> readable st'"
  using publish_commit_effect [OF assms(1-3)] assms(2,4-6)
  by (simp add: readable_def ctx_ok_def log_grows_def)

lemma readable_not_unhashable: "readable st \<Longrightarrow> in_names (status_of st) names \<noteq> None"
  using in_names_total [of "status_of st" names] by (auto simp: readable_def ctx_ok_def status_of_def)

lemma readable_cong:
  "readable st \<Longrightarrow> ctx_file st' = ctx_file st \<Longrightarrow> events st' = events st \<Longrightarrow> readable st'"
  by (simp add: readable_def log_of_def read_ctx_def)

lemma readable_frame [simp]: "readable (mark_tasks_done ids st) = readable st" "readable (tick n st) = readable st"
  by (simp_all add: readable_def)

lemma journal_task_finish_readable:
  assumes "journal_task_finish tid by did files st = (r, st')" and "readable st"
  shows "r \<noteq> Raised \<and> readable st'"
proof (cases rule: open_ctx_cases [of st])
  case 3
  let ?cl = "(fill_required st (read_ctx st), log_of st)"
  let ?st1 = "mark_tasks_done [tid] st"
  let ?m = "parse_task_markers (tasks_md ?st1)"
  have ok: "log_ok (snd ?cl)" "ctx_ok (fst ?cl)" using assms(2) by (simp_all add: readable_def)
  obtain cl1 where c1: "fold_task_finish ?cl tid (JStr by) did files (now_json st 0) ?m = Some cl1"
    using fold_task_finish_total [OF ok(1)] by blast
  have g1: "log_grows (log_of st) (snd cl1)" using fold_task_finish_grows [OF c1] by simp
  obtain cl2 where c2: "maybe_close_implement cl1 (JStr by) (now_json st 1) ?m = Some cl2"
    using maybe_close_total g1 ok(1) by (fastforce simp: log_grows_def)
  have g2: "log_grows (log_of st) (snd cl2)" using g1 maybe_close_grows [OF c2] log_grows_trans by blast
  have "ctx_ok (fst cl2)" using ok(2) fold_task_finish_effect(2) [OF c1] maybe_close_effect(2) [OF c2] by simp
  moreover have "publish (commit_log (fst cl2) (snd cl2)) (tick 2 ?st1) = (r, st')"
    using assms(1) 3 c1 c2 by (simp add: journal_task_finish_def Let_def split: prod.splits)
  ultimately show ?thesis using publish_readable [OF _ g2] assms(2) by simp
qed (use assms readable_not_unhashable in \<open>auto simp: journal_task_finish_def\<close>)

lemma append_task_log_readable:
  assumes "append_task_log tid by did files st = (r, st')" and "readable st"
  shows "r \<noteq> Raised \<and> readable st'"
proof -
  have "event_ok (Event (JDict (task_event tid by did files at)))" for at
    by (simp add: event_ok_def task_event_def jget_def)
  then show ?thesis
    using assms readable_not_unhashable [OF assms(2), of CROSS_STEP_TERMINAL]
    by (auto simp: append_task_log_def Let_def readable_def log_of_def read_ctx_def status_of_def
        split: option.splits bool.splits)
qed

lemma materialize_log_effect:
  assumes "materialize_log by st = (r, st')"
  shows "status_moves (read_ctx st) (read_ctx st')" and "events st' = events st"
proof -
  have "status_moves (read_ctx st) (read_ctx st') \<and> events st' = events st"
  proof (cases "st' = st \<or> (\<exists>ids. st' = mark_tasks_done ids st)")
    case True
    then show ?thesis by auto
  next
    case False
    from False assms obtain ls cl1 k ctx log where o: "events st = Some ls"
        "open_ctx st = Some (Some (fill_required st (read_ctx st), log_of st))"
      and f: "fold_opt (fold_event st by (parse_task_markers (tasks_md st))) ls
                ((fill_required st (read_ctx st), log_of st), 0) = Some (cl1, k)"
      and c: "maybe_close_implement cl1 (JStr by) (now_json st k)
                (parse_task_markers (tasks_md (mark_tasks_done (journaled_tasks (snd cl1)) st))) = Some (ctx, log)"
      and p: "publish (commit_log ctx log) (tick (Suc k) (mark_tasks_done (journaled_tasks (snd cl1)) st)) = (r, st')"
      by (cases rule: open_ctx_cases [of st])
         (auto simp: materialize_log_def Let_def split: option.splits)
    have g: "log_grows (log_of st) log"
      using fold_events_grows [OF f] maybe_close_grows [OF c] log_grows_trans by fastforce
    have "status_moves (read_ctx st) ctx"
      using fold_events_effect(1) [OF f] maybe_close_effect(1) [OF c] status_moves_trans by fastforce
    then show ?thesis using publish_commit_effect [OF p g] by (simp add: status_moves_def)
  qed
  then show "status_moves (read_ctx st) (read_ctx st')" and "events st' = events st" by auto
qed

lemma materialize_log_readable:
  assumes "materialize_log by st = (r, st')" and "readable st"
  shows "r \<noteq> Raised \<and> readable st'"
proof (cases "events st = None \<or> open_ctx st = Some None")
  case True
  then show ?thesis using assms by (auto simp: materialize_log_def split: option.splits)
next
  case False
  then obtain ls where ls: "events st = Some ls" by auto
  have opened: "open_ctx st = Some (Some (fill_required st (read_ctx st), log_of st))"
    using False readable_not_unhashable [OF assms(2), of CROSS_STEP_TERMINAL]
    by (cases rule: open_ctx_cases [of st]) auto
  let ?cl = "(fill_required st (read_ctx st), log_of st)"
  have ok: "list_all event_ok ls" "log_ok (log_of st)" "ctx_ok (fst ?cl)"
    using assms(2) ls by (simp_all add: readable_def)
  obtain cl1 k where f: "fold_opt (fold_event st by (parse_task_markers (tasks_md st))) ls (?cl, 0) = Some (cl1, k)"
    using fold_events_total [OF ok(1), of "(?cl, 0)"] ok(2) by fastforce
  have g1: "log_grows (log_of st) (snd cl1)" using fold_events_grows [OF f] by simp
  let ?st1 = "mark_tasks_done (journaled_tasks (snd cl1)) st"
  obtain cl2 where c: "maybe_close_implement cl1 (JStr by) (now_json st k) (parse_task_markers (tasks_md ?st1)) = Some cl2"
    using maybe_close_total g1 ok(2) by (fastforce simp: log_grows_def)
  have g2: "log_grows (log_of st) (snd cl2)" using g1 maybe_close_grows [OF c] log_grows_trans by blast
  have "ctx_ok (fst cl2)" using ok(3) fold_events_effect(2) [OF f] maybe_close_effect(2) [OF c] by simp
  moreover have "publish (commit_log (fst cl2) (snd cl2)) (tick (Suc k) ?st1) = (r, st')"
    using assms(1) ls opened f c by (simp add: materialize_log_def Let_def split: prod.splits)
  ultimately show ?thesis using publish_readable [OF _ g2] assms(2) by simp
qed

lemma sync_body_effect:
  assumes "sync_body final_status by m st = Some (ctx, log, k)"
  shows "jget ctx ''status'' = JStr (if tasks_at_100 m then final_status else ''implementing'')"
    and "jget ctx ''currentStep'' = JStr ''implement''"
  using assms by (auto simp: sync_body_def Let_def json_simps split: option.splits if_splits)

lemma sync_tasks_cases:
  assumes "sync_tasks sel final_status by st = (r, st')"
  obtains "in_names (status_of st) CROSS_STEP_TERMINAL \<noteq> Some False" "st' = st"
      "r = Raised \<longleftrightarrow> in_names (status_of st) CROSS_STEP_TERMINAL = None"
    | r1 where "materialize_log by st = (r1, st')" "r = Raised \<longrightarrow> r1 = Raised \<or>
        sync_body final_status by (parse_task_markers (sync_file sel st')) st' = None"
    | r1 st1 m ctx log k where "materialize_log by st = (r1, st1)" "r1 \<noteq> Raised"
        "sync_body final_status by m st1 = Some (ctx, log, k)"
        "publish (commit_log ctx log) (tick k st1) = (r, st')"
proof (cases "in_names (status_of st) CROSS_STEP_TERMINAL = Some False")
  case False
  then show thesis using assms
    by (intro that(1)) (auto simp: sync_tasks_def status_of_def split: option.splits bool.splits)
next
  case True
  obtain r1 st1 where m: "materialize_log by st = (r1, st1)" by fastforce
  have st: "sync_tasks sel final_status by st =
      (if r1 = Raised then (Raised, st1)
       else let m = parse_task_markers (sync_file sel st1) in
            if fst m = [] then (Declined, st1)
            else case sync_body final_status by m st1 of
                None \<Rightarrow> (Raised, st1)
              | Some (ctx, log, k) \<Rightarrow> publish (commit_log ctx log) (tick k st1))"
    using True m by (simp add: sync_tasks_def status_of_def split: outcome.split)
  show thesis
  proof (cases "r1 = Raised \<or> fst (parse_task_markers (sync_file sel st1)) = [] \<or>
      sync_body final_status by (parse_task_markers (sync_file sel st1)) st1 = None")
    case True
    then show thesis using st assms m by (intro that(2) [of r1]) (auto simp: Let_def split: if_splits)
  next
    case False
    then obtain ctx log k where "sync_body final_status by (parse_task_markers (sync_file sel st1)) st1 = Some (ctx, log, k)"
      by auto
    then show thesis using st assms m False by (intro that(3) [OF m]) (auto simp: Let_def)
  qed
qed

lemma sync_tasks_readable:
  assumes "sync_tasks sel final_status by st = (r, st')" and "readable st"
  shows "r \<noteq> Raised \<and> readable st'"
  using assms(1)
proof (cases rule: sync_tasks_cases)
  case 1
  then show ?thesis using readable_not_unhashable [OF assms(2)] assms(2) by auto
next
  case (2 r1)
  have m: "r1 \<noteq> Raised \<and> readable st'" using materialize_log_readable [OF 2(1) assms(2)] .
  then obtain b where "sync_body final_status by (parse_task_markers (sync_file sel st')) st' = Some b"
    using sync_body_total [of st' final_status "by" "parse_task_markers (sync_file sel st')"]
    by (auto simp: readable_def)
  then show ?thesis using 2(2) m by auto
next
  case (3 r1 st1 m ctx log k)
  have r: "readable st1" using materialize_log_readable [OF 3(1) assms(2)] by simp
  have "ctx_ok ctx" using sync_body_effect [OF 3(3)] by (simp add: ctx_ok_def)
  then show ?thesis using publish_readable [OF 3(4) sync_body_grows [OF 3(3)]] r by simp
qed

lemma close_task_readable:
  assumes "close_task tid by did files st = (r, st')" and "readable st"
  shows "r \<noteq> Raised \<and> readable st'"
proof -
  obtain r1 st1 where a: "append_task_log tid by did files st = (r1, st1)" by fastforce
  obtain r2 st2 where m: "materialize_log by st1 = (r2, st2)" by fastforce
  have 1: "r1 \<noteq> Raised \<and> readable st1" using append_task_log_readable [OF a assms(2)] .
  then have 2: "r2 \<noteq> Raised \<and> readable st2" using materialize_log_readable [OF m] by blast
  show ?thesis using assms(1) a m 1 2 by (auto simp: close_task_def split: outcome.splits)
qed

lemmas task_ops_readable = journal_task_finish_readable append_task_log_readable
  materialize_log_readable sync_tasks_readable close_task_readable

subsection \<open>Markers and checkboxes\<close>

lemma lstrip_split: "\<exists>ws. s = ws @ lstrip s \<and> (\<forall>c \<in> set ws. is_space c)"
  unfolding lstrip_def by (metis takeWhile_dropWhile_id set_takeWhileD)

lemma lstrip_spaces: "\<forall>c \<in> set ws. is_space c \<Longrightarrow> lstrip (ws @ t) = lstrip t"
  by (simp add: lstrip_def dropWhile_append2)

lemma bullet_not_space: "b \<in> set ''-*+'' \<Longrightarrow> \<not> is_space b"
  by (auto simp: is_space_def space_chars_def)

lemma open_bracket_not_space: "\<not> is_space (CHR ''['')"
  by (simp add: is_space_def space_chars_def)

lemma space_not_bracket: "is_space c \<Longrightarrow> c \<noteq> CHR ''[''"
  using open_bracket_not_space by blast

text \<open>The parts of a line with a task box.\<close>

lemma task_box_split:
  assumes "task_box line = Some (c, tid)"
  obtains pre r where "line = pre @ CHR ''['' # c # CHR '']'' # r" and "CHR ''['' \<notin> set pre"
    and "\<And>c'. task_box (pre @ CHR ''['' # c' # CHR '']'' # r) = Some (c', tid)"
proof -
  obtain b s where b: "lstrip line = b # s" "b \<in> set ''-*+''"
    using assms by (auto simp: task_box_def split: list.splits if_splits)
  obtain r where r: "lstrip s = CHR ''['' # c # CHR '']'' # r"
      "task_id_of (drop_bold (lstrip r)) = Some tid"
    using assms b by (auto simp: task_box_def split: list.splits if_splits)
  obtain ws where ws: "line = ws @ b # s" "\<forall>x \<in> set ws. is_space x" using lstrip_split [of line] b(1) by metis
  obtain vs where vs: "s = vs @ CHR ''['' # c # CHR '']'' # r" "\<forall>x \<in> set vs. is_space x"
    using lstrip_split [of s] r(1) by metis
  let ?pre = "ws @ b # vs"
  have "task_box (?pre @ CHR ''['' # c' # CHR '']'' # r) = Some (c', tid)" for c'
  proof -
    have "lstrip (?pre @ CHR ''['' # c' # CHR '']'' # r) = b # vs @ CHR ''['' # c' # CHR '']'' # r"
      using lstrip_spaces [OF ws(2)] bullet_not_space [OF b(2)] by (simp add: lstrip_id)
    moreover have "lstrip (vs @ CHR ''['' # c' # CHR '']'' # r) = CHR ''['' # c' # CHR '']'' # r"
      using lstrip_spaces [OF vs(2)] open_bracket_not_space by (simp add: lstrip_id)
    ultimately show ?thesis using b(2) r(2) by (simp add: task_box_def)
  qed
  moreover have "CHR ''['' \<notin> set ?pre" using ws(2) vs(2) b(2) space_not_bracket by auto
  ultimately show thesis using that [of ?pre r] ws(1) vs(1) by simp
qed

lemma cut_at_box: "CHR ''['' \<notin> set pre \<Longrightarrow> cut_at ''[ ]'' (pre @ ''[ ]'' @ r) = Some (pre, r)"
  by (induction pre) auto

lemma markers_subseq: "markers_of_lines ls = (all_ids, done_ids) \<Longrightarrow> subseq done_ids all_ids"
  by (induction ls arbitrary: all_ids done_ids) (auto simp: Let_def split: prod.splits option.splits)

lemma prose_aux_inside:
  assumes "\<forall>l \<in> set body. \<forall>m. fence_marker l = Some m \<longrightarrow> hd m \<noteq> hd f \<or> length m < length f"
  shows "prose_aux (Some f) (body @ ls) = prose_aux (Some f) ls"
  using assms by (induction body) (auto split: option.splits)

section \<open>Properties\<close>



text \<open>Flipping is exact: a pending line of a listed task, with a blank in its box, becomes a
  completed line of the same task.\<close>

theorem flip_completes:
  assumes "task_box line = Some (CHR '' '', tid)" and "tid \<in> set ids"
  shows "completed_id (flip_line ids line) = Some tid"
proof -
  obtain pre r where line: "line = pre @ CHR ''['' # CHR '' '' # CHR '']'' # r" and pre: "CHR ''['' \<notin> set pre"
    and box: "\<And>c'. task_box (pre @ CHR ''['' # c' # CHR '']'' # r) = Some (c', tid)"
    using task_box_split [OF assms(1)] by blast
  have "pending_id line = Some tid"
    using assms(1) by (simp add: pending_id_def is_space_def space_chars_def)
  then have "flip_line ids line = pre @ CHR ''['' # CHR ''x'' # CHR '']'' # r"
    using assms(2) cut_at_box [OF pre, of r] by (simp add: flip_line_def replace_first_def line)
  then show ?thesis by (simp add: completed_id_def box)
qed

theorem flip_completes_witness:
  "completed_id (flip_line [''T002''] ''  * [ ] **T002** x'') = Some ''T002''"
  by (rule flip_completes)
     (simp_all add: task_box_def task_id_of_def drop_bold_def lstrip_def is_space_def space_chars_def is_decimal_def)

text \<open>The completed ids are the completed part of all the ids, in document order, so the list of
  tasks is never shorter than the list of finished ones.\<close>

theorem done_ids_subseq: "subseq (snd (parse_task_markers md)) (fst (parse_task_markers md))"
  by (cases md) (auto simp: parse_task_markers_def intro: markers_subseq)

text \<open>A fenced block is not work: the lines from an opening fence to the first fence that closes it
  contribute nothing, whatever checkboxes they hold.\<close>

theorem fenced_block_is_skipped:
  assumes "fence_marker l = Some f"
    and "\<forall>b \<in> set body. \<forall>m. fence_marker b = Some m \<longrightarrow> hd m \<noteq> hd f \<or> length m < length f"
    and "fence_marker l' = Some g" and "hd g = hd f" and "length f \<le> length g"
  shows "prose_aux None (l # body @ l' # rest) = prose_aux None rest"
  using prose_aux_inside [OF assms(2), of "l' # rest"] assms(1,3-5) by simp

theorem fenced_block_is_skipped_witness:
  "prose_aux None ([CHR 0x60, CHR 0x60, CHR 0x60] # [''- [ ] T001''] @ [CHR 0x60, CHR 0x60, CHR 0x60] # [''text'']) =
   prose_aux None [''text'']"
  by (rule fenced_block_is_skipped [where f = "[CHR 0x60, CHR 0x60, CHR 0x60]" and g = "[CHR 0x60, CHR 0x60, CHR 0x60]"])
     (simp_all add: fence_marker_def lstrip_def is_space_def space_chars_def)

text \<open>The implement step closes itself only on both signals: every marker checked, with no id twice,
  and every task journaled.  Then the log holds its completion and the status says so.\<close>

theorem close_needs_checked_and_journaled:
  assumes "maybe_close_implement cl by at m = Some cl'" and "snd cl' \<noteq> snd cl"
  shows "tasks_at_100 m \<and> distinct (fst m) \<and> set (fst m) \<subseteq> set (journaled_tasks (snd cl)) \<and>
         (\<exists>j \<in> set (snd cl'). is_complete_of ''implement'' None j) \<and>
         jget (fst cl') ''status'' \<in> {JStr ''implemented'', JStr ''completed'', JStr ''archived''}"
proof -
  have all: "fst m \<noteq> []" "length (dedup (fst m)) = length (fst m)" "tasks_at_100 m"
      "set (fst m) \<subseteq> set (journaled_tasks (snd cl))"
    and log: "append_complete (snd cl) ''implement'' None None by at = Some (snd cl')"
    and st: "jget (fst cl') ''status'' \<in> {JStr ''implemented'', JStr ''completed'', JStr ''archived''}"
    using assms by (auto simp: maybe_close_implement_def Let_def json_simps split: if_splits option.splits bool.splits)
  have "distinct (dedup (fst m))" by (rule distinct_merge_new) simp
  then have "distinct (fst m)" using all(2) by (metis card_distinct distinct_card set_merge_new set_empty empty_iff Un_iff list.set(1) sup_bot_left)
  then show ?thesis using all st append_complete_records [OF log] by auto
qed

theorem close_needs_checked_and_journaled_witness:
  "\<exists>j \<in> set (snd (the (maybe_close_implement
      ([(''status'', JStr ''implementing'')], the (append_complete [] ''implement'' None (Some ''T001'') (JStr ''ai'') (JStr ''2026'')))
      (JStr ''ai'') (JStr ''2026'') ([''T001''], [''T001''])))). is_complete_of ''implement'' None j"
proof -
  let ?cl = "([(''status'', JStr ''implementing'')], the (append_complete [] ''implement'' None (Some ''T001'') (JStr ''ai'') (JStr ''2026'')))"
  let ?r = "maybe_close_implement ?cl (JStr ''ai'') (JStr ''2026'') ([''T001''], [''T001''])"
  have "?r = Some (the ?r) \<and> snd (the ?r) \<noteq> snd ?cl" by code_simp
  then show ?thesis
    using close_needs_checked_and_journaled [of ?cl "JStr ''ai''" "JStr ''2026''" "([''T001''], [''T001''])" "the ?r"] by blast
qed

text \<open>Recording a task's summary erases nothing: the other tasks keep their entries, and this
  task keeps every field the call does not supply.\<close>

theorem summary_upsert_keeps:
  assumes "summaries = dict_or_empty (jget ctx ''task_summaries'')"
    and "new = dict_or_empty (jget (upsert_task_summary ctx tid did files) ''task_summaries'')"
  shows "(tid' \<noteq> tid \<longrightarrow> jget new tid' = jget summaries tid') \<and>
         (\<forall>k. k \<notin> {''status'', ''did'', ''files''} \<or> k = ''did'' \<and> \<not> truthy did \<or> k = ''files'' \<and> \<not> truthy files \<longrightarrow>
            jget (dict_or_empty (jget new tid)) k = jget (dict_or_empty (jget summaries tid)) k)"
  using assms by (auto simp: upsert_task_summary_def Let_def json_simps)

theorem summary_upsert_keeps_witness:
  "jget (dict_or_empty (jget (dict_or_empty (jget
      (upsert_task_summary [(''task_summaries'', JDict [(''T001'', JDict [(''concerns'', JStr ''c'')])])] ''T001'' JNull JNull)
      ''task_summaries'')) ''T001'')) ''concerns'' = JStr ''c''"
  using summary_upsert_keeps [of "[(''T001'', JDict [(''concerns'', JStr ''c'')])]"
      "[(''task_summaries'', JDict [(''T001'', JDict [(''concerns'', JStr ''c'')])])]" _ "''T001''" JNull JNull "''T002''"]
  by (simp add: jget_def)

text \<open>
  A pending marker whose box holds a tab is recognised but never flipped: the replacement looks for
  a box with a space.  When the line has such a box further on, that one is flipped instead.
\<close>

lemma tab_box_is_not_flipped:
  "pending_id [CHR ''-'', CHR '' '', CHR ''['', CHR 0x09, CHR '']'', CHR '' '', CHR ''T'', CHR ''1''] = Some ''T1''"
  "flip_line [''T1''] [CHR ''-'', CHR '' '', CHR ''['', CHR 0x09, CHR '']'', CHR '' '', CHR ''T'', CHR ''1''] =
     [CHR ''-'', CHR '' '', CHR ''['', CHR 0x09, CHR '']'', CHR '' '', CHR ''T'', CHR ''1'']"
  by code_simp+

text \<open>
  A checkbox inside a fenced block is not a task when the markers are read, but it is flipped when
  a task of that id is journaled.
\<close>

lemma fenced_box_is_flipped:
  defines "fence \<equiv> [CHR 0x60, CHR 0x60, CHR 0x60] @ nl"
  shows "parse_task_markers (Some (fence @ ''- [ ] T1'' @ nl @ fence)) = ([], [])"
    and "mark_text [''T1''] (fence @ ''- [ ] T1'' @ nl @ fence) = fence @ ''- [x] T1'' @ nl @ fence"
  unfolding fence_def by code_simp+

end
