(* ===== verification/Lifecycle.thy ===== *)
theory Lifecycle
  imports TaskSync
begin

text \<open>
  The step lifecycle of \<open>write-context.py\<close>: opening and closing a step, the finish-only and the
  advancing close, and the promotion of a finished spec to \<open>completed\<close>.  The operations of this
  theory and of \<open>TaskSync\<close> are all the writers of the lifecycle log; at the end they become the
  steps of one machine whose reachable states are studied.
\<close>

subsection \<open>Opening and closing a step\<close>

text \<open>\<open>at or _now_iso()\<close>: a stamp handed in, unless it is missing or empty.\<close>

definition stamp :: "string option \<Rightarrow> feature \<Rightarrow> string" where
  "stamp at st = (case at of Some a \<Rightarrow> if a \<noteq> [] then a else clock st (ticks st) | None \<Rightarrow> clock st (ticks st))"

definition record_working_branch :: "feature \<Rightarrow> string \<Rightarrow> jdict \<Rightarrow> jdict" where
  "record_working_branch st kind ctx =
     (case (if kind = ''start'' then dir_branch st else None) of
        None \<Rightarrow> ctx
      | Some checked_out \<Rightarrow>
          (if checked_out \<noteq> [] \<and> checked_out \<noteq> ''HEAD''
           then (if jget ctx ''branch'' = JStr checked_out then jpop ''workingBranch'' ctx
                 else jput ''workingBranch'' (JStr checked_out) ctx)
           else ctx))"

definition update_log ::
  "json list \<Rightarrow> string \<Rightarrow> string \<Rightarrow> string option \<Rightarrow> string \<Rightarrow> string \<Rightarrow> json list option" where
  "update_log log step kind substep by now =
     (if kind = ''complete'' then append_complete log step substep None (JStr by) (JStr now)
      else map_option (\<lambda>started. if started then log else log @ [new_start step substep by now])
             (has_step_start log step substep))"

definition update_context ::
  "string \<Rightarrow> string option \<Rightarrow> string \<Rightarrow> string \<Rightarrow> string option \<Rightarrow> string option \<Rightarrow> feature \<Rightarrow> outcome \<times> feature" where
  "update_context step status by kind substep at st =
     (let now = stamp at st; ctx = read_ctx st in
      case (if ctx \<noteq> [] then is_more_advanced ctx step else Some False) of
        None \<Rightarrow> (Raised, st)
      | Some True \<Rightarrow> (Declined, st)
      | Some False \<Rightarrow>
          (let log = canonical_log ctx;
               ctx1 = record_working_branch st kind (fill_required st ctx)
           in case (if kind = ''start'' \<and> substep = None then has_complete log step None else Some False) of
                None \<Rightarrow> (Raised, st)
              | Some late_start \<Rightarrow>
                  (let ctx2 = (if late_start then ctx1 else jput ''currentStep'' (JStr step) ctx1);
                       ctx3 = (case status of
                                 Some s \<Rightarrow> if late_start then ctx2 else jput ''status'' (JStr s) ctx2
                               | None \<Rightarrow> ctx2)
                   in case update_log log step kind substep by now of
                        None \<Rightarrow> (Raised, st)
                      | Some log' \<Rightarrow> publish (commit_log ctx3 log') (tick 1 st))))"

definition journal_finish :: "string \<Rightarrow> string \<Rightarrow> string option \<Rightarrow> feature \<Rightarrow> outcome \<times> feature" where
  "journal_finish step by substep st =
     (if step \<notin> set (known_steps st) then (Declined, st)
      else case open_ctx st of
          None \<Rightarrow> (Raised, st)
        | Some None \<Rightarrow> (Declined, st)
        | Some (Some (ctx, log)) \<Rightarrow>
            (case append_complete log step substep None (JStr by) (now_json st 0) of
               None \<Rightarrow> (Raised, st)
             | Some log' \<Rightarrow> publish (commit_log ctx log') (tick 1 st)))"

definition journal_advance :: "string \<Rightarrow> string \<Rightarrow> feature \<Rightarrow> outcome \<times> feature" where
  "journal_advance step by st =
     (if step \<notin> set (known_steps st) then (Declined, st)
      else case open_ctx st of
          None \<Rightarrow> (Raised, st)
        | Some None \<Rightarrow> (Declined, st)
        | Some (Some (ctx, log)) \<Rightarrow>
            (case append_complete log step None None (JStr by) (now_json st 0) of
               None \<Rightarrow> (Raised, st)
             | Some log' \<Rightarrow>
                 (case STEP_COMPLETED_STATUS step of
                    None \<Rightarrow> publish (commit_log ctx log') (tick 1 st)
                  | Some completed_status \<Rightarrow>
                      (case is_more_advanced ctx step of
                         None \<Rightarrow> (Raised, st)
                       | Some True \<Rightarrow> publish (commit_log ctx log') (tick 1 st)
                       | Some False \<Rightarrow>
                           publish (commit_log (jput ''currentStep'' (JStr step)
                             (jput ''status'' (JStr completed_status) ctx)) log') (tick 1 st)))))"

subsection \<open>Completing a spec\<close>

definition UNVERIFIED_NOTE :: string where
  "UNVERIFIED_NOTE = ''finished, unverified''"

definition has_entries :: "json \<Rightarrow> bool" where
  "has_entries v \<longleftrightarrow> list_or_empty v \<noteq> []"

definition note_unverified :: "jdict \<Rightarrow> jdict" where
  "note_unverified ctx =
     (if \<not> has_entries (jget ctx ''verified'') \<and> \<not> truthy (jget ctx ''concerns'')
      then jput ''concerns'' (JList [JDict [(''note'', JStr UNVERIFIED_NOTE), (''step'', JStr ''implement'')]]) ctx
      else ctx)"

definition complete_record :: "bool \<Rightarrow> string \<Rightarrow> feature \<Rightarrow> (jdict \<times> json list) option" where
  "complete_record from_implementing by st =
     (let ctx = read_ctx st;
          log = canonical_log ctx;
          ctx1 = jsetdefault ''currentStep'' (JStr ''implement'') (fill_required st ctx);
          ctx2 = note_unverified (jput ''currentTask'' JNull (jput ''status'' (JStr ''completed'') ctx1))
      in map_option (Pair ctx2)
           (if from_implementing then append_complete log ''implement'' None None (JStr by) (now_json st 0)
            else Some log))"

definition mark_spec_complete :: "string \<Rightarrow> feature \<Rightarrow> outcome \<times> feature" where
  "mark_spec_complete by st =
     (let status = jget (read_ctx st) ''status'' in
      case in_names status CROSS_STEP_TERMINAL of
        None \<Rightarrow> (Raised, st)
      | Some True \<Rightarrow> (Declined, st)
      | Some False \<Rightarrow>
          (let from_implementing = (status = JStr ''implementing'' \<and> feature_tasks_at_100 st) in
           if status \<noteq> JStr ''implemented'' \<and> \<not> from_implementing then (Declined, st)
           else case materialize_log by st of
               (Raised, st1) \<Rightarrow> (Raised, st1)
             | (_, st1) \<Rightarrow>
                 (case complete_record from_implementing by st1 of
                    None \<Rightarrow> (Raised, st1)
                  | Some (ctx, log) \<Rightarrow>
                      (case publish (commit_log ctx log) (tick 1 st1) of
                         (Wrote, st2) \<Rightarrow> (Wrote, gc_events_log st2)
                       | refused \<Rightarrow> refused))))"

subsection \<open>All the writers of the log\<close>

datatype lifecycle_op =
    UpdateContext string "string option" string string "string option" "string option"
  | Finish string string "string option"
  | Advance string string
  | MarkComplete string
  | TaskFinish string string json json
  | TaskAppend string string json json
  | Materialize string
  | SyncTasks "string option option" string string
  | CloseTask string string json json

fun run_op :: "lifecycle_op \<Rightarrow> feature \<Rightarrow> outcome \<times> feature" where
  "run_op (UpdateContext step status by kind substep at) st = update_context step status by kind substep at st"
| "run_op (Finish step by substep) st = journal_finish step by substep st"
| "run_op (Advance step by) st = journal_advance step by st"
| "run_op (MarkComplete by) st = mark_spec_complete by st"
| "run_op (TaskFinish tid by did files) st = journal_task_finish tid by did files st"
| "run_op (TaskAppend tid by did files) st = append_task_log tid by did files st"
| "run_op (Materialize by) st = materialize_log by st"
| "run_op (SyncTasks sel final_status by) st = sync_tasks sel final_status by st"
| "run_op (CloseTask tid by did files) st = close_task tid by did files st"

text \<open>
  The life of a feature directory: the writers run one after another, and between them anything
  but the record itself may change (files edited, branches switched, time passing, a line torn).
\<close>

inductive life_step :: "feature \<Rightarrow> feature \<Rightarrow> bool" where
  op: "run_op oper st = (r, st') \<Longrightarrow> life_step st st'"
| world: "ctx_file st' = ctx_file st \<Longrightarrow> life_step st st'"

inductive life :: "feature \<Rightarrow> feature \<Rightarrow> bool" where
  here: "life st st"
| there: "life st st' \<Longrightarrow> life_step st' st'' \<Longrightarrow> life st st''"

inductive_cases life_stepE: "life_step st st'"

section \<open>Facts\<close>

subsection \<open>Logs grow\<close>

lemma update_log_grows: "update_log log step kind substep by now = Some log' \<Longrightarrow> log_grows log log'"
  by (auto simp: update_log_def intro: append_complete_grows append_start_grows split: if_splits)

lemma update_context_grows:
  assumes "update_context step status by kind substep at st = (r, st')"
  shows "log_grows (log_of st) (log_of st')"
  using assms
  by (auto simp: update_context_def Let_def log_of_def [symmetric] split: option.splits bool.splits if_splits
      dest!: update_log_grows elim!: publish_grows)

lemma journal_finish_grows:
  assumes "journal_finish step by substep st = (r, st')"
  shows "log_grows (log_of st) (log_of st')"
  by (cases rule: open_ctx_cases [of st])
     (use assms in \<open>auto simp: journal_finish_def split: option.splits if_splits
        dest!: append_complete_grows elim!: publish_grows\<close>)

lemma journal_advance_grows:
  assumes "journal_advance step by st = (r, st')"
  shows "log_grows (log_of st) (log_of st')"
  by (cases rule: open_ctx_cases [of st])
     (use assms in \<open>auto simp: journal_advance_def split: option.splits if_splits bool.splits
        dest!: append_complete_grows elim!: publish_grows\<close>)

lemma log_of_gc [simp]: "log_of (gc_events_log st) = log_of st"
  by (rule log_of_cong) (simp add: gc_events_log_def)

lemma complete_record_grows:
  "complete_record b by st = Some (ctx, log) \<Longrightarrow> log_grows (log_of st) log"
  by (auto simp: complete_record_def Let_def log_of_def intro: append_complete_grows split: if_splits)

lemma mark_spec_complete_grows:
  assumes "mark_spec_complete by st = (r, st')"
  shows "log_grows (log_of st) (log_of st')"
proof -
  obtain r1 st1 where m: "materialize_log by st = (r1, st1)" by fastforce
  have g: "log_grows (log_of st) (log_of st1)" using m by (rule materialize_log_grows)
  have pub: "log_grows (log_of st1) (log_of st2)"
    if "complete_record b by st1 = Some (ctx, log)" "publish (commit_log ctx log) (tick (Suc 0) st1) = (r2, st2)"
    for b ctx log r2 st2
    by (rule publish_grows [OF that(2) complete_record_grows [OF that(1)]]) simp
  have "log_grows (log_of st) (log_of st') \<or> log_grows (log_of st1) (log_of st')"
    using assms m g
    by (auto simp: mark_spec_complete_def Let_def split: option.splits bool.splits outcome.splits if_splits prod.splits
        dest: pub)
  then show ?thesis using g log_grows_trans by blast
qed

text \<open>Every writer lets the log grow, so a run of writers does.\<close>

lemma run_op_grows: "run_op oper st = (r, st') \<Longrightarrow> log_grows (log_of st) (log_of st')"
  by (cases oper) (auto intro: task_ops_grow update_context_grows journal_finish_grows
      journal_advance_grows mark_spec_complete_grows)

lemma life_grows: "life st st' \<Longrightarrow> log_grows (log_of st) (log_of st')"
proof (induction rule: life.induct)
  case (there st st' st'')
  from there.hyps(2) have "log_grows (log_of st') (log_of st'')"
  proof cases
    case (op oper r)
    then show ?thesis by (rule run_op_grows)
  next
    case world
    then show ?thesis using log_of_cong [of st'' st'] by simp
  qed
  then show ?case using there.IH log_grows_trans by blast
qed auto

subsection \<open>Shipped specs\<close>

lemma is_more_advanced_shipped: "shipped st \<Longrightarrow> is_more_advanced (read_ctx st) step = Some True"
  by (auto simp: is_more_advanced_def Let_def in_names_True CROSS_STEP_TERMINAL_def TERMINAL_STATUSES_def
      shipped_def status_of_def)

lemma shipped_nonempty: "shipped st \<Longrightarrow> read_ctx st \<noteq> []"
  by (auto simp: shipped_def status_of_def jget_def)

lemma run_op_shipped: "shipped st \<Longrightarrow> run_op oper st = (Declined, st)"
  by (cases oper)
     (auto simp: task_ops_shipped update_context_def Let_def shipped_nonempty is_more_advanced_shipped
       journal_finish_def journal_advance_def open_ctx_shipped mark_spec_complete_def)

lemma life_shipped: "life st st' \<Longrightarrow> shipped st \<Longrightarrow> ctx_file st' = ctx_file st"
proof (induction rule: life.induct)
  case (there st st' st'')
  then have same: "ctx_file st' = ctx_file st" by simp
  then have "shipped st'" using there.prems by (simp add: shipped_def status_of_def read_ctx_def)
  from there.hyps(2) have "ctx_file st'' = ctx_file st'"
    by cases (use \<open>shipped st'\<close> in \<open>auto simp: run_op_shipped\<close>)
  then show ?case using same by simp
qed auto

subsection \<open>Readable directories stay readable\<close>

lemma jget_record_working_branch [json_simps]:
  "k \<noteq> ''workingBranch'' \<Longrightarrow> jget (record_working_branch st kind ctx) k = jget ctx k"
  by (simp add: record_working_branch_def json_simps split: option.splits)

lemma ctx_ok_record_working_branch [simp]: "ctx_ok (record_working_branch st kind ctx) = ctx_ok ctx"
  by (simp add: ctx_ok_def json_simps)

lemma update_log_total: "log_ok log \<Longrightarrow> \<exists>log'. update_log log step kind substep by now = Some log'"
  by (simp add: update_log_def append_complete_total has_step_start_total)

text \<open>
  What an accepted start or completion writes.  \<open>late\<close> says that the step had already been
  closed when a step-level start arrived.
\<close>

lemma update_context_cases:
  assumes "update_context step status by kind substep at st = (r, st')"
  obtains "st' = st" "r \<noteq> Wrote" "r = Raised \<longrightarrow>
        is_more_advanced (read_ctx st) step = None \<or> has_complete (log_of st) step None = None \<or>
        update_log (log_of st) step kind substep by (stamp at st) = None"
    | late log' c where "r = Wrote" "update_log (log_of st) step kind substep by (stamp at st) = Some log'"
        "late = (kind = ''start'' \<and> substep = None \<and> has_complete (log_of st) step None = Some True)"
        "read_ctx st \<noteq> [] \<longrightarrow> is_more_advanced (read_ctx st) step = Some False"
        "c = (let c1 = record_working_branch st kind (fill_required st (read_ctx st)) in
              if late then c1
              else case status of None \<Rightarrow> jput ''currentStep'' (JStr step) c1
                | Some s \<Rightarrow> jput ''status'' (JStr s) (jput ''currentStep'' (JStr step) c1))"
        "publish (commit_log c log') (tick 1 st) = (r, st')"
proof -
  let ?c1 = "record_working_branch st kind (fill_required st (read_ctx st))"
  let ?adv = "if read_ctx st \<noteq> [] then is_more_advanced (read_ctx st) step else Some False"
  let ?late = "if kind = ''start'' \<and> substep = None then has_complete (log_of st) step None else Some False"
  let ?upd = "update_log (log_of st) step kind substep by (stamp at st)"
  show thesis
  proof (cases "?adv = Some False \<and> ?late \<noteq> None \<and> ?upd \<noteq> None")
    case False
    then show thesis using assms
      by (intro that(1))
         (auto simp: update_context_def Let_def log_of_def split: option.splits bool.splits if_splits)
  next
    case True
    then obtain l log' where l: "?late = Some l" and u: "?upd = Some log'" by auto
    let ?c = "if l then ?c1 else case status of None \<Rightarrow> jput ''currentStep'' (JStr step) ?c1
        | Some s \<Rightarrow> jput ''status'' (JStr s) (jput ''currentStep'' (JStr step) ?c1)"
    have p: "publish (commit_log ?c log') (tick 1 st) = (r, st')"
      using assms True l u
      by (cases l; cases status) (simp_all add: update_context_def Let_def log_of_def [symmetric])
    have "r = Wrote" using publish_commit_effect(1) [OF p update_log_grows [OF u]] by simp
    then show thesis using that(2) [OF _ u, of l ?c] l True p by (auto simp: Let_def split: if_splits)
  qed
qed

lemma update_context_readable:
  assumes "update_context step status by kind substep at st = (r, st')" and "readable st"
  shows "r \<noteq> Raised \<and> readable st'"
  using assms(1)
proof (cases rule: update_context_cases)
  case 1
  have "log_ok (log_of st)" "ctx_ok (read_ctx st)" using assms(2) by (simp_all add: readable_def)
  then have "\<exists>b. is_more_advanced (read_ctx st) step = Some b"
      "\<exists>b. has_complete (log_of st) step None = Some b"
      "\<exists>l. update_log (log_of st) step kind substep by (stamp at st) = Some l"
    using is_more_advanced_total has_complete_total update_log_total by (auto simp: ctx_ok_def)
  then show ?thesis using 1 assms(2) by auto
next
  case (2 late log' c)
  have "ctx_ok (read_ctx st)" using assms(2) by (simp add: readable_def)
  then have "ctx_ok c" by (simp add: 2(5) Let_def split: option.split)
  then show ?thesis using publish_readable [OF 2(6) update_log_grows [OF 2(2)]] assms(2) by simp
qed

lemma journal_finish_readable:
  assumes "journal_finish step by substep st = (r, st')" and "readable st"
  shows "r \<noteq> Raised \<and> readable st'"
proof (cases rule: open_ctx_cases [of st])
  case 3
  obtain log' where a: "append_complete (log_of st) step substep None (JStr by) (now_json st 0) = Some log'"
    using append_complete_total [of "log_of st" step substep None "JStr by" "now_json st 0"] assms(2)
    by (auto simp: readable_def)
  have "log_grows (log_of st) log'" using append_complete_grows [OF a] by simp
  then show ?thesis
    using assms 3 a publish_readable [of "fill_required st (read_ctx st)" log' "tick (Suc 0) st" r st' st]
    by (auto simp: journal_finish_def readable_def split: if_splits)
qed (use assms readable_not_unhashable in \<open>auto simp: journal_finish_def split: if_splits\<close>)

lemma is_more_advanced_cong:
  "jget c ''status'' = jget d ''status'' \<Longrightarrow> jget c ''currentStep'' = jget d ''currentStep'' \<Longrightarrow>
   is_more_advanced c step = is_more_advanced d step"
  by (simp only: is_more_advanced_def)

lemma is_more_advanced_fill [simp]: "is_more_advanced (fill_required st ctx) step = is_more_advanced ctx step"
  by (rule is_more_advanced_cong) (simp_all add: json_simps)

lemma journal_advance_cases:
  assumes "journal_advance step by st = (r, st')"
  obtains "st' = st" "r = Declined" "step \<notin> set (known_steps st) \<or> shipped st"
    | "st' = st" "r = Raised" "in_names (status_of st) CROSS_STEP_TERMINAL = None \<or>
        append_complete (log_of st) step None None (JStr by) (now_json st 0) = None \<or>
        is_more_advanced (read_ctx st) step = None"
    | log' c where "append_complete (log_of st) step None None (JStr by) (now_json st 0) = Some log'"
        "publish (commit_log c log') (tick 1 st) = (r, st')"
        "c = fill_required st (read_ctx st) \<or>
         (\<exists>s. STEP_COMPLETED_STATUS step = Some s \<and> is_more_advanced (read_ctx st) step = Some False \<and>
           c = jput ''currentStep'' (JStr step) (jput ''status'' (JStr s) (fill_required st (read_ctx st))))"
proof (cases "step \<in> set (known_steps st)")
  case False
  then show thesis using assms by (intro that(1)) (simp_all add: journal_advance_def)
next
  case known: True
  show thesis
  proof (cases rule: open_ctx_cases [of st])
    case 1
    then show thesis using assms known by (intro that(2)) (simp_all add: journal_advance_def)
  next
    case 2
    then show thesis using assms known by (intro that(1)) (simp_all add: journal_advance_def)
  next
    case 3
    show thesis
    proof (cases "append_complete (log_of st) step None None (JStr by) (now_json st 0)")
      case None
      then show thesis using assms known 3 by (intro that(2)) (simp_all add: journal_advance_def)
    next
      case (Some log')
      then show thesis using assms known 3
        by (cases "STEP_COMPLETED_STATUS step"; cases "is_more_advanced (read_ctx st) step")
           (auto simp: journal_advance_def split: bool.splits intro: that(2) that(3) [OF Some])
    qed
  qed
qed

lemma journal_advance_readable:
  assumes "journal_advance step by st = (r, st')" and "readable st"
  shows "r \<noteq> Raised \<and> readable st'"
  using assms(1)
proof (cases rule: journal_advance_cases)
  case 2
  have "log_ok (log_of st)" "ctx_ok (read_ctx st)" using assms(2) by (simp_all add: readable_def)
  then have "\<exists>l. append_complete (log_of st) step None None (JStr by) (now_json st 0) = Some l"
      "\<exists>b. is_more_advanced (read_ctx st) step = Some b"
    using append_complete_total is_more_advanced_total by (auto simp: ctx_ok_def)
  then show ?thesis
    using 2(3) readable_not_unhashable [OF assms(2), of CROSS_STEP_TERMINAL] by auto
next
  case (3 log' c)
  have "ctx_ok (read_ctx st)" using assms(2) by (simp add: readable_def)
  then have "ctx_ok c" using 3(3) by auto
  moreover have "log_grows (log_of st) log'" using append_complete_grows [OF 3(1)] by simp
  ultimately show ?thesis using publish_readable [OF 3(2)] assms(2) by simp
qed (use assms(2) in auto)

lemma mark_spec_complete_cases:
  assumes "mark_spec_complete by st = (r, st')"
  obtains (stay) "r \<noteq> Wrote" "st' = st" "r = Raised \<longrightarrow> in_names (status_of st) CROSS_STEP_TERMINAL = None"
    | (stopped) r1 b where "materialize_log by st = (r1, st')" "r = Raised"
        "r1 = Raised \<or> complete_record b by st' = None"
    | (promoted) b r1 st1 ctx log st2 where "r = Wrote" "st' = gc_events_log st2"
        "b = (status_of st = JStr ''implementing'' \<and> feature_tasks_at_100 st)"
        "status_of st = JStr ''implemented'' \<or> b"
        "materialize_log by st = (r1, st1)" "complete_record b by st1 = Some (ctx, log)"
        "publish (commit_log ctx log) (tick 1 st1) = (Wrote, st2)"
proof -
  obtain r1 st1 where m: "materialize_log by st = (r1, st1)" by fastforce
  let ?b = "status_of st = JStr ''implementing'' \<and> feature_tasks_at_100 st"
  show thesis
  proof (cases "in_names (status_of st) CROSS_STEP_TERMINAL = Some False \<and> (status_of st = JStr ''implemented'' \<or> ?b)")
    case False
    then show thesis using assms
      by (intro stay) (auto simp: mark_spec_complete_def status_of_def Let_def split: option.splits bool.splits if_splits)
  next
    case True
    have run: "mark_spec_complete by st =
        (if r1 = Raised then (Raised, st1)
         else case complete_record ?b by st1 of
             None \<Rightarrow> (Raised, st1)
           | Some (ctx, log) \<Rightarrow>
               (case publish (commit_log ctx log) (tick 1 st1) of
                  (Wrote, st2) \<Rightarrow> (Wrote, gc_events_log st2)
                | refused \<Rightarrow> refused))"
      using True m by (auto simp: mark_spec_complete_def status_of_def Let_def split: outcome.split)
    show thesis
    proof (cases "r1 = Raised \<or> complete_record ?b by st1 = None")
      case True
      then show thesis using run assms m by (intro stopped [of r1 ?b]) (auto split: if_splits)
    next
      case False
      then obtain ctx log where c: "complete_record ?b by st1 = Some (ctx, log)" by auto
      obtain r2 st2 where p: "publish (commit_log ctx log) (tick 1 st1) = (r2, st2)" by fastforce
      have "r2 = Wrote" using publish_commit_effect(1) [OF p complete_record_grows [OF c]] by simp
      then show thesis using run assms m c p True False
        by (intro promoted [of st2 ?b r1 st1 ctx log]) auto
    qed
  qed
qed

lemma complete_record_effect:
  assumes "complete_record b by st = Some (ctx, log)"
  shows "jget ctx ''status'' = JStr ''completed''" and "jget ctx ''currentTask'' = JNull"
    and "has_entries (jget ctx ''verified'') \<or> truthy (jget ctx ''concerns'')"
    and "b \<Longrightarrow> \<exists>j \<in> set log. is_complete_of ''implement'' None j"
    and "ctx_ok (read_ctx st) \<Longrightarrow> ctx_ok ctx"
proof -
  have log: "b \<Longrightarrow> append_complete (log_of st) ''implement'' None None (JStr by) (now_json st 0) = Some log"
    using assms by (auto simp: complete_record_def Let_def log_of_def)
  show "b \<Longrightarrow> \<exists>j \<in> set log. is_complete_of ''implement'' None j"
    using append_complete_records [OF log] by simp
qed (use assms in \<open>auto simp: complete_record_def Let_def note_unverified_def json_simps ctx_ok_def
      split: if_splits\<close>)

lemma complete_record_step:
  "complete_record b by st = Some (ctx, log) \<Longrightarrow>
   jget ctx ''currentStep'' = jget (read_ctx st) ''currentStep'' \<or> jget ctx ''currentStep'' = JStr ''implement''"
  by (auto simp: complete_record_def Let_def note_unverified_def json_simps split: if_splits)

lemma complete_record_total: "log_ok (log_of st) \<Longrightarrow> \<exists>cl. complete_record b by st = Some cl"
  using append_complete_total [of "log_of st" "''implement''" None None "JStr by" "now_json st 0"]
  by (auto simp: complete_record_def Let_def log_of_def)

lemma readable_gc: "readable st \<Longrightarrow> readable (gc_events_log st)"
  by (simp add: readable_def gc_events_log_def log_of_def read_ctx_def)

lemma mark_spec_complete_readable:
  assumes "mark_spec_complete by st = (r, st')" and "readable st"
  shows "r \<noteq> Raised \<and> readable st'"
  using assms(1)
proof (cases rule: mark_spec_complete_cases)
  case stay
  then show ?thesis using readable_not_unhashable [OF assms(2)] assms(2) by auto
next
  case (stopped r1 b)
  then show ?thesis using materialize_log_readable [OF stopped(1) assms(2)] complete_record_total
    by (metis option.distinct(1) readable_def)
next
  case (promoted b r1 st1 ctx log st2)
  have r: "readable st1" using materialize_log_readable [OF promoted(5) assms(2)] by simp
  then have "ctx_ok ctx" using complete_record_effect(5) [OF promoted(6)] by (simp add: readable_def)
  then have "readable st2"
    using publish_readable [OF promoted(7) complete_record_grows [OF promoted(6)]] r by simp
  then show ?thesis using promoted(1,2) by (simp add: readable_gc)
qed

lemma run_op_readable: "run_op oper st = (r, st') \<Longrightarrow> readable st \<Longrightarrow> r \<noteq> Raised \<and> readable st'"
  by (cases oper)
     (auto dest: task_ops_readable update_context_readable journal_finish_readable
       journal_advance_readable mark_spec_complete_readable)

subsection \<open>Who writes which status\<close>

lemma status_moves_completed:
  "status_moves c d \<Longrightarrow> jget d ''status'' = JStr ''completed'' \<Longrightarrow> jget c ''status'' = JStr ''completed''"
  by (auto simp: status_moves_def)

lemma journal_task_finish_effect:
  assumes "journal_task_finish tid by did files st = (r, st')"
  shows "status_moves (read_ctx st) (read_ctx st')"
proof (cases "st' = st \<or> st' = mark_tasks_done [tid] st")
  case False
  let ?st1 = "mark_tasks_done [tid] st"
  let ?m = "parse_task_markers (tasks_md ?st1)"
  from False assms obtain cl1 ctx log where
      f: "fold_task_finish (fill_required st (read_ctx st), log_of st) tid (JStr by) did files (now_json st 0) ?m = Some cl1"
    and c: "maybe_close_implement cl1 (JStr by) (now_json st 1) ?m = Some (ctx, log)"
    and p: "publish (commit_log ctx log) (tick 2 ?st1) = (r, st')"
    by (cases rule: open_ctx_cases [of st])
       (auto simp: journal_task_finish_def Let_def split: option.splits bind_splits)
  have g: "log_grows (log_of st) log"
    using fold_task_finish_grows [OF f] maybe_close_grows [OF c] log_grows_trans by fastforce
  have "status_moves (read_ctx st) ctx"
    using fold_task_finish_effect(1) [OF f] maybe_close_effect(1) [OF c] status_moves_trans by fastforce
  then show ?thesis using publish_commit_effect(4) [OF p g] by (simp add: status_moves_def)
qed auto

lemma append_task_log_read: "append_task_log tid by did files st = (r, st') \<Longrightarrow> read_ctx st' = read_ctx st"
  using append_task_log_frame by (simp add: read_ctx_def)

lemma close_task_effect:
  assumes "close_task tid by did files st = (r, st')"
  shows "status_moves (read_ctx st) (read_ctx st')"
proof -
  obtain r1 st1 where a: "append_task_log tid by did files st = (r1, st1)" by fastforce
  obtain r2 st2 where m: "materialize_log by st1 = (r2, st2)" by fastforce
  have "st' = st1 \<or> st' = st2"
    using assms a m by (auto simp: close_task_def split: outcome.splits)
  then show ?thesis using materialize_log_effect(1) [OF m] append_task_log_read [OF a] by auto
qed

lemma journal_finish_status:
  assumes "journal_finish step by substep st = (r, st')" and "k \<in> {''status'', ''currentStep''}"
  shows "jget (read_ctx st') k = jget (read_ctx st) k"
proof (cases "st' = st")
  case False
  with assms(1) obtain log' where a: "append_complete (log_of st) step substep None (JStr by) (now_json st 0) = Some log'"
    and p: "publish (commit_log (fill_required st (read_ctx st)) log') (tick 1 st) = (r, st')"
    by (cases rule: open_ctx_cases [of st]) (auto simp: journal_finish_def split: option.splits if_splits)
  have "log_grows (log_of st) log'" using append_complete_grows [OF a] by simp
  then show ?thesis using publish_commit_effect(4) [OF p, of st k] assms(2) by (auto simp: json_simps)
qed simp

subsection \<open>Never backwards\<close>

text \<open>
  The rank of a current step, with \<open>converge\<close> counted as \<open>implement\<close> as the guard does; a step
  outside the canonical order has none.
\<close>

definition pipeline_rank :: "json \<Rightarrow> nat option" where
  "pipeline_rank v =
     (case v of JStr c \<Rightarrow> STEP_ORDER (if c = ''converge'' then ''implement'' else c) | _ \<Rightarrow> None)"

definition rank_le :: "jdict \<Rightarrow> jdict \<Rightarrow> bool" where
  "rank_le c d \<longleftrightarrow>
     (\<forall>a. pipeline_rank (jget c ''currentStep'') = Some a \<longrightarrow>
        (\<exists>b. pipeline_rank (jget d ''currentStep'') = Some b \<and> a \<le> b))"

lemma rank_le_same: "jget d ''currentStep'' = jget c ''currentStep'' \<Longrightarrow> rank_le c d"
  by (simp add: rank_le_def)

lemma rank_le_trans: "rank_le a b \<Longrightarrow> rank_le b c \<Longrightarrow> rank_le a c"
  by (fastforce simp: rank_le_def)

lemma STEP_ORDER_canonical: "STEP_ORDER c \<noteq> None \<longleftrightarrow> c \<in> set CANONICAL_STEPS"
  by (auto simp: STEP_ORDER_def CANONICAL_STEPS_def)

lemma pipeline_rank_max: "pipeline_rank v = Some a \<Longrightarrow> a \<le> 5"
  by (auto simp: pipeline_rank_def STEP_ORDER_def split: json.splits if_splits)

lemma rank_le_implement: "jget d ''currentStep'' = JStr ''implement'' \<Longrightarrow> rank_le c d"
  using pipeline_rank_max by (auto simp: rank_le_def pipeline_rank_def STEP_ORDER_def)

lemma rank_le_converge: "jget d ''currentStep'' = JStr ''converge'' \<Longrightarrow> rank_le c d"
  using pipeline_rank_max by (auto simp: rank_le_def pipeline_rank_def STEP_ORDER_def)

lemma rank_le_moves: "status_moves c d \<Longrightarrow> rank_le c d"
  by (auto simp: status_moves_def intro: rank_le_same rank_le_implement)

lemma is_more_advanced_rank:
  assumes "is_more_advanced ctx step = Some False" and "STEP_ORDER step = Some n" and "step \<noteq> ''converge''"
    and "pipeline_rank (jget ctx ''currentStep'') = Some a"
  shows "a \<le> n"
proof -
  obtain c where c: "jget ctx ''currentStep'' = JStr c"
    using assms(4) by (auto simp: pipeline_rank_def split: json.splits)
  let ?c = "if c = ''converge'' then ''implement'' else c"
  have a: "STEP_ORDER ?c = Some a" using assms(4) by (simp add: pipeline_rank_def c)
  then have "?c \<in> set CANONICAL_STEPS" using STEP_ORDER_canonical [of ?c] by auto
  then show ?thesis
    using assms(1-3) a
    by (auto simp: is_more_advanced_def Let_def c split: option.splits bool.splits if_splits)
qed

lemma rank_le_step:
  assumes "is_more_advanced ctx step = Some False" and "STEP_ORDER step \<noteq> None"
    and "jget d ''currentStep'' = JStr step"
  shows "rank_le ctx d"
proof (cases "step = ''converge''")
  case True
  then show ?thesis using assms(3) rank_le_converge by simp
next
  case False
  obtain n where n: "STEP_ORDER step = Some n" using assms(2) by auto
  then show ?thesis
    using is_more_advanced_rank [OF assms(1) n False] assms(3) False
    by (simp add: rank_le_def pipeline_rank_def)
qed

lemma update_context_rank:
  assumes "update_context step status by kind substep at st = (r, st')" and "STEP_ORDER step \<noteq> None"
  shows "rank_le (read_ctx st) (read_ctx st')"
  using assms(1)
proof (cases rule: update_context_cases)
  case 1
  then show ?thesis by (simp add: rank_le_same)
next
  case (2 late log' c)
  have eff: "jget (read_ctx st') ''currentStep'' = jget c ''currentStep''"
    using publish_commit_effect(4) [OF 2(6) update_log_grows [OF 2(2)]] by simp
  show ?thesis
  proof (cases "late \<or> read_ctx st = []")
    case True
    then show ?thesis
    proof
      assume late
      then show ?thesis using eff by (intro rank_le_same) (simp add: 2(5) json_simps)
    next
      assume "read_ctx st = []"
      then show ?thesis by (simp add: rank_le_def pipeline_rank_def jget_def)
    qed
  next
    case False
    then have "jget c ''currentStep'' = JStr step"
      by (simp add: 2(5) Let_def json_simps split: option.split)
    then show ?thesis using False 2(4) assms(2) eff by (intro rank_le_step) auto
  qed
qed

lemma journal_advance_rank:
  assumes "journal_advance step by st = (r, st')"
  shows "rank_le (read_ctx st) (read_ctx st')"
  using assms
proof (cases rule: journal_advance_cases)
  case (3 log' c)
  have "log_grows (log_of st) log'" using append_complete_grows [OF 3(1)] by simp
  then have eff: "jget (read_ctx st') ''currentStep'' = jget c ''currentStep''"
    using publish_commit_effect(4) [OF 3(2)] by simp
  from 3(3) show ?thesis
  proof
    assume "c = fill_required st (read_ctx st)"
    then show ?thesis using eff by (intro rank_le_same) (simp add: json_simps)
  next
    assume "\<exists>s. STEP_COMPLETED_STATUS step = Some s \<and> is_more_advanced (read_ctx st) step = Some False \<and>
           c = jput ''currentStep'' (JStr step) (jput ''status'' (JStr s) (fill_required st (read_ctx st)))"
    then have "is_more_advanced (read_ctx st) step = Some False" "jget c ''currentStep'' = JStr step"
        "STEP_ORDER step \<noteq> None"
      by (auto simp: json_simps STEP_COMPLETED_STATUS_def STEP_ORDER_def split: if_splits)
    then show ?thesis using eff by (intro rank_le_step) auto
  qed
qed (simp_all add: rank_le_same)

lemma mark_spec_complete_rank:
  assumes "mark_spec_complete by st = (r, st')"
  shows "rank_le (read_ctx st) (read_ctx st')"
  using assms
proof (cases rule: mark_spec_complete_cases)
  case stay
  then show ?thesis by (simp add: rank_le_same)
next
  case (stopped r1 b)
  then show ?thesis using materialize_log_effect(1) rank_le_moves by blast
next
  case (promoted b r1 st1 ctx log st2)
  have "rank_le (read_ctx st) (read_ctx st1)" using materialize_log_effect(1) [OF promoted(5)] rank_le_moves by blast
  moreover have "rank_le (read_ctx st1) ctx"
    using complete_record_step [OF promoted(6)] rank_le_same rank_le_implement by blast
  moreover have "jget (read_ctx st') ''currentStep'' = jget ctx ''currentStep''"
    using publish_commit_effect(4) [OF promoted(7) complete_record_grows [OF promoted(6)], of "''currentStep''"]
      promoted(2) by (simp add: gc_events_log_def read_ctx_def)
  ultimately show ?thesis by (auto simp: rank_le_def)
qed

lemma sync_tasks_rank:
  assumes "sync_tasks sel final_status by st = (r, st')"
  shows "rank_le (read_ctx st) (read_ctx st')"
  using assms
proof (cases rule: sync_tasks_cases)
  case 1
  then show ?thesis by (simp add: rank_le_same)
next
  case (2 r1)
  then show ?thesis using materialize_log_effect(1) rank_le_moves by blast
next
  case (3 r1 st1 m ctx log k)
  then show ?thesis
    using publish_commit_effect(4) [OF 3(4) sync_body_grows [OF 3(3)], of "''currentStep''"]
      sync_body_effect(2) [OF 3(3)] by (intro rank_le_implement) simp
qed

section \<open>Properties\<close>

text \<open>C1: The lifecycle log is append-only.  Along any life of a feature directory, whatever writers
  run and whatever else changes between them, every entry that was in the log is still there, in
  its place; writers only add at the end.\<close>

theorem history_append_only: "life st st' \<Longrightarrow> prefix (log_of st) (log_of st')"
  by (rule log_grows_prefix [OF life_grows])

theorem history_append_only_witness:
  "prefix (log_of (example_dir ''planning'' ''plan'' []))
     (log_of (snd (run_op (Finish ''plan'' ''ai'' None) (example_dir ''planning'' ''plan'' [])))) \<and>
   length (log_of (snd (run_op (Finish ''plan'' ''ai'' None) (example_dir ''planning'' ''plan'' [])))) = 1"
proof
  let ?s = "example_dir ''planning'' ''plan'' []"
  have "life ?s (snd (run_op (Finish ''plan'' ''ai'' None) ?s))"
    by (rule life.there [OF life.here life_step.op]) (rule prod.collapse [symmetric])
  then show "prefix (log_of ?s) (log_of (snd (run_op (Finish ''plan'' ''ai'' None) ?s)))"
    by (rule history_append_only)
  show "length (log_of (snd (run_op (Finish ''plan'' ''ai'' None) ?s))) = 1"
    by code_simp
qed





text \<open>C38: No writer raises on a directory whose record and event lines have the shapes the scripts
  write, and every writer leaves such a directory behind.\<close>

theorem writers_total:
  "readable st \<Longrightarrow> fst (run_op oper st) \<noteq> Raised \<and> readable (snd (run_op oper st))"
  using run_op_readable [of oper st "fst (run_op oper st)" "snd (run_op oper st)"] by simp

theorem writers_total_witness:
  "fst (run_op (MarkComplete ''ai'') (example_dir ''implementing'' ''implement'' [])) \<noteq> Raised"
proof -
  have "readable (example_dir ''implementing'' ''implement'' [])"
    by (simp add: readable_def ctx_ok_def jget_def example_dir_def log_of_def read_ctx_def canonical_log_def)
  then show ?thesis using writers_total by blast
qed

text \<open>Only the completion command moves a spec to \<open>completed\<close>, apart from a caller that names
  that very status to the plain step write or to the task sync.\<close>

theorem completed_only_by_mark_complete:
  assumes "run_op oper st = (r, st')" and "status_of st' = JStr ''completed''"
    and "status_of st \<noteq> JStr ''completed''"
  shows "(\<exists>by. oper = MarkComplete by) \<or>
         (\<exists>step by kind substep at. oper = UpdateContext step (Some ''completed'') by kind substep at) \<or>
         (\<exists>sel by. oper = SyncTasks sel ''completed'' by)"
proof (cases oper)
  case (UpdateContext step status "by" kind substep at)
  from assms(1) have "update_context step status by kind substep at st = (r, st')" by (simp add: UpdateContext)
  then show ?thesis
  proof (cases rule: update_context_cases)
    case 1
    then show ?thesis using assms(2,3) by simp
  next
    case (2 late log' c)
    have "jget c ''status'' = JStr ''completed''"
      using publish_commit_effect(4) [OF 2(6) update_log_grows [OF 2(2)], of "''status''"] assms(2)
      by (simp add: status_of_def)
    then show ?thesis using assms(3) UpdateContext
      by (auto simp: 2(5) Let_def json_simps status_of_def split: if_splits option.splits)
  qed
next
  case (Advance step "by")
  from assms(1) have "journal_advance step by st = (r, st')" by (simp add: Advance)
  then show ?thesis
  proof (cases rule: journal_advance_cases)
    case (3 log' c)
    have "log_grows (log_of st) log'" using append_complete_grows [OF 3(1)] by simp
    then have "jget c ''status'' = JStr ''completed''"
      using publish_commit_effect(4) [OF 3(2), of st "''status''"] assms(2) by (simp add: status_of_def)
    then show ?thesis using assms(3) 3(3)
      by (auto simp: json_simps status_of_def STEP_COMPLETED_STATUS_def split: if_splits)
  qed (use assms(2,3) in auto)
next
  case (SyncTasks sel final_status "by")
  from assms(1) have "sync_tasks sel final_status by st = (r, st')" by (simp add: SyncTasks)
  then show ?thesis
  proof (cases rule: sync_tasks_cases)
    case 1
    then show ?thesis using assms(2,3) by simp
  next
    case (2 r1)
    then show ?thesis
      using materialize_log_effect(1) [OF 2(1)] status_moves_completed assms(2,3) by (auto simp: status_of_def)
  next
    case (3 r1 st1 m ctx log k)
    then show ?thesis using SyncTasks assms(2)
        publish_commit_effect(4) [OF 3(4) sync_body_grows [OF 3(3)], of "''status''"] sync_body_effect(1) [OF 3(3)]
      by (auto simp: status_of_def split: if_splits)
  qed
next
  case (Finish step "by" substep)
  then show ?thesis using assms journal_finish_status [of step "by" substep st r st' "''status''"]
    by (simp add: status_of_def)
qed (use assms materialize_log_effect(1) journal_task_finish_effect close_task_effect status_moves_completed
      append_task_log_read in \<open>fastforce simp: status_of_def\<close>)+

theorem completed_only_by_mark_complete_witness:
  "status_of (snd (run_op (MarkComplete ''ai'') (example_dir ''implemented'' ''implement'' []))) = JStr ''completed'' \<and>
   (\<exists>by. MarkComplete ''ai'' = MarkComplete by)"
proof
  let ?s = "example_dir ''implemented'' ''implement'' []"
  show st: "status_of (snd (run_op (MarkComplete ''ai'') ?s)) = JStr ''completed''" by code_simp
  show "\<exists>by. MarkComplete ''ai'' = MarkComplete by"
    using completed_only_by_mark_complete [OF prod.collapse [symmetric] st] by simp
qed

text \<open>C25: Completing a spec is guarded: it succeeds only from \<open>implemented\<close>, or from \<open>implementing\<close>
  with every task checked (and then the implement step is closed in the log).  What it leaves is
  the status \<open>completed\<close>, no current task, no append log, and a verification or a concern.\<close>

theorem mark_complete_guard:
  assumes "mark_spec_complete by st = (Wrote, st')"
  shows "status_of st' = JStr ''completed'' \<and> jget (read_ctx st') ''currentTask'' = JNull \<and> events st' = None \<and>
    (status_of st = JStr ''implemented'' \<or>
      status_of st = JStr ''implementing'' \<and> feature_tasks_at_100 st \<and>
      (\<exists>j \<in> set (log_of st'). is_complete_of ''implement'' None j)) \<and>
    (has_entries (jget (read_ctx st') ''verified'') \<or> truthy (jget (read_ctx st') ''concerns''))"
  using assms
proof (cases rule: mark_spec_complete_cases)
  case (promoted b r1 st1 ctx log st2)
  note eff = publish_commit_effect [OF promoted(7) complete_record_grows [OF promoted(6)]]
  have read: "read_ctx st' = read_ctx st2" "log_of st' = log_of st2" "events st' = None"
    using promoted(2) by (simp_all add: gc_events_log_def read_ctx_def log_of_def)
  show ?thesis
    using complete_record_effect(1-4) [OF promoted(6)] eff(2,4) promoted(3,4)
    by (auto simp: read status_of_def)
qed simp_all

theorem mark_complete_guard_witness:
  "events (snd (mark_spec_complete ''ai'' (example_dir ''implementing'' ''implement'' []))) = None \<and>
   (\<exists>j \<in> set (log_of (snd (mark_spec_complete ''ai'' (example_dir ''implementing'' ''implement'' [])))).
      is_complete_of ''implement'' None j)"
proof -
  let ?s = "example_dir ''implementing'' ''implement'' []"
  have "fst (mark_spec_complete ''ai'' ?s) = Wrote" by code_simp
  then have "mark_spec_complete ''ai'' ?s = (Wrote, snd (mark_spec_complete ''ai'' ?s))"
    by (simp add: prod_eq_iff)
  from mark_complete_guard [OF this] show ?thesis by simp
qed

text \<open>Completing always succeeds where it may: on a readable directory whose spec is implemented,
  the completion command writes.\<close>

theorem mark_complete_succeeds:
  assumes "readable st" and "status_of st = JStr ''implemented''"
  shows "fst (mark_spec_complete by st) = Wrote"
proof -
  obtain r1 st1 where s: "materialize_log by st = (r1, st1)" by fastforce
  have r1: "r1 \<noteq> Raised" "readable st1" using materialize_log_readable [OF s assms(1)] by auto
  obtain ctx log where c: "complete_record False by st1 = Some (ctx, log)"
    using complete_record_total [of st1 False "by"] r1(2) by (auto simp: readable_def)
  obtain r2 st2 where p: "publish (commit_log ctx log) (tick 1 st1) = (r2, st2)" by fastforce
  have "r2 = Wrote" using publish_commit_effect(1) [OF p complete_record_grows [OF c]] by simp
  then show ?thesis using s r1 c p assms(2)
    by (cases r1) (simp_all add: mark_spec_complete_def status_of_def CROSS_STEP_TERMINAL_def)
qed

theorem mark_complete_succeeds_witness:
  "fst (mark_spec_complete ''ai'' (example_dir ''implemented'' ''implement'' [])) = Wrote"
  by (rule mark_complete_succeeds)
     (simp_all add: readable_def ctx_ok_def jget_def example_dir_def log_of_def read_ctx_def canonical_log_def status_of_def)

text \<open>C7: The pipeline never moves backwards.  Whatever writer runs, short of opening a step outside
  the canonical order, the rank of the current step does not drop.\<close>

theorem never_regresses:
  assumes "run_op oper st = (r, st')" and "pipeline_rank (jget (read_ctx st) ''currentStep'') = Some a"
    and "\<And>step status by kind substep at. oper = UpdateContext step status by kind substep at \<Longrightarrow> STEP_ORDER step \<noteq> None"
  shows "\<exists>b. pipeline_rank (jget (read_ctx st') ''currentStep'') = Some b \<and> a \<le> b"
proof -
  have "rank_le (read_ctx st) (read_ctx st')"
    using assms(1,3)
    by (cases oper)
       (auto intro: update_context_rank journal_advance_rank mark_spec_complete_rank sync_tasks_rank
          rank_le_moves [OF materialize_log_effect(1)] rank_le_moves [OF journal_task_finish_effect]
          rank_le_moves [OF close_task_effect] rank_le_same simp: journal_finish_status append_task_log_read)
  then show ?thesis using assms(2) by (simp add: rank_le_def)
qed

theorem never_regresses_witness:
  "\<exists>b. pipeline_rank (jget (read_ctx (snd (run_op (Advance ''specify'' ''ai'') (example_dir ''planning'' ''plan'' []))))
         ''currentStep'') = Some b \<and> 2 \<le> b"
  by (rule never_regresses [OF prod.collapse [symmetric]]) (simp_all add: pipeline_rank_def STEP_ORDER_def)

text \<open>A start that arrives after its step was closed is late, not a reopening: it changes neither
  the status nor the current step, and adds no second start.\<close>

theorem late_start_changes_nothing:
  assumes "has_complete (log_of st) step None = Some True"
    and "has_step_start (log_of st) step None = Some True"
    and "update_context step status by ''start'' None at st = (r, st')"
  shows "status_of st' = status_of st \<and>
         jget (read_ctx st') ''currentStep'' = jget (read_ctx st) ''currentStep'' \<and> log_of st' = log_of st"
  using assms(3)
proof (cases rule: update_context_cases)
  case (2 late log' c)
  have "log' = log_of st" using 2(2) assms(2) by (simp add: update_log_def)
  moreover have late using 2(3) assms(1) by simp
  ultimately show ?thesis
    using publish_commit_effect(2,4) [OF 2(6) update_log_grows [OF 2(2)]]
    by (simp add: status_of_def 2(5) json_simps)
qed simp

theorem late_start_changes_nothing_witness:
  "status_of (snd (update_context ''specify'' (Some ''specifying'') ''hook'' ''start'' None None
      (example_dir ''specified'' ''specify'' [new_start ''specify'' None ''ai'' ''t0'',
         new_complete ''specify'' None None (JStr ''ai'') (JStr ''t1'')]))) = JStr ''specified''"
proof -
  let ?s = "example_dir ''specified'' ''specify'' [new_start ''specify'' None ''ai'' ''t0'',
      new_complete ''specify'' None None (JStr ''ai'') (JStr ''t1'')]"
  have "has_complete (log_of ?s) ''specify'' None = Some True"
    and "has_step_start (log_of ?s) ''specify'' None = Some True"
    by code_simp+
  from late_start_changes_nothing [OF this prod.collapse [symmetric]] show ?thesis by simp
qed

end
