(* ===== verification/Status.thy ===== *)
theory Status
  imports Lifecycle
begin

text \<open>
  \<open>derive-from-files.py\<close>: rebuilding the record of a feature from the files that are there, and
  \<open>status-context.py\<close>: where a feature stands and what to do next.  Both read the same artifacts, so
  a status shown without a record is the status that a derivation would write
  (\<open>status_previews_derive\<close>).
\<close>

subsection \<open>Deriving the record\<close>

definition infer :: "feature \<Rightarrow> (string \<times> string) option" where
  "infer st =
     (case tasks_md st of
        Some content \<Rightarrow>
          (let (all_ids, done_ids) = parse_task_markers (Some content) in
           if all_ids \<noteq> [] \<and> set all_ids \<subseteq> set done_ids then Some (''implement'', ''implemented'')
           else Some (''tasks'', ''ready-to-implement''))
      | None \<Rightarrow>
          if map_of (md_files st) ''plan.md'' \<noteq> None then Some (''plan'', ''planned'')
          else if map_of (md_files st) (feature_spec_path st) \<noteq> None then Some (''specify'', ''specified'')
          else None)"

text \<open>
  The implement part of \<open>derive\<close>: one finish for each checked task without an entry, the current
  task, and the close of the step once every task is checked.
\<close>

definition finish_entries :: "string \<Rightarrow> feature \<Rightarrow> string list \<Rightarrow> json list" where
  "finish_entries by st ids =
     map (\<lambda>(k, tid). new_complete ''implement'' None (Some tid) (JStr by) (now_json st (Suc k))) (enumerate 0 ids)"

definition derive_implement ::
  "string \<Rightarrow> feature \<Rightarrow> jdict \<Rightarrow> json list \<Rightarrow> (jdict \<times> json list \<times> nat) option" where
  "derive_implement by st ctx log =
     (let (all_ids, done_ids) = parse_task_markers (tasks_md st);
          distinct_all = dedup all_ids;
          distinct_done = dedup done_ids;
          fresh = filter (\<lambda>tid. tid \<notin> set (journaled_tasks log)) distinct_done;
          log1 = log @ finish_entries by st fresh;
          pending = filter (\<lambda>tid. tid \<notin> set distinct_done) distinct_all;
          current = (if pending \<noteq> [] then JStr (hd pending)
                     else if distinct_done \<noteq> [] then JStr (last_finished log1 distinct_done) else JNull);
          all_done = (distinct_all \<noteq> [] \<and> set distinct_all \<subseteq> set distinct_done);
          ctx1 = jput ''currentTask'' current ctx
      in if all_done
         then map_option (\<lambda>log2. (ctx1, log2, Suc (length fresh)))
                (append_complete log1 ''implement'' None None (JStr by) (now_json st (Suc (length fresh))))
         else Some (ctx1, log1, length fresh))"

definition derive :: "string \<Rightarrow> feature \<Rightarrow> outcome \<times> feature" where
  "derive by st =
     (let ctx = read_ctx st in
      case infer st of
        None \<Rightarrow> (Declined, st)
      | Some (step, status) \<Rightarrow>
          (case (if ctx \<noteq> [] then is_more_advanced ctx step else Some False) of
             None \<Rightarrow> (Raised, st)
           | Some True \<Rightarrow> (Declined, st)
           | Some False \<Rightarrow>
               (let log = canonical_log ctx;
                    ctx1 = jput ''status'' (JStr status) (jput ''currentStep'' (JStr step) (fill_required st ctx))
                in case has_step_start log step None of
                     None \<Rightarrow> (Raised, st)
                   | Some started \<Rightarrow>
                       (let log1 = (if started then log
                                    else log @ [new_start step None by (clock st (ticks st))]) in
                        case (if step = ''implement'' then derive_implement by st ctx1 log1
                              else Some (ctx1, log1, 0)) of
                          None \<Rightarrow> (Raised, st)
                        | Some (ctx2, log2, k) \<Rightarrow> publish (commit_log ctx2 log2) (tick (Suc k) st)))))"

subsection \<open>Resolving the status\<close>

definition NEXT_STEP :: "string \<Rightarrow> string option" where
  "NEXT_STEP = map_of [(''specify'', ''plan''), (''clarify'', ''plan''), (''plan'', ''tasks''),
     (''tasks'', ''implement''), (''analyze'', ''implement'')]"

definition STEP_COMMAND :: "string \<Rightarrow> string option" where
  "STEP_COMMAND = map_of [(''specify'', ''speckit.specify''), (''plan'', ''speckit.plan''),
     (''tasks'', ''speckit.tasks''), (''implement'', ''speckit.implement'')]"

definition COMPANION_STEP_COMMAND :: "string \<Rightarrow> string option" where
  "COMPANION_STEP_COMMAND = map_of [(''specify'', ''speckit.companion.specify''),
     (''plan'', ''speckit.companion.plan''), (''tasks'', ''speckit.companion.tasks''),
     (''implement'', ''speckit.companion.implement'')]"

definition is_companion :: "jdict \<Rightarrow> bool" where
  "is_companion ctx \<longleftrightarrow> jget ctx ''workflow'' = JStr ''companion'' \<or> jget ctx ''profile'' = JStr ''turbo''"

definition step_command :: "string \<Rightarrow> bool \<Rightarrow> string option" where
  "step_command step companion = (if companion then COMPANION_STEP_COMMAND else STEP_COMMAND) step"

definition NEXT_LABEL :: "string \<Rightarrow> string option" where
  "NEXT_LABEL = map_of [(''plan'', ''Plan the feature''), (''tasks'', ''Generate tasks''),
     (''implement'', ''Implement'')]"

definition PIPELINE_ORDER :: "string \<Rightarrow> nat option" where
  "PIPELINE_ORDER = map_of [(''specify'', 0), (''clarify'', 0), (''plan'', 1), (''tasks'', 2),
     (''analyze'', 2), (''implement'', 3), (''converge'', 3)]"

definition REQUIRED_FILE :: "string \<Rightarrow> string option" where
  "REQUIRED_FILE = map_of [(''specify'', ''spec.md''), (''clarify'', ''spec.md''), (''plan'', ''plan.md''),
     (''tasks'', ''tasks.md''), (''analyze'', ''tasks.md''), (''implement'', ''tasks.md''),
     (''converge'', ''tasks.md'')]"

definition has_file :: "feature \<Rightarrow> string \<Rightarrow> bool" where
  "has_file st name =
     (if name = ''spec.md'' then map_of (md_files st) (feature_spec_path st) \<noteq> None
      else if name = ''tasks.md'' then tasks_md st \<noteq> None
      else map_of (md_files st) name \<noteq> None)"

text \<open>
  \<open>_should_prefer_disk\<close>.  The recorded step is any truthy JSON value; a list or an object cannot be
  looked up and raises.
\<close>

definition should_prefer_disk :: "feature \<Rightarrow> json \<Rightarrow> string \<Rightarrow> bool option" where
  "should_prefer_disk st rec_step disk_step =
     (case rec_step of
        JStr s \<Rightarrow>
          Some (case PIPELINE_ORDER s of
             None \<Rightarrow> True
           | Some n \<Rightarrow>
               (case REQUIRED_FILE s of Some req \<Rightarrow> \<not> has_file st req | None \<Rightarrow> False) \<or>
               (case PIPELINE_ORDER disk_step of None \<Rightarrow> False | Some d \<Rightarrow> n < d))
      | _ \<Rightarrow> if hashable rec_step then Some True else None)"

definition decision_entry :: "json \<Rightarrow> jdict option" where
  "decision_entry d =
     (case d of
        JDict e \<Rightarrow> (case jget e ''decision'' of JStr s \<Rightarrow> if strip s \<noteq> [] then Some e else None | _ \<Rightarrow> None)
      | JStr s \<Rightarrow> if strip s \<noteq> [] then Some [(''decision'', d)] else None
      | JInt i \<Rightarrow> Some [(''decision'', JStr (py_str d))]
      | JFloat s \<Rightarrow> Some [(''decision'', JStr (py_str d))]
      | _ \<Rightarrow> None)"

definition decision_entries :: "jdict \<Rightarrow> jdict list" where
  "decision_entries ctx = List.map_filter decision_entry (list_or_empty (jget ctx ''decisions''))"

definition decisions :: "jdict \<Rightarrow> json list" where
  "decisions ctx = map (\<lambda>e. jget e ''decision'') (decision_entries ctx)"

definition next_unchecked_task :: "feature \<Rightarrow> string option" where
  "next_unchecked_task st =
     (let (all_ids, done_ids) = parse_task_markers (tasks_md st)
      in find (\<lambda>tid. tid \<notin> set done_ids) (dedup all_ids))"

record resolution =
  r_source :: string
  r_empty :: bool
  r_name :: json
  r_step :: json
  r_status :: json
  r_decisions :: "json list"
  r_next_step :: json
  r_command :: "string option"
  r_label :: string
  r_task :: "string option"
  r_complete :: bool

definition converge_ran :: "jdict \<Rightarrow> bool option" where
  "converge_ran ctx =
     map_option (list_ex (\<lambda>j. jget (dict_or_empty j) ''step'' = JStr ''converge''))
       (py_iter_or_empty (jget ctx ''history''))"

definition finished :: "resolution \<Rightarrow> resolution" where
  "finished r = r\<lparr>r_complete := True, r_label := ''Pipeline complete''\<rparr>"

definition go_on :: "bool \<Rightarrow> string \<Rightarrow> resolution \<Rightarrow> resolution" where
  "go_on companion next_step r =
     r\<lparr>r_next_step := JStr next_step, r_command := step_command next_step companion,
       r_label := (case NEXT_LABEL next_step of Some l \<Rightarrow> l | None \<Rightarrow> ''Continue'')\<rparr>"

definition continue_tasks :: "feature \<Rightarrow> bool \<Rightarrow> resolution \<Rightarrow> resolution" where
  "continue_tasks st companion r =
     (case next_unchecked_task st of
        None \<Rightarrow> finished r
      | Some tid \<Rightarrow>
          r\<lparr>r_next_step := JStr ''implement'', r_command := step_command ''implement'' companion,
            r_task := Some tid, r_label := ''Continue implementation at '' @ tid\<rparr>)"

text \<open>The last part of \<open>resolve\<close>: a step that is not the implement step.\<close>

definition next_action :: "bool \<Rightarrow> json \<Rightarrow> json \<Rightarrow> resolution \<Rightarrow> resolution" where
  "next_action companion step status r =
     (case step of
        JStr s \<Rightarrow>
          (if STEP_COMPLETED_STATUS s \<noteq> None \<and> status = JStr (the (STEP_COMPLETED_STATUS s))
           then (case NEXT_STEP s of Some n \<Rightarrow> go_on companion n r | None \<Rightarrow> finished r)
           else if s \<in> {''clarify'', ''analyze''}
           then go_on companion (the (NEXT_STEP s)) r
           else r\<lparr>r_next_step := step, r_command := step_command s companion, r_label := ''Finish '' @ s\<rparr>)
      | _ \<Rightarrow> r\<lparr>r_next_step := step, r_label := ''Finish '' @ py_str step\<rparr>)"

definition initial_resolution :: "feature \<Rightarrow> string \<Rightarrow> jdict \<Rightarrow> resolution" where
  "initial_resolution st source ctx =
     \<lparr>r_source = source, r_empty = False,
      r_name = (if truthy (jget ctx ''specName'') then jget ctx ''specName'' else JStr (spec_name st)),
      r_step = jget ctx ''currentStep'', r_status = jget ctx ''status'', r_decisions = decisions ctx,
      r_next_step = JNull, r_command = None, r_label = [], r_task = None, r_complete = False\<rparr>"

definition decide :: "feature \<Rightarrow> jdict \<Rightarrow> resolution \<Rightarrow> resolution option" where
  "decide st ctx r =
     (let step = jget ctx ''currentStep''; status = jget ctx ''status''; companion = is_companion ctx
      in case converge_ran ctx of
           None \<Rightarrow> None
         | Some went \<Rightarrow>
             (let in_implement = (step = JStr ''converge'' \<or> step = JStr ''implement'' \<and> went) in
              case (if in_implement then map_option Not (in_names status CROSS_STEP_TERMINAL) else Some False) of
                None \<Rightarrow> None
              | Some converge_open \<Rightarrow>
                  (case in_names status TERMINAL_STATUSES of
                     None \<Rightarrow> None
                   | Some terminal \<Rightarrow>
                       if terminal \<and> \<not> converge_open then Some (finished r)
                       else if step = JStr ''implement'' \<or> step = JStr ''converge''
                       then Some (continue_tasks st companion r)
                       else if hashable step then Some (next_action companion step status r)
                       else None)))"

definition resolve_from :: "feature \<Rightarrow> string \<Rightarrow> jdict \<Rightarrow> resolution option" where
  "resolve_from st source ctx = decide st ctx (initial_resolution st source ctx)"

definition empty_resolution :: "feature \<Rightarrow> resolution" where
  "empty_resolution st =
     \<lparr>r_source = ''derived'', r_empty = True, r_name = JStr (spec_name st), r_step = JNull, r_status = JNull,
      r_decisions = [], r_next_step = JNull, r_command = None, r_label = ''Nothing to summarize'',
      r_task = None, r_complete = False\<rparr>"

definition with_position :: "string \<times> string \<Rightarrow> jdict \<Rightarrow> jdict" where
  "with_position p ctx = jput ''status'' (JStr (snd p)) (jput ''currentStep'' (JStr (fst p)) ctx)"

definition resolve :: "feature \<Rightarrow> resolution option" where
  "resolve st =
     (let ctx = read_ctx st in
      if ctx = [] \<or> \<not> truthy (jget ctx ''currentStep'')
      then (case infer st of
              None \<Rightarrow> Some (empty_resolution st)
            | Some p \<Rightarrow> resolve_from st ''derived'' (with_position p ctx))
      else (case infer st of
              None \<Rightarrow> resolve_from st ''state'' ctx
            | Some p \<Rightarrow>
                (case should_prefer_disk st (jget ctx ''currentStep'') (fst p) of
                   None \<Rightarrow> None
                 | Some True \<Rightarrow> resolve_from st ''derived'' (with_position p ctx)
                 | Some False \<Rightarrow> resolve_from st ''state'' ctx)))"

section \<open>Facts\<close>

subsection \<open>What a derivation appends\<close>

lemma empty_dict [simp]: "jget [] k = JNull" "\<not> has_key [] k"
  by (simp_all add: jget_def has_key_def)

lemma infer_cong:
  "tasks_md st' = tasks_md st \<Longrightarrow> md_files st' = md_files st \<Longrightarrow> infer st' = infer st"
  by (simp add: infer_def feature_spec_path_def cong: option.case_cong)

lemma names_cong:
  assumes "md_files st' = md_files st" and "dir_name st' = dir_name st"
  shows "spec_name st' = spec_name st" and "fallback_name st' = fallback_name st"
    and "feature_spec_path st' = feature_spec_path st"
proof -
  show f: "fallback_name st' = fallback_name st" by (simp only: fallback_name_def assms)
  show p: "feature_spec_path st' = feature_spec_path st" by (simp only: feature_spec_path_def assms)
  show "spec_name st' = spec_name st" by (simp only: spec_name_def p f assms)
qed

lemma journaled_tasks_append [simp]: "journaled_tasks (a @ b) = journaled_tasks a @ journaled_tasks b"
  by (simp add: journaled_tasks_def List.map_filter_def)

lemma journaled_finish_entries [simp]: "journaled_tasks (finish_entries by st ids) = ids"
proof -
  have "List.map_filter (\<lambda>j. case j of JDict e \<Rightarrow> (case jget e ''task'' of JStr t \<Rightarrow> Some t | _ \<Rightarrow> None) | _ \<Rightarrow> None)
      (map (\<lambda>(k, tid). new_complete ''implement'' None (Some tid) (JStr by) (now_json st (Suc k))) xs) = map snd xs" for xs :: "(nat \<times> string) list"
    by (induction xs) (auto simp: List.map_filter_simps new_complete_def jget_def)
  then show ?thesis by (simp add: journaled_tasks_def finish_entries_def)
qed

lemma finish_entries_quiet:
  "j \<in> set (finish_entries by st ids) \<Longrightarrow>
     \<not> is_start_of step key j \<and> \<not> is_complete_of step None j \<and> entry_ok j"
  by (auto simp: finish_entries_def is_complete_of_new_complete_iff)

lemma length_finish_entries [simp]: "length (finish_entries by st ids) = length ids"
  by (simp add: finish_entries_def)

lemma guard_same:
  assumes "prefix (disk_history disk) log" and "jget ctx ''history'' = JList log"
    and "guard_append_only disk ctx = Some c"
  obtains "c = ctx" | v where "c = jput ''historyQuarantined'' v ctx"
proof (cases disk)
  case (DocFile doc)
  show thesis
  proof (cases "jget (dict_or_empty doc) ''history''")
    case (JList ex)
    then have "disk_history disk = ex" using DocFile by (cases doc) (auto simp: jget_def)
    then have "length ex \<le> length log" using assms(1) prefix_length_le by blast
    then show ?thesis using DocFile JList assms(2,3) that by (simp add: guard_append_only_def)
  qed (use DocFile assms(2,3) that in \<open>auto simp: guard_append_only_def\<close>)
qed (use assms that in \<open>auto simp: guard_append_only_def\<close>)

lemma dedup_Nil_iff [simp]: "dedup xs = [] \<longleftrightarrow> xs = []"
  by (metis set_empty set_merge_new sup_bot_left)

lemma complete_free:
  "has_complete log step key = Some False \<Longrightarrow> filter (is_complete_of step key) log = []"
  by (auto simp: filter_empty_conv dest: has_complete_False)

lemma derive_implement_effect:
  assumes "derive_implement by st ctx log = Some (ctx2, log2, k)"
  shows "prefix log log2" and "log_ok log \<Longrightarrow> log_ok log2"
    and "opens log2 step key = opens log step key"
    and "closes log step None \<le> 1 \<Longrightarrow> closes log2 step None \<le> 1"
    and "set (snd (parse_task_markers (tasks_md st))) \<subseteq> set (journaled_tasks log2)"
    and "x \<noteq> ''currentTask'' \<Longrightarrow> jget ctx2 x = jget ctx x"
    and "infer st = Some (''implement'', status) \<Longrightarrow> \<exists>j \<in> set log2. is_complete_of ''implement'' None j"
proof -
  obtain all_ids done_ids where m: "parse_task_markers (tasks_md st) = (all_ids, done_ids)" by fastforce
  define fresh where "fresh = filter (\<lambda>tid. tid \<notin> set (journaled_tasks log)) (dedup done_ids)"
  define log1 where "log1 = log @ finish_entries by st fresh"
  define c where "c = (dedup all_ids \<noteq> [] \<and> set (dedup all_ids) \<subseteq> set (dedup done_ids))"
  have cases: "(c \<and> append_complete log1 ''implement'' None None (JStr by) (now_json st (Suc (length fresh))) = Some log2)
      \<or> (\<not> c \<and> log2 = log1)" and ctx2: "\<exists>v. ctx2 = jput ''currentTask'' v ctx"
    using assms unfolding derive_implement_def m Let_def prod.case fresh_def [symmetric] log1_def [symmetric]
      c_def [symmetric] by (auto split: if_splits)
  have p1: "prefix log log1" by (simp add: log1_def)
  have ok1: "log_ok log \<Longrightarrow> log_ok log1" using finish_entries_quiet by (auto simp: log1_def log_ok_def list_all_iff)
  have o1: "opens log1 step key = opens log step key"
    using finish_entries_quiet by (auto simp: log1_def opens_def filter_empty_conv)
  have c1: "closes log1 step None = closes log step None"
    using finish_entries_quiet by (auto simp: log1_def closes_def filter_empty_conv)
  have j1: "set done_ids \<subseteq> set (journaled_tasks log1)" by (auto simp: log1_def fresh_def)
  have p2: "prefix log1 log2" using cases append_complete_prefix by auto
  then show "prefix log log2" using p1 prefix_order.trans by blast
  show "log_ok log \<Longrightarrow> log_ok log2" using ok1 cases append_complete_ok by blast
  show "opens log2 step key = opens log step key"
    using cases o1 by (auto elim!: append_complete_cases simp: opens_def)
  show "closes log step None \<le> 1 \<Longrightarrow> closes log2 step None \<le> 1"
    using cases c1
    by (auto elim!: append_complete_cases simp: closes_def is_complete_of_new_complete_iff complete_free)
  show "set (snd (parse_task_markers (tasks_md st))) \<subseteq> set (journaled_tasks log2)"
    using j1 p2 by (auto simp: m prefix_def)
  show "x \<noteq> ''currentTask'' \<Longrightarrow> jget ctx2 x = jget ctx x" using ctx2 by (auto simp: json_simps)
  assume "infer st = Some (''implement'', status)"
  then have c using m by (auto simp: infer_def c_def Let_def split: option.splits if_splits)
  then show "\<exists>j \<in> set log2. is_complete_of ''implement'' None j"
    using cases append_complete_records [of log1 "''implement''" None None] by auto
qed

text \<open>A derivation that writes.\<close>

lemma derive_cases:
  assumes "derive by st = (r, st')"
  obtains (stay) "st' = st" "r \<noteq> Wrote"
    | (wrote) step status log1 ctx2 log2 k where "r = Wrote" "infer st = Some (step, status)"
        "read_ctx st \<noteq> [] \<longrightarrow> is_more_advanced (read_ctx st) step = Some False"
        "(has_step_start (log_of st) step None = Some True \<and> log1 = log_of st) \<or>
         (has_step_start (log_of st) step None = Some False \<and>
          log1 = log_of st @ [new_start step None by (clock st (ticks st))])"
        "(if step = ''implement''
          then derive_implement by st (with_position (step, status) (fill_required st (read_ctx st))) log1
          else Some (with_position (step, status) (fill_required st (read_ctx st)), log1, 0)) = Some (ctx2, log2, k)"
        "publish (commit_log ctx2 log2) (tick (Suc k) st) = (Wrote, st')" "prefix (log_of st) log2"
proof (cases "infer st")
  case None
  then show thesis using assms by (intro stay) (auto simp: derive_def Let_def)
next
  case (Some p)
  obtain step status where p: "p = (step, status)" by fastforce
  let ?adv = "if read_ctx st \<noteq> [] then is_more_advanced (read_ctx st) step else Some False"
  let ?c1 = "with_position (step, status) (fill_required st (read_ctx st))"
  show thesis
  proof (cases "?adv = Some False \<and> has_step_start (log_of st) step None \<noteq> None")
    case False
    then show thesis using assms Some p
      by (intro stay) (auto simp: derive_def Let_def log_of_def split: option.splits bool.splits if_splits)
  next
    case True
    then obtain b where b: "has_step_start (log_of st) step None = Some b" by auto
    define log1 where "log1 = (if b then log_of st else log_of st @ [new_start step None by (clock st (ticks st))])"
    define rest where "rest = (if step = ''implement'' then derive_implement by st ?c1 log1 else Some (?c1, log1, 0))"
    have run: "derive by st = (case rest of None \<Rightarrow> (Raised, st)
        | Some (ctx2, log2, k) \<Rightarrow> publish (commit_log ctx2 log2) (tick (Suc k) st))"
      using True Some p b
      by (simp add: derive_def Let_def log_of_def rest_def log1_def with_position_def split: option.split)
    show thesis
    proof (cases rest)
      case None
      then show thesis using assms run by (intro stay) auto
    next
      case (Some t)
      obtain ctx2 log2 k where t: "t = (ctx2, log2, k)" by (cases t)
      have "prefix log1 log2"
        using Some t derive_implement_effect(1) by (auto simp: rest_def split: if_splits)
      moreover have "prefix (log_of st) log1" by (simp add: log1_def)
      ultimately have pre: "prefix (log_of st) log2" using prefix_order.trans by blast
      have pub: "publish (commit_log ctx2 log2) (tick (Suc k) st) = (r, st')" using assms run Some t by simp
      have "r = Wrote" using store.save_log [OF _ pub] pre by (simp add: log_of_def)
      then show thesis using wrote [of step status log1 ctx2 log2 k] \<open>infer st = Some p\<close> p True b Some t pub pre
        by (auto simp: rest_def log1_def split: if_splits)
    qed
  qed
qed

subsection \<open>After a derivation\<close>

lemma jget_with_position [json_simps]:
  "jget (with_position p ctx) k =
     (if k = ''status'' then JStr (snd p) else if k = ''currentStep'' then JStr (fst p) else jget ctx k)"
  by (simp add: with_position_def json_simps)

lemma derive_keys:
  assumes "derive by st = (Wrote, st')" and "infer st = Some (step, status)"
  shows "jget (read_ctx st') ''currentStep'' = JStr step" and "jget (read_ctx st') ''status'' = JStr status"
    and "k \<notin> {''history'', ''transitions'', ''stepHistory'', ''historyQuarantined'', ''status'', ''currentStep'',
            ''currentTask''} \<Longrightarrow> jget (read_ctx st') k = jget (fill_required st (read_ctx st)) k"
    and "prefix (log_of st) (log_of st')" and "\<exists>j \<in> set (log_of st'). is_start_of step None j"
    and "md_files st' = md_files st" "tasks_md st' = tasks_md st" "dir_name st' = dir_name st"
proof -
  let ?fields = "jget (read_ctx st') ''currentStep'' = JStr step \<and> jget (read_ctx st') ''status'' = JStr status \<and>
    (\<forall>k. k \<notin> {''history'', ''transitions'', ''stepHistory'', ''historyQuarantined'', ''status'', ''currentStep'',
            ''currentTask''} \<longrightarrow> jget (read_ctx st') k = jget (fill_required st (read_ctx st)) k)"
  let ?log = "prefix (log_of st) (log_of st') \<and> (\<exists>j \<in> set (log_of st'). is_start_of step None j)"
  let ?files = "md_files st' = md_files st \<and> tasks_md st' = tasks_md st \<and> dir_name st' = dir_name st"
  have "?fields \<and> ?log \<and> ?files"
    using assms(1)
  proof (cases rule: derive_cases)
    case (wrote step' status' log1 ctx2 log2 m)
    have same: "step' = step" "status' = status" using wrote(2) assms(2) by simp_all
    let ?c1 = "with_position (step, status) (fill_required st (read_ctx st))"
    have ctx2: "jget ctx2 x = jget ?c1 x" if "x \<noteq> ''currentTask''" for x
      using wrote(5) that derive_implement_effect(6) by (auto simp: same split: if_splits)
    have pre: "prefix (canonical_log (read_ctx (tick (Suc m) st))) log2" using wrote(7) by (simp add: log_of_def)
    have log: "log_of st' = log2" using store.save_log [OF pre wrote(6)] by (simp add: log_of_def)
    have key: "jget (read_ctx st') x = jget (commit_log ctx2 log2) x" if "x \<noteq> ''historyQuarantined''" for x
      using store.save_log_key [OF pre wrote(6) that] .
    have fields: ?fields by (simp add: key ctx2 json_simps)
    have "\<exists>j \<in> set log1. is_start_of step None j"
      using wrote(4) is_start_of_new_start [of step None step None "by" "clock st (ticks st)"]
      by (auto simp: same has_step_start_def is_start_of_def dest: any_opt_True)
    moreover have "prefix log1 log2"
      using wrote(5) derive_implement_effect(1) by (cases "step' = ''implement''") auto
    ultimately have "\<exists>j \<in> set log2. is_start_of step None j" using set_mono_prefix by blast
    then have ?log using wrote(7) by (simp add: log)
    moreover have ?files using publish_frame(2,3,4) [OF wrote(6)] by (simp add: tick_def)
    ultimately show ?thesis using fields by blast
  qed simp
  then show "jget (read_ctx st') ''currentStep'' = JStr step" "jget (read_ctx st') ''status'' = JStr status"
    "k \<notin> {''history'', ''transitions'', ''stepHistory'', ''historyQuarantined'', ''status'', ''currentStep'',
            ''currentTask''} \<Longrightarrow> jget (read_ctx st') k = jget (fill_required st (read_ctx st)) k"
    "prefix (log_of st) (log_of st')" "\<exists>j \<in> set (log_of st'). is_start_of step None j"
    "md_files st' = md_files st" "tasks_md st' = tasks_md st" "dir_name st' = dir_name st"
    by simp_all
qed

lemma infer_cases:
  assumes "infer st = Some (step, status)"
  obtains (implement) "step = ''implement''" "status = ''implemented''" "tasks_md st \<noteq> None"
    | (tasks) "step = ''tasks''" "status = ''ready-to-implement''" "tasks_md st \<noteq> None"
    | (plan) "step = ''plan''" "status = ''planned''" "map_of (md_files st) ''plan.md'' \<noteq> None"
    | (specify) "step = ''specify''" "status = ''specified''" "map_of (md_files st) (feature_spec_path st) \<noteq> None"
proof (cases "tasks_md st")
  case None
  then show thesis using assms plan specify by (auto simp: infer_def split: if_splits)
next
  case (Some content)
  then show thesis using assms implement tasks by (auto simp: infer_def split: if_splits prod.splits)
qed

text \<open>The step a derivation finds has its artifact, so a record that says the same is believed.\<close>

lemma infer_believed:
  "infer st = Some (step, status) \<Longrightarrow> should_prefer_disk st (JStr step) step = Some False"
  by (erule infer_cases) (auto simp: should_prefer_disk_def PIPELINE_ORDER_def REQUIRED_FILE_def has_file_def)

text \<open>A record that a derivation would not change.\<close>

definition settled :: "feature \<Rightarrow> string \<times> string \<Rightarrow> jdict \<Rightarrow> bool" where
  "settled st p c \<longleftrightarrow>
     fill_required st c = c \<and> with_position p c = c \<and> \<not> has_key c ''transitions'' \<and>
     \<not> has_key c ''stepHistory'' \<and> (\<exists>log. jget c ''history'' = JList log)"

lemma settled_commit: "settled st p c \<Longrightarrow> jget c ''history'' = JList log \<Longrightarrow> commit_log c log = c"
  by (auto simp: settled_def commit_log_def jput_same jpop_absent jget_has_key)

lemma settled_publish:
  "ctx_file st = DocFile (JDict c) \<Longrightarrow> settled st' p c \<Longrightarrow> publish c st = (Wrote, st)"
  by (auto simp: settled_def publish_def guard_append_only_def)

lemma derive_settles:
  assumes "derive by st = (Wrote, st')" and "infer st = Some (step, status)" and "step \<noteq> ''implement''"
  shows "settled st' (step, status) (read_ctx st') \<and> ctx_file st' = DocFile (JDict (read_ctx st'))"
  using assms(1)
proof (cases rule: derive_cases)
  case (wrote step' status' log1 ctx2 log2 k)
  note kept = derive_keys [OF assms(1,2)]
  define c1 where "c1 = with_position (step, status) (fill_required st (read_ctx st))"
  have ctx2: "ctx2 = c1" "step' = step" using wrote(2,5) assms(2,3) by (simp_all add: c1_def split: if_splits)
  obtain c' where c': "ctx_file st' = DocFile (JDict c')"
      "guard_append_only (ctx_file st) (commit_log c1 log2) = Some c'"
    using wrote(6) by (auto simp: ctx2 elim!: publish_cases)
  have "prefix (disk_history (ctx_file st)) log2"
    using disk_history_canonical wrote(7) by (simp add: log_of_def) (rule prefix_order.trans)
  then have form: "c' = commit_log c1 log2 \<or> (\<exists>v. c' = jput ''historyQuarantined'' v (commit_log c1 log2))"
    using guard_same [OF _ _ c'(2), of log2] by (auto simp: json_simps)
  have read: "read_ctx st' = c'" by (simp add: read_ctx_def c'(1))
  have keys: "has_key c' ''workflow'' = has_key c1 ''workflow''" "has_key c' ''branch'' = has_key c1 ''branch''"
      "\<not> has_key c' ''transitions''" "\<not> has_key c' ''stepHistory''"
    using form by (elim disjE exE; simp add: commit_log_def json_simps)+
  have "has_key c1 ''workflow''" "has_key c1 ''branch''"
    by (simp_all add: c1_def with_position_def json_simps fill_required_keys)
  then have "fill_required st' c' = c'"
    using keys kept(3) [of "''specName''"]
      fill_required_name [of st "read_ctx st"]
    by (intro fill_required_id) (simp_all add: read names_cong [OF kept(6,8)])
  moreover have "with_position (step, status) c' = c'"
    using kept(1,2) by (simp add: read with_position_def jput_same jget_has_key)
  moreover have "jget c' ''history'' = JList log2" using form by (auto simp: json_simps)
  ultimately show ?thesis using keys c'(1) by (simp add: settled_def read)
qed simp

lemma derive_again:
  assumes "derive by st = (Wrote, st')"
  shows "ctx_file (snd (derive by' st')) = ctx_file st'"
  using assms
proof (cases rule: derive_cases)
  case first: (wrote step status log1 ctx2 log2 k)
  note kept = derive_keys [OF assms first(2)]
  have inf: "infer st' = Some (step, status)" using first(2) infer_cong kept by metis
  obtain r st'' where run: "derive by' st' = (r, st'')" by fastforce
  then show ?thesis
  proof (cases rule: derive_cases)
    case (wrote step' status' log1' ctx2' log2' k')
    have same: "step' = step" "status' = status" using wrote(2) inf by simp_all
    have "read_ctx st' \<noteq> []" using kept(1) by (auto simp: jget_def)
    then have "is_more_advanced (read_ctx st') step = Some False" using wrote(3) same by simp
    then have plain: "step \<noteq> ''implement''"
      using kept(2) inf by (cases rule: infer_cases [OF inf])
        (simp_all add: is_more_advanced_def Let_def TERMINAL_STATUSES_def STEP_ORDER_def)
    note settled = derive_settles [OF assms first(2) plain]
    have "log1' = log_of st'"
      using wrote(4) kept(5) by (auto simp: same has_step_start_def is_start_of_def dest: any_opt_False)
    then have "ctx2' = read_ctx st'" "log2' = log_of st'"
      using wrote(5) plain settled by (simp_all add: same settled_def)
    moreover have "jget (read_ctx st') ''history'' = JList (log_of st')"
      using settled by (auto simp: settled_def log_of_def canonical_log_def)
    ultimately have "publish (read_ctx st') (tick (Suc k') st') = (Wrote, st'')"
      using wrote(6) settled_commit settled by metis
    then have "st'' = tick (Suc k') st'"
      using settled_publish [of "tick (Suc k') st'" "read_ctx st'" st'] settled by (metis prod.inject tick_frame(1))
    then show ?thesis using run by simp
  qed (use run in simp)
qed simp

subsection \<open>What a resolution says\<close>

lemmas resolution_defs = finished_def go_on_def continue_tasks_def next_action_def

lemma find_first:
  "find P xs = Some x \<Longrightarrow> \<exists>pre post. xs = pre @ x # post \<and> P x \<and> (\<forall>y \<in> set pre. \<not> P y)"
proof (induction xs)
  case (Cons a xs)
  show ?case
  proof (cases "P a")
    case True
    then have "a # xs = [] @ x # xs" "P x" using Cons.prems by simp_all
    then show ?thesis by (metis empty_iff empty_set)
  next
    case False
    then obtain pre post where "xs = pre @ x # post" "P x" "\<forall>y \<in> set pre. \<not> P y" using Cons by auto
    then have "a # xs = (a # pre) @ x # post" "\<forall>y \<in> set (a # pre). \<not> P y" using False by simp_all
    then show ?thesis using \<open>P x\<close> by blast
  qed
qed simp

text \<open>The order of two steps of the pipeline; a step outside it is behind none.\<close>

definition not_behind :: "json \<Rightarrow> json \<Rightarrow> bool" where
  "not_behind a b \<longleftrightarrow>
     (case (a, b) of
        (JStr s, JStr t) \<Rightarrow>
          (case (PIPELINE_ORDER s, PIPELINE_ORDER t) of (Some m, Some n) \<Rightarrow> m \<le> n | _ \<Rightarrow> True)
      | _ \<Rightarrow> True)"

lemma not_behind_refl [simp]: "not_behind a a"
  by (auto simp: not_behind_def split: json.split option.split)

lemma not_behind_next:
  "NEXT_STEP s = Some n \<Longrightarrow> not_behind (JStr s) (JStr n)"
  by (auto simp: NEXT_STEP_def not_behind_def PIPELINE_ORDER_def split: if_splits)

lemma not_behind_implement: "not_behind v (JStr ''implement'')"
  by (auto simp: not_behind_def PIPELINE_ORDER_def split: json.split)

definition first_unchecked :: "feature \<Rightarrow> string \<Rightarrow> bool" where
  "first_unchecked st tid \<longleftrightarrow>
     (let (all_ids, done_ids) = parse_task_markers (tasks_md st) in
      tid \<notin> set done_ids \<and>
      (\<exists>pre post. dedup all_ids = pre @ tid # post \<and> set pre \<subseteq> set done_ids))"

definition sound_resolution :: "feature \<Rightarrow> resolution \<Rightarrow> bool" where
  "sound_resolution st r \<longleftrightarrow>
     r_complete r = (\<not> r_empty r \<and> r_next_step r = JNull) \<and>
     (r_next_step r = JNull \<longrightarrow> r_command r = None \<and> r_task r = None) \<and>
     not_behind (r_step r) (r_next_step r) \<and>
     (\<forall>tid. r_task r = Some tid \<longrightarrow> r_next_step r = JStr ''implement'' \<and> first_unchecked st tid)"

lemma next_unchecked_first: "next_unchecked_task st = Some tid \<Longrightarrow> first_unchecked st tid"
  by (auto simp: next_unchecked_task_def first_unchecked_def dest!: find_first split: prod.splits)

text \<open>A resolution on which nothing has been decided yet.\<close>

definition undecided :: "resolution \<Rightarrow> bool" where
  "undecided r \<longleftrightarrow> \<not> r_empty r \<and> r_next_step r = JNull \<and> r_command r = None \<and> r_task r = None \<and> \<not> r_complete r"

lemma not_behind_JNull [simp]: "not_behind a JNull"
  by (simp add: not_behind_def split: json.split)

lemma sound_finished: "undecided r \<Longrightarrow> sound_resolution st (finished r)"
  by (simp add: sound_resolution_def finished_def undecided_def)

lemma sound_go_on:
  "undecided r \<Longrightarrow> not_behind (r_step r) (JStr n) \<Longrightarrow> sound_resolution st (go_on companion n r)"
  by (simp add: sound_resolution_def go_on_def undecided_def)

lemma sound_continue: "undecided r \<Longrightarrow> sound_resolution st (continue_tasks st companion r)"
  by (cases "next_unchecked_task st"; simp add: continue_tasks_def sound_finished)
     (simp add: sound_resolution_def undecided_def not_behind_implement next_unchecked_first)

lemma sound_next:
  assumes "undecided r" and "r_step r = step" and "step \<noteq> JNull"
  shows "sound_resolution st (next_action companion step status r)"
proof (cases step)
  case (JStr s)
  have 1: "NEXT_STEP s = Some (the (NEXT_STEP s))" if "s \<in> {''clarify'', ''analyze''}"
    using that by (auto simp: NEXT_STEP_def)
  have 2: "sound_resolution st (go_on companion n r)" if "NEXT_STEP s = Some n" for n
    using that sound_go_on [OF assms(1)] not_behind_next assms(2) JStr by simp
  have 3: "sound_resolution st (r\<lparr>r_next_step := step, r_command := c, r_label := l\<rparr>)" for c l
    using assms by (simp add: sound_resolution_def undecided_def)
  show ?thesis
    unfolding next_action_def JStr json.case
    using 1 2 3 [unfolded JStr] sound_finished [OF assms(1)] by (simp split: option.split)
qed (use assms in \<open>simp_all add: sound_resolution_def next_action_def undecided_def\<close>)

lemma resolve_from_sound:
  assumes "resolve_from st source ctx = Some r" and "jget ctx ''currentStep'' \<noteq> JNull"
  shows "sound_resolution st r"
  using assms(1) unfolding resolve_from_def decide_def Let_def
  by (auto intro!: sound_continue sound_next sound_finished assms(2) simp: undecided_def initial_resolution_def
      split: option.splits if_splits)

lemma resolve_cases:
  assumes "resolve st = Some r"
  obtains "r = empty_resolution st" "infer st = None"
    | source ctx where "resolve_from st source ctx = Some r" "jget ctx ''currentStep'' \<noteq> JNull"
  using assms
  by (fastforce simp: resolve_def Let_def json_simps split: if_splits option.splits bool.splits)

text \<open>A derivation of a directory without a record writes whenever there is an artifact.\<close>

lemma new_entries_step:
  "\<exists>e. new_complete step substep task by at = JDict e \<and> jget e ''step'' = JStr step"
  "\<exists>e. new_start step substep by' at' = JDict e \<and> jget e ''step'' = JStr step"
  by (rule new_complete_fields [of step substep task "by" at]; auto)
     (rule new_start_fields [of step substep by' at']; auto)

definition steps_of :: "json list \<Rightarrow> json set" where
  "steps_of log = (\<lambda>j. jget (dict_or_empty j) ''step'') ` set log"

lemma steps_of_append [simp]: "steps_of (a @ b) = steps_of a \<union> steps_of b"
  by (auto simp: steps_of_def)

lemma steps_of_new [simp]:
  "steps_of [new_complete step substep task by at] = {JStr step}"
  "steps_of [new_start step substep by' at'] = {JStr step}"
  using new_entries_step(1) [of step substep task "by" at] new_entries_step(2) [of step substep by' at']
  by (auto simp: steps_of_def)

lemma steps_of_finish_entries: "steps_of (finish_entries by st ids) \<subseteq> {JStr ''implement''}"
proof -
  have "jget (dict_or_empty (new_complete ''implement'' None (Some tid) (JStr by) at)) ''step'' = JStr ''implement''" for tid at
    using new_entries_step(1) [of "''implement''" None "Some tid" "JStr by" at] by auto
  then show ?thesis by (auto simp: steps_of_def finish_entries_def)
qed

lemma derive_implement_steps:
  assumes "derive_implement by st ctx log = Some (ctx2, log2, k)"
  shows "steps_of log2 \<subseteq> insert (JStr ''implement'') (steps_of log)"
proof -
  obtain fresh where "log2 = log @ finish_entries by st fresh \<or>
      (\<exists>at. append_complete (log @ finish_entries by st fresh) ''implement'' None None (JStr by) at = Some log2)"
    using assms by (auto simp: derive_implement_def Let_def split: prod.splits if_splits)
  then show ?thesis
    using steps_of_finish_entries [of "by" st fresh] by (auto elim!: append_complete_cases)
qed

lemma derive_implement_total:
  "log_ok log \<Longrightarrow> derive_implement by st ctx log \<noteq> None"
proof -
  assume ok: "log_ok log"
  have "log_ok (log @ finish_entries by st fresh)" for fresh
    using ok finish_entries_quiet by (auto simp: log_ok_def list_all_iff)
  then have "append_complete (log @ finish_entries by st fresh) ''implement'' None None (JStr by) at \<noteq> None" for fresh at
    using append_complete_total by fastforce
  then show ?thesis by (simp add: derive_implement_def Let_def split: prod.split)
qed

lemma derive_fresh:
  assumes "read_ctx st = []" and "infer st = Some (step, status)"
  obtains st' where "derive by st = (Wrote, st')" and "JStr ''converge'' \<notin> steps_of (log_of st')"
    and "log_of st' \<noteq> []" and "jget (read_ctx st') ''history'' = JList (log_of st')"
proof -
  have log: "log_of st = []" by (simp add: log_of_def assms(1) canonical_log_def)
  define log1 where "log1 = [new_start step None by (clock st (ticks st))]"
  define c1 where "c1 = with_position (step, status) (fill_required st [])"
  define rest where "rest = (if step = ''implement'' then derive_implement by st c1 log1 else Some (c1, log1, 0))"
  have "log_ok log1" by (simp add: log1_def)
  then have "rest \<noteq> None" using derive_implement_total by (simp add: rest_def)
  then obtain ctx2 log2 k where r: "rest = Some (ctx2, log2, k)" by auto
  have "derive by st = (case rest of None \<Rightarrow> (Raised, st)
      | Some (ctx2, log2, k) \<Rightarrow> publish (commit_log ctx2 log2) (tick (Suc k) st))"
    using assms log
    by (simp add: derive_def Let_def log_of_def rest_def log1_def c1_def with_position_def has_step_start_def)
  then have run: "derive by st = publish (commit_log ctx2 log2) (tick (Suc k) st)" by (simp add: r)
  obtain res st' where p: "publish (commit_log ctx2 log2) (tick (Suc k) st) = (res, st')" by fastforce
  have w: "res = Wrote" "log_of st' = log2"
    using store.save_log [OF _ p] by (simp_all add: log_of_def log [unfolded log_of_def])
  have "jget (read_ctx st') ''history'' = JList log2"
    using store.save_log_key [OF _ p, of "''history''"]
    by (simp add: log [unfolded log_of_def] json_simps)
  moreover have "prefix log1 log2 \<and> steps_of log2 \<subseteq> insert (JStr ''implement'') (steps_of log1)"
    using r derive_implement_effect(1) derive_implement_steps by (cases "step = ''implement''") (auto simp: rest_def)
  moreover have "step \<noteq> ''converge''" using assms(2) by (auto elim!: infer_cases)
  ultimately have "JStr ''converge'' \<notin> steps_of log2" "log2 \<noteq> []"
    by (auto simp: log1_def)
  then show thesis using that [of st'] run p w \<open>jget (read_ctx st') ''history'' = JList log2\<close> by simp
qed

lemma decide_agree:
  assumes "jget c ''currentStep'' = jget d ''currentStep''" and "jget c ''status'' = jget d ''status''"
    and "is_companion c = is_companion d" and "converge_ran c = converge_ran d" and "tasks_md s = tasks_md t"
  shows "decide s c (r\<lparr>r_source := a\<rparr>) = map_option (\<lambda>r. r\<lparr>r_source := a\<rparr>) (decide t d r)"
proof -
  have 1: "continue_tasks s companion (r\<lparr>r_source := a\<rparr>) = (continue_tasks t companion r)\<lparr>r_source := a\<rparr>" for companion r
    using assms(5) by (simp add: continue_tasks_def next_unchecked_task_def finished_def split: option.split)
  have 2: "next_action companion step status (r\<lparr>r_source := a\<rparr>) = (next_action companion step status r)\<lparr>r_source := a\<rparr>"
    for companion step status r
    by (simp add: next_action_def finished_def go_on_def split: option.split json.split)
  have 3: "finished (r\<lparr>r_source := a\<rparr>) = (finished r)\<lparr>r_source := a\<rparr>" for r by (simp add: finished_def)
  show ?thesis
    unfolding decide_def Let_def assms(1-4) 1 2 3 by (auto split: option.split)
qed

lemma resolve_derived:
  assumes "read_ctx st = []" and "infer st = Some (step, status)"
    and "derive by st = (Wrote, st')" and "JStr ''converge'' \<notin> steps_of (log_of st')"
    and "jget (read_ctx st') ''history'' = JList (log_of st')"
  shows "resolve st' = map_option (\<lambda>r. r\<lparr>r_source := ''state''\<rparr>) (resolve st)"
proof -
  note kept = derive_keys [OF assms(3,2)]
  let ?d = "with_position (step, status) []"
  have name: "spec_name st' = spec_name st" by (rule names_cong [OF kept(6,8)])
  have filled: "jget (fill_required st []) ''specName'' = (if spec_name st = [] then JNull else JStr (spec_name st))"
      "jget (fill_required st []) ''workflow'' = JStr ''speckit''"
      "jget (fill_required st []) ''profile'' = JNull" "jget (fill_required st []) ''decisions'' = JNull"
    by (simp_all add: fill_required_def Let_def json_simps)
  have c: "read_ctx st' \<noteq> []" using kept(1) by (auto simp: jget_def)
  have inf: "infer st' = Some (step, status)" using assms(2) infer_cong kept by metis
  have "step \<noteq> []" using assms(2) by (auto elim: infer_cases)
  then have new: "resolve st' = resolve_from st' ''state'' (read_ctx st')"
    using c kept(1) inf infer_believed [OF inf] by (simp add: resolve_def Let_def)
  have old: "resolve st = resolve_from st ''derived'' ?d"
    using assms(1,2) by (simp add: resolve_def)
  have companion: "is_companion (read_ctx st') = is_companion ?d"
    using kept(3) filled assms(1) by (simp add: is_companion_def json_simps)
  have dec: "decisions (read_ctx st') = decisions ?d"
    using kept(3) filled assms(1) by (simp add: decisions_def decision_entries_def json_simps)
  have "converge_ran (read_ctx st') = Some False"
    using assms(4,5) by (auto simp: converge_ran_def py_iter_or_empty_def list_ex_iff steps_of_def image_iff)
  moreover have "converge_ran ?d = Some False"
    by (simp add: converge_ran_def py_iter_or_empty_def json_simps)
  ultimately have agree: "decide st' (read_ctx st') (r\<lparr>r_source := a\<rparr>) = map_option (\<lambda>r. r\<lparr>r_source := a\<rparr>) (decide st ?d r)"
    for r a
    using companion kept by (intro decide_agree) (simp_all add: json_simps)
  have "initial_resolution st' ''state'' (read_ctx st') = (initial_resolution st ''derived'' ?d)\<lparr>r_source := ''state''\<rparr>"
    using kept(1,2) kept(3) [of "''specName''"] filled(1) assms(1) name dec
    by (simp add: initial_resolution_def json_simps)
  then show ?thesis by (simp add: new old resolve_from_def agree)
qed

section \<open>Properties\<close>

text \<open>C12: The status command never contradicts itself: a resolution is complete exactly when it names
  no next step, and then no command and no task either; the next step is never behind the current one
  in the pipeline; and a task is offered only inside the implement step, as the first listed one
  that is not checked.\<close>

theorem resolution_sound:
  assumes "resolve st = Some r"
  shows "sound_resolution st r"
  using assms
proof (cases rule: resolve_cases)
  case 1
  then show ?thesis by (simp add: empty_resolution_def sound_resolution_def)
next
  case (2 source ctx)
  then show ?thesis by (rule resolve_from_sound)
qed

theorem resolution_sound_witness:
  "\<exists>r. resolve (example_dir ''implementing'' ''implement'' []) = Some r \<and> r_complete r \<and> r_command r = None"
proof -
  let ?s = "example_dir ''implementing'' ''implement'' []"
  have "resolve ?s \<noteq> None" "r_next_step (the (resolve ?s)) = JNull" "\<not> r_empty (the (resolve ?s))" by code_simp+
  then obtain r where r: "resolve ?s = Some r" "r_next_step r = JNull" "\<not> r_empty r" by auto
  from resolution_sound [OF r(1)] show ?thesis using r by (auto simp: sound_resolution_def)
qed

text \<open>C10: A status read without a record is the status a derivation writes: whenever there is an
  artifact to go by, deriving writes a record, and resolving the record gives the same step, status,
  next step, command, task and label as resolving the files did; only the source differs.\<close>

theorem status_previews_derive:
  assumes "read_ctx st = []" and "infer st \<noteq> None"
  shows "fst (derive by st) = Wrote \<and>
    resolve (snd (derive by st)) = map_option (\<lambda>r. r\<lparr>r_source := ''state''\<rparr>) (resolve st)"
proof -
  obtain step status where "infer st = Some (step, status)" using assms(2) by auto
  from derive_fresh [OF assms(1) this, of "by"] resolve_derived [OF assms(1) this]
  show ?thesis by (metis fst_conv snd_conv)
qed

theorem status_previews_derive_witness:
  "let st = (example_dir ''x'' ''x'' [])\<lparr>ctx_file := NoFile\<rparr> in
   fst (derive ''cli'' st) = Wrote \<and>
   map_option r_label (resolve (snd (derive ''cli'' st))) = Some ''Pipeline complete''"
proof -
  let ?s = "(example_dir ''x'' ''x'' [])\<lparr>ctx_file := NoFile\<rparr>"
  have "read_ctx ?s = []" "infer ?s \<noteq> None" "map_option r_label (resolve ?s) = Some ''Pipeline complete''"
    by code_simp+
  then show ?thesis
    using status_previews_derive [of ?s "''cli''"] by (auto simp: Let_def option.map_comp comp_def)
qed



text \<open>
  A finish recorded in the old form, with the task in the substep, is known to the task sync and not
  to a derivation, which records the task a second time.
\<close>

lemma derive_doubles_old_finish:
  "let st = example_dir ''implementing'' ''implement''
              [new_complete ''implement'' (Some ''T001'') None (JStr ''ai'') (JStr ''t'')] in
   closes (log_of st) ''implement'' (Some ''T001'') = 1 \<and>
   closes (log_of (snd (sync_tasks None ''implemented'' ''cli'' st))) ''implement'' (Some ''T001'') = 1 \<and>
   closes (log_of (snd (derive ''cli'' st))) ''implement'' (Some ''T001'') = 2"
  by code_simp

end
