(* ===== verification/Globs.thy ===== *)
theory Globs
  imports PyText "HOL-Library.Sublist"
begin

text \<open>
  The path globs of \<open>resolve-spec-paths.py\<close>: the translation of a glob into a regular expression, kept
  as the list of its tokens, and the match of the expression.  The matcher is the usual recursion
  over the tokens; \<open>glob_lang\<close> gives each token the language of its regular expression, and the two
  agree.
\<close>

text \<open>\<open>p.replace("\\", "/")\<close>; the separator of the platform is the slash.\<close>

definition posix :: "string \<Rightarrow> string" where
  "posix p = replace_char (CHR 0x5C) ''/'' p"

definition is_wild :: "char \<Rightarrow> bool" where
  "is_wild c \<longleftrightarrow> c \<in> set ''*?[''"

definition literal_prefix :: "string \<Rightarrow> string" where
  "literal_prefix pat = rstrip_chars ''/'' (takeWhile (\<lambda>c. \<not> is_wild c) pat)"

subsection \<open>The tokens of a glob\<close>

text \<open>
  The pieces of the expression: an escaped character, \<open>[^/]\<close>, \<open>[^/]*\<close>, \<open>.*\<close>, \<open>(?:.*/)?\<close> and
  \<open>(?:/.*)?\<close>.
\<close>

datatype gtok = Lit char | OneSeg | StarSeg | AnyDot | OptDirs | OptTail

fun compile_from :: "gtok list \<Rightarrow> string \<Rightarrow> gtok list" where
  "compile_from out [] = out"
| "compile_from out (c # cs) =
     (if c = CHR ''*'' then
        (case cs of
           c2 # r \<Rightarrow>
             (if c2 = CHR ''*'' then
                (if r = [] \<and> out \<noteq> [] \<and> last out = Lit (CHR ''/'') then butlast out @ [OptTail]
                 else case r of
                     c3 # r' \<Rightarrow> if c3 = CHR ''/'' then compile_from (out @ [OptDirs]) r'
                               else compile_from (out @ [AnyDot]) r
                   | [] \<Rightarrow> compile_from (out @ [AnyDot]) r)
              else compile_from (out @ [StarSeg]) cs)
         | [] \<Rightarrow> compile_from (out @ [StarSeg]) cs)
      else if c = CHR ''?'' then compile_from (out @ [OneSeg]) cs
      else compile_from (out @ [Lit c]) cs)"

definition compile_glob :: "string \<Rightarrow> gtok list" where
  "compile_glob pat = compile_from [] pat"

subsection \<open>Matching\<close>

definition line_feed :: char where "line_feed = CHR 0x0A"

fun weight :: "gtok \<Rightarrow> nat" where
  "weight OptDirs = 3"
| "weight OptTail = 3"
| "weight _ = 1"

text \<open>
  The match of the whole text: the closing \<open>$\<close> also stands before a final line feed, and the dot
  does not match a line feed.
\<close>

function gmatch :: "gtok list \<Rightarrow> string \<Rightarrow> bool" where
  "gmatch [] s \<longleftrightarrow> s = [] \<or> s = [line_feed]"
| "gmatch (Lit c # ts) s \<longleftrightarrow> (case s of d # s' \<Rightarrow> d = c \<and> gmatch ts s' | [] \<Rightarrow> False)"
| "gmatch (OneSeg # ts) s \<longleftrightarrow> (case s of d # s' \<Rightarrow> d \<noteq> CHR ''/'' \<and> gmatch ts s' | [] \<Rightarrow> False)"
| "gmatch (StarSeg # ts) s \<longleftrightarrow>
     gmatch ts s \<or> (case s of d # s' \<Rightarrow> d \<noteq> CHR ''/'' \<and> gmatch (StarSeg # ts) s' | [] \<Rightarrow> False)"
| "gmatch (AnyDot # ts) s \<longleftrightarrow>
     gmatch ts s \<or> (case s of d # s' \<Rightarrow> d \<noteq> line_feed \<and> gmatch (AnyDot # ts) s' | [] \<Rightarrow> False)"
| "gmatch (OptDirs # ts) s \<longleftrightarrow> gmatch ts s \<or> gmatch (AnyDot # Lit (CHR ''/'') # ts) s"
| "gmatch (OptTail # ts) s \<longleftrightarrow> gmatch ts s \<or> gmatch (Lit (CHR ''/'') # AnyDot # ts) s"
  by pat_completeness auto

termination
  by (relation "measures [\<lambda>(ts, s). sum_list (map weight ts), \<lambda>(ts, s). length s]") auto

definition glob_matches :: "string \<Rightarrow> string \<Rightarrow> bool" where
  "glob_matches pat f \<longleftrightarrow> gmatch (compile_glob (posix pat)) (posix f)"

section \<open>Facts\<close>

subsection \<open>The language of a token\<close>

fun tok_lang :: "gtok \<Rightarrow> string set" where
  "tok_lang (Lit c) = {[c]}"
| "tok_lang OneSeg = {[d] | d. d \<noteq> CHR ''/''}"
| "tok_lang StarSeg = {w. CHR ''/'' \<notin> set w}"
| "tok_lang AnyDot = {w. line_feed \<notin> set w}"
| "tok_lang OptDirs = {[]} \<union> {w @ ''/'' | w. line_feed \<notin> set w}"
| "tok_lang OptTail = {[]} \<union> {''/'' @ w | w. line_feed \<notin> set w}"

fun glob_lang :: "gtok list \<Rightarrow> string set" where
  "glob_lang [] = {[]}"
| "glob_lang (t # ts) = {u @ v | u v. u \<in> tok_lang t \<and> v \<in> glob_lang ts}"

text \<open>Concatenation of languages, and what the closing \<open>$\<close> leaves over.\<close>

definition seq :: "string set \<Rightarrow> string set \<Rightarrow> string set" where
  "seq A B = {u @ v | u v. u \<in> A \<and> v \<in> B}"

definition ends :: "string set" where "ends = {[], [line_feed]}"

lemma seq_assoc: "seq (seq A B) C = seq A (seq B C)"
  unfolding seq_def by (auto; metis append_assoc)

lemma glob_lang_Cons: "glob_lang (t # ts) = seq (tok_lang t) (glob_lang ts)"
  by (simp add: seq_def)

subsection \<open>The matcher recognises the language\<close>

lemma seqI: "u \<in> A \<Longrightarrow> v \<in> B \<Longrightarrow> s = u @ v \<Longrightarrow> s \<in> seq A B"
  by (auto simp: seq_def)

lemma seqE:
  assumes "s \<in> seq A B" obtains u v where "s = u @ v" "u \<in> A" "v \<in> B"
  using assms by (auto simp: seq_def)

lemma seq_all: "s \<in> seq {w. c \<notin> set w} B \<longleftrightarrow>
    s \<in> B \<or> (case s of d # s' \<Rightarrow> d \<noteq> c \<and> s' \<in> seq {w. c \<notin> set w} B | [] \<Rightarrow> False)"
    (is "?L \<longleftrightarrow> s \<in> B \<or> ?R")
proof
  assume ?L
  then obtain u v where s: "s = u @ v" and u: "c \<notin> set u" and v: "v \<in> B" by (auto elim: seqE)
  then show "s \<in> B \<or> ?R" by (cases u) (auto intro: seqI)
next
  assume "s \<in> B \<or> ?R"
  then show ?L
  proof
    assume "s \<in> B"
    then show ?L by (auto intro: seqI [of "[]"])
  next
    assume ?R
    then obtain d u v where "s = d # u @ v" "d \<noteq> c" "c \<notin> set u" "v \<in> B"
      by (auto split: list.splits elim: seqE)
    then show ?L by (auto intro: seqI [of "d # u"])
  qed
qed

lemma seq_single: "s \<in> seq {[c]} B \<longleftrightarrow> (case s of d # s' \<Rightarrow> d = c \<and> s' \<in> B | [] \<Rightarrow> False)"
  by (auto simp: seq_def split: list.splits)

lemma seq_one: "s \<in> seq {[d] | d. d \<noteq> c} B \<longleftrightarrow> (case s of d # s' \<Rightarrow> d \<noteq> c \<and> s' \<in> B | [] \<Rightarrow> False)"
  by (auto split: list.splits elim!: seqE intro: seqI [of "[d]" for d])

lemma seq_Un: "seq (A \<union> A') B = seq A B \<union> seq A' B"
  by (auto simp: seq_def)

lemma seq_Nil: "seq {[]} B = B"
  by (simp add: seq_def)

lemma dirs_lang: "tok_lang OptDirs = {[]} \<union> seq (tok_lang AnyDot) (tok_lang (Lit (CHR ''/'')))"
  "tok_lang OptTail = {[]} \<union> seq (tok_lang (Lit (CHR ''/''))) (tok_lang AnyDot)"
  by (auto simp: seq_def)

lemma gmatch_lang: "gmatch ts s \<longleftrightarrow> s \<in> seq (glob_lang ts) ends"
proof (induction ts s rule: gmatch.induct)
  case (1 s)
  then show ?case by (auto simp: seq_def ends_def)
next
  case (2 c ts s)
  show ?case unfolding glob_lang_Cons tok_lang.simps seq_assoc
    by (subst seq_single) (use 2 in \<open>simp split: list.splits\<close>)
next
  case (3 ts s)
  show ?case unfolding glob_lang_Cons tok_lang.simps seq_assoc
    by (subst seq_one) (use 3 in \<open>simp split: list.splits\<close>)
next
  case (4 ts s)
  have lang: "seq (glob_lang (StarSeg # ts)) ends = seq (tok_lang StarSeg) (seq (glob_lang ts) ends)"
    by (simp only: glob_lang_Cons seq_assoc)
  show ?case using 4 unfolding lang tok_lang.simps
    by (subst seq_all, subst gmatch.simps(4)) (cases s, simp_all del: gmatch.simps)
next
  case (5 ts s)
  have lang: "seq (glob_lang (AnyDot # ts)) ends = seq (tok_lang AnyDot) (seq (glob_lang ts) ends)"
    by (simp only: glob_lang_Cons seq_assoc)
  show ?case using 5 unfolding lang tok_lang.simps
    by (subst seq_all, subst gmatch.simps(5)) (cases s, simp_all del: gmatch.simps)
next
  case (6 ts s)
  then show ?case
    by (simp only: gmatch.simps(6) glob_lang_Cons dirs_lang seq_Un seq_Nil seq_assoc Un_iff)
next
  case (7 ts s)
  then show ?case
    by (simp only: gmatch.simps(7) glob_lang_Cons dirs_lang seq_Un seq_Nil seq_assoc Un_iff)
qed


subsection \<open>The globs of the documentation\<close>

text \<open>A plain text has no wildcard and no backslash, so it stands for itself.\<close>

definition plain :: "string \<Rightarrow> bool" where
  "plain w \<longleftrightarrow> CHR ''*'' \<notin> set w \<and> CHR ''?'' \<notin> set w \<and> CHR 0x5C \<notin> set w"

lemma plain_append [simp]: "plain (u @ v) \<longleftrightarrow> plain u \<and> plain v"
  by (auto simp: plain_def)

lemma compile_plain: "plain w \<Longrightarrow> compile_from out (w @ cs) = compile_from (out @ map Lit w) cs"
  by (induction w arbitrary: out) (auto simp: plain_def)

lemma posix_id: "CHR 0x5C \<notin> set w \<Longrightarrow> posix w = w"
  by (induction w) (auto simp: posix_def replace_char_def)

lemma posix_no_backslash: "CHR 0x5C \<notin> set (posix w)"
  by (induction w) (auto simp: posix_def replace_char_def)

lemma posix_line_feed: "line_feed \<notin> set w \<Longrightarrow> line_feed \<notin> set (posix w)"
  by (induction w) (auto simp: posix_def replace_char_def line_feed_def)

lemma glob_lang_append: "glob_lang (a @ b) = seq (glob_lang a) (glob_lang b)"
  by (induction a) (simp_all add: seq_Nil glob_lang_Cons seq_assoc del: glob_lang.simps(2))

lemma glob_lang_lits: "glob_lang (map Lit w) = {w}"
  by (induction w) auto

lemma matches_one_line:
  assumes "line_feed \<notin> set f"
  shows "glob_matches pat f \<longleftrightarrow> posix f \<in> glob_lang (compile_glob (posix pat))"
  using posix_line_feed [OF assms]
  by (auto simp: glob_matches_def gmatch_lang seq_def ends_def)

lemma compile_subtree: "plain d \<Longrightarrow> compile_glob (d @ ''/**'') = map Lit d @ [OptTail]"
  by (simp add: compile_glob_def compile_plain)

lemma compile_star: "plain p \<Longrightarrow> plain s \<Longrightarrow> compile_glob (p @ CHR ''*'' # s) = map Lit p @ StarSeg # map Lit s"
  using compile_plain [of s "map Lit p @ [StarSeg]" "[]"]
  by (cases s) (auto simp: compile_glob_def compile_plain plain_def)

section \<open>Properties\<close>


text \<open>A glob \<open>dir/**\<close> claims the directory and everything below it, at any depth, and nothing else: not
  a sibling whose name only starts with the same letters.\<close>

theorem subtree_glob:
  assumes "plain d" and "line_feed \<notin> set f"
  shows "glob_matches (d @ ''/**'') f \<longleftrightarrow> posix f = d \<or> prefix (d @ ''/'') (posix f)"
  using posix_line_feed [OF assms(2)] assms(1)
  by (auto simp: matches_one_line [OF assms(2)] compile_subtree posix_id plain_def glob_lang_append glob_lang_lits seq_def prefix_def)

theorem subtree_glob_witness:
  "glob_matches ''src/app/**'' ''src/app/a/b.ts'' \<and> \<not> glob_matches ''src/app/**'' ''src/apple.ts''"
  using subtree_glob [of "''src/app''" "''src/app/a/b.ts''"] subtree_glob [of "''src/app''" "''src/apple.ts''"]
  by (simp add: plain_def posix_def replace_char_def line_feed_def)

text \<open>A single star never crosses a slash: with plain text around it, it stands for exactly the texts
  without one.\<close>

theorem star_stays_in_segment:
  assumes "plain p" and "plain s" and "line_feed \<notin> set f"
  shows "glob_matches (p @ ''*'' @ s) f \<longleftrightarrow> (\<exists>m. posix f = p @ m @ s \<and> CHR ''/'' \<notin> set m)"
proof -
  have "posix (p @ ''*'' @ s) = p @ ''*'' @ s" using assms(1,2) by (simp add: posix_id plain_def)
  then show ?thesis using assms(1,2)
    by (auto simp: matches_one_line [OF assms(3)] compile_star glob_lang_append glob_lang_lits seq_def)
qed

theorem star_stays_in_segment_witness:
  "glob_matches ''src/*.ts'' ''src/a.ts'' \<and> \<not> glob_matches ''src/*.ts'' ''src/b/a.ts''"
proof -
  have "glob_matches (''src/'' @ ''*'' @ ''.ts'') f \<longleftrightarrow> (\<exists>m. posix f = ''src/'' @ m @ ''.ts'' \<and> CHR ''/'' \<notin> set m)"
    if "line_feed \<notin> set f" for f
    by (rule star_stays_in_segment) (use that in \<open>simp_all add: plain_def\<close>)
  from this [of "''src/a.ts''"] this [of "''src/b/a.ts''"]
  show ?thesis
    by (auto simp: posix_def replace_char_def line_feed_def append_eq_Cons_conv Cons_eq_append_conv)
qed

end
