(* ===== verification/Yaml.thy ===== *)
theory Yaml
  imports Json
begin

text \<open>
  The reader of a small YAML subset in \<open>companion_config.py\<close>: scalars, flow lists and maps, comments,
  block sequences and block maps, and the refusal of everything beyond.  A value is a \<open>json\<close> value.
  The block parser works on the list of lines that are left, in place of an index into an array; a
  re-anchored line replaces the head of that list.
\<close>

subsection \<open>Flow collections\<close>

text \<open>\<open>_split_flow\<close>: the pieces finished so far are emitted in order; \<open>buf\<close> is the current piece, reversed.\<close>

fun split_flow_aux :: "string \<Rightarrow> int \<Rightarrow> char option \<Rightarrow> string \<Rightarrow> string list" where
  "split_flow_aux buf depth quote [] = (if strip (rev buf) \<noteq> [] then [rev buf] else [])"
| "split_flow_aux buf depth (Some q) (c # cs) =
     split_flow_aux (c # buf) depth (if c = q then None else Some q) cs"
| "split_flow_aux buf depth None (c # cs) =
     (if c \<in> {CHR 0x22, CHR 0x27} then split_flow_aux (c # buf) depth (Some c) cs
      else if c \<in> {CHR ''['', CHR ''{''} then split_flow_aux (c # buf) (depth + 1) None cs
      else if c \<in> {CHR '']'', CHR ''}''} then split_flow_aux (c # buf) (depth - 1) None cs
      else if c = CHR '','' \<and> depth = 0 then rev buf # split_flow_aux [] depth None cs
      else split_flow_aux (c # buf) depth None cs)"

definition split_flow :: "string \<Rightarrow> string list" where
  "split_flow s = split_flow_aux [] 0 None s"

lemma length_split_flow_aux: "x \<in> set (split_flow_aux buf depth quote s) \<Longrightarrow> length x \<le> length buf + length s"
proof (induction buf depth quote s rule: split_flow_aux.induct)
  case (1 buf depth quote)
  then show ?case by (simp split: if_splits)
next
  case (2 buf depth q c cs)
  then show ?case by simp
next
  case (3 buf depth c cs)
  consider "c \<in> {CHR 0x22, CHR 0x27}" | "c \<notin> {CHR 0x22, CHR 0x27}" "c \<in> {CHR ''['', CHR ''{''}"
    | "c \<notin> {CHR 0x22, CHR 0x27}" "c \<notin> {CHR ''['', CHR ''{''}" "c \<in> {CHR '']'', CHR ''}''}"
    | "c \<notin> {CHR 0x22, CHR 0x27}" "c \<notin> {CHR ''['', CHR ''{''}" "c \<notin> {CHR '']'', CHR ''}''}" "c = CHR '','' \<and> depth = 0"
    | "c \<notin> {CHR 0x22, CHR 0x27}" "c \<notin> {CHR ''['', CHR ''{''}" "c \<notin> {CHR '']'', CHR ''}''}" "\<not> (c = CHR '','' \<and> depth = 0)"
    by blast
  then show ?case
  proof cases
    case 1
    then show ?thesis using 3(1,6) by (simp only: split_flow_aux.simps if_True) simp
  next
    case 2
    then show ?thesis using 3(2,6) by (simp only: split_flow_aux.simps if_True if_False) simp
  next
    case a: 3
    then show ?thesis using 3(3,6) by (simp only: split_flow_aux.simps if_True if_False) simp
  next
    case 4
    then show ?thesis using 3(4,6) by (simp only: split_flow_aux.simps if_True if_False simp_thms) auto
  next
    case 5
    then show ?thesis using 3(5,6) by (simp only: split_flow_aux.simps if_False) simp
  qed
qed

lemma length_split_flow: "x \<in> set (split_flow s) \<Longrightarrow> length x \<le> length s"
  using length_split_flow_aux [of x "[]"] by (simp add: split_flow_def)

text \<open>
  \<open>_scalar\<close>.  A text of digits with any number of leading dashes goes to \<open>int\<close>, which raises on more
  than one dash and on the superscript digits that \<open>isdigit\<close> accepts.
\<close>

definition yaml_scalar :: "string \<Rightarrow> json option" where
  "yaml_scalar text =
     (let s = strip text; digits = dropWhile (\<lambda>c. c = CHR ''-'') s in
      if s = [] then Some JNull
      else if hd s \<in> {CHR 0x22, CHR 0x27} \<and> last s = hd s then Some (JStr (butlast (tl s)))
      else if digits \<noteq> [] \<and> list_all is_digit_char digits then map_option JInt (py_int s)
      else if s \<in> {''true'', ''false''} then Some (JBool (s = ''true''))
      else if s \<in> {''null'', ''Null'', ''NULL'', ''~''} then Some JNull
      else Some (JStr s))"

lemma cut_at_length: "cut_at sep s = Some (a, b) \<Longrightarrow> length a + length sep + length b = length s"
  using cut_at_join [of sep s a b] by simp

lemma length_strip_le: "length (strip s) \<le> length s"
proof -
  have "length (rstrip t) \<le> length t" for t by (metis rstrip_prefix prefix_length_le)
  moreover have "length (lstrip t) \<le> length t" for t by (simp add: lstrip_def length_dropWhile_le)
  ultimately show ?thesis unfolding strip_def using le_trans by blast
qed

definition enclosed :: "char \<Rightarrow> char \<Rightarrow> string \<Rightarrow> bool" where
  "enclosed a b s \<longleftrightarrow> s \<noteq> [] \<and> hd s = a \<and> last s = b"

lemma flow_piece_shorter:
  assumes "x \<in> set (split_flow (strip (butlast (tl (strip text)))))" and "strip text \<noteq> []"
  shows "length x < length text"
proof -
  have "length x \<le> length (butlast (tl (strip text)))"
    using length_split_flow [OF assms(1)] length_strip_le order_trans by blast
  also have "\<dots> < length (strip text)" using assms(2) by (cases "strip text") auto
  also have "\<dots> \<le> length text" by (rule length_strip_le)
  finally show ?thesis .
qed

function parse_flow :: "string \<Rightarrow> json option" where
  "parse_flow text =
     (let s = strip text; inner = strip (butlast (tl s)) in
      if enclosed (CHR ''['') (CHR '']'') s
      then map_option JList (traverse (\<lambda>x. parse_flow x) (split_flow inner))
      else if enclosed (CHR ''{'') (CHR ''}'') s
      then map_option (\<lambda>kvs. JDict (foldl (\<lambda>d (k, v). jput k v d) [] kvs))
             (traverse (\<lambda>piece. case cut_at '':'' piece of
                 None \<Rightarrow> None
               | Some (k, v) \<Rightarrow> map_option (Pair (strip k)) (parse_flow v)) (split_flow inner))
      else yaml_scalar s)"
  by pat_completeness auto

termination
proof (relation "measure length")
  fix t s inner x
  assume "s = strip t" "inner = strip (butlast (tl s))" "enclosed CHR ''['' CHR '']'' s" "x \<in> set (split_flow inner)"
  then show "(x, t) \<in> measure length" using flow_piece_shorter [of x t] by (auto simp: enclosed_def)
next
  fix t s inner piece p k v
  assume "s = strip t" "inner = strip (butlast (tl s))" "enclosed CHR ''{'' CHR ''}'' s"
    "piece \<in> set (split_flow inner)" "cut_at '':'' piece = Some p" "(k, v) = p"
  then show "(v, t) \<in> measure length"
    using flow_piece_shorter [of piece t] cut_at_length [of "'':''" piece k v] by (auto simp: enclosed_def)
qed auto

declare parse_flow.simps [simp del]

subsection \<open>Lines\<close>

definition indent_of :: "string \<Rightarrow> nat" where
  "indent_of l = length (takeWhile (\<lambda>c. c = CHR '' '') l)"

text \<open>The part of a line before its comment; \<open>None\<close> when it has no comment.  \<open>prev\<close> is the character before.\<close>

fun before_comment :: "char option \<Rightarrow> char option \<Rightarrow> string \<Rightarrow> string option" where
  "before_comment quote prev [] = None"
| "before_comment (Some q) prev (c # cs) =
     map_option (Cons c) (before_comment (if c = q then None else Some q) (Some c) cs)"
| "before_comment None prev (c # cs) =
     (if c \<in> {CHR 0x22, CHR 0x27} then map_option (Cons c) (before_comment (Some c) (Some c) cs)
      else if c = CHR ''#'' \<and> prev \<in> {None, Some (CHR '' ''), Some (CHR 0x09)} then Some []
      else map_option (Cons c) (before_comment None (Some c) cs))"

definition strip_comment :: "string \<Rightarrow> string" where
  "strip_comment l = (case before_comment None None l of None \<Rightarrow> l | Some p \<Rightarrow> rstrip p)"

definition unquote :: "string \<Rightarrow> string" where
  "unquote s =
     (if 2 \<le> length s \<and> hd s = last s \<and> hd s \<in> {CHR 0x22, CHR 0x27} then butlast (tl s) else s)"

text \<open>The first colon at the end of the line or before a space.\<close>

fun key_colon :: "string \<Rightarrow> (string \<times> string) option" where
  "key_colon [] = None"
| "key_colon (c # cs) =
     (if c = CHR '':'' \<and> (cs = [] \<or> hd cs = CHR '' '') then Some ([], cs)
      else map_option (\<lambda>(a, b). (c # a, b)) (key_colon cs))"

definition split_key :: "string \<Rightarrow> string \<times> string" where
  "split_key l =
     (let plain = (case key_colon l of Some (k, v) \<Rightarrow> (unquote (strip k), strip v) | None \<Rightarrow> (unquote l, []))
      in if l \<noteq> [] \<and> hd l \<in> {CHR 0x22, CHR 0x27}
         then (case cut_at [hd l] (tl l) of
                 Some (inside, rest) \<Rightarrow>
                   (if prefix '':'' rest \<and> (tl rest = [] \<or> hd (tl rest) = CHR '' '')
                    then (unquote (hd l # inside @ [hd l]), strip (tl rest)) else plain)
               | None \<Rightarrow> plain)
         else plain)"

subsection \<open>What is refused\<close>

text \<open>A line with each quoted span replaced by a space; \<open>scan\<close> looks for the end of a span.\<close>

function drop_quoted :: "string \<Rightarrow> string" where
  "drop_quoted [] = []"
| "drop_quoted (c # cs) =
     (if c \<in> {CHR 0x22, CHR 0x27} \<and> c \<in> set cs
      then CHR '' '' # drop_quoted (tl (dropWhile (\<lambda>x. x \<noteq> c) cs))
      else c # drop_quoted cs)"
  by pat_completeness auto
termination
proof (relation "measure length")
  fix c :: char and cs :: string
  have "length (tl (dropWhile (\<lambda>x. x \<noteq> c) cs)) \<le> length cs"
    using length_dropWhile_le [of "\<lambda>x. x \<noteq> c" cs] by simp
  then show "(tl (dropWhile (\<lambda>x. x \<noteq> c) cs), c # cs) \<in> measure length" by simp
qed auto

definition anchor_char :: "char \<Rightarrow> bool" where
  "anchor_char c \<longleftrightarrow>
     c \<in> set ''ABCDEFGHIJKLMNOPQRSTUVWXYZabcdefghijklmnopqrstuvwxyz0123456789_.+/-''"

text \<open>The names that follow the mark \<open>&\<close> (or \<open>*\<close>) where a token may start, up to where it may end.\<close>

fun marked_names :: "char \<Rightarrow> char option \<Rightarrow> string \<Rightarrow> string list" where
  "marked_names mark prev [] = []"
| "marked_names mark prev (c # cs) =
     (let name = takeWhile anchor_char cs; after = drop (length name) cs;
          starts = (case prev of None \<Rightarrow> True | Some p \<Rightarrow> is_space p \<or> p \<in> set '',[{'')
      in (if c = mark \<and> starts \<and> name \<noteq> [] \<and> (after = [] \<or> is_space (hd after) \<or> hd after \<in> set '',]}'')
          then [name] else [])
         @ marked_names mark (Some c) cs)"

definition anchor_names :: "string list \<Rightarrow> string list" where
  "anchor_names ls = concat (map (\<lambda>l. marked_names (CHR ''&'') None (drop_quoted l)) ls)"

function drop_dashes :: "string \<Rightarrow> string" where
  "drop_dashes l = (if prefix ''- '' l then drop_dashes (strip (drop 2 l)) else l)"
  by pat_completeness auto
termination
proof (relation "measure length")
  fix l :: string
  assume "prefix ''- '' l"
  then have "2 \<le> length l" by (auto dest: prefix_length_le)
  then show "(strip (drop 2 l), l) \<in> measure length" using length_strip_le [of "drop 2 l"] by simp
qed auto

declare drop_dashes.simps [simp del]

definition is_block_scalar :: "string \<Rightarrow> bool" where
  "is_block_scalar v \<longleftrightarrow> v \<noteq> [] \<and> hd v \<in> set ''|>'' \<and> list_all (\<lambda>c. c \<in> set ''-+0123456789'') (tl v)"

definition unsupported :: "string list \<Rightarrow> string \<Rightarrow> bool" where
  "unsupported anchors l =
     (let b = drop_dashes (strip l); bare = drop_quoted b in
      prefix [CHR 0x09] (dropWhile (\<lambda>c. c = CHR '' '') l)
      \<or> prefix ''---'' b \<or> prefix ''...'' b
      \<or> marked_names (CHR ''&'') None bare \<noteq> []
      \<or> list_ex (\<lambda>n. n \<in> set anchors) (marked_names (CHR ''*'') None bare)
      \<or> is_block_scalar (snd (split_key b)))"

subsection \<open>Block collections\<close>

definition is_item :: "string \<Rightarrow> bool" where
  "is_item l \<longleftrightarrow> prefix ''- '' (lstrip l)"

definition starts_block_map :: "string \<Rightarrow> bool" where
  "starts_block_map rest =
     (case cut_at '':'' rest of None \<Rightarrow> False | Some (_, b) \<Rightarrow> b = [] \<or> hd b = CHR '' '')"

definition key_char :: "char \<Rightarrow> bool" where
  "key_char c \<longleftrightarrow>
     c \<in> set ''ABCDEFGHIJKLMNOPQRSTUVWXYZabcdefghijklmnopqrstuvwxyz0123456789_.-'' \<or> c = CHR 0x22 \<or> c = CHR 0x27"

definition opens_key :: "string \<Rightarrow> bool" where
  "opens_key rest =
     (let r = dropWhile key_char rest in
      takeWhile key_char rest \<noteq> [] \<and> prefix '':'' r \<and> (tl r = [] \<or> is_space (hd (tl r))))"

text \<open>The lines a wrapped scalar absorbs, and the lines left.\<close>

fun join_wrapped :: "nat \<Rightarrow> string list \<Rightarrow> string list \<times> string list" where
  "join_wrapped ind [] = ([], [])"
| "join_wrapped ind (l # ls) =
     (if indent_of l \<le> ind \<or> prefix ''- '' (strip l) \<or> opens_key (strip l) then ([], l # ls)
      else let (parts, rest) = join_wrapped ind ls in (strip l # parts, rest))"

text \<open>
  A parse runs out of fuel, raises, or returns a value and the lines left.  Every call spends one
  unit of fuel; three units per line are enough (\<open>parse_enough_fuel\<close>).
\<close>

datatype 'a parsed = OutOfFuel | Bad | Got 'a "string list"

datatype parse_task = Block nat | Seq nat "json list" | Map nat jdict

type_synonym parser = "parse_task \<Rightarrow> string list \<Rightarrow> json parsed"

definition parse_block :: "parser \<Rightarrow> nat \<Rightarrow> string list \<Rightarrow> json parsed" where
  "parse_block run min_indent ls =
     (case ls of
        [] \<Rightarrow> Got JNull []
      | l # _ \<Rightarrow>
          if indent_of l < min_indent then Got JNull ls
          else if is_item l then run (Seq (indent_of l) []) ls
          else run (Map (indent_of l) []) ls)"

text \<open>One round of \<open>_parse_seq\<close> and of \<open>_parse_map\<close>: what is read so far, and the next item or key.\<close>

definition parse_seq :: "parser \<Rightarrow> nat \<Rightarrow> json list \<Rightarrow> string list \<Rightarrow> json parsed" where
  "parse_seq run ind items ls =
     (case ls of
        [] \<Rightarrow> Got (JList items) []
      | l # rest_lines \<Rightarrow>
          (let rest = strip (drop 2 (lstrip l)) in
           if indent_of l \<noteq> ind \<or> \<not> is_item l then Got (JList items) ls
           else if prefix ''{'' rest \<or> prefix ''['' rest then
             (case parse_flow rest of
                None \<Rightarrow> Bad
              | Some v \<Rightarrow> run (Seq ind (items @ [v])) rest_lines)
           else if starts_block_map rest then
             (case run (Map (ind + 2) []) ((replicate (ind + 2) (CHR '' '') @ rest) # rest_lines) of
                Got v ls' \<Rightarrow> run (Seq ind (items @ [v])) ls'
              | r \<Rightarrow> r)
           else if rest \<noteq> [] then
             (case yaml_scalar rest of
                None \<Rightarrow> Bad
              | Some v \<Rightarrow> run (Seq ind (items @ [v])) rest_lines)
           else
             (case run (Block (ind + 1)) rest_lines of
                Got v ls' \<Rightarrow> run (Seq ind (items @ [v])) ls'
              | r \<Rightarrow> r)))"

definition parse_map :: "parser \<Rightarrow> nat \<Rightarrow> jdict \<Rightarrow> string list \<Rightarrow> json parsed" where
  "parse_map run ind out ls =
     (case ls of
        [] \<Rightarrow> Got (JDict out) []
      | l # rest_lines \<Rightarrow>
          if indent_of l \<noteq> ind \<or> is_item l then Got (JDict out) ls
          else if CHR '':'' \<notin> set (strip l) then Bad
          else (case split_key (strip l) of (key, val) \<Rightarrow>
            if val = [] then
              (case run (if rest_lines \<noteq> [] \<and> indent_of (hd rest_lines) = ind \<and> is_item (hd rest_lines)
                         then Seq ind [] else Block (ind + 1)) rest_lines of
                 Got v ls' \<Rightarrow> run (Map ind (jput key v out)) ls'
               | r \<Rightarrow> r)
            else if prefix ''{'' val \<or> prefix ''['' val then
              (case parse_flow val of
                 None \<Rightarrow> Bad
               | Some v \<Rightarrow> run (Map ind (jput key v out)) rest_lines)
            else
              (case join_wrapped ind rest_lines of (parts, ls') \<Rightarrow>
                (case yaml_scalar (join '' '' (val # parts)) of
                   None \<Rightarrow> Bad
                 | Some v \<Rightarrow> run (Map ind (jput key v out)) ls'))))"

primrec run_parse :: "nat \<Rightarrow> parser" where
  "run_parse 0 t ls = OutOfFuel"
| "run_parse (Suc n) t ls =
     (case t of
        Block m \<Rightarrow> parse_block (run_parse n) m ls
      | Seq ind items \<Rightarrow> parse_seq (run_parse n) ind items ls
      | Map ind out \<Rightarrow> parse_map (run_parse n) ind out ls)"

definition parse_lines_fuel :: "string list \<Rightarrow> nat" where
  "parse_lines_fuel ls = 3 * length ls + 3"

definition load_yaml :: "string \<Rightarrow> json option" where
  "load_yaml text =
     (let raw = map strip_comment (split_on (CHR 0x0A) text);
          anchors = anchor_names raw;
          ls = filter (\<lambda>l. strip l \<noteq> []) raw
      in if list_ex (unsupported anchors) ls then None
         else case run_parse (parse_lines_fuel ls) (Block 0) ls of
             Got v [] \<Rightarrow> Some (if v = JNull then JDict [] else v)
           | _ \<Rightarrow> None)"

section \<open>Facts\<close>

subsection \<open>The block parser terminates\<close>

lemma join_wrapped_length: "join_wrapped ind ls = (parts, ls') \<Longrightarrow> length ls' \<le> length ls"
  by (induction ind ls arbitrary: parts rule: join_wrapped.induct) (auto split: if_splits prod.splits)

text \<open>
  A parse never adds lines, and a block map that consumes none leaves the list as it is.  (A
  sequence may leave a re-anchored line behind.)
\<close>

definition leaves :: "parse_task \<Rightarrow> string list \<Rightarrow> json parsed \<Rightarrow> bool" where
  "leaves t ls r \<longleftrightarrow> (case r of
     Got v ls' \<Rightarrow> length ls' \<le> length ls \<and> (\<forall>ind out. t = Map ind out \<longrightarrow> length ls' < length ls \<or> ls' = ls)
   | _ \<Rightarrow> True)"

lemma leaves_simps [simp]: "leaves t ls OutOfFuel" "leaves t ls Bad" "leaves t ls (Got v ls)"
  by (simp_all add: leaves_def)

lemma leaves_shorter: "length ls' < length ls \<Longrightarrow> leaves t ls' r \<Longrightarrow> leaves t' ls r"
  by (auto simp: leaves_def split: parsed.splits)

lemma leaves_task: "leaves t ls r \<Longrightarrow> \<forall>ind out. t' \<noteq> Map ind out \<Longrightarrow> leaves t' ls r"
  by (auto simp: leaves_def split: parsed.splits)

lemma indent_anchored: "rest \<noteq> [] \<Longrightarrow> \<not> is_space (hd rest) \<Longrightarrow> indent_of (replicate k (CHR '' '') @ rest) = k"
  by (cases rest) (auto simp: indent_of_def takeWhile_append)

lemma strip_hd: "strip s \<noteq> [] \<Longrightarrow> \<not> is_space (hd (strip s))"
  using hd_not_space [OF strip_fixed(1), of "strip s"] by simp

lemma starts_block_map_nonempty: "starts_block_map rest \<Longrightarrow> rest \<noteq> []"
  by (auto simp: starts_block_map_def)

text \<open>A list item that opens a block map, re-anchored at the column of its key.\<close>

definition anchored :: "nat \<Rightarrow> string \<Rightarrow> string" where
  "anchored ind l = replicate (ind + 2) (CHR '' '') @ strip (drop 2 (lstrip l))"

lemma indent_of_anchored: "starts_block_map (strip (drop 2 (lstrip l))) \<Longrightarrow> indent_of (anchored ind l) = ind + 2"
  unfolding anchored_def by (rule indent_anchored) (auto dest: starts_block_map_nonempty strip_hd)

text \<open>The rounds of a sequence and of a map, by what the next line is.\<close>

lemma parse_seq_cases:
  obtains v where "parse_seq run ind items ls = Got v ls" | "parse_seq run ind items ls = Bad"
  | l rest v where "ls = l # rest" "parse_seq run ind items ls = run (Seq ind (items @ [v])) rest"
  | l rest where "ls = l # rest" "indent_of l = ind" "starts_block_map (strip (drop 2 (lstrip l)))"
      "parse_seq run ind items ls =
        (case run (Map (ind + 2) []) (anchored ind l # rest) of Got v ls' \<Rightarrow> run (Seq ind (items @ [v])) ls' | r \<Rightarrow> r)"
  | l rest where "ls = l # rest"
      "parse_seq run ind items ls =
        (case run (Block (ind + 1)) rest of Got v ls' \<Rightarrow> run (Seq ind (items @ [v])) ls' | r \<Rightarrow> r)"
proof (cases ls)
  case Nil
  then show thesis using that(1) by (simp add: parse_seq_def)
next
  case (Cons l rest)
  let ?r = "strip (drop 2 (lstrip l))"
  consider "indent_of l \<noteq> ind \<or> \<not> is_item l" | "indent_of l = ind" "is_item l" "prefix ''{'' ?r \<or> prefix ''['' ?r"
    | "indent_of l = ind" "is_item l" "\<not> (prefix ''{'' ?r \<or> prefix ''['' ?r)" "starts_block_map ?r"
    | "indent_of l = ind" "is_item l" "\<not> (prefix ''{'' ?r \<or> prefix ''['' ?r)" "\<not> starts_block_map ?r" "?r \<noteq> []"
    | "indent_of l = ind" "is_item l" "\<not> (prefix ''{'' ?r \<or> prefix ''['' ?r)" "\<not> starts_block_map ?r" "?r = []"
    by blast
  then show thesis
  proof cases
    case 1
    then show thesis using that(1) Cons by (simp add: parse_seq_def Let_def)
  next
    case 2
    then show thesis using that(2) that(3) [OF Cons] Cons
      by (cases "parse_flow ?r") (simp_all add: parse_seq_def Let_def)
  next
    case 3
    then show thesis using that(4) [OF Cons] Cons by (simp add: parse_seq_def Let_def anchored_def)
  next
    case 4
    then show thesis using that(2) that(3) [OF Cons] Cons
      by (cases "yaml_scalar ?r") (simp_all add: parse_seq_def Let_def)
  next
    case 5
    then have "parse_seq run ind items ls =
        (case run (Block (ind + 1)) rest of Got v ls' \<Rightarrow> run (Seq ind (items @ [v])) ls' | r \<Rightarrow> r)"
      using Cons by (simp add: parse_seq_def Let_def)
    then show thesis by (rule that(5) [OF Cons])
  qed
qed

lemma parse_map_cases:
  obtains v where "parse_map run ind out ls = Got v ls" | "parse_map run ind out ls = Bad"
  | l rest rest' out' where "ls = l # rest" "length rest' \<le> length rest"
      "parse_map run ind out ls = run (Map ind out') rest'"
  | l rest key t where "ls = l # rest" "t = Seq ind [] \<or> t = Block (ind + 1)"
      "parse_map run ind out ls = (case run t rest of Got v ls' \<Rightarrow> run (Map ind (jput key v out)) ls' | r \<Rightarrow> r)"
proof (cases ls)
  case Nil
  then show thesis using that(1) by (simp add: parse_map_def)
next
  case (Cons l rest)
  obtain key val where kv: "split_key (strip l) = (key, val)" by fastforce
  obtain parts rest' where w: "join_wrapped ind rest = (parts, rest')" by fastforce
  consider "indent_of l \<noteq> ind \<or> is_item l" | "indent_of l = ind" "\<not> is_item l" "CHR '':'' \<notin> set (strip l)"
    | "indent_of l = ind" "\<not> is_item l" "CHR '':'' \<in> set (strip l)" by blast
  then show thesis
  proof cases
    case 1
    then show thesis using that(1) Cons by (simp add: parse_map_def)
  next
    case 2
    then show thesis using that(2) Cons by (simp add: parse_map_def)
  next
    case 3
    consider "val = []" | "val \<noteq> []" "prefix ''{'' val \<or> prefix ''['' val" | "val \<noteq> []" "\<not> (prefix ''{'' val \<or> prefix ''['' val)"
      by blast
    then show thesis
    proof cases
      case 1
      let ?t = "if rest \<noteq> [] \<and> indent_of (hd rest) = ind \<and> is_item (hd rest) then Seq ind [] else Block (ind + 1)"
      have "parse_map run ind out ls = (case run ?t rest of Got v ls' \<Rightarrow> run (Map ind (jput key v out)) ls' | r \<Rightarrow> r)"
        using 1 3 kv Cons by (simp add: parse_map_def)
      then show thesis by (rule that(4) [OF Cons, rotated]) simp
    next
      case 2
      then show thesis using that(2) that(3) [OF Cons, of rest] 3 kv Cons
        by (cases "parse_flow val") (simp_all add: parse_map_def)
    next
      case a: 3
      then show thesis using that(2) that(3) [OF Cons join_wrapped_length [OF w]] 3 kv w Cons
        by (cases "yaml_scalar (join '' '' (val # parts))") (simp_all add: parse_map_def)
    qed
  qed
qed


lemma parse_leaves: "leaves t ls (run_parse n t ls)"
proof (induction n arbitrary: t ls)
  case 0
  then show ?case by simp
next
  case (Suc n)
  note IH = Suc.IH
  have bind: "leaves t (l # rest) (case run_parse n t1 ls1 of Got v ls' \<Rightarrow> run_parse n (k v) ls' | r \<Rightarrow> r)"
    if "length ls1 \<le> length rest" for t l rest t1 ls1 k
  proof (cases "run_parse n t1 ls1")
    case (Got v ls')
    then have "length ls' < length (l # rest)" using IH [of t1 ls1] that by (simp add: leaves_def)
    then show ?thesis using Got leaves_shorter [OF _ IH] by simp
  qed simp_all
  show ?case
  proof (cases t)
    case (Block m)
    then show ?thesis using IH leaves_task [OF IH] by (auto simp: parse_block_def split: list.split)
  next
    case (Seq ind items)
    have "leaves (Seq ind items) ls (parse_seq (run_parse n) ind items ls)"
    proof (cases rule: parse_seq_cases [of "run_parse n" ind items ls])
      case (3 l rest v)
      then show ?thesis using leaves_shorter [OF _ IH, of rest ls] by simp
    next
      case (4 l rest)
      show ?thesis
      proof (cases "run_parse n (Map (ind + 2) []) (anchored ind l # rest)")
        case (Got v ls')
        have "length ls' \<le> length ls"
          using IH [of "Map (ind + 2) []" "anchored ind l # rest"] Got 4(1) by (simp add: leaves_def)
        then show ?thesis using Got 4(4) IH [of "Seq ind (items @ [v])" ls']
          by (auto simp: leaves_def split: parsed.splits)
      qed (simp_all add: 4(4))
    next
      case (5 l rest)
      then show ?thesis by (simp add: bind)
    qed simp_all
    then show ?thesis by (simp add: Seq)
  next
    case (Map ind out)
    have "leaves (Map ind out) ls (parse_map (run_parse n) ind out ls)"
    proof (cases rule: parse_map_cases [of "run_parse n" ind out ls])
      case (3 l rest rest' out')
      then show ?thesis using leaves_shorter [OF _ IH, of rest' ls] by simp
    next
      case (4 l rest key t1)
      then show ?thesis by (simp add: bind)
    qed simp_all
    then show ?thesis by (simp add: Map)
  qed
qed

fun parse_need :: "parse_task \<Rightarrow> nat" where
  "parse_need (Block m) = 3"
| "parse_need (Seq ind items) = 2"
| "parse_need (Map ind out) = 1"

lemma seq_stops: "0 < n \<Longrightarrow> indent_of l \<noteq> ind \<Longrightarrow> run_parse n (Seq ind items) (l # ls) \<noteq> OutOfFuel"
  by (cases n) (simp_all add: parse_seq_def Let_def)

lemma parse_enough_fuel: "3 * length ls + parse_need t \<le> n \<Longrightarrow> run_parse n t ls \<noteq> OutOfFuel"
proof (induction n arbitrary: t ls)
  case 0
  then show ?case by (cases t) auto
next
  case (Suc n)
  note IH = Suc.IH
  have need: "parse_need t \<le> 3" for t by (cases t) auto
  have bind: "(case run_parse n t1 rest of Got v ls' \<Rightarrow> run_parse n (k v) ls' | r \<Rightarrow> r) \<noteq> OutOfFuel"
    if "3 * length rest + 3 \<le> n" for t1 rest k
  proof (cases "run_parse n t1 rest")
    case (Got v ls')
    then have "3 * length ls' + parse_need (k v) \<le> n"
      using parse_leaves [of t1 rest n] that need [of "k v"] by (simp add: leaves_def)
    then show ?thesis using Got IH by simp
  next
    case OutOfFuel
    then show ?thesis using IH [of rest t1] that need [of t1] by simp
  qed simp
  show ?case
  proof (cases t)
    case (Block m)
    have "run_parse n t1 ls \<noteq> OutOfFuel" if "parse_need t1 \<le> 2" for t1
      using Suc.prems that Block by (intro IH) simp
    then show ?thesis by (simp add: Block parse_block_def split: list.split)
  next
    case (Seq ind items)
    have "parse_seq (run_parse n) ind items ls \<noteq> OutOfFuel"
    proof (cases rule: parse_seq_cases [of "run_parse n" ind items ls])
      case (3 l rest v)
      then show ?thesis using Suc.prems Seq by (auto intro!: IH)
    next
      case (4 l rest)
      have n: "3 * length (l # rest) + 1 \<le> n" using Suc.prems Seq 4(1) by simp
      show ?thesis
      proof (cases "run_parse n (Map (ind + 2) []) (anchored ind l # rest)")
        case (Got v ls')
        have "length ls' < length (l # rest) \<or> ls' = anchored ind l # rest"
          using parse_leaves [of "Map (ind + 2) []" "anchored ind l # rest" n] Got by (simp add: leaves_def)
        then show ?thesis
        proof
          assume "length ls' < length (l # rest)"
          then show ?thesis using Got 4(4) n by (auto intro!: IH)
        next
          assume "ls' = anchored ind l # rest"
          then show ?thesis using Got 4(3,4) n seq_stops [of n "anchored ind l" ind] indent_of_anchored by simp
        qed
      next
        case OutOfFuel
        then show ?thesis using IH [of "anchored ind l # rest" "Map (ind + 2) []"] n by simp
      qed (simp add: 4(4))
    next
      case (5 l rest)
      then show ?thesis using bind [of rest] Suc.prems Seq by simp
    qed simp_all
    then show ?thesis by (simp add: Seq)
  next
    case (Map ind out)
    have "parse_map (run_parse n) ind out ls \<noteq> OutOfFuel"
    proof (cases rule: parse_map_cases [of "run_parse n" ind out ls])
      case (3 l rest rest' out')
      then show ?thesis using Suc.prems Map by (auto intro!: IH)
    next
      case (4 l rest key t1)
      then show ?thesis using bind [of rest] Suc.prems Map by simp
    qed simp_all
    then show ?thesis by (simp add: Map)
  qed
qed


section \<open>Properties\<close>

text \<open>C37: The YAML reader always returns: whatever the lines, the block parser started as \<open>load_yaml\<close>
  starts it never runs out of fuel, so every text is either parsed or refused.\<close>

theorem yaml_reader_terminates: "run_parse (parse_lines_fuel ls) (Block 0) ls \<noteq> OutOfFuel"
  by (rule parse_enough_fuel) (simp add: parse_lines_fuel_def)

text \<open>A value of two dashes and digits, or of a superscript digit, makes the whole file unreadable.\<close>

lemma odd_digits_refused: "load_yaml ''size: --5'' = None" "load_yaml (''size: '' @ [CHR 0xB2]) = None"
  by code_simp+

end
