(* ===== verification/Registry.thy ===== *)
theory Registry
  imports Yaml
begin

text \<open>
  The capability registry and the node-hook configuration of \<open>companion_config.py\<close>: normalizing the
  registry block, choosing between the registry file and the legacy block, rendering the registry
  and splicing it into an existing file, and the contract of recipes, phases and hooks.  A
  \<open>ConfigError\<close> is \<open>None\<close>; a warning is a value of a datatype instead of its wording.
\<close>

record capability =
  cap_name :: string
  cap_match :: "string list"
  cap_exclude :: "string list"
  cap_spec :: string
  spec_defaulted :: bool
  retire :: bool

record living =
  enabled :: bool
  layout :: string
  exempt :: "string list"
  capabilities :: "capability list"
  rules :: "(string \<times> string list) list"

datatype config_warning =
    RulesNotMapping
  | RuleStepUnknown string
  | RuleNotList string
  | MalformedRegistry
  | MalformedConfig
  | LegacyBlockIgnored

definition DEFAULT_CAPABILITY_ROOT :: string where "DEFAULT_CAPABILITY_ROOT = ''capabilities''"
definition SPEC_SUFFIX :: string where "SPEC_SUFFIX = ''.spec.md''"
definition LEGACY_CENTRAL_SPEC :: string where "LEGACY_CENTRAL_SPEC = ''spec.md''"
definition LIVING_SPECS_REL :: string where "LIVING_SPECS_REL = ''living-specs.yml''"
definition LEGACY_CONFIG_REL :: string where "LEGACY_CONFIG_REL = ''.specify/companion.yml''"

definition DEFAULT_EXEMPT_GLOBS :: "string list" where
  "DEFAULT_EXEMPT_GLOBS = [''**/*.config.*'', ''**/*.test.*'', ''**/__tests__/**'', ''**/migrations/**'']"

definition REGISTRY_KEYS :: "string list" where
  "REGISTRY_KEYS = [''enabled'', ''layout'', ''exempt'', ''capabilities'', ''rules'']"

definition RULE_STEPS :: "string list" where "RULE_STEPS = [''spec'', ''plan'']"

subsection \<open>Normalizing the registry block\<close>

definition as_list :: "json \<Rightarrow> string list" where
  "as_list v =
     (case v of
        JNull \<Rightarrow> []
      | JList xs \<Rightarrow> map py_str (filter (\<lambda>x. x \<noteq> JNull \<and> x \<noteq> JStr []) xs)
      | _ \<Rightarrow> if v \<noteq> JStr [] then [py_str v] else [])"

definition no_rules :: "(string \<times> string list) list" where
  "no_rules = map (\<lambda>s. (s, [])) RULE_STEPS"

fun load_rule_items :: "jdict \<Rightarrow> (string \<times> string list) list \<times> config_warning list
     \<Rightarrow> (string \<times> string list) list \<times> config_warning list" where
  "load_rule_items [] acc = acc"
| "load_rule_items ((step, v) # d) (out, warns) =
     (if step \<notin> set RULE_STEPS then load_rule_items d (out, warns @ [RuleStepUnknown step])
      else if v \<noteq> JNull \<and> \<not> is_list v then load_rule_items d (out, warns @ [RuleNotList step])
      else load_rule_items d (AList.update step (as_list v) out, warns))"

definition load_rules :: "json \<Rightarrow> (string \<times> string list) list \<times> config_warning list" where
  "load_rules block =
     (case block of
        JNull \<Rightarrow> (no_rules, [])
      | JDict d \<Rightarrow> load_rule_items d (no_rules, [])
      | _ \<Rightarrow> (no_rules, [RulesNotMapping]))"

definition default_spec :: "string \<Rightarrow> string" where
  "default_spec name = DEFAULT_CAPABILITY_ROOT @ ''/'' @ name @ ''/'' @ name @ SPEC_SUFFIX"

definition load_capability :: "json \<Rightarrow> capability option" where
  "load_capability entry =
     (case entry of
        JDict e \<Rightarrow>
          (if \<not> truthy (jget e ''name'') then None
           else let name = py_str (jget e ''name''); declared = has_key e ''spec'' in
             Some \<lparr>cap_name = name, cap_match = as_list (jget e ''match''), cap_exclude = as_list (jget e ''exclude''),
               cap_spec = (if declared
                           then (if jget e ''spec'' \<in> {JNull, JStr []} then [] else py_str (jget e ''spec''))
                           else default_spec name),
               spec_defaulted = (\<not> declared), retire = (jget e ''retire'' = JBool True)\<rparr>)
      | _ \<Rightarrow> None)"

definition unwrap_block :: "json \<Rightarrow> json" where
  "unwrap_block block =
     (let b = (if truthy block then block else JDict []) in
      case b of JDict d \<Rightarrow> (if is_dict (jget d ''livingSpecs'') then jget d ''livingSpecs'' else b) | _ \<Rightarrow> b)"

definition chosen_layout :: "json \<Rightarrow> string" where
  "chosen_layout v =
     (let l = lower (strip (if truthy v then py_str v else ''central''))
      in if l \<in> {''central'', ''colocated''} then l else ''central'')"

definition load_living_specs_block :: "json \<Rightarrow> living \<times> config_warning list" where
  "load_living_specs_block block =
     (case unwrap_block block of
        JDict d \<Rightarrow>
          (let (rs, warns) = load_rules (jget d ''rules'') in
           (\<lparr>enabled = truthy (jget d ''enabled''),
             layout = chosen_layout (jget d ''layout''),
             exempt = (if has_key d ''exempt'' then as_list (jget d ''exempt'') else DEFAULT_EXEMPT_GLOBS),
             capabilities = List.map_filter load_capability (list_or_empty (jget d ''capabilities'')),
             rules = rs\<rparr>, warns))
      | _ \<Rightarrow>
          (\<lparr>enabled = False, layout = ''central'', exempt = DEFAULT_EXEMPT_GLOBS, capabilities = [],
            rules = no_rules\<rparr>, []))"

subsection \<open>Where the registry lives\<close>

text \<open>
  The files of a project are a function from root-relative paths to their text, \<open>None\<close> when there is
  no such file.
\<close>

type_synonym files = "string \<Rightarrow> string option"

definition load_config :: "string option \<Rightarrow> jdict \<times> config_warning list" where
  "load_config file =
     (case file of
        None \<Rightarrow> ([], [])
      | Some content \<Rightarrow> (case load_yaml content of Some (JDict d) \<Rightarrow> (d, []) | _ \<Rightarrow> ([], [MalformedConfig])))"

definition settle_spec :: "files \<Rightarrow> capability \<Rightarrow> capability" where
  "settle_spec fs cap =
     (let legacy = DEFAULT_CAPABILITY_ROOT @ ''/'' @ cap_name cap @ ''/'' @ LEGACY_CENTRAL_SPEC in
      if \<not> spec_defaulted cap \<or> cap_spec cap = [] then cap
      else if fs (cap_spec cap) \<noteq> None then cap
      else if fs legacy \<noteq> None then cap\<lparr>cap_spec := legacy\<rparr> else cap)"

definition settle_default_specs :: "files \<Rightarrow> living \<Rightarrow> living" where
  "settle_default_specs fs l = l\<lparr>capabilities := map (settle_spec fs) (capabilities l)\<rparr>"

datatype origin = FromRegistry | FromLegacy | FromNowhere

record meta =
  origin :: origin
  source_path :: "string option"
  legacy_stale :: bool
  warnings :: "config_warning list"
  errors :: "config_warning list"

definition resolve_living_specs :: "files \<Rightarrow> living \<times> meta" where
  "resolve_living_specs fs =
     (let (legacy_cfg, legacy_warnings) = load_config (fs LEGACY_CONFIG_REL);
          legacy_has_block = is_dict (jget legacy_cfg ''livingSpecs'')
      in case fs LIVING_SPECS_REL of
          Some content \<Rightarrow>
            (case load_yaml content of
               Some (JDict doc) \<Rightarrow>
                 (let (l, rule_warnings) = load_living_specs_block (JDict doc) in
                  (settle_default_specs fs l,
                   \<lparr>origin = FromRegistry, source_path = Some LIVING_SPECS_REL, legacy_stale = legacy_has_block,
                     warnings = rule_warnings @ (if legacy_has_block then [LegacyBlockIgnored] else []), errors = []\<rparr>))
             | Some (JList []) \<Rightarrow>
                 (settle_default_specs fs (fst (load_living_specs_block (JDict []))),
                   \<lparr>origin = FromRegistry, source_path = Some LIVING_SPECS_REL, legacy_stale = legacy_has_block,
                     warnings = (if legacy_has_block then [LegacyBlockIgnored] else []), errors = []\<rparr>)
             | _ \<Rightarrow>
                 (fst (load_living_specs_block (JDict [])),
                   \<lparr>origin = FromRegistry, source_path = Some LIVING_SPECS_REL, legacy_stale = legacy_has_block,
                     warnings = [MalformedRegistry], errors = [MalformedRegistry]\<rparr>))
        | None \<Rightarrow>
            (if legacy_has_block
             then (settle_default_specs fs (fst (load_living_specs_block (jget legacy_cfg ''livingSpecs''))),
                   \<lparr>origin = FromLegacy, source_path = Some LEGACY_CONFIG_REL, legacy_stale = False,
                     warnings = [], errors = []\<rparr>)
             else (fst (load_living_specs_block (JDict [])),
                   \<lparr>origin = FromNowhere, source_path = None, legacy_stale = False,
                     warnings = legacy_warnings, errors = legacy_warnings\<rparr>)))"

definition should_drop_legacy :: "meta \<Rightarrow> bool" where
  "should_drop_legacy m \<longleftrightarrow> origin m = FromLegacy"

definition is_project_root :: "files \<Rightarrow> string \<Rightarrow> bool" where
  "is_project_root fs dir \<longleftrightarrow>
     fs (dir @ ''/'' @ LIVING_SPECS_REL) \<noteq> None \<or> fs (dir @ ''/'' @ LEGACY_CONFIG_REL) \<noteq> None"

subsection \<open>Writing the registry\<close>

definition yaml_flow_list :: "string list \<Rightarrow> string" where
  "yaml_flow_list items = ''['' @ join '', '' (map (\<lambda>i. [CHR 0x22] @ i @ [CHR 0x22]) items) @ '']''"

definition registry_scalar :: "string \<Rightarrow> string" where
  "registry_scalar v =
     (let probe = ''k: '' @ v in
      if unsupported [] probe \<or> strip_comment probe \<noteq> probe \<or> v \<noteq> strip v \<or> CHR '':'' \<in> set v
      then [CHR 0x22] @ v @ [CHR 0x22] else v)"

definition render_capability :: "capability \<Rightarrow> string list" where
  "render_capability cap =
     [''  - name: '' @ registry_scalar (cap_name cap), ''    match: '' @ yaml_flow_list (cap_match cap)]
     @ (if cap_exclude cap \<noteq> [] then [''    exclude: '' @ yaml_flow_list (cap_exclude cap)] else [])
     @ (if cap_spec cap \<noteq> [] then [''    spec: '' @ registry_scalar (cap_spec cap)] else [])"

definition rule_lines :: "(string \<times> string list) list \<Rightarrow> string list" where
  "rule_lines rs =
     (let authored = filter (\<lambda>p. snd p \<noteq> [])
            (map (\<lambda>s. (s, case map_of rs s of None \<Rightarrow> [] | Some items \<Rightarrow> items)) RULE_STEPS)
      in if authored = [] then []
         else ''rules:'' # concat (map (\<lambda>(s, items).
             (''  '' @ s @ '':'') # map (\<lambda>i. ''    - '' @ [CHR 0x22] @ i @ [CHR 0x22]) items) authored))"

definition render_registry ::
  "bool \<Rightarrow> capability list \<Rightarrow> string list option \<Rightarrow> (string \<times> string list) list \<Rightarrow> string option \<Rightarrow> string" where
  "render_registry on caps ex rs lay =
     join nl
       ([''enabled: '' @ (if on then ''true'' else ''false'')]
        @ (case lay of Some l \<Rightarrow> (if l \<noteq> [] \<and> l \<noteq> ''central'' then [''layout: '' @ l] else []) | None \<Rightarrow> [])
        @ (case ex of Some globs \<Rightarrow> [''exempt: '' @ yaml_flow_list globs] | None \<Rightarrow> [])
        @ (if caps \<noteq> [] then ''capabilities:'' # concat (map render_capability caps) else [''capabilities: []''])
        @ rule_lines rs) @ nl"

definition is_top_level_key :: "string \<Rightarrow> bool" where
  "is_top_level_key l \<longleftrightarrow> l \<noteq> [] \<and> \<not> is_space (hd l) \<and> \<not> prefix ''#'' (lstrip l)"

text \<open>Blank lines and column-0 comments at the end of a block are not part of it.\<close>

definition is_spacing :: "string \<Rightarrow> bool" where
  "is_spacing l \<longleftrightarrow> strip l = [] \<or> (prefix ''#'' (lstrip l) \<and> \<not> is_space (hd l))"

text \<open>
  \<open>block_end\<close>: how many of the lines after a top-level key belong to its block.
\<close>

definition block_length :: "string list \<Rightarrow> nat" where
  "block_length after =
     length (rev (dropWhile is_spacing (rev (takeWhile (\<lambda>l. \<not> is_top_level_key l) after))))"

definition block_end :: "string list \<Rightarrow> nat \<Rightarrow> nat" where
  "block_end ls last_key = last_key + 1 + block_length (drop (last_key + 1) ls)"

definition is_owned :: "string \<Rightarrow> bool" where
  "is_owned l \<longleftrightarrow>
     is_top_level_key l \<and>
     strip (case cut_at '':'' l of None \<Rightarrow> l | Some (k, _) \<Rightarrow> k) \<in> set REGISTRY_KEYS"

definition owned_keys :: "string list \<Rightarrow> nat list" where
  "owned_keys ls = filter (\<lambda>i. is_owned (ls ! i)) [0..<length ls]"

definition splice_registry :: "string \<Rightarrow> string \<Rightarrow> string" where
  "splice_registry original rendered =
     (let ls = splitlines_keep original; owned = owned_keys ls in
      if owned = [] then
        (if strip original = [] then rendered
         else (if suffix nl original then original else original @ nl) @ rendered)
      else concat (take (hd owned) ls) @ rendered @ concat (drop (block_end ls (last owned)) ls))"

subsection \<open>Recipes, phases and hooks\<close>

text \<open>\<open>(v or {}).get(k)\<close>: a truthy value that is not a mapping has no \<open>get\<close>.\<close>

definition get_in :: "json \<Rightarrow> string \<Rightarrow> json option" where
  "get_in v k = (if \<not> truthy v then Some JNull else case v of JDict d \<Rightarrow> Some (jget d k) | _ \<Rightarrow> None)"

definition command_get :: "jdict \<Rightarrow> string \<Rightarrow> string \<Rightarrow> json option" where
  "command_get config command k =
     Option.bind (get_in (jget config ''commands'') command) (\<lambda>cmd. get_in cmd k)"

definition debug_enabled :: "jdict \<Rightarrow> bool" where
  "debug_enabled config \<longleftrightarrow> jget config ''debug'' = JBool True"

definition resolve_order :: "jdict \<Rightarrow> string \<Rightarrow> json list \<Rightarrow> json list option" where
  "resolve_order config command default_order =
     map_option (\<lambda>nodes. case nodes of JList (n # ns) \<Rightarrow> n # ns | _ \<Rightarrow> default_order)
       (command_get config command ''nodes'')"

definition phase_of :: "json \<Rightarrow> (string \<times> string list) option" where
  "phase_of phase =
     (case phase of
        JDict d \<Rightarrow>
          (let name = strip (if truthy (jget d ''name'') then py_str (jget d ''name'') else []) in
           if name = [] then None
           else case jget d ''nodes'' of JList (n # ns) \<Rightarrow> Some (name, map py_str (n # ns)) | _ \<Rightarrow> None)
      | _ \<Rightarrow> None)"

definition resolve_phases :: "jdict \<Rightarrow> string \<Rightarrow> (string \<times> string list) list option" where
  "resolve_phases config command =
     (case command_get config command ''phases'' of
        None \<Rightarrow> None
      | Some (JList (p # ps)) \<Rightarrow>
          (case traverse phase_of (p # ps) of
             None \<Rightarrow> None
           | Some out \<Rightarrow>
               (if distinct (map fst out) \<and> distinct (concat (map snd out)) then Some out else None))
      | Some _ \<Rightarrow> Some [])"

definition HOOK_TYPES :: "string list" where
  "HOOK_TYPES = [''command'', ''prompt'', ''node'', ''skill'']"

datatype hook_warning = AnchorNotActive string string | MalformedHook string string nat

record hook_place =
  hook_when :: string
  hook_anchor :: string
  hook_index :: nat
  hook_body :: jdict

text \<open>
  One hook of an anchor.  \<open>node_file\<close> says whether a referenced node file exists, when directories to
  look in were given.  The result is the hook placed, a warning, or a \<open>ConfigError\<close>.
\<close>

definition merge_hook ::
  "(string \<Rightarrow> bool) option \<Rightarrow> string \<Rightarrow> string \<Rightarrow> nat \<times> json \<Rightarrow> hook_place list \<times> hook_warning list
     \<Rightarrow> (hook_place list \<times> hook_warning list) option" where
  "merge_hook node_file when anchor ih acc =
     (case (ih, acc) of ((i, hook), (ordered, warns)) \<Rightarrow>
       (case hook of
          JDict h \<Rightarrow>
            (case in_names (jget h ''type'') HOOK_TYPES of
               None \<Rightarrow> None
             | Some False \<Rightarrow> Some (ordered, warns @ [MalformedHook when anchor i])
             | Some True \<Rightarrow>
                 (let ref = jget h ''ref'' in
                  if jget h ''type'' = JStr ''node'' \<and>
                     (\<not> truthy ref \<or> (case node_file of None \<Rightarrow> False | Some exists_in \<Rightarrow> \<not> exists_in (py_str ref)))
                  then None
                  else if jget h ''type'' = JStr ''skill'' \<and>
                     strip (case map_of h ''ref'' of None \<Rightarrow> [] | Some v \<Rightarrow> py_str v) = []
                  then None
                  else Some (ordered @ [\<lparr>hook_when = when, hook_anchor = anchor, hook_index = i, hook_body = h\<rparr>], warns)))
        | _ \<Rightarrow> Some (ordered, warns @ [MalformedHook when anchor i])))"

definition merge_anchor ::
  "(string \<Rightarrow> bool) option \<Rightarrow> string list \<Rightarrow> string \<Rightarrow> string \<times> json \<Rightarrow> hook_place list \<times> hook_warning list
     \<Rightarrow> (hook_place list \<times> hook_warning list) option" where
  "merge_anchor node_file active when ah acc =
     (case ah of (anchor, hook_list) \<Rightarrow>
        (if anchor \<notin> set active then Some (fst acc, snd acc @ [AnchorNotActive when anchor])
         else let hooks = (case hook_list of JList hs \<Rightarrow> hs | h \<Rightarrow> [h])
              in fold_opt (merge_hook node_file when anchor) (zip [0..<length hooks] hooks) acc))"

definition merge_when ::
  "(string \<Rightarrow> bool) option \<Rightarrow> string list \<Rightarrow> json \<Rightarrow> string \<Rightarrow> hook_place list \<times> hook_warning list
     \<Rightarrow> (hook_place list \<times> hook_warning list) option" where
  "merge_when node_file active hooks when acc =
     (case get_in hooks when of
        None \<Rightarrow> None
      | Some anchors \<Rightarrow>
          (case (if truthy anchors then anchors else JDict []) of
             JDict d \<Rightarrow> fold_opt (merge_anchor node_file active when) d acc
           | _ \<Rightarrow> Some acc))"

definition merge_hooks ::
  "jdict \<Rightarrow> string \<Rightarrow> string list \<Rightarrow> (string \<Rightarrow> bool) option \<Rightarrow> (hook_place list \<times> hook_warning list) option" where
  "merge_hooks config command active node_file =
     Option.bind (command_get config command ''hooks'')
       (\<lambda>hooks. fold_opt (merge_when node_file active hooks) [''before'', ''after''] ([], []))"

text \<open>\<open>validate_reads\<close>: no exception is \<open>True\<close>.\<close>

definition validate_reads :: "(string \<times> string list) list \<Rightarrow> (string \<times> string) list \<Rightarrow> bool" where
  "validate_reads active_meta stands_in =
     (let slots = filter (\<lambda>s. s \<noteq> []) (List.map_filter (map_of stands_in) (map fst active_meta));
          active = map fst active_meta @ slots
      in \<forall>(node, reads) \<in> set active_meta. \<forall>dep \<in> set reads. dep \<in> set active)"

section \<open>Facts\<close>

subsection \<open>Quoted items\<close>

definition quoted :: "string \<Rightarrow> string" where
  "quoted i = [CHR 0x22] @ i @ [CHR 0x22]"

lemma not_space_quote: "\<not> is_space (CHR 0x22)" "\<not> is_space (CHR ''['')" "\<not> is_space (CHR '']'')"
  by (simp_all add: is_space_def space_chars_def)

lemma strip_ends: "s \<noteq> [] \<Longrightarrow> \<not> is_space (hd s) \<Longrightarrow> \<not> is_space (last s) \<Longrightarrow> strip s = s"
  by (simp add: strip_def lstrip_id rstrip_id)

lemma strip_quoted: "strip (quoted i) = quoted i"
  by (rule strip_ends) (simp_all add: quoted_def not_space_quote)

lemma split_flow_inside:
  "q \<notin> set i \<Longrightarrow> split_flow_aux buf d (Some q) (i @ q # rest) = split_flow_aux (q # rev i @ buf) d None rest"
  by (induction i arbitrary: buf) auto

lemma split_flow_quoted:
  "CHR 0x22 \<notin> set i \<Longrightarrow>
   split_flow_aux buf 0 None (quoted i @ rest) = split_flow_aux (rev (quoted i) @ buf) 0 None rest"
  using split_flow_inside [of "CHR 0x22" i "CHR 0x22 # buf" 0 rest] by (simp add: quoted_def)

lemma split_flow_items:
  "\<forall>i \<in> set items. CHR 0x22 \<notin> set i \<Longrightarrow> items \<noteq> [] \<Longrightarrow> \<forall>c \<in> set buf. is_space c \<Longrightarrow>
   split_flow_aux buf 0 None (join '', '' (map quoted items)) =
     (rev buf @ quoted (hd items)) # map (\<lambda>i. '' '' @ quoted i) (tl items)"
proof (induction items arbitrary: buf)
  case (Cons i items)
  have q: "CHR 0x22 \<notin> set i" using Cons.prems(1) by simp
  show ?case
  proof (cases "items = []")
    case True
    have "strip (rev buf @ quoted i) \<noteq> []"
    proof -
      have "lstrip (rev buf @ quoted i) = quoted i"
        using Cons.prems(3) by (auto simp: lstrip_def quoted_def not_space_quote dropWhile_append)
      then show ?thesis using strip_quoted [of i] by (auto simp: strip_def rstrip_id quoted_def not_space_quote)
    qed
    then show ?thesis using split_flow_quoted [OF q, of buf "[]"] True by simp
  next
    case False
    then have "join '', '' (map quoted (i # items)) = quoted i @ '','' @ '' '' @ join '', '' (map quoted items)"
      by (simp add: join_Cons)
    moreover have "split_flow_aux buf 0 None (quoted i @ '','' @ '' '' @ join '', '' (map quoted items)) =
        (rev buf @ quoted i) # split_flow_aux '' '' 0 None (join '', '' (map quoted items))"
      using split_flow_quoted [OF q, of buf "'','' @ '' '' @ join '', '' (map quoted items)"] by simp
    moreover have "split_flow_aux '' '' 0 None (join '', '' (map quoted items)) =
        ('' '' @ quoted (hd items)) # map (\<lambda>i. '' '' @ quoted i) (tl items)"
      using Cons.IH [of "'' ''"] Cons.prems(1) False by simp
    ultimately show ?thesis using False by (simp add: hd_Cons_tl [symmetric] del: hd_Cons_tl)
      (metis list.collapse list.simps(9))
  qed
qed simp

lemma parse_flow_quoted: "\<forall>c \<in> set sp. is_space c \<Longrightarrow> parse_flow (sp @ quoted i) = Some (JStr i)"
proof -
  assume "\<forall>c \<in> set sp. is_space c"
  then have "lstrip (sp @ quoted i) = quoted i"
    by (auto simp: lstrip_def quoted_def not_space_quote dropWhile_append)
  then have s: "strip (sp @ quoted i) = quoted i"
    by (simp add: strip_def rstrip_id quoted_def not_space_quote)
  have "yaml_scalar (quoted i) = Some (JStr i)"
    by (simp add: yaml_scalar_def strip_quoted Let_def) (simp add: quoted_def)
  then show ?thesis by (subst parse_flow.simps) (simp add: s Let_def enclosed_def, simp add: quoted_def)
qed

subsection \<open>Hooks\<close>

definition hook_ok :: "string list \<Rightarrow> (string \<Rightarrow> bool) option \<Rightarrow> hook_place \<Rightarrow> bool" where
  "hook_ok active node_file p \<longleftrightarrow>
     hook_anchor p \<in> set active \<and> (\<exists>t \<in> set HOOK_TYPES. jget (hook_body p) ''type'' = JStr t) \<and>
     (jget (hook_body p) ''type'' = JStr ''node'' \<longrightarrow> truthy (jget (hook_body p) ''ref'') \<and>
        (\<forall>f. node_file = Some f \<longrightarrow> f (py_str (jget (hook_body p) ''ref''))))"

lemma merge_hook_ok:
  assumes "merge_hook nf wh anchor ih acc = Some acc'" and "anchor \<in> set active"
    and "\<forall>p \<in> set (fst acc). hook_ok active nf p"
  shows "\<forall>p \<in> set (fst acc'). hook_ok active nf p"
  using assms in_names_True [of _ HOOK_TYPES]
  by (auto simp: merge_hook_def hook_ok_def Let_def split: prod.splits json.splits option.splits bool.splits if_splits)

subsection \<open>What a rewrite loses\<close>

text \<open>The writer has no line for \<open>retire\<close>, so rewriting the registry forgets that a capability is retiring.\<close>

lemma retire_is_not_written: "render_capability (cap\<lparr>retire := True\<rparr>) = render_capability (cap\<lparr>retire := False\<rparr>)"
  by (simp add: render_capability_def)

text \<open>A quote inside an item ends it early: the list that was written is not the list that is read.\<close>

lemma quote_in_glob_is_misread:
  "parse_flow (yaml_flow_list [''a'' @ [CHR 0x22] @ '','' @ [CHR 0x22] @ ''b'']) = Some (JList [JStr ''a'', JStr ''b''])"
  by code_simp

text \<open>A skill hook whose \<open>ref\<close> is there but empty passes the check for a name: \<open>str(None)\<close> is not blank.\<close>

lemma empty_skill_ref_accepted:
  "merge_hook node_file ''before'' ''a'' (0, JDict [(''type'', JStr ''skill''), (''ref'', JNull)]) ([], []) \<noteq> None"
  by (simp add: merge_hook_def jget_def HOOK_TYPES_def strip_def lstrip_def rstrip_def is_space_def space_chars_def)

section \<open>Properties\<close>

text \<open>A list of globs written to the registry is read back as it was: for items without a double
  quote, whatever commas, braces or blanks they hold, parsing the rendered flow list gives the list.\<close>

theorem flow_list_roundtrip:
  assumes "\<forall>i \<in> set items. CHR 0x22 \<notin> set i"
  shows "parse_flow (yaml_flow_list items) = Some (JList (map JStr items))"
proof -
  let ?body = "join '', '' (map quoted items)"
  have rend: "yaml_flow_list items = ''['' @ ?body @ '']''"
    by (simp add: yaml_flow_list_def quoted_def [abs_def])
  have s: "strip (''['' @ ?body @ '']'') = ''['' @ ?body @ '']''"
    by (rule strip_ends) (simp_all add: not_space_quote)
  have pieces: "traverse parse_flow (split_flow (strip ?body)) = Some (map JStr items)"
  proof (cases "items = []")
    case True
    then show ?thesis by (simp add: split_flow_def)
  next
    case False
    have ends: "?body \<noteq> [] \<and> hd ?body = CHR 0x22 \<and> last ?body = CHR 0x22"
      using False by (induction items rule: induct_list012) (auto simp: quoted_def join_Cons)
    then have "strip ?body = ?body" by (intro strip_ends) (auto simp: not_space_quote)
    moreover have "split_flow ?body = quoted (hd items) # map (\<lambda>i. '' '' @ quoted i) (tl items)"
      using split_flow_items [OF assms False, of "[]"] by (simp add: split_flow_def)
    moreover have "traverse parse_flow (map (\<lambda>i. '' '' @ quoted i) xs) = Some (map JStr xs)" for xs
      by (induction xs) (use parse_flow_quoted [of "'' ''"] in auto)
    ultimately show ?thesis using parse_flow_quoted [of "[]"] False by (cases items) simp_all
  qed
  show ?thesis unfolding rend
    by (subst parse_flow.simps) (simp only: s Let_def, simp add: enclosed_def butlast_append pieces)
qed


theorem flow_list_roundtrip_witness:
  "parse_flow (yaml_flow_list [''src/**/*.{ts,tsx}'', '' # not a comment'']) =
     Some (JList [JStr ''src/**/*.{ts,tsx}'', JStr '' # not a comment''])"
  using flow_list_roundtrip [of "[''src/**/*.{ts,tsx}'', '' # not a comment'']"] by simp

text \<open>The registry file wins outright whenever it is there, readable or not: the capabilities that are
  resolved do not depend on what the legacy configuration file holds, or whether it exists.\<close>

theorem registry_wins:
  assumes "fs LIVING_SPECS_REL = Some content"
  shows "fst (resolve_living_specs (fs(LEGACY_CONFIG_REL := any))) = fst (resolve_living_specs fs)"
proof -
  have ne: "LIVING_SPECS_REL \<noteq> LEGACY_CONFIG_REL" by (simp add: LIVING_SPECS_REL_def LEGACY_CONFIG_REL_def)
  have spec: "DEFAULT_CAPABILITY_ROOT @ s \<noteq> LEGACY_CONFIG_REL" for s
    by (simp add: DEFAULT_CAPABILITY_ROOT_def LEGACY_CONFIG_REL_def)
  have settle: "settle_spec (fs(LEGACY_CONFIG_REL := any)) c = settle_spec fs c"
    if "spec_defaulted c \<longrightarrow> (\<exists>n. cap_spec c = default_spec n)" for c
    using that spec spec [symmetric] by (auto simp: settle_spec_def Let_def default_spec_def)
  have defaulted: "spec_defaulted c \<longrightarrow> (\<exists>n. cap_spec c = default_spec n)"
    if "c \<in> set (capabilities (fst (load_living_specs_block b)))" for b c
    using that
    by (auto simp: load_living_specs_block_def List.map_filter_def load_capability_def Let_def
        split: json.splits if_splits prod.splits)
  have same: "settle_default_specs (fs(LEGACY_CONFIG_REL := any)) (fst (load_living_specs_block b)) =
      settle_default_specs fs (fst (load_living_specs_block b))" for b
    using settle defaulted unfolding settle_default_specs_def by (metis (no_types, lifting) map_cong)
  have same': "load_living_specs_block b = (l, w) \<Longrightarrow>
      settle_default_specs (fs(LEGACY_CONFIG_REL := any)) l = settle_default_specs fs l" for b l w
    using same [of b] by simp
  show ?thesis using assms ne same same'
    by (auto simp: resolve_living_specs_def Let_def split: prod.splits option.splits json.splits list.splits)
qed

theorem registry_wins_witness:
  "fst (resolve_living_specs ((\<lambda>p. if p = LIVING_SPECS_REL then Some ''enabled: false'' else None)
       (LEGACY_CONFIG_REL := Some ''livingSpecs: {enabled: true}''))) =
   fst (resolve_living_specs (\<lambda>p. if p = LIVING_SPECS_REL then Some ''enabled: false'' else None))"
  by (rule registry_wins [of _ "''enabled: false''"]) simp

text \<open>Deleting the legacy block is only ever called safe when it is the block that was read: there is no
  registry file, nothing failed to parse, and the capabilities returned are the ones of that block.\<close>

theorem legacy_dropped_only_when_read:
  assumes "resolve_living_specs fs = (l, m)" and "should_drop_legacy m"
  shows "fs LIVING_SPECS_REL = None \<and> errors m = [] \<and>
    (\<exists>d b. fst (load_config (fs LEGACY_CONFIG_REL)) = d \<and> jget d ''livingSpecs'' = JDict b \<and>
       l = settle_default_specs fs (fst (load_living_specs_block (JDict b))))"
proof -
  obtain d w where c: "load_config (fs LEGACY_CONFIG_REL) = (d, w)" by fastforce
  show ?thesis using assms
    by (cases "jget d ''livingSpecs''")
       (auto simp: resolve_living_specs_def should_drop_legacy_def c Let_def
         split: prod.splits option.splits json.splits list.splits if_splits)
qed

theorem legacy_dropped_only_when_read_witness:
  "errors (snd (resolve_living_specs (\<lambda>p. if p = LEGACY_CONFIG_REL then Some ''livingSpecs: {enabled: true}'' else None))) = []"
proof -
  let ?fs = "\<lambda>p. if p = LEGACY_CONFIG_REL then Some ''livingSpecs: {enabled: true}'' else None"
  have "should_drop_legacy (snd (resolve_living_specs ?fs))" by code_simp
  from legacy_dropped_only_when_read [OF prod.collapse [symmetric] this] show ?thesis by simp
qed

text \<open>Every hook that is placed can run: its anchor is a node of the active recipe, its type is one of the
  known ones, and a hook on a node file names one that exists.\<close>

theorem hooks_placed_are_runnable:
  assumes "merge_hooks config command active nf = Some (ordered, warns)" and "p \<in> set ordered"
  shows "hook_anchor p \<in> set active \<and> (\<exists>t \<in> set HOOK_TYPES. jget (hook_body p) ''type'' = JStr t) \<and>
     (jget (hook_body p) ''type'' = JStr ''node'' \<longrightarrow> truthy (jget (hook_body p) ''ref'') \<and>
        (\<forall>f. nf = Some f \<longrightarrow> f (py_str (jget (hook_body p) ''ref''))))"
proof -
  let ?ok = "\<lambda>acc. \<forall>p \<in> set (fst acc). hook_ok active nf p"
  have fold: "?ok acc'" if "?ok acc" "a \<in> set active" "fold_opt (merge_hook nf wh a) xs acc = Some acc'" for wh a xs acc acc'
    by (rule fold_opt_invariant [where P = ?ok, OF that(3,1)]) (use merge_hook_ok that(2) in blast)
  have anchor: "?ok acc'" if "?ok acc" "merge_anchor nf active wh ah acc = Some acc'" for wh ah acc acc'
  proof -
    obtain a h where ah: "ah = (a, h)" by (cases ah)
    show ?thesis
    proof (cases "a \<in> set active")
      case True
      show ?thesis by (rule fold [OF that(1) True]) (use that(2) True in \<open>simp add: ah merge_anchor_def Let_def\<close>)
    next
      case False
      then show ?thesis using that by (auto simp: ah merge_anchor_def)
    qed
  qed
  have fold2: "?ok acc'" if "?ok acc" "fold_opt (merge_anchor nf active wh) d acc = Some acc'" for wh d acc acc'
    by (rule fold_opt_invariant [where P = ?ok, OF that(2,1)]) (rule anchor)
  have step: "?ok acc'" if "?ok acc" "merge_when nf active hooks wh acc = Some acc'" for hooks wh acc acc'
  proof -
    have "acc' = acc \<or> (\<exists>d. fold_opt (merge_anchor nf active wh) d acc = Some acc')"
      using that(2) by (auto simp: merge_when_def split: option.splits json.splits if_splits)
    then show ?thesis using fold2 that(1) by blast
  qed
  obtain hooks where "fold_opt (merge_when nf active hooks) [''before'', ''after''] ([], []) = Some (ordered, warns)"
    using assms(1) unfolding merge_hooks_def bind_eq_Some_conv by blast
  then have "?ok (ordered, warns)"
    by (rule fold_opt_invariant [where P = ?ok]) (simp, rule step)
  then have "hook_ok active nf p" using assms(2) by simp
  then show ?thesis unfolding hook_ok_def .
qed

theorem hooks_placed_are_runnable_witness:
  "\<exists>ordered warns p. merge_hooks [(''commands'', JDict [(''plan'', JDict [(''hooks'', JDict [(''after'',
       JDict [(''draft'', JDict [(''type'', JStr ''node''), (''ref'', JStr ''lint'')])])])])])]
       ''plan'' [''draft''] (Some (\<lambda>f. f = ''lint'')) = Some (ordered, warns) \<and>
     p \<in> set ordered \<and> hook_anchor p \<in> set [''draft'']"
proof -
  let ?h = "[(''type'', JStr ''node''), (''ref'', JStr ''lint'')]"
  let ?p = "\<lparr>hook_when = ''after'', hook_anchor = ''draft'', hook_index = 0, hook_body = ?h\<rparr>"
  have "merge_hooks [(''commands'', JDict [(''plan'', JDict [(''hooks'', JDict [(''after'',
       JDict [(''draft'', JDict ?h)])])])])] ''plan'' [''draft''] (Some (\<lambda>f. f = ''lint'')) = Some ([?p], [])"
    by code_simp
  with hooks_placed_are_runnable [OF this, of ?p] show ?thesis by auto
qed



end
