(* ===== verification/LivingText.thy ===== *)
theory LivingText
  imports PyText
begin

text \<open>
  The text of a living spec: fenced blocks, requirement headings, the markers under a heading, and
  the requirement slices every reader counts by (\<open>resolve-spec-paths.py\<close>, \<open>living_validate.py\<close>,
  \<open>living_spec_fold.py\<close>).  Lines come from \<open>str.splitlines\<close>, so no line holds a line break and a
  trailing \<open>\s*$\<close> of a pattern means "only whitespace up to the end".
\<close>

subsection \<open>Fences\<close>

definition is_fence :: "string \<Rightarrow> bool" where
  "is_fence l \<longleftrightarrow> prefix ''```'' (lstrip l) \<or> prefix ''~~~'' (lstrip l)"

fun fence_flags_from :: "bool \<Rightarrow> string list \<Rightarrow> bool list" where
  "fence_flags_from inside [] = []"
| "fence_flags_from inside (l # ls) =
     (if is_fence l then True # fence_flags_from (\<not> inside) ls else inside # fence_flags_from inside ls)"

definition fence_flags :: "string list \<Rightarrow> bool list" where
  "fence_flags ls = fence_flags_from False ls"

definition fences_are_balanced :: "string \<Rightarrow> bool" where
  "fences_are_balanced text \<longleftrightarrow> even (length (filter is_fence (splitlines text)))"

text \<open>A document as its lines, each with its fence flag.\<close>

definition flagged :: "string list \<Rightarrow> (bool \<times> string) list" where
  "flagged ls = zip (fence_flags ls) ls"

subsection \<open>Headings\<close>

text \<open>
  \<open>^###\s+(.+?)\s*$\<close>.  The group is the rest of the line without trailing whitespace; on a line of
  hashes and at least two whitespace characters the pattern gives one of them back to the group.
\<close>

definition req_group :: "string \<Rightarrow> string option" where
  "req_group l =
     (if \<not> prefix ''###'' l then None
      else let r = drop 3 l; w = takeWhile is_space r; t = drop (length w) r
           in if w = [] then None
              else if t \<noteq> [] then Some (rstrip t)
              else if 2 \<le> length w then Some [last w] else None)"

definition req_heading :: "string \<Rightarrow> string option" where
  "req_heading l = map_option strip (req_group l)"

text \<open>\<open>^###(?!#)\s+\<close> and \<open>^##(?!#)\s+\<close>, and \<open>^##\s+NAME\s*$\<close>.\<close>

definition is_req_line :: "string \<Rightarrow> bool" where
  "is_req_line l \<longleftrightarrow> prefix ''###'' l \<and> drop 3 l \<noteq> [] \<and> is_space (hd (drop 3 l))"

definition is_section_line :: "string \<Rightarrow> bool" where
  "is_section_line l \<longleftrightarrow> prefix ''##'' l \<and> drop 2 l \<noteq> [] \<and> is_space (hd (drop 2 l))"

definition is_section_named :: "string \<Rightarrow> string \<Rightarrow> bool" where
  "is_section_named name l \<longleftrightarrow> is_section_line l \<and> strip (drop 2 l) = name"

subsection \<open>Markers\<close>

text \<open>
  \<open>^\s*<!--\s*LABEL:\s*(.+?)\s*-->\s*$\<close>, the group stripped.  Between the colon and the closing there
  must be at least one character, which may be whitespace.
\<close>

definition marker_value :: "string \<Rightarrow> string \<Rightarrow> string option" where
  "marker_value label l =
     (let s = lstrip l in
      if \<not> prefix ''<!--'' s then None
      else let t = lstrip (drop 4 s) in
        if \<not> prefix (label @ '':'') t then None
        else let b = rstrip (drop (length label + 1) t)
             in if suffix ''-->'' b \<and> 3 < length b then Some (strip (take (length b - 3) b)) else None)"

definition split_globs :: "string \<Rightarrow> string list" where
  "split_globs v = filter (\<lambda>g. g \<noteq> []) (map strip (split_on (CHR '','') v))"

definition is_marker :: "string \<Rightarrow> bool" where
  "is_marker l \<longleftrightarrow> marker_value ''touches'' l \<noteq> None \<or> marker_value ''adopted'' l \<noteq> None
     \<or> marker_value ''aligns'' l \<noteq> None"

definition adopted_sources :: "string list \<Rightarrow> string option" where
  "adopted_sources sect =
     (case List.map_filter (marker_value ''adopted'') (take 2 (drop 1 sect)) of [] \<Rightarrow> None | v # _ \<Rightarrow> Some v)"

subsection \<open>Requirement slices\<close>

record slice =
  heading :: string
  touches :: "string list"
  adopted :: "string option"
  aligns :: "string list"
  body :: "string list"

text \<open>
  The markers on top of a requirement's body: \<open>keep\<close> is the body after the last marker seen, and the
  scan stops at the first line that is neither blank nor a marker.
\<close>

fun scan_markers ::
  "string list \<times> string option \<times> string list \<Rightarrow> string list \<Rightarrow> string list
     \<Rightarrow> (string list \<times> string option \<times> string list) \<times> string list" where
  "scan_markers acc keep [] = (acc, keep)"
| "scan_markers acc keep (ln # ls) =
     (if strip ln = [] then scan_markers acc keep ls
      else if \<not> is_marker ln then (acc, keep)
      else case acc of (t, a, al) \<Rightarrow>
        scan_markers
          ((case marker_value ''touches'' ln of Some v \<Rightarrow> if t = [] then split_globs v else t | None \<Rightarrow> t),
           (case marker_value ''adopted'' ln of Some v \<Rightarrow> if a = None then Some v else a | None \<Rightarrow> a),
           (case marker_value ''aligns'' ln of Some v \<Rightarrow> if al = [] then split_globs v else al | None \<Rightarrow> al))
          ls ls)"

definition make_slice :: "string \<Rightarrow> string list \<Rightarrow> slice" where
  "make_slice h ls =
     (case scan_markers ([], None, []) ls ls of ((t, a, al), b) \<Rightarrow>
        \<lparr>heading = h, touches = t, adopted = (if a = Some [] then None else a), aligns = al, body = b\<rparr>)"

definition ends_requirement :: "bool \<times> string \<Rightarrow> bool" where
  "ends_requirement p \<longleftrightarrow> \<not> fst p \<and> (is_req_line (snd p) \<or> is_section_line (snd p))"

function slices_of :: "(bool \<times> string) list \<Rightarrow> slice list" where
  "slices_of [] = []"
| "slices_of (p # ps) =
     (case (if fst p then None else req_group (snd p)) of
        None \<Rightarrow> slices_of ps
      | Some h \<Rightarrow>
          make_slice h (map snd (takeWhile (\<lambda>q. \<not> ends_requirement q) ps))
          # slices_of (dropWhile (\<lambda>q. \<not> ends_requirement q) ps))"
  by pat_completeness auto
termination
  by (relation "measure length") (auto simp: less_Suc_eq_le length_dropWhile_le)

definition requirement_slices :: "string \<Rightarrow> slice list" where
  "requirement_slices text = slices_of (flagged (splitlines text))"

definition has_no_markers :: "slice list \<Rightarrow> bool" where
  "has_no_markers ss \<longleftrightarrow> list_all (\<lambda>s. touches s = []) ss"

definition purpose_section :: "string \<Rightarrow> string" where
  "purpose_section text =
     (case dropWhile (\<lambda>p. fst p \<or> \<not> is_section_named ''Purpose'' (snd p)) (flagged (splitlines text)) of
        [] \<Rightarrow> []
      | p # ps \<Rightarrow>
          strip (join nl (snd p # map snd (takeWhile (\<lambda>q. fst q \<or> \<not> is_section_line (snd q)) ps))))"

section \<open>Facts\<close>

subsection \<open>Fences\<close>

lemma length_fence_flags_from [simp]: "length (fence_flags_from b ls) = length ls"
  by (induction ls arbitrary: b) auto

lemma length_fence_flags [simp]: "length (fence_flags ls) = length ls"
  by (simp add: fence_flags_def)

text \<open>The state after a run of lines is decided by the number of fences in it.\<close>

definition fence_after :: "bool \<Rightarrow> string list \<Rightarrow> bool" where
  "fence_after b ls \<longleftrightarrow> b = even (length (filter is_fence ls))"

lemma fence_flags_from_append:
  "fence_flags_from b (xs @ ys) = fence_flags_from b xs @ fence_flags_from (fence_after b xs) ys"
proof (induction xs arbitrary: b)
  case (Cons x xs)
  have "fence_after b (x # xs) = fence_after (if is_fence x then \<not> b else b) xs"
    by (auto simp: fence_after_def)
  then show ?case using Cons [of b] Cons [of "\<not> b"] by simp
qed (simp add: fence_after_def)

lemma fence_after_append: "fence_after b (xs @ ys) = fence_after (fence_after b xs) ys"
  by (auto simp: fence_after_def)

lemma fence_after_Nil [simp]: "fence_after b [] = b"
  by (simp add: fence_after_def)

definition balanced :: "string list \<Rightarrow> bool" where
  "balanced ls \<longleftrightarrow> even (length (filter is_fence ls))"

lemma balanced_after [simp]: "balanced ls \<Longrightarrow> fence_after b ls = b"
  by (simp add: balanced_def fence_after_def)

lemma balanced_append: "balanced xs \<Longrightarrow> balanced (xs @ ys) = balanced ys"
  by (simp add: balanced_def)

lemma fence_flags_append_balanced:
  "balanced xs \<Longrightarrow> fence_flags (xs @ ys) = fence_flags xs @ fence_flags ys"
  by (simp add: fence_flags_def fence_flags_from_append)

subsection \<open>Slices\<close>

lemma is_req_line_group: "req_group l \<noteq> None \<Longrightarrow> is_req_line l"
proof -
  assume g: "req_group l \<noteq> None"
  then have p: "prefix ''###'' l" by (auto simp: req_group_def split: if_splits)
  show ?thesis
  proof (cases "drop 3 l")
    case Nil
    then show ?thesis using g p by (simp add: req_group_def)
  next
    case (Cons c cs)
    then show ?thesis using g p by (auto simp: req_group_def is_req_line_def Let_def split: if_splits)
  qed
qed

text \<open>The headings a text's slices carry are exactly the requirement headings outside fences.\<close>

lemma slices_headings:
  "map heading (slices_of ps) = List.map_filter (\<lambda>p. if fst p then None else req_group (snd p)) ps"
proof (induction ps rule: slices_of.induct)
  case 1
  then show ?case by (simp add: List.map_filter_def)
next
  case (2 p ps)
  let ?f = "\<lambda>p. if fst p then None else req_group (snd p)"
  show ?case
  proof (cases "?f p")
    case None
    then show ?thesis using 2(1) by (simp add: List.map_filter_def)
  next
    case (Some h)
    have drop: "List.map_filter ?f (dropWhile (\<lambda>q. \<not> ends_requirement q) qs) = List.map_filter ?f qs" for qs
    proof (induction qs)
      case (Cons q qs)
      have "\<not> ends_requirement q \<Longrightarrow> ?f q = None"
        using is_req_line_group [of "snd q"] by (cases "req_group (snd q)") (auto simp: ends_requirement_def)
      then show ?case using Cons by (auto simp: List.map_filter_def)
    qed simp
    have "heading (make_slice h xs) = h" for xs
      by (simp add: make_slice_def split: prod.split)
    then show ?thesis using Some 2(2) [OF Some] drop [of ps] by (simp add: List.map_filter_def)
  qed
qed

end
