(* ===== verification/SpecPaths.thy ===== *)
theory SpecPaths
  imports Globs Registry LivingText "HOL-Library.Product_Lexorder" "HOL-Library.List_Lexorder" "HOL-Library.Char_ord" "HOL-Library.Multiset"
begin

text \<open>
  The resolver of \<open>resolve-spec-paths.py\<close>: which capabilities a set of changed files touches, where a
  capability's spec and its sibling tiers are, which spec files of the project no capability claims,
  and what a load contributes per capability.  Files are read through \<open>fs\<close>, a path relative to the
  project root; the directory walk reads a \<open>dir_tree\<close> without symbolic links.  A \<open>ValueError\<close> (a
  capability without a spec path) is \<open>None\<close>.
\<close>

subsection \<open>Paths\<close>

text \<open>\<open>os.path.dirname\<close>.\<close>

definition dirname :: "string \<Rightarrow> string" where
  "dirname p =
     (let head = rev (dropWhile (\<lambda>c. c \<noteq> CHR ''/'') (rev p))
      in if list_all (\<lambda>c. c = CHR ''/'') head then head else rstrip_chars ''/'' head)"

text \<open>\<open>os.path.normpath\<close>: \<open>norm_parts\<close> keeps the components so far, the last one first.\<close>

fun norm_parts :: "bool \<Rightarrow> string list \<Rightarrow> string list \<Rightarrow> string list" where
  "norm_parts absolute acc [] = rev acc"
| "norm_parts absolute acc (c # cs) =
     (if c = [] \<or> c = ''.'' then norm_parts absolute acc cs
      else if c \<noteq> ''..'' \<or> (\<not> absolute \<and> acc = []) \<or> (acc \<noteq> [] \<and> hd acc = ''..'')
        then norm_parts absolute (c # acc) cs
      else norm_parts absolute (tl acc) cs)"

definition normpath :: "string \<Rightarrow> string" where
  "normpath p =
     (let slashes = (if prefix ''//'' p \<and> \<not> prefix ''///'' p then ''//'' else if prefix ''/'' p then ''/'' else [])
      in case slashes @ join ''/'' (norm_parts (slashes \<noteq> []) [] (split_on (CHR ''/'') p)) of
           [] \<Rightarrow> ''.''
         | q \<Rightarrow> q)"

subsection \<open>Capabilities and files\<close>

definition matches :: "capability \<Rightarrow> string \<Rightarrow> bool" where
  "matches cap f \<longleftrightarrow>
     \<not> list_ex (\<lambda>ex. glob_matches ex (posix f)) (cap_exclude cap) \<and>
     list_ex (\<lambda>pat. glob_matches pat (posix f)) (cap_match cap)"

definition pattern_weight :: "string \<Rightarrow> string \<Rightarrow> nat" where
  "pattern_weight pat f =
     (if \<not> glob_matches pat f then 0
      else let lit = literal_prefix pat
           in if lit \<noteq> [] \<and> (f = lit \<or> prefix (lit @ ''/'') f) then length lit else 1)"

definition specificity :: "capability \<Rightarrow> string \<Rightarrow> nat" where
  "specificity cap f = fold (\<lambda>pat best. max best (pattern_weight pat (posix f))) (cap_match cap) 0"

definition location :: "string \<Rightarrow> string" where
  "location spec =
     (if prefix (DEFAULT_CAPABILITY_ROOT @ ''/'') (posix spec) then ''centralized'' else ''colocated'')"

definition resolve_spec :: "capability \<Rightarrow> string option" where
  "resolve_spec cap = (if cap_spec cap = [] then None else Some (cap_spec cap))"

subsection \<open>The tiers beside a spec\<close>

definition TIER_SUFFIXES :: "(string \<times> string) list" where
  "TIER_SUFFIXES = [(''rules'', ''.rules.md''), (''coverage'', ''.coverage.md'')]"

definition LEGACY_TIER_SUFFIXES :: "(string \<times> string) list" where
  "LEGACY_TIER_SUFFIXES = [(''rules'', ''.arch.md'')]"

definition RESERVED_TIERS :: "string list" where
  "RESERVED_TIERS = map snd TIER_SUFFIXES @ map snd LEGACY_TIER_SUFFIXES"

text \<open>A tier's path, and whether it is on disk when a root was given.\<close>

type_synonym tier = "string \<times> bool option"

definition tier_base :: "string \<Rightarrow> string" where
  "tier_base spec =
     (if suffix ''.spec.md'' spec then take (length spec - 8) spec
      else if suffix ''.md'' spec then take (length spec - 3) spec
      else spec)"

definition tier_entry :: "string \<Rightarrow> files option \<Rightarrow> string \<times> string \<Rightarrow> string \<times> tier" where
  "tier_entry base fo ks =
     (let (key, suf) = ks; path = base @ suf in
      (key, case fo of
         None \<Rightarrow> (path, None)
       | Some fs \<Rightarrow>
           (if fs path \<noteq> None then (path, Some True)
            else case map_of LEGACY_TIER_SUFFIXES key of
                Some legacy \<Rightarrow> if fs (base @ legacy) \<noteq> None then (base @ legacy, Some True) else (path, Some False)
              | None \<Rightarrow> (path, Some False))))"

definition tier_paths :: "string \<Rightarrow> files option \<Rightarrow> (string \<times> tier) list" where
  "tier_paths spec fo = map (tier_entry (tier_base (posix spec)) fo) TIER_SUFFIXES"

subsection \<open>Entries\<close>

record entry =
  e_name :: string
  e_spec :: string
  e_location :: string
  e_exists :: bool
  e_tiers :: "(string \<times> tier) list"
  e_retire :: bool
  e_specificity :: nat

definition entry_of :: "files \<Rightarrow> capability \<Rightarrow> entry option" where
  "entry_of fs cap =
     map_option (\<lambda>spec. \<lparr>e_name = cap_name cap, e_spec = spec, e_location = location spec,
        e_exists = (fs spec \<noteq> None), e_tiers = tier_paths spec (Some fs), e_retire = retire cap,
        e_specificity = 0\<rparr>) (resolve_spec cap)"

definition hit_files :: "string list \<Rightarrow> capability \<Rightarrow> string list" where
  "hit_files fs cap = filter (matches cap) fs"

definition hit_entry :: "files \<Rightarrow> string list \<Rightarrow> capability \<Rightarrow> entry option" where
  "hit_entry fs changed cap =
     map_option (\<lambda>e. e\<lparr>e_specificity := fold (\<lambda>f best. max best (specificity cap f)) (hit_files changed cap) 0\<rparr>)
       (entry_of fs cap)"

definition rank :: "entry \<Rightarrow> int \<times> string" where
  "rank e = (- int (e_specificity e), e_name e)"

definition match_changed :: "string list \<Rightarrow> living \<Rightarrow> files \<Rightarrow> entry list option" where
  "match_changed changed l fs =
     map_option (sort_key rank)
       (traverse (hit_entry fs changed) (filter (\<lambda>cap. hit_files changed cap \<noteq> []) (capabilities l)))"

subsection \<open>Discovery\<close>

definition CENTRAL_SPEC_NAME :: string where "CENTRAL_SPEC_NAME = ''spec.md''"

definition VENDORED_DIRS :: "string list" where "VENDORED_DIRS = [''node_modules'']"

definition is_central_spec :: "string \<Rightarrow> bool" where
  "is_central_spec rel \<longleftrightarrow>
     (case split_on (CHR ''/'') (posix rel) of
        [a, b, c] \<Rightarrow> a = DEFAULT_CAPABILITY_ROOT \<and> c = CENTRAL_SPEC_NAME
      | _ \<Rightarrow> False)"

text \<open>A directory: its subdirectories and its files, each by name.\<close>

datatype dir_tree = Dir (subdirs: "(string \<times> dir_tree) list") (file_names: "string list")

text \<open>\<open>is_project_root\<close> of a directory of the walk: it holds a registry or a legacy configuration.\<close>

definition tree_is_root :: "dir_tree \<Rightarrow> bool" where
  "tree_is_root t \<longleftrightarrow>
     LIVING_SPECS_REL \<in> set (file_names t) \<or>
     list_ex (\<lambda>(d, t'). d = ''.specify'' \<and> ''companion.yml'' \<in> set (file_names t')) (subdirs t)"

definition walked :: "string \<times> dir_tree \<Rightarrow> bool" where
  "walked sub \<longleftrightarrow> \<not> prefix ''.'' (fst sub) \<and> fst sub \<notin> set VENDORED_DIRS \<and> \<not> tree_is_root (snd sub)"

definition is_spec_file :: "string \<Rightarrow> string \<Rightarrow> bool" where
  "is_spec_file below name \<longleftrightarrow>
     \<not> prefix ''.'' name \<and> (suffix SPEC_SUFFIX name \<or> is_central_spec (below @ name))"

fun walk :: "string \<Rightarrow> dir_tree \<Rightarrow> string list" where
  "walk below (Dir subs names) =
     map ((@) below) (filter (is_spec_file below) names)
     @ concat (map (\<lambda>(d, t). if walked (d, t) then walk (below @ d @ ''/'') t else []) subs)"

definition find_spec_files :: "dir_tree \<Rightarrow> string list" where
  "find_spec_files tree = sort (walk [] tree)"

text \<open>The path prefixes that widen a name, nearest first, and the numbered names after them.\<close>

definition widened_names :: "string list \<Rightarrow> string list" where
  "widened_names dirs = map (\<lambda>i. join ''/'' (drop (length dirs - i) dirs)) [1..<Suc (length dirs)]"

lemma nat_text_inject: "nat_text m = nat_text n \<Longrightarrow> m = n"
  by (metis nat_text_value of_nat_eq_iff)

definition numbered :: "string \<Rightarrow> nat \<Rightarrow> string" where
  "numbered base n = base @ ''-'' @ nat_text n"

definition still_taken :: "string \<Rightarrow> nat \<Rightarrow> string list \<Rightarrow> nat set" where
  "still_taken base n taken = {k. n \<le> k \<and> numbered base k \<in> set taken}"

lemma finite_still_taken: "finite (still_taken base n taken)"
proof -
  have "inj_on (numbered base) (still_taken base n taken)"
    by (auto simp: inj_on_def numbered_def dest: nat_text_inject)
  moreover have "numbered base ` still_taken base n taken \<subseteq> set taken"
    by (auto simp: still_taken_def)
  ultimately show ?thesis by (meson List.finite_set finite_subset inj_on_finite)
qed

function free_name :: "string \<Rightarrow> nat \<Rightarrow> string list \<Rightarrow> string" where
  "free_name base n taken =
     (if numbered base n \<in> set taken then free_name base (Suc n) taken else numbered base n)"
  by pat_completeness auto

termination
proof (relation "measure (\<lambda>(base, n, taken). card (still_taken base n taken))")
  fix base n taken
  assume "numbered base n \<in> set taken"
  then have "n \<in> still_taken base n taken" "n \<notin> still_taken base (Suc n) taken"
    "still_taken base (Suc n) taken \<subseteq> still_taken base n taken"
    by (auto simp: still_taken_def)
  then have "still_taken base (Suc n) taken \<subset> still_taken base n taken" by blast
  then show "((base, Suc n, taken), base, n, taken) \<in> measure (\<lambda>(base, n, taken). card (still_taken base n taken))"
    by (simp add: psubset_card_mono finite_still_taken)
qed simp

declare free_name.simps [simp del]

definition discovered_name :: "string \<Rightarrow> string list \<Rightarrow> string" where
  "discovered_name rel taken =
     (let parts = split_on (CHR ''/'') (posix rel); dirs = butlast parts;
          base = (if dirs \<noteq> [] then join ''/'' dirs
                  else let stem = take (length (last parts) - 8) (last parts)
                       in if stem \<noteq> [] then stem else last parts)
      in case filter (\<lambda>w. w \<notin> set taken) (widened_names dirs) of
           w # _ \<Rightarrow> w
         | [] \<Rightarrow> if base \<in> set taken then free_name base 2 taken else base)"

definition claimed_specs :: "living \<Rightarrow> string list option" where
  "claimed_specs l = map_option (map normpath) (traverse resolve_spec (capabilities l))"

definition is_orphan :: "string list \<Rightarrow> string \<Rightarrow> bool" where
  "is_orphan claimed rel \<longleftrightarrow>
     hd (split_on (CHR ''/'') rel) \<noteq> ''specs'' \<and>
     \<not> list_ex (\<lambda>t. suffix t rel) RESERVED_TIERS \<and>
     rel \<notin> set claimed \<and>
     \<not> list_ex (\<lambda>d. d \<noteq> [] \<and> (rel = d \<or> prefix (d @ ''/'') rel)) (map dirname claimed)"

definition find_orphans :: "living \<Rightarrow> dir_tree \<Rightarrow> string list option" where
  "find_orphans l tree =
     map_option (\<lambda>claimed. sort (map posix (filter (is_orphan claimed) (find_spec_files tree)))) (claimed_specs l)"

definition discovered_entry :: "files \<Rightarrow> string \<Rightarrow> string list \<Rightarrow> entry" where
  "discovered_entry fs norm taken =
     \<lparr>e_name = discovered_name norm taken, e_spec = posix norm,
      e_location = (if is_central_spec norm then ''centralized'' else ''colocated''), e_exists = True,
      e_tiers = tier_paths (posix norm) (Some fs), e_retire = False, e_specificity = 0\<rparr>"

fun add_orphans :: "files \<Rightarrow> string list \<Rightarrow> entry list \<times> string list \<Rightarrow> entry list" where
  "add_orphans fs [] (out, seen) = out"
| "add_orphans fs (rel # rels) (out, seen) =
     (let norm = normpath rel in
      if norm \<in> set seen then add_orphans fs rels (out, seen)
      else add_orphans fs rels (out @ [discovered_entry fs norm (map e_name out)], norm # seen))"

text \<open>\<open>discover_all\<close>, given the orphans that \<open>find_orphans\<close> returned.\<close>

definition discover_all :: "living \<Rightarrow> files \<Rightarrow> string list \<Rightarrow> entry list option" where
  "discover_all l fs orphans =
     map_option (\<lambda>out. sort_key e_name (add_orphans fs orphans (out, map (normpath \<circ> e_spec) out)))
       (traverse (entry_of fs) (capabilities l))"

section \<open>Facts\<close>

subsection \<open>Matching\<close>

lemma specificity_positive:
  assumes "matches cap f"
  shows "1 \<le> specificity cap f"
proof -
  obtain pat where pat: "pat \<in> set (cap_match cap)" "glob_matches pat (posix f)"
    using assms by (auto simp: matches_def list_ex_iff)
  then have "1 \<le> pattern_weight pat (posix f)"
    by (simp add: pattern_weight_def Let_def Suc_le_eq)
  also have "\<dots> \<le> specificity cap f"
    unfolding specificity_def by (rule fold_max_mem [OF pat(1)])
  finally show ?thesis .
qed

lemma hit_entry_name: "hit_entry fs changed cap = Some e \<Longrightarrow> e_name e = cap_name cap"
  by (auto simp: hit_entry_def entry_of_def)

lemma hit_entry_specificity:
  assumes "hit_entry fs changed cap = Some e" and "hit_files changed cap \<noteq> []"
  shows "1 \<le> e_specificity e"
proof -
  obtain f where f: "f \<in> set (hit_files changed cap)" using assms(2) by (cases "hit_files changed cap") auto
  then have "1 \<le> specificity cap f" using specificity_positive [of cap f] by (simp add: hit_files_def)
  also have "\<dots> \<le> e_specificity e"
    using assms(1) fold_max_mem [OF f, of "specificity cap" 0] by (auto simp: hit_entry_def entry_of_def)
  finally show ?thesis .
qed

lemma traverse_names: "traverse (hit_entry fs changed) caps = Some es \<Longrightarrow> map e_name es = map cap_name caps"
  unfolding traverse_Some by (induction rule: list_all2_induct) (auto dest: hit_entry_name)



subsection \<open>Discovered names\<close>

lemma free_name_free: "free_name base n taken \<notin> set taken"
  by (induction base n taken rule: free_name.induct) (subst free_name.simps, simp)

lemma discovered_name_free: "discovered_name rel taken \<notin> set taken"
proof (cases "filter (\<lambda>w. w \<notin> set taken) (widened_names (butlast (split_on (CHR ''/'') (posix rel))))")
  case Nil
  then show ?thesis by (auto simp: discovered_name_def Let_def free_name_free)
next
  case (Cons w ws)
  then have "w \<notin> set taken" by (auto simp: filter_eq_Cons_iff)
  then show ?thesis using Cons by (simp add: discovered_name_def Let_def)
qed

lemma add_orphans_distinct:
  "distinct (map e_name out) \<Longrightarrow> distinct (map e_name (add_orphans fs rels (out, seen)))"
proof (induction fs rels "(out, seen)" arbitrary: out seen rule: add_orphans.induct)
  case (2 fs rel rels out seen)
  then show ?case using discovered_name_free [of "normpath rel" "map e_name out"]
    by (auto simp: Let_def discovered_entry_def)
qed simp

lemma add_orphans_extends: "\<exists>more. add_orphans fs rels (out, seen) = out @ more"
proof (induction fs rels "(out, seen)" arbitrary: out seen rule: add_orphans.induct)
  case (2 fs rel rels out seen)
  then show ?case by (auto simp: Let_def)
qed simp


subsection \<open>The walk\<close>

text \<open>A file of the project: on the way down every directory is walked.\<close>

inductive project_file :: "dir_tree \<Rightarrow> string list \<Rightarrow> string \<Rightarrow> bool" where
  here: "name \<in> set (file_names t) \<Longrightarrow> project_file t [] name"
| below: "(d, t') \<in> set (subdirs t) \<Longrightarrow> walked (d, t') \<Longrightarrow> project_file t' ds name \<Longrightarrow> project_file t (d # ds) name"

inductive_simps project_file_here: "project_file (Dir subs names) [] name"
inductive_simps project_file_below: "project_file (Dir subs names) (d # ds) name"

definition down :: "string list \<Rightarrow> string" where
  "down ds = concat (map (\<lambda>d. d @ ''/'') ds)"

lemma down_simps [simp]: "down [] = []" "down (d # ds) = d @ ''/'' @ down ds"
  by (simp_all add: down_def)

lemma walk_iff:
  "rel \<in> set (walk at t) \<longleftrightarrow>
     (\<exists>ds name. rel = at @ down ds @ name \<and> project_file t ds name \<and> is_spec_file (at @ down ds) name)"
proof (induction at t arbitrary: rel rule: walk.induct)
  case (1 at subs names)
  have here: "(\<exists>name. rel = at @ name \<and> project_file (Dir subs names) [] name \<and> is_spec_file at name) \<longleftrightarrow>
      rel \<in> set (map ((@) at) (filter (is_spec_file at) names))" (is "?H \<longleftrightarrow> _")
    by (auto simp: project_file_here)
  have below: "(\<exists>d t. (d, t) \<in> set subs \<and> walked (d, t) \<and> rel \<in> set (walk (at @ d @ ''/'') t)) \<longleftrightarrow>
     (\<exists>d ds name. rel = at @ down (d # ds) @ name \<and> project_file (Dir subs names) (d # ds) name \<and>
        is_spec_file (at @ down (d # ds)) name)" (is "_ \<longleftrightarrow> ?B")
    using 1 by (simp add: project_file_below) blast
  have "rel \<in> set (walk at (Dir subs names)) \<longleftrightarrow> ?H \<or> ?B"
    unfolding here below [symmetric] by (auto split: if_splits)
  also have "\<dots> \<longleftrightarrow> (\<exists>ds name. rel = at @ down ds @ name \<and> project_file (Dir subs names) ds name \<and>
      is_spec_file (at @ down ds) name)"
    by (metis append_Nil down_simps(1) append_Nil2 list.exhaust)
  finally show ?case .
qed

subsection \<open>A concrete registry\<close>

text \<open>The registry and the files the witnesses run on.\<close>

definition example_cap :: "string \<Rightarrow> string \<Rightarrow> capability" where
  "example_cap name glob =
     \<lparr>cap_name = name, cap_match = [glob], cap_exclude = [], cap_spec = ''capabilities/'' @ name @ ''/spec.md'',
      spec_defaulted = False, retire = False\<rparr>"

definition example_living :: living where
  "example_living =
     \<lparr>enabled = True, layout = ''central'', exempt = [],
      capabilities = [example_cap ''app'' ''src/**'', example_cap ''cart'' ''src/cart/**''], rules = []\<rparr>"

section \<open>Properties\<close>

text \<open>The capabilities in scope of a change are exactly those that claim one of its files, each once,
  ordered by falling specificity and then by name; every one of them has a positive specificity.\<close>

theorem match_changed_ranked:
  assumes "match_changed changed l fs = Some hits"
  shows "sorted (map rank hits) \<and> (\<forall>e \<in> set hits. 1 \<le> e_specificity e) \<and>
    mset (map e_name hits) = mset (map cap_name (filter (\<lambda>c. \<exists>f \<in> set changed. matches c f) (capabilities l)))"
proof -
  let ?caps = "filter (\<lambda>cap. hit_files changed cap \<noteq> []) (capabilities l)"
  obtain es where es: "traverse (hit_entry fs changed) ?caps = Some es" and hits: "hits = sort_key rank es"
    using assms by (auto simp: match_changed_def)
  have "\<forall>e \<in> set es. 1 \<le> e_specificity e"
    by (auto simp del: One_nat_def elim!: traverse_in [OF es] intro: hit_entry_specificity)
  moreover have "?caps = filter (\<lambda>c. \<exists>f \<in> set changed. matches c f) (capabilities l)"
    by (rule filter_cong [OF refl]) (auto simp: hit_files_def filter_empty_conv)
  moreover have "mset (map e_name hits) = mset (map e_name es)"
    unfolding hits mset_map mset_sort ..
  moreover have "sorted (map rank hits)" "set hits = set es" unfolding hits by simp_all
  ultimately show ?thesis using traverse_names [OF es] by simp
qed

theorem match_changed_ranked_witness:
  "map e_name (the (match_changed [''src/cart/a.ts''] example_living (\<lambda>_. None))) = [''cart'', ''app''] \<and>
   sorted (map rank (the (match_changed [''src/cart/a.ts''] example_living (\<lambda>_. None))))"
proof -
  let ?h = "match_changed [''src/cart/a.ts''] example_living (\<lambda>_. None)"
  have names: "?h \<noteq> None \<and> map e_name (the ?h) = [''cart'', ''app'']" by code_simp
  then show ?thesis
    using match_changed_ranked [of "[''src/cart/a.ts'']" example_living "\<lambda>_. None" "the ?h"] by auto
qed

text \<open>Every spec that discovery lists stays addressable: if the registry names its capabilities apart,
  then so are all listed names, and a discovered spec never displaces a registered capability.\<close>

theorem discovered_names_distinct:
  assumes "discover_all l fs orphans = Some es" and "distinct (map cap_name (capabilities l))"
  shows "distinct (map e_name es) \<and> set (map cap_name (capabilities l)) \<subseteq> set (map e_name es)"
proof -
  obtain out where out: "traverse (entry_of fs) (capabilities l) = Some out"
    and es: "es = sort_key e_name (add_orphans fs orphans (out, map (normpath \<circ> e_spec) out))"
    using assms(1) by (auto simp: discover_all_def)
  have names: "map e_name out = map cap_name (capabilities l)"
    using out unfolding traverse_Some by (induction rule: list_all2_induct) (auto simp: entry_of_def)
  obtain more where "add_orphans fs orphans (out, map (normpath \<circ> e_spec) out) = out @ more"
    using add_orphans_extends by blast
  then have "set es = set out \<union> set more" unfolding es by simp
  then have "set (map e_name out) \<subseteq> set (map e_name es)" by auto
  moreover have "distinct (map e_name (add_orphans fs orphans (out, map (normpath \<circ> e_spec) out)))"
    using assms(2) names by (intro add_orphans_distinct) simp
  moreover have "distinct (map e_name (sort_key e_name xs)) = distinct (map e_name xs)" for xs :: "entry list"
    by (rule mset_eq_imp_distinct_iff) (simp only: mset_map mset_sort)
  ultimately show ?thesis unfolding names [symmetric] es by blast
qed

theorem discovered_names_distinct_witness:
  "distinct (map e_name (the (discover_all example_living (\<lambda>_. None) [''notes/cart/a.spec.md'', ''old/cart/b.spec.md''])))"
proof -
  let ?d = "discover_all example_living (\<lambda>_. None) [''notes/cart/a.spec.md'', ''old/cart/b.spec.md'']"
  have "?d \<noteq> None \<and> distinct (map cap_name (capabilities example_living))" by code_simp
  then show ?thesis
    using discovered_names_distinct [of example_living "\<lambda>_. None" "[''notes/cart/a.spec.md'', ''old/cart/b.spec.md'']" "the ?d"]
    by auto
qed

text \<open>The walk finds exactly the project's own spec files: those that are reached through directories that
  are not hidden, not vendored and not projects of their own, and that have the shape of a spec.\<close>

theorem walk_finds_project_specs:
  "rel \<in> set (find_spec_files t) \<longleftrightarrow>
     (\<exists>ds name. rel = down ds @ name \<and> project_file t ds name \<and> is_spec_file (down ds) name)"
  by (simp add: find_spec_files_def walk_iff)

end
