(* ===== verification/SpecLoad.thy ===== *)
theory SpecLoad
  imports SpecPaths Json
begin

text \<open>
  What a load contributes for a set of changed files, and the slices that are shown one at a time
  (the second half of \<open>resolve-spec-paths.py\<close>).  A file that is on disk can be read.
\<close>

subsection \<open>Requirements for changed files\<close>

definition requirements_for_change :: "slice list \<Rightarrow> string list \<Rightarrow> slice list" where
  "requirements_for_change ss changed =
     filter (\<lambda>s. touches s = [] \<or> list_ex (\<lambda>g. list_ex (\<lambda>f. glob_matches g (posix f)) changed) (touches s)) ss"

record load_req =
  r_heading :: string
  r_matched :: bool
  r_via_aligns :: bool
  r_body :: string
  r_aligns :: "string list"

record load_item =
  i_name :: string
  i_spec :: string
  i_exists :: bool
  i_whole :: bool
  i_purpose :: "string option"
  i_reqs :: "load_req list"

definition body_text :: "slice \<Rightarrow> string" where
  "body_text s = strip (join nl (body s))"

definition contributed :: "slice \<Rightarrow> load_req" where
  "contributed s =
     \<lparr>r_heading = heading s, r_matched = (touches s \<noteq> []), r_via_aligns = False, r_body = body_text s,
      r_aligns = aligns s\<rparr>"

definition text_or_none :: "string \<Rightarrow> string option" where
  "text_or_none t = (if t = [] then None else Some t)"

definition load_entry :: "files \<Rightarrow> string list \<Rightarrow> entry \<Rightarrow> load_item" where
  "load_entry fs changed e =
     (let whole = \<lparr>i_name = e_name e, i_spec = e_spec e, i_exists = e_exists e, i_whole = True,
                   i_purpose = None, i_reqs = []\<rparr>
      in if \<not> e_exists e then whole
         else case fs (e_spec e) of
             None \<Rightarrow> whole
           | Some text \<Rightarrow>
               (let ss = requirement_slices text in
                if has_no_markers ss then whole
                else whole\<lparr>i_whole := False, i_purpose := text_or_none (purpose_section text),
                           i_reqs := map contributed (requirements_for_change ss changed)\<rparr>))"

subsection \<open>One hop along the aligns edges\<close>

text \<open>\<open>ref.partition("#")\<close> without the separator.\<close>

definition partition_hash :: "string \<Rightarrow> string \<times> string" where
  "partition_hash ref = (case cut_at ''#'' ref of None \<Rightarrow> (ref, []) | Some p \<Rightarrow> p)"

text \<open>The headings wanted per capability, in the order the capabilities are first named.\<close>

definition add_wanted :: "string \<Rightarrow> (string \<times> string list) list \<Rightarrow> (string \<times> string list) list" where
  "add_wanted ref wanted =
     (let (c, h) = partition_hash ref in
      if c \<noteq> [] \<and> h \<noteq> []
      then AList.update (strip c) ((case map_of wanted (strip c) of None \<Rightarrow> [] | Some hs \<Rightarrow> hs) @ [strip h]) wanted
      else wanted)"

definition wanted_headings :: "load_item list \<Rightarrow> (string \<times> string list) list" where
  "wanted_headings out = fold add_wanted (concat (map r_aligns (concat (map i_reqs out)))) []"

text \<open>The dictionary by name keeps the last item of a name, so that is the one that is extended.\<close>

fun update_first :: "('a \<Rightarrow> bool) \<Rightarrow> ('a \<Rightarrow> 'a) \<Rightarrow> 'a list \<Rightarrow> 'a list" where
  "update_first P f [] = []"
| "update_first P f (x # xs) = (if P x then f x # xs else x # update_first P f xs)"

definition update_last :: "('a \<Rightarrow> bool) \<Rightarrow> ('a \<Rightarrow> 'a) \<Rightarrow> 'a list \<Rightarrow> 'a list" where
  "update_last P f xs = rev (update_first P f (rev xs))"

definition aligned :: "slice \<Rightarrow> load_req" where
  "aligned s = \<lparr>r_heading = heading s, r_matched = False, r_via_aligns = True, r_body = body_text s, r_aligns = []\<rparr>"

definition extend_item :: "string \<Rightarrow> string list \<Rightarrow> load_item \<Rightarrow> load_item" where
  "extend_item text headings item =
     item\<lparr>i_reqs := i_reqs item @ map aligned (filter
        (\<lambda>s. heading s \<in> set headings \<and> heading s \<notin> set (map r_heading (i_reqs item))) (requirement_slices text))\<rparr>"

definition follow_one :: "living \<Rightarrow> files \<Rightarrow> string \<times> string list \<Rightarrow> load_item list \<Rightarrow> load_item list option" where
  "follow_one l fs w out =
     (case map_of (map (\<lambda>c. (cap_name c, c)) (rev (capabilities l))) (fst w) of
        None \<Rightarrow> Some out
      | Some cap \<Rightarrow>
          (case resolve_spec cap of
             None \<Rightarrow> None
           | Some spec \<Rightarrow>
               (case fs spec of
                  None \<Rightarrow> Some out
                | Some text \<Rightarrow>
                    (let out1 = (if fst w \<in> set (map i_name out) then out
                                 else out @ [\<lparr>i_name = fst w, i_spec = spec, i_exists = True, i_whole = False,
                                              i_purpose = text_or_none (purpose_section text), i_reqs = []\<rparr>])
                     in Some (update_last (\<lambda>i. i_name i = fst w) (extend_item text (snd w)) out1)))))"

definition follow_aligns :: "load_item list \<Rightarrow> living \<Rightarrow> files \<Rightarrow> load_item list option" where
  "follow_aligns out l fs = fold_opt (follow_one l fs) (wanted_headings out) out"

definition requirements_for_changed :: "string list \<Rightarrow> living \<Rightarrow> files \<Rightarrow> bool \<Rightarrow> load_item list option" where
  "requirements_for_changed changed l fs follow =
     (case match_changed changed l fs of
        None \<Rightarrow> None
      | Some hits \<Rightarrow>
          (let out = map (load_entry fs changed) hits
           in if follow then follow_aligns out l fs else Some out))"

subsection \<open>One capability by name\<close>

definition capability_names :: "living \<Rightarrow> string list" where
  "capability_names l = filter (\<lambda>n. n \<noteq> []) (map cap_name (capabilities l))"

definition fold_name :: "string \<Rightarrow> string" where
  "fold_name n = lower (strip n)"

text \<open>The entry of a name with the text of its spec; \<open>None\<close> outside is the raised error.\<close>

definition capability_by_name :: "string \<Rightarrow> living \<Rightarrow> files \<Rightarrow> (entry \<times> string option) option option" where
  "capability_by_name name l fs =
     (case find (\<lambda>c. fold_name (cap_name c) = fold_name name) (capabilities l) of
        None \<Rightarrow> Some None
      | Some cap \<Rightarrow> map_option (\<lambda>e. Some (e, fs (e_spec e))) (entry_of fs cap))"

definition slices_of_text :: "string option \<Rightarrow> slice list" where
  "slices_of_text t = (case t of None \<Rightarrow> [] | Some x \<Rightarrow> if x = [] then [] else requirement_slices x)"

record payload =
  p_capability :: string
  p_heading :: string
  p_touches :: "string list"
  p_body :: string

definition requirement_payload :: "string \<Rightarrow> slice \<Rightarrow> payload" where
  "requirement_payload cap s =
     \<lparr>p_capability = cap, p_heading = heading s, p_touches = touches s, p_body = body_text s\<rparr>"

datatype headings_view =
    NotRegistered string "string list"
  | HeadingsView string bool string "(string \<times> string list) list" "string list"

definition show_headings :: "string \<Rightarrow> living \<Rightarrow> files \<Rightarrow> headings_view option" where
  "show_headings name l fs =
     map_option (\<lambda>r. case r of
        None \<Rightarrow> NotRegistered name (capability_names l)
      | Some (e, t) \<Rightarrow>
          HeadingsView (e_name e) (e_exists e) (e_spec e) (map (\<lambda>s. (heading s, touches s)) (slices_of_text t))
            (capability_names l))
       (capability_by_name name l fs)"

text \<open>Every requirement of the named capabilities, with the name of its capability.\<close>

definition slices_in :: "string list \<Rightarrow> living \<Rightarrow> files \<Rightarrow> (string \<times> slice) list option" where
  "slices_in names l fs =
     map_option concat (traverse (\<lambda>n.
        map_option (\<lambda>r. case r of None \<Rightarrow> [] | Some (e, t) \<Rightarrow> map (Pair (e_name e)) (slices_of_text t))
          (capability_by_name n l fs)) names)"

definition show_requirement ::
  "string \<Rightarrow> living \<Rightarrow> files \<Rightarrow> string \<Rightarrow> (payload list \<times> (string \<times> string) list) option" where
  "show_requirement name l fs only =
     map_option (\<lambda>found.
        (map (\<lambda>(c, s). requirement_payload c s) (filter (\<lambda>(c, s). fold_name (heading s) = fold_name name) found),
         map (\<lambda>(c, s). (c, heading s)) found))
       (slices_in (if only \<noteq> [] then [only] else capability_names l) l fs)"

definition names_target :: "string \<times> string \<Rightarrow> string \<Rightarrow> bool" where
  "names_target wanted ref \<longleftrightarrow> (case partition_hash ref of (c, h) \<Rightarrow> (strip c, strip h) = wanted)"

definition show_leaned_on_by :: "string \<Rightarrow> living \<Rightarrow> files \<Rightarrow> payload list option" where
  "show_leaned_on_by target l fs =
     (let wanted = (case partition_hash target of (c, h) \<Rightarrow> (strip c, strip h)) in
      map_option (\<lambda>found. map (\<lambda>(c, s). requirement_payload c s)
          (filter (\<lambda>(c, s). list_ex (names_target wanted) (aligns s)) found))
        (slices_in (capability_names l) l fs))"

definition removed_requirements :: "files \<Rightarrow> string \<Rightarrow> string \<Rightarrow> string list" where
  "removed_requirements fs spec_path capability =
     (let dir = dirname spec_path;
          ctx = (if dir = [] \<or> last dir = CHR ''/'' then dir @ ''.spec-context.json'' else dir @ ''/.spec-context.json'')
      in case fs ctx of
           None \<Rightarrow> []
         | Some text \<Rightarrow>
             (case json_loads text of
                Some (JDict d) \<Rightarrow>
                  List.map_filter (\<lambda>j. case j of
                      JDict e \<Rightarrow>
                        (if jget e ''kind'' = JStr ''requirement-removed'' \<and> jget e ''capability'' = JStr capability
                         then (case jget e ''requirement'' of JStr h \<Rightarrow> Some h | _ \<Rightarrow> None) else None)
                    | _ \<Rightarrow> None) (list_or_empty (jget d ''history''))
              | _ \<Rightarrow> []))"

text \<open>The requirements that describe one file; a matched flag only where the spec has markers.\<close>

definition shown_for_item :: "living \<Rightarrow> files \<Rightarrow> load_item \<Rightarrow> (load_item \<times> payload list) option" where
  "shown_for_item l fs i =
     map_option (\<lambda>r. (i, (if i_whole i
        then map (requirement_payload (i_name i)) (case r of None \<Rightarrow> [] | Some (e, t) \<Rightarrow> slices_of_text t)
        else map (\<lambda>q. \<lparr>p_capability = i_name i, p_heading = r_heading q, p_touches = [], p_body = r_body q\<rparr>) (i_reqs i))))
       (capability_by_name (i_name i) l fs)"

definition show_for_file :: "string \<Rightarrow> living \<Rightarrow> files \<Rightarrow> (load_item \<times> payload list) list option" where
  "show_for_file path l fs =
     (case requirements_for_changed [path] l fs False of
        None \<Rightarrow> None
      | Some items \<Rightarrow> traverse (shown_for_item l fs) items)"

subsection \<open>Views\<close>

definition fmt_list :: "string list \<Rightarrow> string" where
  "fmt_list items = ''['' @ join '', '' items @ '']''"

definition render_matched :: "entry list \<Rightarrow> string" where
  "render_matched es = fmt_list (map e_name es)"

definition render_load :: "load_item list \<Rightarrow> string" where
  "render_load items =
     (if items = [] then ''[]''
      else join nl (map (\<lambda>i. i_name i @ '': '' @ (if i_whole i then ''whole'' else fmt_list (map r_heading (i_reqs i)))) items))"

definition render_all :: "entry list \<Rightarrow> string list \<Rightarrow> string" where
  "render_all es orphans = ''capabilities: '' @ fmt_list (map e_name es) @ nl @ ''orphans: '' @ fmt_list orphans"

definition render_rules :: "(string \<times> string list) list \<Rightarrow> string" where
  "render_rules rs =
     (let ls = concat (map (\<lambda>(step, items). map (\<lambda>i. step @ '': '' @ i) items) rs)
      in if ls = [] then ''no rules authored'' else join nl ls)"

section \<open>Facts\<close>

text \<open>One load extends another: the same items in front, each with its requirements and perhaps more.\<close>

definition item_grows :: "load_item \<Rightarrow> load_item \<Rightarrow> bool" where
  "item_grows i j \<longleftrightarrow> i_name j = i_name i \<and> i_whole j = i_whole i \<and> prefix (i_reqs i) (i_reqs j)"

definition load_grows :: "load_item list \<Rightarrow> load_item list \<Rightarrow> bool" where
  "load_grows out out' \<longleftrightarrow> list_all2 item_grows out (take (length out) out')"

lemma item_grows_refl: "item_grows i i"
  by (simp add: item_grows_def)

lemma item_grows_extend: "item_grows i (extend_item text hs i)"
  by (simp add: item_grows_def extend_item_def)

lemma load_grows_refl: "load_grows out out"
  by (simp add: load_grows_def list.rel_refl item_grows_refl)

lemma load_grows_snoc: "load_grows out (out @ xs)"
  by (simp add: load_grows_def list.rel_refl item_grows_refl)

lemma load_grows_trans:
  assumes "load_grows a b" and "load_grows b c"
  shows "load_grows a c"
  unfolding load_grows_def list_all2_conv_all_nth
proof (intro conjI allI impI)
  have len: "length a \<le> length b" "length b \<le> length c"
    using assms by (auto simp: load_grows_def dest: list_all2_lengthD)
  then show "length a = length (take (length a) c)" by simp
  fix i assume i: "i < length a"
  have "item_grows (a ! i) (b ! i)" "item_grows (b ! i) (c ! i)"
    using assms i len list_all2_nthD [of item_grows a "take (length a) b" i]
      list_all2_nthD [of item_grows b "take (length b) c" i] by (simp_all add: load_grows_def)
  then show "item_grows (a ! i) (take (length a) c ! i)"
    using i by (auto simp: item_grows_def)
qed

lemma update_first_grows: "(\<And>x. item_grows x (f x)) \<Longrightarrow> list_all2 item_grows xs (update_first P f xs)"
  by (induction xs) (simp_all add: list.rel_refl item_grows_refl)

lemma update_last_grows: "load_grows out (update_last P (extend_item text hs) out)"
  using update_first_grows [of "extend_item text hs" "rev out" P] item_grows_extend
  unfolding update_last_def load_grows_def
  by (metis list_all2_lengthD list_all2_rev1 length_rev order_refl take_all)

lemma follow_one_grows: "follow_one l fs w out = Some out' \<Longrightarrow> load_grows out out'"
  by (auto simp: follow_one_def Let_def split: option.splits if_splits
      intro: load_grows_refl update_last_grows load_grows_trans [OF load_grows_snoc])

lemma follow_aligns_grows: "follow_aligns out l fs = Some out' \<Longrightarrow> load_grows out out'"
  unfolding follow_aligns_def
  by (rule fold_opt_relation) (auto intro: load_grows_refl load_grows_trans follow_one_grows)

text \<open>Where every capability has a spec path, a load always answers.\<close>

lemma load_total:
  assumes "\<forall>c \<in> set (capabilities l). cap_spec c \<noteq> []"
  shows "requirements_for_changed changed l fs False = Some (the (requirements_for_changed changed l fs False))"
proof -
  let ?caps = "filter (\<lambda>cap. hit_files changed cap \<noteq> []) (capabilities l)"
  have "traverse (hit_entry fs changed) ?caps = Some (map (\<lambda>c. the (hit_entry fs changed c)) ?caps)"
    using assms by (intro traverse_map) (auto simp: hit_entry_def entry_of_def resolve_spec_def)
  then show ?thesis by (simp add: requirements_for_changed_def match_changed_def)
qed

text \<open>The files the witnesses run on: the cart's requirement aligns with a rule of the app.\<close>

definition example_files :: files where
  "example_files p =
     (if p = ''capabilities/cart/spec.md'' then Some (join nl [''### A'', ''<!-- touches: src/cart/** -->'', ''<!-- aligns: app#B -->'', ''text''])
      else if p = ''capabilities/app/spec.md'' then Some (join nl [''### B'', ''rule''])
      else None)"

section \<open>Properties\<close>

text \<open>A marker can only narrow a load: every capability in scope is in the answer, in the same order, and
  one that is not read whole still contributes each requirement that carries no marker.\<close>

theorem load_covers_scope:
  assumes "requirements_for_changed changed l fs False = Some items"
  shows "\<exists>hits. match_changed changed l fs = Some hits \<and> map i_name items = map e_name hits \<and>
    (\<forall>e \<in> set hits. \<exists>item \<in> set items. i_name item = e_name e \<and>
       (i_whole item \<or> (\<exists>text. fs (e_spec e) = Some text \<and>
          (\<forall>s \<in> set (requirement_slices text). touches s = [] \<longrightarrow> contributed s \<in> set (i_reqs item)))))"
proof -
  obtain hits where hits: "match_changed changed l fs = Some hits" and items: "items = map (load_entry fs changed) hits"
    using assms by (auto simp: requirements_for_changed_def split: option.splits)
  have "i_name (load_entry fs changed e) = e_name e" for e
    by (simp add: load_entry_def Let_def split: option.split)
  moreover have "i_whole (load_entry fs changed e) \<or> (\<exists>text. fs (e_spec e) = Some text \<and>
      (\<forall>s \<in> set (requirement_slices text). touches s = [] \<longrightarrow> contributed s \<in> set (i_reqs (load_entry fs changed e))))" for e
    by (auto simp: load_entry_def Let_def requirements_for_change_def split: option.split)
  ultimately show ?thesis unfolding items using hits by (auto intro!: bexI)
qed

theorem load_covers_scope_witness:
  "\<exists>hits. match_changed [''src/cart/a.ts''] example_living example_files = Some hits \<and>
     map i_name (the (requirements_for_changed [''src/cart/a.ts''] example_living example_files False)) = map e_name hits"
proof -
  let ?r = "requirements_for_changed [''src/cart/a.ts''] example_living example_files False"
  have "?r = Some (the ?r)" by (rule load_total) (simp add: example_living_def example_cap_def)
  then show ?thesis using load_covers_scope [of "[''src/cart/a.ts'']" example_living example_files "the ?r"] by blast
qed

text \<open>C40: Following the aligns edges only adds: the items of the plain load are still there, in their places,
  each with its requirements in front, whatever the edges name.\<close>

theorem follow_aligns_only_adds:
  assumes "requirements_for_changed changed l fs True = Some out'"
  shows "\<exists>out. requirements_for_changed changed l fs False = Some out \<and> length out \<le> length out' \<and>
    (\<forall>i < length out. i_name (out' ! i) = i_name (out ! i) \<and> prefix (i_reqs (out ! i)) (i_reqs (out' ! i)))"
proof -
  obtain hits where hits: "match_changed changed l fs = Some hits"
    and out': "follow_aligns (map (load_entry fs changed) hits) l fs = Some out'"
    using assms by (auto simp: requirements_for_changed_def split: option.splits)
  let ?out = "map (load_entry fs changed) hits"
  have "list_all2 item_grows ?out (take (length ?out) out')"
    using follow_aligns_grows [OF out'] by (simp only: load_grows_def)
  then have "length ?out \<le> length out'" "\<forall>i < length ?out. item_grows (?out ! i) (out' ! i)"
    by (auto simp: list_all2_conv_all_nth)
  then show ?thesis using hits by (auto simp: requirements_for_changed_def item_grows_def)
qed

theorem follow_aligns_only_adds_witness:
  "(\<exists>out. requirements_for_changed [''src/cart/a.ts''] example_living example_files False = Some out \<and>
      length out \<le> length (the (requirements_for_changed [''src/cart/a.ts''] example_living example_files True))) \<and>
   map (\<lambda>i. map r_heading (i_reqs i))
     (the (requirements_for_changed [''src/cart/a.ts''] example_living example_files True)) = [[''A''], [''B'']]"
proof -
  let ?r = "requirements_for_changed [''src/cart/a.ts''] example_living example_files True"
  have run: "?r \<noteq> None \<and> map (\<lambda>i. map r_heading (i_reqs i)) (the ?r) = [[''A''], [''B'']]" by code_simp
  then have "?r = Some (the ?r)" by auto
  then show ?thesis
    using follow_aligns_only_adds [of "[''src/cart/a.ts'']" example_living example_files "the ?r"] run by blast
qed

end
