(* ===== verification/Deltas.thy ===== *)
theory Deltas
  imports LivingText "HOL-Library.AList"
begin

text \<open>
  The requirement deltas a feature spec declares (\<open>spec_deltas.py\<close>): blocks under
  \<open>## ADDED / MODIFIED / REMOVED / RENAMED Requirements\<close>, each holding \<open>###\<close> requirement units and
  perhaps the marker of the capability they belong to.
\<close>

datatype verb = Added | Modified | Removed | Renamed

text \<open>
  A unit is a heading with its section text (empty for a removal), or the old and the new heading of
  a rename.  \<open>unit_caps\<close> runs parallel to \<open>units\<close>.
\<close>

record deltas =
  units :: "verb \<Rightarrow> (string \<times> string) list"
  unit_caps :: "verb \<Rightarrow> string option list"
  markers :: "(verb \<times> string) list"

definition no_deltas :: deltas where
  "no_deltas = \<lparr>units = (\<lambda>_. []), unit_caps = (\<lambda>_. []), markers = []\<rparr>"

definition verb_names :: "(string \<times> verb) list" where
  "verb_names = [(''added'', Added), (''modified'', Modified), (''removed'', Removed), (''renamed'', Renamed)]"

text \<open>\<open>^##\s+(ADDED|MODIFIED|REMOVED|RENAMED)\s+Requirements\s*$\<close>, ignoring case.\<close>

definition delta_header :: "string \<Rightarrow> verb option" where
  "delta_header l =
     (if \<not> is_section_line l then None
      else let t = lstrip (drop 2 l) in
        case List.find (\<lambda>(w, v). prefix w (lower t)) verb_names of
          None \<Rightarrow> None
        | Some (w, v) \<Rightarrow>
            (let r = drop (length w) t; s = lstrip r in
             if r \<noteq> [] \<and> is_space (hd r) \<and> prefix ''requirements'' (lower s) \<and> strip (drop 12 s) = []
             then Some v else None))"

text \<open>
  \<open><!--\s*capability:\s*([^\s>]+)\s*-->\<close> at the start of the text.  The name takes every character it
  can; when it swallowed the two dashes of the closing they are given back.
\<close>

definition cap_marker_at :: "string \<Rightarrow> string option" where
  "cap_marker_at s =
     (if \<not> prefix ''<!--'' s then None
      else let t = lstrip (drop 4 s) in
        if \<not> prefix ''capability:'' (lower t) then None
        else let u = lstrip (drop 11 t);
                 r = takeWhile (\<lambda>c. \<not> is_space c \<and> c \<noteq> CHR ''>'') u;
                 v = drop (length r) u
             in if r = [] then None
                else if prefix ''-->'' (lstrip v) then Some r
                else if suffix ''--'' r \<and> prefix ''>'' v \<and> 2 < length r then Some (take (length r - 2) r)
                else None)"

fun cap_marker :: "string \<Rightarrow> string option" where
  "cap_marker [] = None"
| "cap_marker (c # cs) = (case cap_marker_at (c # cs) of Some name \<Rightarrow> Some name | None \<Rightarrow> cap_marker cs)"

text \<open>\<open>^(.*?)\s*->\s*(.+)$\<close> on a stripped heading.  The arrow U+2192, also accepted, is outside the
  characters of the model.\<close>

definition rename_pair :: "string \<Rightarrow> (string \<times> string) option" where
  "rename_pair head =
     (case cut_at ''->'' head of
        None \<Rightarrow> None
      | Some (a, b) \<Rightarrow> if b = [] then None else Some (strip a, strip b))"

subsection \<open>The units of a block\<close>

definition section_text :: "string list \<Rightarrow> string" where
  "section_text ls = rstrip (join nl ls) @ nl"

fun split_units :: "(string \<times> string list) option \<Rightarrow> string list \<Rightarrow> (string \<times> string) list" where
  "split_units cur [] = (case cur of None \<Rightarrow> [] | Some (h, ls) \<Rightarrow> [(h, section_text ls)])"
| "split_units cur (l # rest) =
     (case req_heading l of
        Some h \<Rightarrow> (case cur of None \<Rightarrow> [] | Some (h0, ls) \<Rightarrow> [(h0, section_text ls)])
                   @ split_units (Some (h, [l])) rest
      | None \<Rightarrow> split_units (map_option (\<lambda>(h, ls). (h, ls @ [l])) cur) rest)"

definition split_requirements :: "string \<Rightarrow> (string \<times> string) list" where
  "split_requirements block_body = split_units None (splitlines block_body)"

subsection \<open>The parser\<close>

definition add_units :: "verb \<Rightarrow> (string \<times> string) list \<Rightarrow> string option \<Rightarrow> deltas \<Rightarrow> deltas" where
  "add_units v us cap d =
     d\<lparr>units := (units d)(v := units d v @ us),
       unit_caps := (unit_caps d)(v := unit_caps d v @ map (\<lambda>_. cap) us)\<rparr>"

definition flush_block :: "verb option \<Rightarrow> string list \<Rightarrow> deltas \<Rightarrow> deltas" where
  "flush_block cur buf d =
     (case cur of
        None \<Rightarrow> d
      | Some v \<Rightarrow>
          (let text = join nl buf;
               marker = map_option strip (cap_marker text);
               us = split_requirements text;
               d1 = (case marker of
                       Some m \<Rightarrow> if m \<noteq> [] then d\<lparr>markers := AList.update v m (markers d)\<rparr> else d
                     | None \<Rightarrow> d)
           in case v of
                Removed \<Rightarrow> add_units v (map (\<lambda>u. (fst u, [])) us) marker d1
              | Renamed \<Rightarrow> add_units v (List.map_filter (\<lambda>u. rename_pair (fst u)) us) marker d1
              | _ \<Rightarrow> add_units v us marker d1))"

fun parse_lines :: "verb option \<Rightarrow> string list \<Rightarrow> string list \<Rightarrow> deltas \<Rightarrow> deltas" where
  "parse_lines cur buf [] d = flush_block cur buf d"
| "parse_lines cur buf (l # ls) d =
     (case delta_header l of
        Some v \<Rightarrow> parse_lines (Some v) [] ls (flush_block cur buf d)
      | None \<Rightarrow>
          if prefix ''## '' l \<and> cur \<noteq> None then parse_lines None [] ls (flush_block cur buf d)
          else if cur \<noteq> None then parse_lines cur (buf @ [l]) ls d
          else parse_lines cur buf ls d)"

definition parse_spec_deltas :: "string \<Rightarrow> deltas" where
  "parse_spec_deltas text = parse_lines None [] (splitlines text) no_deltas"

definition has_deltas :: "deltas \<Rightarrow> bool" where
  "has_deltas d \<longleftrightarrow> units d Added \<noteq> [] \<or> units d Modified \<noteq> [] \<or> units d Removed \<noteq> [] \<or> units d Renamed \<noteq> []"

section \<open>Facts\<close>

subsection \<open>Writing a block\<close>

text \<open>The lines of a block as a feature spec writes it: header, capability marker, units.\<close>

definition heading_line :: "string \<Rightarrow> string" where
  "heading_line h = ''### '' @ h"

fun verb_title :: "verb \<Rightarrow> string" where
  "verb_title Added = ''ADDED''"
| "verb_title Modified = ''MODIFIED''"
| "verb_title Removed = ''REMOVED''"
| "verb_title Renamed = ''RENAMED''"

definition header_line :: "verb \<Rightarrow> string" where
  "header_line v = ''## '' @ verb_title v @ '' Requirements''"

definition cap_line :: "string \<Rightarrow> string" where
  "cap_line cap = ''<!-- capability: '' @ cap @ '' -->''"

definition block_lines :: "verb \<Rightarrow> string \<Rightarrow> (string \<times> string list) list \<Rightarrow> string list" where
  "block_lines v cap us = header_line v # cap_line cap # concat (map (\<lambda>(h, ls). heading_line h # ls) us)"

definition unit_ok :: "string \<times> string list \<Rightarrow> bool" where
  "unit_ok u \<longleftrightarrow> strip (fst u) = fst u \<and> fst u \<noteq> [] \<and> clean_line (fst u) \<and>
     (\<forall>l \<in> set (snd u). clean_line l \<and> req_heading l = None \<and> delta_header l = None \<and> \<not> prefix ''## '' l)"

definition cap_ok :: "string \<Rightarrow> bool" where
  "cap_ok cap \<longleftrightarrow> cap \<noteq> [] \<and> (\<forall>c \<in> set cap. \<not> is_space c \<and> c \<noteq> CHR ''>'')"

subsection \<open>Reading it back\<close>

lemma req_heading_line: "strip h = h \<Longrightarrow> h \<noteq> [] \<Longrightarrow> req_heading (heading_line h) = Some h"
  using hd_not_space [OF strip_fixed(1), of h] strip_fixed(2) [of h]
  by (cases h) (simp_all add: req_heading_def req_group_def heading_line_def Let_def)

lemma heading_line_not_section: "\<not> is_section_line (heading_line h)" "\<not> prefix ''## '' (heading_line h)"
    "delta_header (heading_line h) = None"
  by (simp_all add: is_section_line_def heading_line_def delta_header_def is_space_def space_chars_def)

lemma section_text_blank: "section_text (ls @ [[]]) = section_text ls"
  by (cases "ls = []") (simp_all add: section_text_def join_snoc rstrip_append_space is_space_def space_chars_def)

lemma split_units_body:
  "\<forall>l \<in> set ls. req_heading l = None \<Longrightarrow>
   split_units (Some (h, acc)) (ls @ rest) = split_units (Some (h, acc @ ls)) rest"
  by (induction ls arbitrary: acc) auto

lemma split_units_units:
  assumes "\<forall>(h, ls) \<in> set us. req_heading (hline h) = Some h \<and> (\<forall>l \<in> set ls. req_heading l = None)"
  shows "split_units cur (concat (map (\<lambda>(h, ls). hline h # ls) us)) =
    (case cur of None \<Rightarrow> [] | Some (h0, ls0) \<Rightarrow> [(h0, section_text ls0)])
     @ map (\<lambda>(h, ls). (h, section_text (hline h # ls))) us"
  using assms
proof (induction us arbitrary: cur)
  case (Cons u us)
  obtain h ls where u: "u = (h, ls)" by (cases u)
  then show ?case
    using Cons split_units_body [of ls h "[hline h]" "concat (map (\<lambda>(h, ls). hline h # ls) us)"] by simp
qed simp


lemma delta_header_line: "delta_header (header_line v) = Some v"
proof -
  have "list_all (\<lambda>v. delta_header (header_line v) = Some v) [Added, Modified, Removed, Renamed]" by code_simp
  then show ?thesis by (cases v) simp_all
qed

lemma parse_lines_body:
  "\<forall>l \<in> set ls. delta_header l = None \<and> \<not> prefix ''## '' l \<Longrightarrow>
   parse_lines (Some v) buf (ls @ rest) d = parse_lines (Some v) (buf @ ls) rest d"
  by (induction ls arbitrary: buf) auto

lemma cap_marker_line: "cap_ok cap \<Longrightarrow> cap_marker (cap_line cap @ t) = Some cap"
proof -
  assume ok: "cap_ok cap"
  have low: "prefix ''capability:'' (lower (''capability: '' @ u))" for u
  proof -
    have "lower (''capability: '' @ u) = ''capability: '' @ lower u" unfolding lower_def map_append
      by (simp add: lower_char_def)
    then show ?thesis by simp
  qed
  have ls: "lstrip (CHR '' '' # u) = lstrip u" for u by (simp add: lstrip_def)
  have nos: "\<not> is_space (CHR ''c'')" "\<not> is_space (CHR ''-'')" by (simp_all add: is_space_def space_chars_def)
  have cap: "lstrip (cap @ u) = cap @ u" for u
    using ok by (cases cap) (auto simp: cap_ok_def lstrip_def)
  have tw: "takeWhile (\<lambda>c. \<not> is_space c \<and> c \<noteq> CHR ''>'') (cap @ CHR '' '' # u) = cap" for u
    using ok by (auto simp: cap_ok_def takeWhile_append)
  have "cap_marker_at (cap_line cap @ t) = Some cap"
    using ok low [of "cap @ '' -->'' @ t"] ls [of "''capability: '' @ cap @ '' -->'' @ t"] nos
      cap [of "'' -->'' @ t"] tw [of "''-->'' @ t"]
    by (simp add: cap_marker_at_def cap_line_def Let_def ls cap tw lstrip_def cap_ok_def)
  then show ?thesis by (cases "cap_line cap @ t") (simp_all add: cap_line_def)
qed


lemma is_section_cap_line: "\<not> is_section_line (cap_line cap)"
  by (simp add: is_section_line_def cap_line_def)

lemma cap_line_inert: "delta_header (cap_line cap) = None" "\<not> prefix ''## '' (cap_line cap)" "req_heading (cap_line cap) = None"
  by (simp_all add: delta_header_def is_section_cap_line req_heading_def req_group_def)
     (simp add: cap_line_def)+

lemma clean_header_line: "clean_line (header_line v)"
proof -
  have "list_all (\<lambda>v. list_all (\<lambda>c. \<not> is_line_break c) (header_line v)) [Added, Modified, Removed, Renamed]" by code_simp
  then show ?thesis by (cases v) (simp_all add: clean_line_def list_all_iff)
qed

lemma clean_cap_line: "cap_ok cap \<Longrightarrow> clean_line (cap_line cap)"
proof -
  assume "cap_ok cap"
  moreover have "is_line_break c \<Longrightarrow> is_space c" for c
    by (auto simp: is_line_break_def is_space_def space_chars_def)
  ultimately show ?thesis
    by (auto simp: clean_line_def cap_line_def cap_ok_def is_line_break_def)
qed

lemma clean_heading_line: "clean_line h \<Longrightarrow> clean_line (heading_line h)"
  by (auto simp: clean_line_def heading_line_def is_line_break_def)

lemma split_units_blank:
  "split_units cur (ls @ [[]]) = split_units cur ls"
proof (induction ls arbitrary: cur)
  case Nil
  have "req_heading [] = None" by (simp add: req_heading_def req_group_def)
  then show ?case
    by (cases cur) (auto simp: section_text_blank)
next
  case (Cons l ls)
  then show ?case by (simp split: option.split)
qed


lemma flush_parallel:
  "\<forall>v. length (unit_caps d v) = length (units d v) \<Longrightarrow>
   length (unit_caps (flush_block cur buf d) v) = length (units (flush_block cur buf d) v)"
  by (auto simp: flush_block_def add_units_def Let_def split: option.split verb.split)

section \<open>Properties\<close>

text \<open>C29: A delta block round-trips: the requirements written under an \<open>ADDED\<close> or \<open>MODIFIED\<close> header with
  a capability marker are read back one by one, heading and section text, each routed to that
  capability, and nothing else is read.\<close>

theorem parse_block_roundtrip:
  assumes "cap_ok cap" and "\<forall>u \<in> set us. unit_ok u" and "v = Added \<or> v = Modified"
    and "d = parse_spec_deltas (join nl (block_lines v cap us) @ nl)"
  shows "units d = (\<lambda>_. [])(v := map (\<lambda>(h, ls). (h, section_text (heading_line h # ls))) us) \<and>
         unit_caps d = (\<lambda>_. [])(v := map (\<lambda>_. Some cap) us)"
proof -
  let ?unit_lines = "concat (map (\<lambda>(h, ls). heading_line h # ls) us)"
  let ?buf = "cap_line cap # ?unit_lines"
  have clean: "\<forall>l \<in> set (block_lines v cap us). clean_line l"
    using assms(2) clean_header_line [of v] clean_cap_line [OF assms(1)]
    by (auto simp only: block_lines_def unit_ok_def list.set set_concat set_map fst_conv snd_conv
        split_beta insert_iff UN_iff image_iff intro!: clean_heading_line) auto
  have inert: "\<forall>l \<in> set ?buf. delta_header l = None \<and> \<not> prefix ''## '' l"
    using assms(2) cap_line_inert [of cap] heading_line_not_section
    by (auto simp only: unit_ok_def list.set set_concat set_map fst_conv snd_conv split_beta insert_iff UN_iff image_iff)
  have "splitlines (join nl (block_lines v cap us) @ nl) = block_lines v cap us"
    by (rule splitlines_join_nl [OF _ clean]) (simp add: block_lines_def)
  then have d: "d = flush_block (Some v) ?buf no_deltas"
    using parse_lines_body [OF inert, of v "[]" "[]" no_deltas] 
    by (simp add: assms(4) parse_spec_deltas_def block_lines_def delta_header_line flush_block_def [of None])
  have marker: "cap_marker (join nl ?buf) = Some cap"
    by (simp only: join_Cons cap_marker_line [OF assms(1)])
  have strip_cap: "strip cap = cap" using assms(1) by (intro strip_no_space) (simp add: cap_ok_def)
  have "split_requirements (join nl ?buf) = split_units None ?buf"
  proof -
    have "\<forall>l \<in> set ?buf. clean_line l" using clean by (simp add: block_lines_def)
    then have s: "splitlines (join nl ?buf) = (if last ?buf = [] then butlast ?buf else ?buf)"
      by (simp only: splitlines_join) simp
    show ?thesis
    proof (cases "last ?buf = []")
      case True
      then have "?buf = butlast ?buf @ [[]]" by (metis append_butlast_last_id list.distinct(1))
      then show ?thesis using s True split_units_blank [of None "butlast ?buf"] by (simp only: split_requirements_def if_True refl)
    next
      case False
      then show ?thesis using s by (simp only: split_requirements_def if_False)
    qed
  qed
  also have "\<dots> = split_units None ?unit_lines" by (simp add: cap_line_inert)
  also have "\<dots> = map (\<lambda>(h, ls). (h, section_text (heading_line h # ls))) us"
    by (subst split_units_units) (use assms(2) in \<open>fastforce simp: unit_ok_def intro: req_heading_line\<close>)+
  finally have us: "split_requirements (join nl ?buf) = map (\<lambda>(h, ls). (h, section_text (heading_line h # ls))) us" .
  show ?thesis
    using assms(1,3) by (elim disjE)
      (simp_all add: d flush_block_def Let_def marker strip_cap us add_units_def no_deltas_def cap_ok_def o_def)
qed

theorem parse_block_roundtrip_witness:
  "units (parse_spec_deltas (join nl (block_lines Added ''todos'' [(''Undo'', [''It MUST undo.'', []])]) @ nl)) Added =
     [(''Undo'', ''### Undo'' @ nl @ ''It MUST undo.'' @ nl)]"
proof -
  let ?us = "[(''Undo'', [''It MUST undo.'', []])]"
  have "cap_ok ''todos''" "\<forall>u \<in> set ?us. unit_ok u"
    and sect: "section_text (heading_line ''Undo'' # [''It MUST undo.'', []]) = ''### Undo'' @ nl @ ''It MUST undo.'' @ nl"
    by code_simp+
  from parse_block_roundtrip [OF this(1,2), of Added, OF _ refl] show ?thesis using sect by simp
qed

text \<open>The routing list stays parallel to the units: whatever the spec says, every requirement of every
  verb has exactly one recorded capability (or none), so pairing them up loses no requirement.\<close>

theorem delta_caps_parallel: "length (unit_caps (parse_spec_deltas text) v) = length (units (parse_spec_deltas text) v)"
proof -
  have "\<forall>v. length (unit_caps d v) = length (units d v) \<Longrightarrow>
      \<forall>v. length (unit_caps (parse_lines cur buf ls d) v) = length (units (parse_lines cur buf ls d) v)" for cur buf ls d
    by (induction cur buf ls d rule: parse_lines.induct) (auto simp: flush_parallel split: option.split)
  then show ?thesis by (simp add: parse_spec_deltas_def no_deltas_def)
qed

text \<open>A spec without a delta header is a clean no-op: nothing is read as a delta, however many
  requirement headings it has.\<close>

theorem no_header_no_deltas:
  "\<forall>l \<in> set (splitlines text). delta_header l = None \<Longrightarrow> parse_spec_deltas text = no_deltas"
proof -
  have "\<forall>l \<in> set ls. delta_header l = None \<Longrightarrow> parse_lines None [] ls d = d" for ls d
    by (induction ls) (auto simp: flush_block_def)
  then show "\<forall>l \<in> set (splitlines text). delta_header l = None \<Longrightarrow> parse_spec_deltas text = no_deltas"
    by (simp add: parse_spec_deltas_def)
qed

theorem no_header_no_deltas_witness: "\<not> has_deltas (parse_spec_deltas (''## Requirements'' @ nl @ ''### Undo'' @ nl))"
proof -
  have "\<forall>l \<in> set (splitlines (''## Requirements'' @ nl @ ''### Undo'' @ nl)). delta_header l = None" by code_simp
  from no_header_no_deltas [OF this] show ?thesis by (simp add: has_deltas_def no_deltas_def)
qed

end
