(* ===== verification/Fold.thy ===== *)
theory Fold
  imports SpecPaths Deltas
begin

text \<open>
  Folding the deltas of a feature into a living spec (\<open>living_spec_fold.py\<close>): the span of a
  requirement, the rename chains, the marker that is carried across, and \<open>apply_deltas\<close>.  A text is
  taken to its lines and back, as the code does.
\<close>

subsection \<open>Markers\<close>

definition touches_globs :: "string list \<Rightarrow> string list" where
  "touches_globs ls =
     (if length ls < 2 then []
      else case marker_value ''touches'' (ls ! 1) of None \<Rightarrow> [] | Some v \<Rightarrow> split_globs v)"

definition touches_line :: "string list \<Rightarrow> string" where
  "touches_line globs = ''<!-- touches: '' @ join '', '' globs @ '' -->''"

definition keep_marker :: "string list \<Rightarrow> string list \<Rightarrow> string list" where
  "keep_marker old new =
     (case new of
        [] \<Rightarrow> []
      | head # tail \<Rightarrow>
          (let is = (\<lambda>label ln. marker_value label ln \<noteq> None);
               edges = filter (is ''aligns'') old;
               rest = filter (\<lambda>ln. \<not> is ''adopted'' ln \<and> \<not> is ''aligns'' ln) tail;
               globs = touches_globs old @ filter (\<lambda>g. g \<notin> set (touches_globs old)) (touches_globs new)
           in if globs = [] then head # edges @ rest
              else head # touches_line globs # edges
                   @ (case rest of r # rs \<Rightarrow> if is ''touches'' r then rs else rest | [] \<Rightarrow> [])))"

subsection \<open>The span of a requirement\<close>

definition first_index :: "('a \<Rightarrow> bool) \<Rightarrow> 'a list \<Rightarrow> nat option" where
  "first_index P xs = (let n = length (takeWhile (\<lambda>x. \<not> P x) xs) in if n < length xs then Some n else None)"

definition opens_heading :: "string \<Rightarrow> bool \<times> string \<Rightarrow> bool" where
  "opens_heading h p \<longleftrightarrow> \<not> fst p \<and> req_heading (snd p) = Some (strip h)"

definition closes_span :: "bool \<times> string \<Rightarrow> bool" where
  "closes_span p \<longleftrightarrow> \<not> fst p \<and> (prefix ''### '' (snd p) \<or> prefix ''## '' (snd p))"

definition requirement_span :: "string list \<Rightarrow> string \<Rightarrow> (nat \<times> nat) option" where
  "requirement_span ls h =
     (case first_index (opens_heading h) (flagged ls) of
        None \<Rightarrow> None
      | Some start \<Rightarrow>
          Some (start, case first_index closes_span (drop (Suc start) (flagged ls)) of
                         None \<Rightarrow> length ls | Some k \<Rightarrow> Suc start + k))"

subsection \<open>Renames\<close>

type_synonym renames = "(string \<times> string) list"

definition add_rename :: "string \<times> string \<Rightarrow> renames \<Rightarrow> renames" where
  "add_rename r mapping = (if fst r \<in> set (map fst mapping) then mapping else mapping @ [r])"

text \<open>The chain of a heading if it comes back on itself, else nothing.\<close>

function chase :: "renames \<Rightarrow> string list \<Rightarrow> string \<Rightarrow> string list" where
  "chase mapping chain current =
     (case map_of mapping current of
        None \<Rightarrow> []
      | Some nxt \<Rightarrow> if nxt \<in> set chain then chain else chase mapping (chain @ [nxt]) nxt)"
  by pat_completeness auto

termination
proof (relation "measure (\<lambda>(mapping, chain, current). card (snd ` set mapping - set chain))")
  fix mapping :: renames and chain current nxt
  assume "map_of mapping current = Some nxt" and "nxt \<notin> set chain"
  then have "nxt \<in> snd ` set mapping - set chain" by (force dest: map_of_SomeD)
  then have "snd ` set mapping - set (chain @ [nxt]) \<subset> snd ` set mapping - set chain" by auto
  then show "((mapping, chain @ [nxt], nxt), mapping, chain, current)
      \<in> measure (\<lambda>(mapping, chain, current). card (snd ` set mapping - set chain))"
    by (auto intro: psubset_card_mono)
qed simp

declare chase.simps [simp del]

definition rename_map :: "(string \<times> string) list \<Rightarrow> renames" where
  "rename_map renamed =
     (let mapping = fold add_rename renamed [];
          cyclic = concat (map (\<lambda>r. chase mapping [fst r] (fst r)) mapping)
      in filter (\<lambda>r. fst r \<notin> set cyclic) mapping)"

primrec follow_rename :: "nat \<Rightarrow> renames \<Rightarrow> string \<Rightarrow> string" where
  "follow_rename 0 mapping h = h"
| "follow_rename (Suc n) mapping h =
     (case map_of mapping h of None \<Rightarrow> h | Some nxt \<Rightarrow> follow_rename n mapping nxt)"

definition resolve_rename :: "string \<Rightarrow> renames \<Rightarrow> string" where
  "resolve_rename h mapping = follow_rename (length mapping + 1) mapping h"

text \<open>
  \<open>re.sub(r"^(###\s+).+$", ...)\<close> on a requirement line: the whitespace is kept, but for its last
  character when nothing follows it.
\<close>

definition retitle_line :: "string \<Rightarrow> string \<Rightarrow> string" where
  "retitle_line h l =
     (let r = drop 3 l; w = takeWhile is_space r
      in ''###'' @ (if length w = length r then butlast w else w) @ h)"

fun retitle_lines :: "string \<Rightarrow> string list \<Rightarrow> string list" where
  "retitle_lines h [] = []"
| "retitle_lines h (l # ls) =
     (if req_heading l \<noteq> None then retitle_line h l # ls else l # retitle_lines h ls)"

definition retitle :: "string \<Rightarrow> string \<Rightarrow> string" where
  "retitle sect h = join nl (retitle_lines (strip h) (splitlines sect)) @ nl"

subsection \<open>Adding a requirement\<close>

definition add_requirement :: "string \<Rightarrow> string \<Rightarrow> string" where
  "add_requirement text block =
     (let ls = splitlines (rstrip text);
          stop = (case first_index (\<lambda>p. \<not> fst p \<and> is_section_named ''Requirements'' (snd p)) (flagged ls) of
                    None \<Rightarrow> None
                  | Some start \<Rightarrow>
                      map_option ((+) (Suc start))
                        (first_index (\<lambda>p. \<not> fst p \<and> is_section_line (snd p)) (drop (Suc start) (flagged ls))))
      in case stop of
           None \<Rightarrow> join nl ls @ nl @ nl @ rstrip block @ nl
         | Some e \<Rightarrow> rstrip (join nl (take e ls)) @ nl @ nl @ rstrip block @ nl @ nl @ join nl (drop e ls) @ nl)"

subsection \<open>Applying a delta set\<close>

record counts =
  n_added :: nat
  n_modified :: nat
  n_removed :: nat
  n_renamed :: nat
  n_promoted :: nat
  n_promoted_present :: nat
  n_confirmed :: nat

definition no_counts :: counts where
  "no_counts = \<lparr>n_added = 0, n_modified = 0, n_removed = 0, n_renamed = 0, n_promoted = 0,
     n_promoted_present = 0, n_confirmed = 0\<rparr>"

type_synonym applying = "string list \<times> counts"

definition has_requirement :: "string list \<Rightarrow> string \<Rightarrow> bool" where
  "has_requirement ls h \<longleftrightarrow> requirement_span ls h \<noteq> None"

definition apply_rename :: "renames \<Rightarrow> string \<Rightarrow> applying \<Rightarrow> applying" where
  "apply_rename renames old s =
     (let (ls, n) = s; final = resolve_rename old renames in
      case requirement_span ls old of
        None \<Rightarrow> s
      | Some (start, _) \<Rightarrow>
          (if has_requirement ls final then s
           else (ls[start := retitle_line final (ls ! start)], n\<lparr>n_renamed := Suc (n_renamed n)\<rparr>)))"

definition apply_removal :: "renames \<Rightarrow> string list \<Rightarrow> string \<Rightarrow> applying \<Rightarrow> applying" where
  "apply_removal renames put_back h s =
     (let (ls, n) = s in
      if resolve_rename h renames \<in> set put_back then s
      else case requirement_span ls h of
          None \<Rightarrow> s
        | Some (start, stop) \<Rightarrow> (take start ls @ drop stop ls, n\<lparr>n_removed := Suc (n_removed n)\<rparr>))"

definition apply_modification :: "string \<times> string \<Rightarrow> applying \<times> (string \<times> string) list \<Rightarrow> applying \<times> (string \<times> string) list" where
  "apply_modification u sp =
     (let ((ls, n), promoted) = sp in
      case requirement_span ls (fst u) of
        None \<Rightarrow> ((ls, n), promoted @ [u])
      | Some (start, stop) \<Rightarrow>
          (let old = take (stop - start) (drop start ls);
               body = keep_marker old (splitlines (rstrip_chars nl (snd u)));
               adopted = (\<lambda>b. case adopted_sources b of None \<Rightarrow> False | Some v \<Rightarrow> v \<noteq> []);
               n' = (if adopted old \<and> \<not> adopted body then n\<lparr>n_confirmed := Suc (n_confirmed n)\<rparr> else n);
               body' = (if stop < length ls then body @ [[]] else body)
           in ((take start ls @ body' @ drop stop ls, n'\<lparr>n_modified := Suc (n_modified n')\<rparr>), promoted)))"

definition added_body :: "(string \<times> string) list \<Rightarrow> renames \<Rightarrow> string \<times> string \<Rightarrow> string" where
  "added_body modified renames u =
     (let bodies = map_of (rev modified);
          found = (\<lambda>h. case bodies h of Some b \<Rightarrow> b | None \<Rightarrow> [])
      in if found (resolve_rename (fst u) renames) \<noteq> [] then found (resolve_rename (fst u) renames)
         else if found (fst u) \<noteq> [] then found (fst u) else snd u)"

definition apply_addition :: "(string \<times> string) list \<Rightarrow> renames \<Rightarrow> string \<times> string \<Rightarrow> string \<times> counts \<Rightarrow> string \<times> counts" where
  "apply_addition modified renames u s =
     (let (text, n) = s; target = resolve_rename (fst u) renames in
      if has_requirement (splitlines text) target then s
      else (add_requirement text (retitle (added_body modified renames u) target),
            n\<lparr>n_added := Suc (n_added n)\<rparr>))"

definition apply_promotion :: "renames \<Rightarrow> string \<times> string \<Rightarrow> string \<times> counts \<Rightarrow> string \<times> counts" where
  "apply_promotion renames u s =
     (let (text, n) = s; target = resolve_rename (fst u) renames in
      if has_requirement (splitlines text) target then (text, n\<lparr>n_promoted_present := Suc (n_promoted_present n)\<rparr>)
      else (add_requirement text (retitle (snd u) target), n\<lparr>n_promoted := Suc (n_promoted n)\<rparr>))"

definition apply_deltas :: "string \<Rightarrow> deltas \<Rightarrow> string \<times> counts" where
  "apply_deltas living_text d =
     (let renames = rename_map (units d Renamed);
          s1 = fold (apply_rename renames) (map fst renames) (splitlines living_text, no_counts);
          put_back = map (\<lambda>u. resolve_rename (fst u) renames) (units d Added)
                     @ map (\<lambda>r. resolve_rename (fst r) renames) renames;
          s2 = fold (apply_removal renames put_back) (map fst (units d Removed)) s1;
          ((ls, n), promoted) = fold apply_modification (units d Modified) (s2, []);
          s4 = fold (apply_addition (units d Modified) renames) (units d Added) (rstrip (join nl ls) @ nl, n)
      in fold (apply_promotion renames) promoted s4)"

subsection \<open>Routing\<close>

definition belongs :: "string \<Rightarrow> bool \<Rightarrow> (string \<times> string) \<times> string option \<Rightarrow> bool" where
  "belongs cap is_default uc \<longleftrightarrow> snd uc = Some cap \<or> snd uc = None \<and> is_default"

definition deltas_for :: "deltas \<Rightarrow> string \<Rightarrow> bool \<Rightarrow> deltas" where
  "deltas_for d cap is_default =
     (let mine = (\<lambda>v. filter (belongs cap is_default)
             (zip (units d v) (if unit_caps d v = [] then map (\<lambda>_. None) (units d v) else unit_caps d v)))
      in \<lparr>units = (\<lambda>v. map fst (mine v)), unit_caps = (\<lambda>v. map snd (mine v)), markers = []\<rparr>)"

end
