(* ===== verification/FoldFacts.thy ===== *)
theory FoldFacts
  imports Fold
begin

text \<open>
  Facts about the fold: rename chains end, a span finds the headings outside fences, and an additive
  fold adds exactly the headings it names, so folding it again changes nothing.
\<close>

section \<open>Facts about renames\<close>

definition settled :: "renames \<Rightarrow> string \<Rightarrow> bool" where
  "settled mapping h \<longleftrightarrow> map_of mapping h = None"

lemma follow_rename_add: "follow_rename (m + n) mapping h = follow_rename n mapping (follow_rename m mapping h)"
proof (induction m arbitrary: h)
  case (Suc m)
  show ?case
  proof (cases "map_of mapping h")
    case None
    then have "follow_rename n mapping h = h" by (cases n) simp_all
    then show ?thesis using None by simp
  qed (simp add: Suc)
qed simp

lemma follow_rename_settled: "settled mapping h \<Longrightarrow> follow_rename n mapping h = h"
  by (cases n) (simp_all add: settled_def)

text \<open>An empty chase ends: some number of links leads to a heading that is not renamed.\<close>

lemma chase_ends:
  "chase mapping chain current = [] \<Longrightarrow> chain \<noteq> [] \<Longrightarrow> \<exists>n. settled mapping (follow_rename n mapping current)"
proof (induction mapping chain current rule: chase.induct)
  case (1 mapping chain current)
  show ?case
  proof (cases "map_of mapping current")
    case None
    then show ?thesis by (intro exI [of _ 0]) (simp add: settled_def)
  next
    case (Some nxt)
    have nxt: "nxt \<notin> set chain" "chase mapping (chain @ [nxt]) nxt = []"
      using 1(2,3) Some by (auto simp: chase.simps [of mapping chain] split: if_splits)
    then obtain n where "settled mapping (follow_rename n mapping nxt)"
      using 1(1) [OF Some] by auto
    then show ?thesis by (intro exI [of _ "Suc n"]) (simp add: Some)
  qed
qed

lemma chase_start: "chase mapping chain current = [] \<or> set chain \<subseteq> set (chase mapping chain current)"
proof (induction mapping chain current rule: chase.induct)
  case (1 mapping chain current)
  then show ?case by (subst (1 2) chase.simps) (auto split: option.splits)
qed

lemma distinct_add_rename: "distinct (map fst (fold add_rename rs mapping)) \<longleftrightarrow> distinct (map fst mapping)"
  by (induction rs arbitrary: mapping) (auto simp: add_rename_def)

lemma rename_map_sub:
  assumes "map_of (rename_map rs) h = Some nxt"
  shows "map_of (fold add_rename rs []) h = Some nxt \<and> chase (fold add_rename rs []) [h] h = []"
proof -
  let ?m = "fold add_rename rs []"
  have "(h, nxt) \<in> set ?m" and no: "h \<notin> set (concat (map (\<lambda>r. chase ?m [fst r] (fst r)) ?m))"
    using map_of_SomeD [OF assms] by (auto simp: rename_map_def Let_def)
  moreover have "distinct (map fst ?m)" by (simp add: distinct_add_rename)
  ultimately have "map_of ?m h = Some nxt" "h \<notin> set (chase ?m [h] h)" by force+
  then show ?thesis using chase_start [of ?m "[h]" h] by auto
qed

lemma rename_step_sub:
  assumes "\<forall>k < n. \<not> settled (rename_map rs) (follow_rename k (rename_map rs) h)"
  shows "follow_rename n (rename_map rs) h = follow_rename n (fold add_rename rs []) h"
  using assms
proof (induction n arbitrary: h)
  case (Suc n)
  obtain nxt where nxt: "map_of (rename_map rs) h = Some nxt"
    using Suc(2) by (force simp: settled_def)
  have "\<not> settled (rename_map rs) (follow_rename k (rename_map rs) nxt)" if "k < n" for k
    using Suc(2) [rule_format, of "Suc k"] that by (simp add: nxt)
  then show ?case using Suc(1) [of nxt] rename_map_sub [OF nxt] by (simp add: nxt)
qed simp

lemma rename_ends: "\<exists>n. settled (rename_map rs) (follow_rename n (rename_map rs) h)"
proof (rule ccontr)
  assume "\<nexists>n. settled (rename_map rs) (follow_rename n (rename_map rs) h)"
  then have all: "\<not> settled (rename_map rs) (follow_rename n (rename_map rs) h)" for n by blast
  then obtain nxt where nxt: "map_of (rename_map rs) h = Some nxt" by (force simp: settled_def [of _ h] dest: spec [of _ 0])
  then obtain n where "settled (fold add_rename rs []) (follow_rename n (fold add_rename rs []) h)"
    using rename_map_sub chase_ends by blast
  moreover have "follow_rename n (rename_map rs) h = follow_rename n (fold add_rename rs []) h"
    using rename_step_sub all by blast
  ultimately have "settled (fold add_rename rs []) (follow_rename n (rename_map rs) h)" by simp
  then have "settled (rename_map rs) (follow_rename n (rename_map rs) h)"
    using rename_map_sub [of rs "follow_rename n (rename_map rs) h"]
    by (cases "map_of (rename_map rs) (follow_rename n (rename_map rs) h)") (auto simp: settled_def)
  then show False using all by blast
qed

text \<open>The first settled heading is reached in no more links than the map has.\<close>

lemma rename_bound:
  assumes least: "\<forall>k < n. \<not> settled mapping (follow_rename k mapping h)" and ends: "settled mapping (follow_rename n mapping h)"
  shows "n \<le> length mapping"
proof -
  let ?x = "\<lambda>k. follow_rename k mapping h"
  have "inj_on ?x {..<n}"
  proof (rule linorder_inj_onI)
    fix i j assume ij: "i < j" "i \<in> {..<n}" "j \<in> {..<n}"
    show "?x i \<noteq> ?x j"
    proof
      assume same: "?x i = ?x j"
      have "?x (i + (n - j)) = ?x (j + (n - j))" unfolding follow_rename_add same ..
      moreover have "i + (n - j) < n" "j + (n - j) = n" using ij by auto
      ultimately show False using least ends by metis
    qed
  qed auto
  moreover have "?x ` {..<n} \<subseteq> fst ` set mapping"
    using least by (auto simp: settled_def map_of_eq_None_iff)
  ultimately have "n \<le> card (fst ` set mapping)"
    by (metis card_image card_lessThan card_mono finite_imageI finite_set)
  also have "\<dots> \<le> length mapping" by (metis card_length length_map list.set_map)
  finally show ?thesis .
qed

section \<open>The headings of a text\<close>

definition heads :: "string list \<Rightarrow> string list" where
  "heads ls = List.map_filter (\<lambda>p. if fst p then None else req_heading (snd p)) (flagged ls)"

definition named_heads :: "string list \<Rightarrow> string list" where
  "named_heads ls = filter (\<lambda>h. h \<noteq> []) (heads ls)"

lemma first_index_None: "first_index P xs = None \<longleftrightarrow> (\<forall>x \<in> set xs. \<not> P x)"
proof -
  have "length (takeWhile (\<lambda>x. \<not> P x) xs) < length xs \<longleftrightarrow> takeWhile (\<lambda>x. \<not> P x) xs \<noteq> xs"
    by (metis le_neq_implies_less length_takeWhile_le nat_neq_iff takeWhile_eq_take take_all_iff linorder_not_less)
  then show ?thesis by (auto simp: first_index_def Let_def takeWhile_eq_all_conv)
qed

lemma first_index_Some:
  assumes "first_index P xs = Some n"
  shows "n < length xs" and "P (xs ! n)"
  using assms nth_length_takeWhile [of "\<lambda>x. \<not> P x" xs]
  by (auto simp: first_index_def Let_def split: if_splits)

lemma set_map_filter: "set (List.map_filter f xs) = {y. \<exists>x \<in> set xs. f x = Some y}"
  by (induction xs) (auto simp: List.map_filter_def split: option.splits)

lemma has_requirement_heads: "has_requirement ls h \<longleftrightarrow> strip h \<in> set (heads ls)"
proof -
  have "has_requirement ls h \<longleftrightarrow> (\<exists>p \<in> set (flagged ls). opens_heading h p)"
    using first_index_None [of "opens_heading h" "flagged ls"]
    by (cases "first_index (opens_heading h) (flagged ls)") (auto simp: has_requirement_def requirement_span_def)
  also have "\<dots> \<longleftrightarrow> strip h \<in> set (heads ls)"
    unfolding heads_def set_map_filter mem_Collect_eq by (rule bex_cong [OF refl]) (simp add: opens_heading_def)
  finally show ?thesis .
qed

lemma heads_append: "balanced xs \<Longrightarrow> heads (xs @ ys) = heads xs @ heads ys"
  by (simp add: heads_def flagged_def fence_flags_append_balanced List.map_filter_def)

lemma named_heads_append: "balanced xs \<Longrightarrow> named_heads (xs @ ys) = named_heads xs @ named_heads ys"
  by (simp add: named_heads_def heads_append)

lemma named_heads_blank [simp]: "named_heads [[]] = []" "balanced [[]]"
  by (simp_all add: named_heads_def heads_def flagged_def fence_flags_def is_fence_def req_heading_def req_group_def balanced_def List.map_filter_def)

subsection \<open>Stripping at the right\<close>

lemma rstrip_Nil_iff: "rstrip s = [] \<longleftrightarrow> (\<forall>c \<in> set s. is_space c)"
  by (induction s rule: rev_induct) (auto simp: rstrip_snoc)

lemma rstrip_keep:
  assumes "a \<noteq> []" and "\<not> is_space (last a)"
  shows "rstrip (a @ b) = a @ rstrip b"
proof (induction b rule: rev_induct)
  case Nil
  then show ?case using assms by (simp add: rstrip_id)
next
  case (snoc c b)
  then show ?case using rstrip_snoc [of "a @ b" c] by (simp add: rstrip_snoc)
qed

lemma rstrip_keep_right: "rstrip b \<noteq> [] \<Longrightarrow> rstrip (a @ b) = a @ rstrip b"
proof (induction b rule: rev_induct)
  case (snoc c b)
  then show ?case using rstrip_snoc [of "a @ b" c] by (auto simp: rstrip_snoc split: if_splits)
qed simp

lemma takeWhile_dropWhile_space: "s = takeWhile is_space s @ lstrip s"
  by (simp add: lstrip_def)

lemma rstrip_space_prefix:
  assumes "\<not> (\<forall>c \<in> set s. is_space c)"
  shows "rstrip s = takeWhile is_space s @ rstrip (lstrip s)"
proof -
  have "rstrip (lstrip s) \<noteq> []"
    using assms takeWhile_dropWhile_space [of s] rstrip_Nil_iff [of "lstrip s"]
    by (metis Un_iff set_append set_takeWhileD)
  then show ?thesis using rstrip_keep_right [of "lstrip s" "takeWhile is_space s"] takeWhile_dropWhile_space [of s] by simp
qed

lemma lstrip_rstrip: "lstrip (rstrip s) = rstrip (lstrip s)"
proof (cases "\<forall>c \<in> set s. is_space c")
  case True
  then have "rstrip s = []" "lstrip s = []" by (simp_all add: rstrip_Nil_iff lstrip_def)
  then show ?thesis by simp
next
  case False
  then have "lstrip s \<noteq> []" by (auto simp: lstrip_def)
  then have "\<not> is_space (hd (lstrip s))" by (rule hd_lstrip)
  then have "lstrip (rstrip (lstrip s)) = rstrip (lstrip s)"
    by (metis lstrip_id hd_rstrip)
  moreover have "\<forall>c \<in> set (takeWhile is_space s). is_space c" by (metis set_takeWhileD)
  ultimately show ?thesis
    unfolding rstrip_space_prefix [OF False] by (simp add: lstrip_def dropWhile_append1 dropWhile_append2)
qed

lemma prefix_rstrip:
  assumes "m \<noteq> []" and "\<not> is_space (last m)"
  shows "prefix m (rstrip s) \<longleftrightarrow> prefix m s"
proof
  assume "prefix m s"
  then obtain r where "s = m @ r" by (auto simp: prefix_def)
  then show "prefix m (rstrip s)" using rstrip_keep [OF assms] by simp
qed (use rstrip_prefix prefix_order.trans in blast)

lemma is_fence_rstrip: "is_fence (rstrip l) = is_fence l"
  by (simp add: is_fence_def lstrip_rstrip prefix_rstrip is_space_def space_chars_def)

lemma req_heading_rstrip: "req_heading (rstrip l) = (if req_heading l = Some [] then None else req_heading l)"
proof (cases "prefix ''###'' l")
  case False
  then have "\<not> prefix ''###'' (rstrip l)" using rstrip_prefix prefix_order.trans by blast
  then show ?thesis using False by (simp add: req_heading_def req_group_def)
next
  case True
  then obtain r where l: "l = ''###'' @ r" by (auto simp: prefix_def)
  have rl: "rstrip l = ''###'' @ rstrip r"
    unfolding l by (rule rstrip_keep) (simp_all add: is_space_def space_chars_def)
  show ?thesis
  proof (cases "\<forall>c \<in> set r. is_space c")
    case True
    then have "rstrip r = []" and tw: "takeWhile is_space r = r"
      by (simp_all add: rstrip_Nil_iff takeWhile_eq_all_conv)
    then have b: "req_group (rstrip l) = None" unfolding rl by (simp add: req_group_def)
    have "strip [last r] = []" if "r \<noteq> []" using True that by (simp add: strip_def lstrip_def)
    moreover have "req_group l = (if 2 \<le> length r then Some [last r] else None)"
      by (auto simp: req_group_def l tw)
    ultimately show ?thesis unfolding req_heading_def b by (cases r) auto
  next
    case False
    let ?w = "takeWhile is_space r" and ?t = "lstrip r"
    have t: "?t \<noteq> []" using False by (auto simp: lstrip_def)
    have rr: "rstrip r = ?w @ rstrip ?t" by (rule rstrip_space_prefix [OF False])
    have t': "rstrip ?t \<noteq> []" using hd_lstrip [OF t] t rstrip_Nil_iff by (metis hd_in_set)
    have ht: "\<not> is_space (hd (rstrip ?t))" using hd_lstrip [OF t] hd_rstrip [OF t'] by simp
    have w: "takeWhile is_space (rstrip r) = ?w"
    proof -
      have "\<forall>c \<in> set ?w. is_space c" by (metis set_takeWhileD)
      then have "takeWhile is_space (?w @ rstrip ?t) = ?w @ takeWhile is_space (rstrip ?t)"
        by (rule takeWhile_append2 [OF bspec])
      then show ?thesis unfolding rr using ht t' by (cases "rstrip ?t") auto
    qed
    have d: "drop (length ?w) r = ?t" by (metis takeWhile_dropWhile_space append_eq_conv_conj)
    have d': "drop (length ?w) (rstrip r) = rstrip ?t" unfolding rr by simp
    have n: "strip (rstrip ?t) \<noteq> []"
      using t' ht by (simp add: strip_def lstrip_id)
    have a: "req_group l = (if ?w = [] then None else Some (rstrip ?t))"
      unfolding l using t by (simp add: req_group_def d)
    have b: "req_group (rstrip l) = (if ?w = [] then None else Some (rstrip ?t))"
      unfolding rl using t' by (simp add: req_group_def w d')
    show ?thesis unfolding req_heading_def a b using n by simp
  qed
qed

lemma req_heading_space: "\<forall>c \<in> set l. is_space c \<Longrightarrow> req_heading l = None"
  by (cases l) (auto simp: req_heading_def req_group_def is_space_def space_chars_def)

lemma space_not_fence: "\<forall>c \<in> set l. is_space c \<Longrightarrow> \<not> is_fence l"
  by (metis is_fence_rstrip rstrip_Nil_iff named_heads_blank(2) balanced_def is_fence_def strip_Nil(2) prefix_Nil list.distinct(1))


subsection \<open>Normal texts\<close>

text \<open>
  A text the fold has written: clean lines, the last one ending in a character that is not
  whitespace, each closed by a newline.
\<close>

definition normal_lines :: "string list \<Rightarrow> bool" where
  "normal_lines ls \<longleftrightarrow> (\<forall>l \<in> set ls. clean_line l) \<and> (ls \<noteq> [] \<longrightarrow> last ls \<noteq> [] \<and> \<not> is_space (last (last ls)))"

definition text_of :: "string list \<Rightarrow> string" where
  "text_of ls = join nl ls @ nl"

lemma newline_space: "is_space (CHR 0x0A)"
  by (simp add: is_space_def space_chars_def)

lemma last_join: "ls \<noteq> [] \<Longrightarrow> last ls \<noteq> [] \<Longrightarrow> join nl ls \<noteq> [] \<and> last (join nl ls) = last (last ls)"
  by (induction nl ls rule: join.induct) (auto split: if_splits)

lemma rstrip_join_normal: "normal_lines ls \<Longrightarrow> rstrip (join nl ls) = join nl ls"
  by (cases "ls = []") (auto simp: normal_lines_def last_join intro!: rstrip_id)

lemma rstrip_text_of: "normal_lines ls \<Longrightarrow> rstrip (text_of ls) = join nl ls"
  using rstrip_append_space [of nl "join nl ls"] by (simp add: text_of_def newline_space rstrip_join_normal)

lemma splitlines_normal: "normal_lines ls \<Longrightarrow> splitlines (join nl ls) = ls"
  using splitlines_join [of ls] by (auto simp: normal_lines_def)

lemma splitlines_text_of: "normal_lines ls \<Longrightarrow> splitlines (text_of ls) = (if ls = [] then [[]] else ls)"
  using splitlines_join_nl [of ls] by (auto simp: text_of_def normal_lines_def splitlines_def split_lines_ends_def split_lines_newline)

text \<open>Dropping the trailing whitespace of a text drops blank lines and strips the last one.\<close>

fun trim_rev :: "string list \<Rightarrow> string list" where
  "trim_rev [] = []"
| "trim_rev (l # ls) = (if rstrip l = [] then trim_rev ls else rstrip l # ls)"

definition trimmed :: "string list \<Rightarrow> string list" where
  "trimmed ls = rev (trim_rev (rev ls))"

lemma trimmed_snoc: "trimmed (ls @ [l]) = (if rstrip l = [] then trimmed ls else ls @ [rstrip l])"
  by (simp add: trimmed_def)

lemma rstrip_join: "rstrip (join nl ls) = join nl (trimmed ls)"
proof (induction ls rule: rev_induct)
  case (snoc l ls)
  have j: "join nl (ls @ [l]) = (if ls = [] then l else join nl ls @ nl @ l)" for l
    by (simp add: join_snoc)
  show ?case
  proof (cases "rstrip l = []")
    case True
    then have "\<forall>c \<in> set (nl @ l). is_space c" by (simp add: rstrip_Nil_iff newline_space)
    then have "rstrip (join nl ls @ nl @ l) = rstrip (join nl ls)" by (rule rstrip_append_space)
    then show ?thesis using snoc True by (cases "ls = []") (simp_all add: j trimmed_snoc, simp add: trimmed_def)
  next
    case False
    then show ?thesis using rstrip_keep_right [of l "join nl ls @ nl"] by (simp add: j trimmed_snoc)
  qed
qed (simp add: trimmed_def)

lemma clean_rstrip: "clean_line l \<Longrightarrow> clean_line (rstrip l)"
  using set_mono_prefix [OF rstrip_prefix [of l]] by (auto simp: clean_line_def)

lemma normal_trimmed: "\<forall>l \<in> set ls. clean_line l \<Longrightarrow> normal_lines (trimmed ls)"
proof (induction ls rule: rev_induct)
  case (snoc l ls)
  then show ?case using last_rstrip [of l] by (auto simp: trimmed_snoc normal_lines_def clean_rstrip)
qed (simp add: trimmed_def normal_lines_def)

lemma fence_after_snoc: "fence_after b (ls @ [l]) = (fence_after b ls \<noteq> is_fence l)"
  by (auto simp: fence_after_def)

lemma fence_after_trimmed: "fence_after b (trimmed ls) = fence_after b ls"
proof (induction ls rule: rev_induct)
  case (snoc l ls)
  show ?case
  proof (cases "rstrip l = []")
    case True
    then have "\<not> is_fence l" by (simp add: rstrip_Nil_iff space_not_fence)
    then show ?thesis using True snoc by (simp add: trimmed_snoc fence_after_snoc)
  qed (simp add: trimmed_snoc fence_after_snoc is_fence_rstrip)
qed (simp add: trimmed_def)

lemma balanced_trimmed: "balanced (trimmed ls) = balanced ls"
  using fence_after_trimmed [of True ls] by (simp add: fence_after_def balanced_def)

lemma heads_snoc:
  "heads (ls @ [l]) = heads ls @ (if fence_after False ls \<or> is_fence l then []
     else case req_heading l of None \<Rightarrow> [] | Some h \<Rightarrow> [h])"
  by (simp add: heads_def flagged_def fence_flags_def fence_flags_from_append List.map_filter_def split: option.split)

lemma named_heads_trimmed: "named_heads (trimmed ls) = named_heads ls"
proof (induction ls rule: rev_induct)
  case (snoc l ls)
  show ?case
  proof (cases "rstrip l = []")
    case True
    then have "req_heading l = None" by (simp add: rstrip_Nil_iff req_heading_space)
    then show ?thesis using True snoc by (simp add: trimmed_snoc named_heads_def heads_snoc)
  next
    case False
    then show ?thesis
      by (auto simp: trimmed_snoc named_heads_def heads_snoc is_fence_rstrip req_heading_rstrip split: option.split)
  qed
qed (simp add: trimmed_def)

section \<open>Adding a requirement\<close>

lemma retitle_line_heading:
  assumes "req_heading l \<noteq> None" and "strip h \<noteq> []"
  shows "req_heading (retitle_line (strip h) l) = Some (strip h)" and "\<not> is_fence (retitle_line (strip h) l)"
proof -
  let ?r = "drop 3 l" and ?h = "strip h"
  let ?w = "takeWhile is_space ?r"
  let ?w' = "if length ?w = length ?r then butlast ?w else ?w"
  have g: "prefix ''###'' l" "?w \<noteq> []" "drop (length ?w) ?r \<noteq> [] \<or> 2 \<le> length ?w"
    using assms(1) by (auto simp: req_heading_def req_group_def Let_def split: if_splits)
  then have w': "?w' \<noteq> []" by (cases ?w rule: rev_cases) (auto split: if_splits)
  have sp: "\<forall>c \<in> set ?w'. is_space c" by (auto dest: set_takeWhileD in_set_butlastD)
  have h: "lstrip ?h = ?h" "rstrip ?h = ?h" using strip_fixed [of "strip h"] by simp_all
  then have hd: "\<not> is_space (hd ?h)" using assms(2) hd_not_space by blast
  have tw: "takeWhile is_space (?w' @ ?h) = ?w'"
    using sp hd assms(2) by (cases ?h) (auto simp: takeWhile_append2)
  have "retitle_line ?h l = ''###'' @ ?w' @ ?h" by (simp add: retitle_line_def Let_def)
  then show "req_heading (retitle_line ?h l) = Some ?h" "\<not> is_fence (retitle_line ?h l)"
    using w' tw assms(2) h
    by (auto simp: req_heading_def req_group_def Let_def is_fence_def lstrip_def is_space_def space_chars_def)
qed

text \<open>A unit as the parser of deltas makes it: a heading line first, and fences that close.\<close>

definition good_unit :: "string \<times> string \<Rightarrow> bool" where
  "good_unit u \<longleftrightarrow> strip (fst u) \<noteq> [] \<and> balanced (splitlines (snd u)) \<and>
     (case splitlines (snd u) of [] \<Rightarrow> False
      | l # ls \<Rightarrow> req_heading l \<noteq> None \<and> (\<forall>x \<in> set ls. req_heading x = None))"


lemma named_heads_none: "\<forall>l \<in> set ls. req_heading l = None \<Longrightarrow> named_heads ls = []"
  by (induction ls rule: rev_induct) (simp_all add: named_heads_def heads_snoc, simp add: heads_def flagged_def List.map_filter_def)

lemma named_heads_single:
  "\<not> is_fence l \<Longrightarrow> req_heading l = Some h \<Longrightarrow> h \<noteq> [] \<Longrightarrow> named_heads [l] = [h]"
  by (simp add: named_heads_def heads_def flagged_def fence_flags_def List.map_filter_def)

lemma balanced_Cons: "\<not> is_fence l \<Longrightarrow> balanced (l # ls) = balanced ls"
  by (simp add: balanced_def)

lemma heading_not_fence: "req_heading l \<noteq> None \<Longrightarrow> \<not> is_fence l"
  by (auto simp: req_heading_def req_group_def is_fence_def prefix_def lstrip_def is_space_def space_chars_def split: if_splits)

lemma clean_retitle_line: "clean_line l \<Longrightarrow> clean_line h \<Longrightarrow> clean_line (retitle_line h l)"
  by (auto simp: clean_line_def retitle_line_def Let_def is_line_break_def dest!: in_set_butlastD set_takeWhileD in_set_dropD split: if_splits)

lemma good_unit_block:
  assumes "good_unit u" and "clean_line (fst u)"
  obtains B where "rstrip (retitle (snd u) (fst u)) = join nl B" "normal_lines B" "B \<noteq> []" "balanced B"
    "named_heads B = [strip (fst u)]"
proof -
  let ?h = "strip (fst u)"
  obtain l ls where sect: "splitlines (snd u) = l # ls" and l: "req_heading l \<noteq> None"
    and ls: "\<forall>x \<in> set ls. req_heading x = None" and h: "?h \<noteq> []" and bal: "balanced (l # ls)"
    using assms(1) by (auto simp: good_unit_def split: list.splits)
  let ?B0 = "retitle_line ?h l # ls"
  note head = retitle_line_heading [OF l h]
  have "set ?h \<subseteq> set (fst u)"
    by (metis strip_def lstrip_def set_dropWhileD set_mono_prefix rstrip_prefix subset_code(1))
  then have "clean_line ?h" using assms(2) by (auto simp: clean_line_def)
  then have clean: "\<forall>x \<in> set ?B0. clean_line x"
    using clean_line_splitlines [of _ "snd u"] by (auto simp: sect intro: clean_retitle_line)
  have "named_heads ([retitle_line ?h l] @ ls) = [?h]"
    using head h ls by (subst named_heads_append) (simp_all add: balanced_def named_heads_single named_heads_none)
  then have names: "named_heads (trimmed ?B0) = [?h]" by (simp add: named_heads_trimmed)
  have "retitle (snd u) (fst u) = join nl ?B0 @ nl" using l by (simp add: retitle_def sect)
  then have "rstrip (retitle (snd u) (fst u)) = join nl (trimmed ?B0)"
    using rstrip_append_space [of nl "join nl ?B0"] by (simp add: newline_space rstrip_join)
  moreover have "balanced (trimmed ?B0)"
    using bal heading_not_fence [OF l] head(2) by (simp add: balanced_trimmed balanced_Cons)
  moreover have "trimmed ?B0 \<noteq> []" using names by (auto simp: named_heads_def heads_def flagged_def List.map_filter_def)
  ultimately show thesis using that normal_trimmed [OF clean] names by blast
qed

lemma join_append: "xs \<noteq> [] \<Longrightarrow> ys \<noteq> [] \<Longrightarrow> join sep (xs @ ys) = join sep xs @ sep @ join sep ys"
  by (induction sep xs rule: join.induct) (auto simp: join_Cons)

lemma flagged_nth:
  assumes "i < length ls"
  shows "flagged ls ! i = (fence_after False (take i ls) \<or> is_fence (ls ! i), ls ! i)"
proof -
  have "fence_flags ls = fence_flags (take i ls) @ fence_flags_from (fence_after False (take i ls)) (ls ! i # drop (Suc i) ls)"
    using fence_flags_from_append [of False "take i ls" "ls ! i # drop (Suc i) ls"] assms
    by (simp add: fence_flags_def id_take_nth_drop [symmetric])
  moreover have "length (fence_flags (take i ls)) = i" using assms by simp
  ultimately have "fence_flags ls ! i = (fence_after False (take i ls) \<or> is_fence (ls ! i))"
    by (simp add: nth_append)
  then show ?thesis using assms by (simp add: flagged_def)
qed

lemma normal_lines_append:
  "ys \<noteq> [] \<Longrightarrow> normal_lines ys \<Longrightarrow> \<forall>l \<in> set xs. clean_line l \<Longrightarrow> normal_lines (xs @ ys)"
  by (auto simp: normal_lines_def)

lemma blank_balanced: "balanced ([] # ls) = balanced ls"
  by (rule balanced_Cons) (simp add: is_fence_def)

lemma blank_heads: "named_heads ([] # ls) = named_heads ls"
  using named_heads_append [of "[[]]" ls] by simp

lemma nonempty_lines: "join nl (if xs = [] then [[]] else xs) = join nl xs"
  by simp

lemma add_requirement_lines:
  assumes ls: "normal_lines ls" "balanced ls" and B: "normal_lines B" "B \<noteq> []" "balanced B"
    and block: "rstrip block = join nl B"
  obtains ls' where "add_requirement (text_of ls) block = text_of ls'" "normal_lines ls'" "balanced ls'"
    "set (named_heads ls') = set (named_heads ls) \<union> set (named_heads B)"
proof -
  let ?some = "\<lambda>xs. if xs = [] then [[]] else xs"
  have lines: "splitlines (rstrip (text_of ls)) = ls" by (simp add: rstrip_text_of ls(1) splitlines_normal)
  have some: "balanced (?some xs) = balanced xs" "named_heads (?some xs) = named_heads xs"
    "(\<forall>l \<in> set (?some xs). clean_line l) = (\<forall>l \<in> set xs. clean_line l)" for xs
    by (auto simp: balanced_def named_heads_def heads_def flagged_def clean_line_def is_fence_def List.map_filter_def
        fence_flags_def req_heading_def req_group_def)
  let ?stop = "case first_index (\<lambda>p. \<not> fst p \<and> is_section_named ''Requirements'' (snd p)) (flagged ls) of
      None \<Rightarrow> None
    | Some start \<Rightarrow> map_option ((+) (Suc start))
        (first_index (\<lambda>p. \<not> fst p \<and> is_section_line (snd p)) (drop (Suc start) (flagged ls)))"
  show thesis
  proof (cases ?stop)
    case None
    let ?r = "?some ls @ [[]] @ B"
    have "add_requirement (text_of ls) block = join nl ls @ nl @ nl @ join nl B @ nl"
      unfolding add_requirement_def lines Let_def None block by simp
    also have "\<dots> = text_of ?r"
      using B(2) join_append [of "?some ls" "[[]] @ B" nl] join_append [of "[[]]" B nl]
      by (simp add: text_of_def nonempty_lines)
    finally have "add_requirement (text_of ls) block = text_of ?r" .
    moreover have "normal_lines ?r"
      using B(1,2) ls(1) some(3) [of ls] normal_lines_append [of B "?some ls @ [[]]"]
      by (auto simp: normal_lines_def clean_line_def)
    moreover have "balanced ?r" using ls(2) B(3) by (simp add: balanced_append some blank_balanced)
    moreover have "named_heads ?r = named_heads ls @ named_heads B"
      using ls(2) by (simp add: named_heads_append some del: append.simps)
    ultimately show thesis using that [of ?r] by simp
  next
    case (Some e)
    obtain start k where k: "first_index (\<lambda>p. \<not> fst p \<and> is_section_line (snd p)) (drop (Suc start) (flagged ls)) = Some k"
      and e: "e = Suc start + k"
      using Some by (auto split: option.splits)
    have len: "e < length ls" and p: "\<not> fst (flagged ls ! e)"
      using first_index_Some [OF k] by (auto simp: e flagged_def)
    have bal: "balanced (take e ls)"
      using p flagged_nth [OF len] by (auto simp: fence_after_def balanced_def)
    then have bal': "balanced (drop e ls)" using ls(2) balanced_append [OF bal, of "drop e ls"] by simp
    have clean: "\<forall>l \<in> set (take e ls). clean_line l" "\<forall>l \<in> set (drop e ls). clean_line l"
      using ls(1) by (auto simp: normal_lines_def dest: in_set_takeD in_set_dropD)
    let ?H = "trimmed (take e ls)"
    let ?r = "?some ?H @ [[]] @ B @ [[]] @ drop e ls"
    have "add_requirement (text_of ls) block =
        rstrip (join nl (take e ls)) @ nl @ nl @ join nl B @ nl @ nl @ join nl (drop e ls) @ nl"
      unfolding add_requirement_def lines Let_def Some block by simp
    also have "\<dots> = text_of ?r"
      using B(2) len join_append [of "?some ?H" "[[]] @ B @ [[]] @ drop e ls" nl]
        join_append [of "[[]]" "B @ [[]] @ drop e ls" nl] join_append [of B "[[]] @ drop e ls" nl]
        join_append [of "[[]]" "drop e ls" nl]
      by (simp add: text_of_def nonempty_lines rstrip_join)
    finally have "add_requirement (text_of ls) block = text_of ?r" .
    moreover have "normal_lines ?r"
    proof -
      have "normal_lines (drop e ls)" using ls(1) clean(2) len by (auto simp: normal_lines_def last_drop)
      moreover have "\<forall>l \<in> set (?some ?H @ [[]] @ B @ [[]]). clean_line l"
        using some(3) [of ?H] normal_trimmed [OF clean(1)] B(1) by (auto simp: normal_lines_def clean_line_def)
      ultimately show ?thesis using len normal_lines_append [of "drop e ls" "?some ?H @ [[]] @ B @ [[]]"] by simp
    qed
    moreover have "balanced ?r"
      using bal bal' B(3) by (simp add: balanced_append some blank_balanced balanced_trimmed)
    moreover have "named_heads ?r = named_heads (take e ls) @ named_heads B @ named_heads (drop e ls)"
      using bal bal' B(3) by (simp add: named_heads_append some blank_heads balanced_trimmed named_heads_trimmed)
    moreover have "named_heads ls = named_heads (take e ls) @ named_heads (drop e ls)"
      using named_heads_append [OF bal, of "drop e ls"] by simp
    ultimately show thesis using that [of ?r] by auto
  qed
qed


section \<open>Additive folds\<close>

definition additive :: "deltas \<Rightarrow> bool" where
  "additive d \<longleftrightarrow> units d Modified = [] \<and> units d Removed = [] \<and> units d Renamed = [] \<and>
     (\<forall>u \<in> set (units d Added). good_unit u \<and> clean_line (fst u))"

lemma rename_none [simp]: "rename_map [] = []" "resolve_rename h [] = h"
  by (simp_all add: rename_map_def resolve_rename_def)

lemma additive_apply:
  "additive d \<Longrightarrow> apply_deltas t d =
     fold (apply_addition [] []) (units d Added) (text_of (trimmed (splitlines t)), no_counts)"
  by (simp add: additive_def apply_deltas_def rstrip_join text_of_def)

lemma has_requirement_normal:
  assumes "normal_lines ls" and "strip h \<noteq> []"
  shows "has_requirement (splitlines (text_of ls)) h \<longleftrightarrow> strip h \<in> set (named_heads ls)"
  using assms by (auto simp: has_requirement_heads splitlines_text_of named_heads_def heads_def flagged_def List.map_filter_def
      fence_flags_def req_heading_def req_group_def)

lemma apply_addition_effect:
  assumes "normal_lines ls" "balanced ls" and u: "good_unit u" "clean_line (fst u)"
  obtains ls' n' where "apply_addition [] [] u (text_of ls, n) = (text_of ls', n')" "normal_lines ls'" "balanced ls'"
    "set (named_heads ls') = insert (strip (fst u)) (set (named_heads ls))"
proof (cases "strip (fst u) \<in> set (named_heads ls)")
  case True
  have "strip (fst u) \<noteq> []" using u(1) by (simp add: good_unit_def)
  then show thesis using True assms(1,2) that [of ls n] has_requirement_normal [OF assms(1)]
    by (auto simp: apply_addition_def)
next
  case False
  have h: "strip (fst u) \<noteq> []" using u(1) by (simp add: good_unit_def)
  obtain B where B: "rstrip (retitle (snd u) (fst u)) = join nl B" "normal_lines B" "B \<noteq> []" "balanced B"
    "named_heads B = [strip (fst u)]"
    using good_unit_block [OF u] by blast
  obtain ls' where "add_requirement (text_of ls) (retitle (snd u) (fst u)) = text_of ls'" "normal_lines ls'" "balanced ls'"
    "set (named_heads ls') = set (named_heads ls) \<union> set (named_heads B)"
    using add_requirement_lines [OF assms(1,2) B(2,3,4,1)] by blast
  then show thesis using that [of ls' "n\<lparr>n_added := Suc (n_added n)\<rparr>"] False B(5) has_requirement_normal [OF assms(1) h]
    by (simp add: apply_addition_def added_body_def)
qed

lemma additive_fold_effect:
  assumes "normal_lines ls" "balanced ls" "\<forall>u \<in> set us. good_unit u \<and> clean_line (fst u)"
  obtains ls' n' where "fold (apply_addition [] []) us (text_of ls, n) = (text_of ls', n')" "normal_lines ls'" "balanced ls'"
    "set (named_heads ls') = set (named_heads ls) \<union> (strip \<circ> fst) ` set us"
  using assms
proof (induction us arbitrary: ls n thesis)
  case (Cons u us)
  obtain ls1 n1 where 1: "apply_addition [] [] u (text_of ls, n) = (text_of ls1, n1)" "normal_lines ls1" "balanced ls1"
    "set (named_heads ls1) = insert (strip (fst u)) (set (named_heads ls))"
    using apply_addition_effect [of ls u n] Cons(3-5) by auto
  obtain ls2 n2 where "fold (apply_addition [] []) us (text_of ls1, n1) = (text_of ls2, n2)" "normal_lines ls2" "balanced ls2"
    "set (named_heads ls2) = set (named_heads ls1) \<union> (strip \<circ> fst) ` set us"
    using Cons(1) [of ls1 n1] 1(2,3) Cons(5) by auto
  then show ?case using Cons(2) [of ls2 n2] 1(1,4) by auto
qed auto

lemma additive_fold_absorbed:
  assumes "normal_lines ls" "\<forall>u \<in> set us. strip (fst u) \<noteq> [] \<and> strip (fst u) \<in> set (named_heads ls)"
  shows "fold (apply_addition [] []) us (text_of ls, n) = (text_of ls, n)"
  using assms(2)
proof (induction us)
  case (Cons u us)
  then show ?case using has_requirement_normal [OF assms(1), of "fst u"] by (simp add: apply_addition_def)
qed simp

lemma trimmed_normal: "normal_lines ls \<Longrightarrow> trimmed ls = ls"
  by (cases ls rule: rev_cases) (auto simp: normal_lines_def trimmed_snoc rstrip_id, simp add: trimmed_def)

lemma trimmed_text_of: "normal_lines ls \<Longrightarrow> trimmed (splitlines (text_of ls)) = ls"
  using trimmed_normal [of ls] by (auto simp: splitlines_text_of) (simp add: trimmed_def)

definition spec_headings :: "string \<Rightarrow> string set" where
  "spec_headings text = set (named_heads (splitlines text))"

lemma spec_headings_normal: "normal_lines ls \<Longrightarrow> spec_headings (text_of ls) = set (named_heads ls)"
  by (simp add: spec_headings_def splitlines_text_of) (simp add: named_heads_def heads_def flagged_def List.map_filter_def)

lemma additive_result:
  assumes "additive d" and "fences_are_balanced t"
  obtains ls' n' where "apply_deltas t d = (text_of ls', n')" "normal_lines ls'" "balanced ls'"
    "set (named_heads ls') = spec_headings t \<union> (strip \<circ> fst) ` set (units d Added)"
proof -
  let ?ls = "trimmed (splitlines t)"
  have n: "normal_lines ?ls" using clean_line_splitlines by (intro normal_trimmed) blast
  have b: "balanced ?ls" unfolding balanced_trimmed using assms(2) by (simp add: fences_are_balanced_def balanced_def)
  show thesis
    by (rule additive_fold_effect [OF n b, of "units d Added" no_counts])
      (use assms(1) that additive_apply [OF assms(1), of t] in
        \<open>auto simp: additive_def spec_headings_def named_heads_trimmed\<close>)
qed

section \<open>Markers\<close>

definition glob_text :: "string \<Rightarrow> bool" where
  "glob_text g \<longleftrightarrow> strip g = g \<and> g \<noteq> [] \<and> CHR '','' \<notin> set g"

lemma split_on_no_sep: "x \<in> set (split_on c s) \<Longrightarrow> c \<notin> set x"
proof (induction s arbitrary: x)
  case (Cons y ys)
  obtain w ws where w: "split_on c ys = w # ws" by (cases "split_on c ys") auto
  then show ?case using Cons by (auto split: if_splits)
qed simp

lemma set_strip: "set (strip s) \<subseteq> set s"
  by (metis strip_def lstrip_def set_dropWhileD set_mono_prefix rstrip_prefix subset_code(1))

lemma split_globs_text: "g \<in> set (split_globs v) \<Longrightarrow> glob_text g"
  using split_on_no_sep set_strip by (fastforce simp: split_globs_def glob_text_def)

lemma split_on_absent: "c \<notin> set x \<Longrightarrow> split_on c x = [x]"
  by (induction x) auto

lemma split_on_part: "c \<notin> set x \<Longrightarrow> split_on c (x @ c # r) = x # split_on c r"
  by (induction x) auto

lemma split_on_join_char: "xs \<noteq> [] \<Longrightarrow> \<forall>x \<in> set xs. c \<notin> set x \<Longrightarrow> split_on c (join [c] xs) = xs"
  by (induction "[c]" xs rule: join.induct) (simp_all add: split_on_absent split_on_part)

lemma join_head: "join s ((a @ x) # xs) = a @ join s (x # xs)"
  by (cases xs) simp_all

lemma join_sep_char: "join (c # sep) (g # gs) = join [c] (g # map ((@) sep) gs)"
  by (induction gs arbitrary: g) (simp_all add: join_head)

lemma strip_pad: "glob_text g \<Longrightarrow> strip ('' '' @ g) = g"
  by (simp add: glob_text_def strip_def lstrip_def)

lemma split_globs_join:
  assumes "\<forall>g \<in> set gs. glob_text g" and "gs \<noteq> []"
  shows "split_globs (join '', '' gs) = gs"
proof -
  obtain g rest where gs: "gs = g # rest" using assms(2) by (cases gs) auto
  have "split_on CHR '','' (join [CHR '','', CHR '' ''] gs) = g # map ((@) '' '') rest"
    unfolding gs by (subst join_sep_char, rule split_on_join_char) (use assms(1) gs in \<open>auto simp: glob_text_def\<close>)
  moreover have "strip g = g" "g \<noteq> []" "\<forall>x \<in> set rest. strip ('' '' @ x) = x \<and> x \<noteq> []"
    using assms(1) gs strip_pad by (auto simp: glob_text_def)
  ultimately show ?thesis unfolding split_globs_def gs by (simp add: map_idI)
qed

lemma strip_solid: "s = [] \<or> \<not> is_space (hd s) \<and> \<not> is_space (last s) \<Longrightarrow> strip s = s"
  by (auto simp: strip_def lstrip_id rstrip_id)

lemma glob_text_ends:
  assumes "glob_text g"
  shows "g \<noteq> []" "\<not> is_space (hd g)" "\<not> is_space (last g)"
proof -
  show g: "g \<noteq> []" using assms by (simp add: glob_text_def)
  have "lstrip g = g" "rstrip g = g" using assms strip_fixed by (simp_all add: glob_text_def)
  then show "\<not> is_space (hd g)" "\<not> is_space (last g)" using g hd_not_space last_rstrip [of g] by auto
qed

lemma join_ends:
  assumes "\<forall>g \<in> set gs. glob_text g" and "gs \<noteq> []"
  shows "join sep gs \<noteq> [] \<and> \<not> is_space (hd (join sep gs)) \<and> \<not> is_space (last (join sep gs))"
  using assms
proof (induction sep gs rule: join.induct)
  case (3 sep x y ys)
  then show ?case using glob_text_ends [of x] by auto
qed (auto simp: glob_text_ends)

lemma marker_value_touches_line:
  assumes "\<forall>g \<in> set gs. glob_text g" and "gs \<noteq> []"
  shows "marker_value ''touches'' (touches_line gs) = Some (join '', '' gs)"
proof -
  let ?j = "join '', '' gs"
  have j: "?j \<noteq> []" "\<not> is_space (hd ?j)" "\<not> is_space (last ?j)" using join_ends [OF assms] by auto
  have "rstrip ('' '' @ ?j @ '' -->'') = '' '' @ ?j @ '' -->''"
    by (rule rstrip_id) (simp add: is_space_def space_chars_def)
  moreover have "take (length ('' '' @ ?j @ '' -->'') - 3) ('' '' @ ?j @ '' -->'') = '' '' @ ?j @ '' ''"
    by simp
  moreover have "strip ('' '' @ ?j @ '' '') = ?j"
    using j rstrip_append_space [of "'' ''" ?j] by (cases ?j) (simp_all add: strip_def lstrip_def rstrip_id)
  ultimately show ?thesis
    by (simp add: marker_value_def touches_line_def lstrip_def is_space_def space_chars_def suffix_def)
qed

lemma touches_line_other:
  "marker_value ''aligns'' (touches_line gs) = None" "marker_value ''adopted'' (touches_line gs) = None"
  by (simp_all add: marker_value_def touches_line_def lstrip_def is_space_def space_chars_def)

lemma touches_globs_text: "g \<in> set (touches_globs ls) \<Longrightarrow> glob_text g"
  by (auto simp: touches_globs_def split_globs_text split: if_splits option.splits)

lemma keep_marker_globs:
  assumes "new \<noteq> []"
  shows "set (touches_globs old) \<union> set (touches_globs new) \<subseteq> set (touches_globs (keep_marker old new))"
proof -
  let ?g = "touches_globs old @ filter (\<lambda>g. g \<notin> set (touches_globs old)) (touches_globs new)"
  have all: "set (touches_globs old) \<union> set (touches_globs new) = set ?g" by auto
  show ?thesis
  proof (cases "?g = []")
    case False
    obtain h tail where new: "new = h # tail" using assms by (cases new) auto
    obtain rest where keep: "keep_marker old new = h # touches_line ?g # rest"
      unfolding keep_marker_def new list.case Let_def if_not_P [OF False [unfolded new]] by blast
    have "\<forall>g \<in> set ?g. glob_text g" using touches_globs_text by auto
    then have "touches_globs (keep_marker old new) = ?g"
      using False unfolding keep by (simp add: touches_globs_def marker_value_touches_line split_globs_join)
    then show ?thesis unfolding all by simp
  qed (simp only: all list.set empty_subsetI)
qed

lemma aligns_not_adopted: "marker_value ''aligns'' ln \<noteq> None \<Longrightarrow> marker_value ''adopted'' ln = None"
  by (auto simp: marker_value_def Let_def prefix_def split: if_splits)

text \<open>The spec and the deltas the witnesses run on.\<close>

definition example_spec :: string where
  "example_spec = join nl [''# T'', [], ''## Requirements'', [], ''### A'', [], ''## Notes''] @ nl"

definition example_deltas :: deltas where
  "example_deltas = \<lparr>units = (\<lambda>v. if v = Added then [(''B'', join nl [''### B'', ''rule''] @ nl)] else []),
     unit_caps = (\<lambda>v. if v = Added then [None] else []), markers = []\<rparr>"

lemma example_additive: "additive example_deltas"
  unfolding additive_def good_unit_def balanced_def by code_simp

lemma example_balanced: "fences_are_balanced example_spec"
  by code_simp

definition unclosed_deltas :: deltas where
  "unclosed_deltas = \<lparr>units = (\<lambda>v. if v = Added
       then [(''B'', join nl [''### B'', [CHR 0x60, CHR 0x60, CHR 0x60], ''code''] @ nl), (''C'', join nl [''### C'', ''rule''] @ nl)]
       else []),
     unit_caps = (\<lambda>v. if v = Added then [None, None] else []), markers = []\<rparr>"

section \<open>Properties\<close>

text \<open>An additive fold means what it says: with closed fences in the spec and in the delta, the headings
  of the living spec afterwards are those it had and those that were added, no more and no fewer, and
  the fences of the result are closed again.\<close>

theorem fold_adds_headings:
  assumes "additive d" and "fences_are_balanced t"
  shows "spec_headings (fst (apply_deltas t d)) = spec_headings t \<union> (strip \<circ> fst) ` set (units d Added) \<and>
    fences_are_balanced (fst (apply_deltas t d))"
proof -
  obtain ls' n' where r: "apply_deltas t d = (text_of ls', n')" "normal_lines ls'" "balanced ls'"
    "set (named_heads ls') = spec_headings t \<union> (strip \<circ> fst) ` set (units d Added)"
    using additive_result [OF assms] by blast
  have "fences_are_balanced (text_of ls')"
    using r(2,3) by (simp add: fences_are_balanced_def splitlines_text_of balanced_def is_fence_def)
  then show ?thesis using r by (simp add: spec_headings_normal)
qed

theorem fold_adds_headings_witness:
  "spec_headings (fst (apply_deltas example_spec example_deltas)) = {''A'', ''B''}"
proof -
  have "spec_headings example_spec = {''A''}" "(strip \<circ> fst) ` set (units example_deltas Added) = {''B''}" by code_simp+
  then show ?thesis using fold_adds_headings [OF example_additive example_balanced] by auto
qed

text \<open>C4: Folding an additive delta set again is a no-op: the second fold leaves the text as it is, byte for
  byte, and counts nothing as added.\<close>

theorem refold_is_noop:
  assumes "additive d" and "fences_are_balanced t"
  shows "apply_deltas (fst (apply_deltas t d)) d = (fst (apply_deltas t d), no_counts)"
proof -
  obtain ls' n' where r: "apply_deltas t d = (text_of ls', n')" "normal_lines ls'" and "balanced ls'"
    and heads: "set (named_heads ls') = spec_headings t \<union> (strip \<circ> fst) ` set (units d Added)"
    using additive_result [OF assms] by blast
  have "fold (apply_addition [] []) (units d Added) (text_of ls', no_counts) = (text_of ls', no_counts)"
  proof (rule additive_fold_absorbed [OF r(2)], intro ballI conjI)
    fix u assume u: "u \<in> set (units d Added)"
    then have "good_unit u" using assms(1) by (simp only: additive_def)
    then show "strip (fst u) \<noteq> []" by (simp add: good_unit_def)
    show "strip (fst u) \<in> set (named_heads ls')" unfolding heads using u by simp
  qed
  then have "apply_deltas (text_of ls') d = (text_of ls', no_counts)"
    unfolding additive_apply [OF assms(1)] trimmed_text_of [OF r(2)] .
  then show ?thesis unfolding r(1) fst_conv .
qed

theorem refold_is_noop_witness:
  "apply_deltas (fst (apply_deltas example_spec example_deltas)) example_deltas =
     (fst (apply_deltas example_spec example_deltas), no_counts) \<and>
   n_added (snd (apply_deltas example_spec example_deltas)) = 1"
proof
  show "apply_deltas (fst (apply_deltas example_spec example_deltas)) example_deltas =
     (fst (apply_deltas example_spec example_deltas), no_counts)"
    by (rule refold_is_noop [OF example_additive example_balanced])
  show "n_added (snd (apply_deltas example_spec example_deltas)) = 1" by code_simp
qed

text \<open>Every rename chain has an end: with the looping renames dropped, following a heading through the map
  stops at a heading that is not renamed again, within the links the code allows.\<close>

theorem rename_resolves:
  "map_of (rename_map rs) (resolve_rename h (rename_map rs)) = None"
proof -
  let ?m = "rename_map rs"
  obtain n where n: "settled ?m (follow_rename n ?m h)" "\<forall>k < n. \<not> settled ?m (follow_rename k ?m h)"
    using rename_ends [of rs h] by (meson exists_least_iff)
  then have "n \<le> length ?m + 1" using rename_bound [of n ?m h] by simp
  then have "resolve_rename h ?m = follow_rename (n + (length ?m + 1 - n)) ?m h"
    by (simp add: resolve_rename_def)
  also have "\<dots> = follow_rename n ?m h"
    unfolding follow_rename_add by (rule follow_rename_settled) (rule n(1))
  finally show ?thesis using n(1) by (simp add: settled_def)
qed



text \<open>
  With an unclosed fence in an added body the second fold is not a no-op: the headings added after it
  are invisible, so they are added again.
\<close>

lemma unclosed_fence_is_added_again:
  "n_added (snd (apply_deltas (fst (apply_deltas example_spec unclosed_deltas)) unclosed_deltas)) = 1"
  by code_simp

end
