(* ===== verification/Capture.thy ===== *)
theory Capture
  imports Lifecycle
begin

text \<open>
  The additive capture writers of \<open>capture.py\<close>: free fields, loaded and synced living-spec names,
  decisions, verifications, concerns, expectations, coverage, step summaries, the classification,
  and the batch that applies a whole volley.  Each reads the record, fills its required keys, edits
  a part of it that is not the lifecycle, and publishes.  Running a command and timing it are
  parameters; the entry that is recorded from them is modelled.
\<close>

subsection \<open>One additive write\<close>

text \<open>Read, fill, edit, publish.  The edit returns \<open>None\<close> where the code raises.\<close>

definition additive_write :: "(jdict \<Rightarrow> jdict option) \<Rightarrow> feature \<Rightarrow> outcome \<times> feature" where
  "additive_write edit st =
     (case edit (fill_required st (read_ctx st)) of
        None \<Rightarrow> (Raised, st)
      | Some ctx \<Rightarrow> publish ctx st)"

subsection \<open>Free fields\<close>

text \<open>\<open>-?\d+\.\d+\<close>, matched in full.\<close>

definition is_float_text :: "string \<Rightarrow> bool" where
  "is_float_text s =
     (let t = (if prefix ''-'' s then tl s else s);
          ds = takeWhile is_decimal t;
          r = drop (length ds) t
      in ds \<noteq> [] \<and> prefix ''.'' r \<and> tl r \<noteq> [] \<and> list_all is_decimal (tl r))"

definition coerce_value :: "string \<Rightarrow> json" where
  "coerce_value raw =
     (if lower raw \<in> {''true'', ''false''} then JBool (lower raw = ''true'')
      else if lower raw \<in> {''null'', ''none''} then JNull
      else case py_int raw of
          Some i \<Rightarrow> JInt i
        | None \<Rightarrow> if is_float_text raw then JFloat raw else JStr raw)"

definition PROTECTED_SET_KEYS :: "string list" where
  "PROTECTED_SET_KEYS = [''history'', ''transitions'', ''status'', ''currentStep'']"

definition set_pair :: "string \<Rightarrow> jdict \<Rightarrow> jdict" where
  "set_pair pair ctx =
     (case cut_at ''='' pair of
        None \<Rightarrow> ctx
      | Some (k, raw) \<Rightarrow>
          (let key = strip k in
           if key = [] then ctx
           else if key \<in> set PROTECTED_SET_KEYS then ctx
           else jput key (coerce_value (strip raw)) ctx))"

definition set_fields :: "string list \<Rightarrow> feature \<Rightarrow> outcome \<times> feature" where
  "set_fields pairs st = additive_write (\<lambda>ctx. Some (fold set_pair pairs ctx)) st"

subsection \<open>The living-spec block\<close>

definition living_block :: "jdict \<Rightarrow> jdict" where
  "living_block ctx = dict_or_empty (jget ctx ''livingSpecs'')"

definition put_living :: "string \<Rightarrow> json \<Rightarrow> jdict \<Rightarrow> jdict" where
  "put_living key v ctx = jput ''livingSpecs'' (JDict (jput key v (living_block ctx))) ctx"

definition clean_names :: "string list \<Rightarrow> string list" where
  "clean_names names = filter (\<lambda>n. n \<noteq> []) (map strip names)"

definition merge_names :: "json \<Rightarrow> string list \<Rightarrow> json" where
  "merge_names prior names = JList (merge_new py_eq [] (list_or_empty prior @ map JStr names))"

definition set_living_specs_loaded :: "string list \<Rightarrow> feature \<Rightarrow> outcome \<times> feature" where
  "set_living_specs_loaded names st =
     (if clean_names names = [] then (Declined, st)
      else additive_write (\<lambda>ctx. Some (put_living ''loaded''
             (merge_names (jget (living_block ctx) ''loaded'') (clean_names names)) ctx)) st)"

definition set_living_specs_synced :: "string list \<Rightarrow> feature \<Rightarrow> outcome \<times> feature" where
  "set_living_specs_synced names st =
     (if clean_names names = [] then (Declined, st)
      else additive_write (\<lambda>ctx. Some (put_living ''synced''
             (merge_names (jget (living_block ctx) ''synced'') (clean_names names)) ctx)) st)"

text \<open>
  A capability with no list (\<open>None\<close>) is dropped; an empty list is kept.  Two names that strip to
  the same text keep the place of the first and the value of the last, as a dict display does.
\<close>

definition clean_heads :: "(string \<times> string list option) list \<Rightarrow> (string \<times> string list) list" where
  "clean_heads per_cap =
     foldl (\<lambda>d (cap, heads). case heads of
         None \<Rightarrow> d
       | Some hs \<Rightarrow> if strip cap = [] then d
                    else AList.update (strip cap) (filter (\<lambda>h. strip h \<noteq> []) hs) d) [] per_cap"

definition merge_heads :: "string \<times> string list \<Rightarrow> jdict \<Rightarrow> jdict option" where
  "merge_heads p merged =
     (case p of (cap, heads) \<Rightarrow>
        map_option (\<lambda>old. jput cap (JList (merge_new py_eq [] (old @ map JStr heads))) merged)
          (py_iter_or_empty (jget merged cap)))"

definition set_living_specs_loaded_requirements ::
  "(string \<times> string list option) list \<Rightarrow> feature \<Rightarrow> outcome \<times> feature" where
  "set_living_specs_loaded_requirements per_cap st =
     (if clean_heads per_cap = [] then (Declined, st)
      else additive_write (\<lambda>ctx.
             map_option (\<lambda>merged. put_living ''loadedRequirements'' (JDict merged) ctx)
               (fold_opt merge_heads (clean_heads per_cap)
                  (dict_or_empty (jget (living_block ctx) ''loadedRequirements'')))) st)"

definition clean_rules :: "(string \<times> string list) list \<Rightarrow> (string \<times> string list) list" where
  "clean_rules rules =
     foldl (\<lambda>d (step, rule_lines).
         if strip step \<noteq> [] \<and> rule_lines \<noteq> []
         then AList.update (strip step) (filter (\<lambda>l. strip l \<noteq> []) rule_lines) d else d) [] rules"

definition merge_rules :: "string \<times> string list \<Rightarrow> jdict \<Rightarrow> jdict option" where
  "merge_rules p merged =
     (case p of (step, rule_lines) \<Rightarrow>
        map_option (\<lambda>kept. jput step (JList (map JStr (dedup (map py_str kept @ rule_lines)))) merged)
          (py_iter_or_empty (jget merged step)))"

definition set_living_specs_rules :: "(string \<times> string list) list \<Rightarrow> feature \<Rightarrow> outcome \<times> feature" where
  "set_living_specs_rules rules st =
     (if clean_rules rules = [] then (Declined, st)
      else additive_write (\<lambda>ctx.
             map_option (\<lambda>merged. put_living ''rules'' (JDict merged) ctx)
               (fold_opt merge_rules (clean_rules rules)
                  (dict_or_empty (jget (living_block ctx) ''rules'')))) st)"

text \<open>\<open>str(e.get(k, "")).strip()\<close>.\<close>

definition field_text :: "jdict \<Rightarrow> string \<Rightarrow> string" where
  "field_text e k = strip (case map_of e k of None \<Rightarrow> [] | Some v \<Rightarrow> py_str v)"

definition clean_skips :: "json list \<Rightarrow> (string \<times> string) list" where
  "clean_skips entries =
     List.map_filter (\<lambda>j. case j of
        JDict e \<Rightarrow> (if field_text e ''name'' = [] \<or> field_text e ''reason'' = [] then None
                    else Some (field_text e ''name'', field_text e ''reason''))
      | _ \<Rightarrow> None) entries"

definition skip_entry :: "string \<times> string \<Rightarrow> json" where
  "skip_entry p = JDict [(''name'', JStr (fst p)), (''reason'', JStr (snd p))]"

fun merge_skips :: "string list \<Rightarrow> json list \<Rightarrow> (string \<times> string) list \<Rightarrow> json list" where
  "merge_skips seen merged [] = merged"
| "merge_skips seen merged (e # es) =
     (if fst e \<in> set seen then merge_skips seen merged es
      else merge_skips (fst e # seen) (merged @ [skip_entry e]) es)"

definition skipped_names :: "json list \<Rightarrow> string list" where
  "skipped_names merged =
     List.map_filter (\<lambda>j. case j of JDict e \<Rightarrow> Some (field_text e ''name'') | _ \<Rightarrow> None) merged"

definition set_living_specs_skipped :: "json list \<Rightarrow> feature \<Rightarrow> outcome \<times> feature" where
  "set_living_specs_skipped entries st =
     (if clean_skips entries = [] then (Declined, st)
      else additive_write (\<lambda>ctx.
             (let prior = list_or_empty (jget (living_block ctx) ''skipped'') in
              Some (put_living ''skipped''
                (JList (merge_skips (skipped_names prior) prior (clean_skips entries))) ctx))) st)"

subsection \<open>Entries of the reasoning trail\<close>

definition wrap_entry :: "string \<Rightarrow> string \<Rightarrow> json" where
  "wrap_entry key text = JDict [(key, JStr text)]"

definition coerce_entry :: "string \<Rightarrow> string \<Rightarrow> json option" where
  "coerce_entry raw key =
     (let text = strip raw in
      if text = [] then None
      else case (if prefix ''{'' text then json_loads text else None) of
          Some (JDict obj) \<Rightarrow>
            (case jget obj key of
               JStr ident \<Rightarrow> Some (if strip ident \<noteq> [] then JDict obj else wrap_entry key text)
             | _ \<Rightarrow> Some (wrap_entry key text))
        | _ \<Rightarrow> Some (wrap_entry key text))"

definition entry_identity :: "json \<Rightarrow> string \<Rightarrow> string option" where
  "entry_identity item key =
     (case item of
        JDict e \<Rightarrow> (case jget e key of JStr v \<Rightarrow> Some (strip v) | _ \<Rightarrow> None)
      | JStr s \<Rightarrow> Some (strip s)
      | _ \<Rightarrow> None)"

text \<open>
  One round of the merge.  \<open>seen\<close> gives the place of each identity in the merged list; an item
  that comes from the call (\<open>fresh\<close>) takes the place of an earlier one when \<open>replace\<close> is set.
\<close>

definition merge_entry ::
  "bool \<Rightarrow> string \<Rightarrow> bool \<times> json \<Rightarrow> json list \<times> (string \<times> nat) list \<Rightarrow> json list \<times> (string \<times> nat) list" where
  "merge_entry replace key p s =
     (case (p, s) of ((fresh, item), (merged, seen)) \<Rightarrow>
        (case entry_identity item key of
           None \<Rightarrow> (merged @ [item], seen)
         | Some ident \<Rightarrow>
             (case map_of seen ident of
                Some place \<Rightarrow> (if replace \<and> fresh then merged[place := item] else merged, seen)
              | None \<Rightarrow> (merged @ [item], (ident, length merged) # seen))))"

definition merge_entries :: "bool \<Rightarrow> string \<Rightarrow> json list \<Rightarrow> json list \<Rightarrow> json list" where
  "merge_entries replace key stored entries =
     fst (fold (merge_entry replace key) (map (Pair False) stored @ map (Pair True) entries) ([], []))"

definition append_capture_entries ::
  "string \<Rightarrow> string \<Rightarrow> string list \<Rightarrow> bool \<Rightarrow> feature \<Rightarrow> outcome \<times> feature" where
  "append_capture_entries field key raws replace st =
     (let entries = List.map_filter (\<lambda>r. coerce_entry r key) raws in
      if entries = [] then (Declined, st)
      else additive_write (\<lambda>ctx. Some (jput field
             (JList (merge_entries replace key (list_or_empty (jget ctx field)) entries)) ctx)) st)"

definition append_string_list :: "string \<Rightarrow> string list \<Rightarrow> feature \<Rightarrow> outcome \<times> feature" where
  "append_string_list field values st =
     (if clean_names values = [] then (Declined, st)
      else additive_write (\<lambda>ctx. Some (jput field (merge_names (jget ctx field) (clean_names values)) ctx)) st)"

subsection \<open>Verifications that were run\<close>

text \<open>
  The entry for a command that ran: \<open>code\<close> is its exit code, \<open>out\<close> its output and \<open>took\<close> the literal
  of the duration, all from outside.  The separator between the kept lines is a middle dot.
\<close>

definition verification_entry :: "string \<Rightarrow> string \<Rightarrow> int \<Rightarrow> string \<Rightarrow> string \<Rightarrow> jdict" where
  "verification_entry what command code out took =
     (let ls = filter (\<lambda>ln. strip ln \<noteq> []) (splitlines (strip out));
          kept = drop (length ls - 3) ls
      in [(''what'', JStr what), (''command'', JStr command), (''source'', JStr ''derived''),
          (''exitCode'', JInt code), (''durationSeconds'', JFloat took),
          (''result'', JStr (if kept \<noteq> [] then join [CHR 0x20, CHR 0xB7, CHR 0x20] kept
                           else if code = 0 then ''no output'' else ''exit '' @ int_text code))]
         @ (if code \<noteq> 0 then [(''warnings'', JList [JStr (''exited '' @ int_text code)])] else []))"

text \<open>
  \<open>WHAT::COMMAND\<close> specifications: those without a command are skipped, the others are run.
  \<open>run\<close> gives the exit code, the output and the duration of a command.
\<close>

fun split_runs :: "string list \<Rightarrow> (string \<times> string) list \<times> string list" where
  "split_runs [] = ([], [])"
| "split_runs (spec # specs) =
     (let (runs, skipped) = split_runs specs in
      case cut_at ''::'' spec of
        None \<Rightarrow> (runs, spec # skipped)
      | Some (what, command) \<Rightarrow>
          if strip command = [] then (runs, spec # skipped)
          else ((strip what, strip command) # runs, skipped))"

definition append_verification_runs ::
  "(string \<Rightarrow> int \<times> string \<times> string) \<Rightarrow> string list \<Rightarrow> feature \<Rightarrow> (outcome \<times> feature) \<times> string list" where
  "append_verification_runs run specs st =
     (let (runs, skipped) = split_runs specs;
          entries = map (\<lambda>(what, command). case run command of (code, out, took) \<Rightarrow>
             json_dumps True (JDict (verification_entry what command code out took))) runs
      in (if entries = [] then (Declined, st)
          else append_capture_entries ''verified'' ''what'' entries True st, skipped))"

subsection \<open>Coverage, step summaries, classification\<close>

definition as_name_list :: "json \<Rightarrow> string list" where
  "as_name_list v =
     (let items = (case v of JStr s \<Rightarrow> map JStr (split_on (CHR '','') s) | JList xs \<Rightarrow> xs | _ \<Rightarrow> [])
      in filter (\<lambda>n. n \<noteq> []) (map (\<lambda>x. strip (py_str x)) items))"

text \<open>
  \<open>title.strip() if title else None\<close> and \<open>req.strip()\<close>: a value that is not text raises.
\<close>

definition strip_title :: "json \<Rightarrow> string option" where
  "strip_title v = (if \<not> truthy v then Some [] else case v of JStr s \<Rightarrow> Some (strip s) | _ \<Rightarrow> None)"

definition coverage_entry :: "jdict \<Rightarrow> string \<Rightarrow> string list \<Rightarrow> string list \<Rightarrow> jdict" where
  "coverage_entry entry title tasks tests =
     (let e1 = (if title \<noteq> [] then jput ''title'' (JStr title) entry else entry);
          e2 = (if tasks \<noteq> [] then jput ''tasks'' (JList (map JStr tasks)) e1 else e1)
      in if tests \<noteq> [] then jput ''tests'' (JList (map JStr tests)) e2 else e2)"

definition put_coverage :: "string \<Rightarrow> string \<Rightarrow> string list \<Rightarrow> string list \<Rightarrow> jdict \<Rightarrow> jdict" where
  "put_coverage req title tasks tests ctx =
     (let coverage = dict_or_empty (jget ctx ''coverage'')
      in jput ''coverage'' (JDict (jput req
           (JDict (coverage_entry (dict_or_empty (jget coverage req)) title tasks tests)) coverage)) ctx)"

definition upsert_coverage :: "json \<Rightarrow> json \<Rightarrow> json \<Rightarrow> json \<Rightarrow> feature \<Rightarrow> outcome \<times> feature" where
  "upsert_coverage req tasks tests title st =
     (case req of
        JStr r \<Rightarrow>
          (if strip r = [] then (Declined, st)
           else case strip_title title of
               None \<Rightarrow> (Raised, st)
             | Some t \<Rightarrow>
                 (if as_name_list tasks = [] \<and> as_name_list tests = [] \<and> t = [] then (Declined, st)
                  else additive_write (\<lambda>ctx. Some (put_coverage (strip r) t (as_name_list tasks)
                         (as_name_list tests) ctx)) st))
      | _ \<Rightarrow> (Raised, st))"

definition put_step_summary :: "string \<Rightarrow> jdict \<Rightarrow> jdict \<Rightarrow> jdict" where
  "put_step_summary step entry ctx =
     (let summaries = dict_or_empty (jget ctx ''step_summaries'')
      in jput ''step_summaries'' (JDict (jput step
           (JDict (fold (\<lambda>(k, v). jput k v) entry (dict_or_empty (jget summaries step)))) summaries)) ctx)"

definition upsert_step_summary :: "json \<Rightarrow> string \<Rightarrow> feature \<Rightarrow> outcome \<times> feature" where
  "upsert_step_summary step raw st =
     (case in_names step CANONICAL_STEPS of
        None \<Rightarrow> (Raised, st)
      | Some False \<Rightarrow> (Declined, st)
      | Some True \<Rightarrow>
          (case coerce_entry raw ''summary'' of
             None \<Rightarrow> (Declined, st)
           | Some entry \<Rightarrow> additive_write (\<lambda>ctx. Some (put_step_summary (py_str step) (dict_or_empty entry) ctx)) st))"

definition CLASSIFICATION_VERDICTS :: "string list" where
  "CLASSIFICATION_VERDICTS = [''simple'', ''normal'', ''oversized'']"

definition parsed_classification :: "string \<Rightarrow> jdict option" where
  "parsed_classification raw =
     (case json_loads raw of
        Some (JDict obj) \<Rightarrow>
          (if in_names (jget obj ''verdict'') CLASSIFICATION_VERDICTS = Some True then Some obj else None)
      | _ \<Rightarrow> None)"

definition set_classification :: "string \<Rightarrow> feature \<Rightarrow> outcome \<times> feature" where
  "set_classification raw st =
     (case parsed_classification raw of
        None \<Rightarrow> (Raised, st)
      | Some obj \<Rightarrow> additive_write (\<lambda>ctx. Some (jput ''classification'' (JDict obj) ctx)) st)"

definition set_plan_blocks :: "string list \<Rightarrow> feature \<Rightarrow> outcome \<times> feature" where
  "set_plan_blocks held st = additive_write (\<lambda>ctx. Some (jput ''planBlocks'' (JList (map JStr held)) ctx)) st"

subsection \<open>The batch\<close>

definition BATCH_KEYS :: "string list" where
  "BATCH_KEYS = [''verified'', ''decisions'', ''concerns'', ''expectations'', ''context'',
     ''coverage'', ''step_summary'', ''last_action'', ''set'']"

definition batch_set_ok :: "json \<Rightarrow> bool" where
  "batch_set_ok v =
     (case v of
        JNull \<Rightarrow> True
      | JDict d \<Rightarrow> (\<forall>p \<in> set d. fst p \<notin> set PROTECTED_SET_KEYS \<and> \<not> is_dict (snd p) \<and> \<not> is_list (snd p))
      | _ \<Rightarrow> False)"

definition coverage_item_ok :: "json \<Rightarrow> bool" where
  "coverage_item_ok j = (case j of JDict e \<Rightarrow> truthy (jget e ''req'') | _ \<Rightarrow> False)"

definition parsed_batch :: "string \<Rightarrow> jdict option" where
  "parsed_batch raw =
     (case json_loads raw of
        Some (JDict doc) \<Rightarrow>
          (if (\<forall>p \<in> set doc. fst p \<in> set BATCH_KEYS)
              \<and> (\<forall>k \<in> {''verified'', ''decisions'', ''concerns'', ''expectations'', ''context'', ''coverage''}.
                   has_key doc k \<longrightarrow> is_list (jget doc k))
              \<and> (has_key doc ''set'' \<longrightarrow> batch_set_ok (jget doc ''set''))
              \<and> list_all coverage_item_ok (list_or_empty (jget doc ''coverage''))
              \<and> (has_key doc ''step_summary'' \<longrightarrow> is_dict (jget doc ''step_summary''))
           then Some doc else None)
      | _ \<Rightarrow> None)"

definition as_raw :: "json list \<Rightarrow> string list" where
  "as_raw items = map (\<lambda>x. case x of JStr s \<Rightarrow> s | _ \<Rightarrow> json_dumps False x) items"

text \<open>The writes of a batch, in order, each with what it reports when it lands.\<close>

definition count_label :: "json list \<Rightarrow> string \<Rightarrow> string" where
  "count_label items what = nat_text (length items) @ '' '' @ what"

definition batch_entries :: "jdict \<Rightarrow> string \<Rightarrow> string \<Rightarrow> (string \<times> (feature \<Rightarrow> outcome \<times> feature)) list" where
  "batch_entries doc key ident =
     (let items = list_or_empty (jget doc key) in
      if items = [] then []
      else [(count_label items key, append_capture_entries key ident (as_raw items) False)])"

definition batch_strings :: "jdict \<Rightarrow> string \<Rightarrow> (string \<times> (feature \<Rightarrow> outcome \<times> feature)) list" where
  "batch_strings doc key =
     (let items = list_or_empty (jget doc key) in
      if items = [] then [] else [(count_label items key, append_string_list key (map py_str items))])"

definition batch_coverage :: "jdict \<Rightarrow> (string \<times> (feature \<Rightarrow> outcome \<times> feature)) list" where
  "batch_coverage doc =
     map (\<lambda>item. let e = dict_or_empty item in
         (''coverage '' @ py_str (jget e ''req''),
          upsert_coverage (jget e ''req'') (jget e ''tasks'') (jget e ''tests'') (jget e ''title'')))
       (list_or_empty (jget doc ''coverage''))"

definition batch_summary :: "jdict \<Rightarrow> string \<Rightarrow> (string \<times> (feature \<Rightarrow> outcome \<times> feature)) list" where
  "batch_summary doc step =
     (let summary = dict_or_empty (jget doc ''step_summary'') in
      if summary = [] then []
      else [(''step summary'',
             upsert_step_summary (if truthy (jget summary ''step'') then jget summary ''step'' else JStr step)
               (json_dumps False (JDict (jpop ''step'' summary))))])"

definition batch_fields :: "jdict \<Rightarrow> (string \<times> (feature \<Rightarrow> outcome \<times> feature)) list" where
  "batch_fields doc =
     (if truthy (jget doc ''last_action'')
      then [(''last_action'', set_fields [''last_action='' @ py_str (jget doc ''last_action'')])] else [])
     @ (let pairs = dict_or_empty (jget doc ''set'') in
        if pairs = [] then []
        else [(nat_text (length pairs) @ '' field(s)'', set_fields (map (\<lambda>(k, v). k @ ''='' @ py_str v) pairs))])"

definition batch_writes :: "jdict \<Rightarrow> string \<Rightarrow> (string \<times> (feature \<Rightarrow> outcome \<times> feature)) list" where
  "batch_writes doc step =
     batch_entries doc ''decisions'' ''decision'' @ batch_entries doc ''verified'' ''what''
     @ batch_entries doc ''concerns'' ''note'' @ batch_strings doc ''expectations''
     @ batch_strings doc ''context'' @ batch_coverage doc @ batch_summary doc step @ batch_fields doc"

fun run_writes :: "(string \<times> (feature \<Rightarrow> outcome \<times> feature)) list \<Rightarrow> outcome \<times> string list \<Rightarrow> feature
    \<Rightarrow> (outcome \<times> string list) \<times> feature" where
  "run_writes [] acc st = (acc, st)"
| "run_writes ((label, w) # ws) acc st =
     (case w st of
        (Raised, st') \<Rightarrow> ((Raised, snd acc), st')
      | (Declined, st') \<Rightarrow> run_writes ws acc st'
      | (Wrote, st') \<Rightarrow> run_writes ws (Wrote, snd acc @ [label]) st')"

definition apply_batch :: "string \<Rightarrow> string \<Rightarrow> feature \<Rightarrow> (outcome \<times> string list) \<times> feature" where
  "apply_batch raw step st =
     (case parsed_batch raw of
        None \<Rightarrow> ((Raised, []), st)
      | Some doc \<Rightarrow> run_writes (batch_writes doc step) (Declined, []) st)"

subsection \<open>All the capture writers\<close>

datatype capture_op =
    SetFields "string list"
  | SpecsLoaded "string list"
  | SpecsSynced "string list"
  | RequirementsLoaded "(string \<times> string list option) list"
  | RulesRecorded "(string \<times> string list) list"
  | SpecsSkipped "json list"
  | Entries string string "string list" bool
  | Strings string "string list"
  | Coverage json json json json
  | StepSummary json string
  | Classify string
  | PlanBlocks "string list"

fun run_capture :: "capture_op \<Rightarrow> feature \<Rightarrow> outcome \<times> feature" where
  "run_capture (SetFields pairs) st = set_fields pairs st"
| "run_capture (SpecsLoaded names) st = set_living_specs_loaded names st"
| "run_capture (SpecsSynced names) st = set_living_specs_synced names st"
| "run_capture (RequirementsLoaded per_cap) st = set_living_specs_loaded_requirements per_cap st"
| "run_capture (RulesRecorded rules) st = set_living_specs_rules rules st"
| "run_capture (SpecsSkipped entries) st = set_living_specs_skipped entries st"
| "run_capture (Entries field key raws replace) st = append_capture_entries field key raws replace st"
| "run_capture (Strings field values) st = append_string_list field values st"
| "run_capture (Coverage req tasks tests title) st = upsert_coverage req tasks tests title st"
| "run_capture (StepSummary step raw) st = upsert_step_summary step raw st"
| "run_capture (Classify raw) st = set_classification raw st"
| "run_capture (PlanBlocks held) st = set_plan_blocks held st"

text \<open>The fields the callers name for the two generic list writers are not lifecycle fields.\<close>

fun plain_field :: "capture_op \<Rightarrow> bool" where
  "plain_field (Entries field _ _ _) = (field \<notin> set PROTECTED_SET_KEYS)"
| "plain_field (Strings field _) = (field \<notin> set PROTECTED_SET_KEYS)"
| "plain_field _ = True"

section \<open>Facts\<close>

subsection \<open>Additive edits\<close>

definition lifecycle_same :: "feature \<Rightarrow> feature \<Rightarrow> bool" where
  "lifecycle_same st st' \<longleftrightarrow>
     (\<forall>k \<in> set PROTECTED_SET_KEYS. jget (read_ctx st') k = jget (read_ctx st) k) \<and>
     st'\<lparr>ctx_file := ctx_file st\<rparr> = st"

lemma lifecycle_same_refl [simp, intro]: "lifecycle_same st st"
  by (simp add: lifecycle_same_def)

lemma lifecycle_same_trans: "lifecycle_same a b \<Longrightarrow> lifecycle_same b c \<Longrightarrow> lifecycle_same a c"
  by (cases a; cases b; cases c) (auto simp: lifecycle_same_def)

lemma lifecycle_same_log: "lifecycle_same st st' \<Longrightarrow> log_of st' = log_of st \<and> status_of st' = status_of st"
  unfolding lifecycle_same_def log_of_def status_of_def
  by (auto simp: PROTECTED_SET_KEYS_def intro: canonical_log_cong)

lemma fill_required_protected [simp]:
  "k \<in> set PROTECTED_SET_KEYS \<Longrightarrow> jget (fill_required st ctx) k = jget ctx k"
  by (rule fill_required_frame) (auto simp: PROTECTED_SET_KEYS_def)

lemma jget_Nil [simp]: "jget [] k = JNull"
  by (simp add: jget_def)

text \<open>A record whose log is the one on disk passes the guard unchanged.\<close>

lemma publish_same_history:
  assumes "jget c ''history'' = jget (read_ctx st) ''history''"
  shows "publish c st = (Wrote, st\<lparr>ctx_file := DocFile (JDict c)\<rparr>)"
proof (cases "jget c ''history''")
  case (JList log)
  then have "guard_append_only (ctx_file st) c = Some c"
    using assms
    by (cases "ctx_file st" rule: parse_ctx.cases)
       (auto simp: guard_append_only_def read_ctx_def jget_Nil split: json.split dest: sym)
  then show ?thesis by (simp add: publish_def)
qed (simp_all add: publish_def guard_append_only_def)

locale additive_edit =
  fixes edit :: "jdict \<Rightarrow> jdict option"
  assumes keeps: "edit c = Some c' \<Longrightarrow> k \<in> set PROTECTED_SET_KEYS \<Longrightarrow> jget c' k = jget c k"
begin

lemma effect:
  obtains "edit (fill_required st (read_ctx st)) = None" "additive_write edit st = (Raised, st)"
    | c where "edit (fill_required st (read_ctx st)) = Some c"
        "additive_write edit st = (Wrote, st\<lparr>ctx_file := DocFile (JDict c)\<rparr>)"
proof (cases "edit (fill_required st (read_ctx st))")
  case None
  then show thesis by (intro that(1)) (simp_all add: additive_write_def)
next
  case (Some c)
  have "jget c ''history'' = jget (read_ctx st) ''history''"
    using keeps [OF Some, of "''history''"] by (simp add: PROTECTED_SET_KEYS_def fill_required_frame)
  then show thesis using Some by (intro that(2)) (simp_all add: additive_write_def publish_same_history)
qed

lemma lifecycle: "additive_write edit st = (r, st') \<Longrightarrow> lifecycle_same st st'"
  by (rule effect [of st]) (auto simp: lifecycle_same_def read_ctx_def [of "_\<lparr>ctx_file := _\<rparr>"] keeps)

lemma raises_iff: "fst (additive_write edit st) = Raised \<longleftrightarrow> edit (fill_required st (read_ctx st)) = None"
  by (rule effect [of st]) auto

end

lemma jget_put_living: "k \<noteq> ''livingSpecs'' \<Longrightarrow> jget (put_living key v ctx) k = jget ctx k"
  by (simp add: put_living_def json_simps)

lemma living_block_put_living [simp]: "living_block (put_living key v ctx) = jput key v (living_block ctx)"
  by (simp add: put_living_def living_block_def json_simps)

lemma set_pair_protected: "k \<in> set PROTECTED_SET_KEYS \<Longrightarrow> jget (set_pair pair ctx) k = jget ctx k"
  by (auto simp: set_pair_def Let_def json_simps split: option.split)

lemma fold_set_pair_protected: "k \<in> set PROTECTED_SET_KEYS \<Longrightarrow> jget (fold set_pair pairs ctx) k = jget ctx k"
  by (induction pairs arbitrary: ctx) (auto simp: set_pair_protected)

lemma protected_fields:
  "k \<in> set PROTECTED_SET_KEYS \<Longrightarrow>
   k \<noteq> ''livingSpecs'' \<and> k \<noteq> ''coverage'' \<and> k \<noteq> ''step_summaries'' \<and> k \<noteq> ''classification'' \<and> k \<noteq> ''planBlocks''"
  by (auto simp: PROTECTED_SET_KEYS_def)

interpretation fields: additive_edit "\<lambda>ctx. Some (fold set_pair pairs ctx)" for pairs
  by unfold_locales (auto simp: fold_set_pair_protected)

interpretation living: additive_edit "\<lambda>ctx. Some (put_living key (v ctx) ctx)" for key v
  by unfold_locales (auto simp: jget_put_living dest: protected_fields)

interpretation living_dict: additive_edit
    "\<lambda>ctx. map_option (\<lambda>merged. put_living key (JDict merged) ctx) (build ctx)" for key build
  by unfold_locales (auto simp: jget_put_living dest: protected_fields)

interpretation coverage: additive_edit "\<lambda>ctx. Some (put_coverage req title tasks tests ctx)" for req title tasks tests
  by unfold_locales (auto simp: put_coverage_def Let_def json_simps dest: protected_fields)

interpretation summary: additive_edit "\<lambda>ctx. Some (put_step_summary step entry ctx)" for step entry
  by unfold_locales (auto simp: put_step_summary_def Let_def json_simps dest: protected_fields)

interpretation classified: additive_edit "\<lambda>ctx. Some (jput ''classification'' v ctx)" for v
  by unfold_locales (auto simp: json_simps dest: protected_fields)

interpretation blocks: additive_edit "\<lambda>ctx. Some (jput ''planBlocks'' v ctx)" for v
  by unfold_locales (auto simp: json_simps dest: protected_fields)

lemma list_field_edit:
  "field \<notin> set PROTECTED_SET_KEYS \<Longrightarrow> additive_edit (\<lambda>ctx. Some (jput field (v ctx) ctx))"
  by unfold_locales (auto simp: json_simps)

lemma run_capture_lifecycle:
  assumes "plain_field oper" and "run_capture oper st = (r, st')"
  shows "lifecycle_same st st'"
proof (cases oper)
  case (Entries field key raws replace)
  then have fr: "field \<notin> set PROTECTED_SET_KEYS" using assms(1) by simp
  show ?thesis
    using assms(2) additive_edit.lifecycle [OF list_field_edit [OF fr]] Entries
    by (auto simp: append_capture_entries_def Let_def split: if_splits)
next
  case (Strings field vs)
  then have f: "field \<notin> set PROTECTED_SET_KEYS" using assms(1) by simp
  show ?thesis
    using assms(2) additive_edit.lifecycle [OF list_field_edit [OF f]] Strings
    by (auto simp: append_string_list_def split: if_splits)
qed (use assms(2) in \<open>auto simp: set_fields_def set_living_specs_loaded_def set_living_specs_synced_def
      set_living_specs_loaded_requirements_def set_living_specs_rules_def set_living_specs_skipped_def
      upsert_coverage_def upsert_step_summary_def set_classification_def set_plan_blocks_def Let_def
      split: if_splits option.splits bool.splits json.splits
      intro: fields.lifecycle living.lifecycle living_dict.lifecycle coverage.lifecycle summary.lifecycle
        classified.lifecycle blocks.lifecycle\<close>)

subsection \<open>Merging entries\<close>

text \<open>Which item a list holds for an identity, and the identities it holds.\<close>

definition find_entry :: "string \<Rightarrow> string \<Rightarrow> json list \<Rightarrow> json option" where
  "find_entry key ident items = List.find (\<lambda>x. entry_identity x key = Some ident) items"

definition identities :: "string \<Rightarrow> json list \<Rightarrow> string list" where
  "identities key items = List.map_filter (\<lambda>x. entry_identity x key) items"

lemma find_entry_append:
  "find_entry key i (xs @ ys) = (case find_entry key i xs of None \<Rightarrow> find_entry key i ys | Some x \<Rightarrow> Some x)"
  by (induction xs) (auto simp: find_entry_def)

lemma find_entry_Cons:
  "find_entry key i (x # xs) = (if entry_identity x key = Some i then Some x else find_entry key i xs)"
  by (simp add: find_entry_def)

lemma find_entry_Nil [simp]: "find_entry key i [] = None"
  by (simp add: find_entry_def)

lemma identities_snoc [simp]:
  "identities key (xs @ [x]) = identities key xs @ (case entry_identity x key of None \<Rightarrow> [] | Some i \<Rightarrow> [i])"
  by (simp add: identities_def List.map_filter_def split: option.split)

lemma identities_update:
  "j < length xs \<Longrightarrow> entry_identity x key = entry_identity (xs ! j) key \<Longrightarrow> identities key (xs[j := x]) = identities key xs"
  by (induction xs arbitrary: j) (auto simp: identities_def List.map_filter_def split: nat.splits)

lemma in_identities: "i \<in> set (identities key xs) \<longleftrightarrow> (\<exists>j < length xs. entry_identity (xs ! j) key = Some i)"
proof -
  have "i \<in> set (identities key xs) \<longleftrightarrow> (\<exists>x \<in> set xs. entry_identity x key = Some i)"
    by (force simp: identities_def List.map_filter_def)
  then show ?thesis by (metis in_set_conv_nth)
qed

text \<open>The index the loop keeps is exact: it has each identity of the merged list at its only place.\<close>

definition index_ok :: "string \<Rightarrow> json list \<times> (string \<times> nat) list \<Rightarrow> bool" where
  "index_ok key s \<longleftrightarrow> distinct (identities key (fst s)) \<and>
     (\<forall>i j. map_of (snd s) i = Some j \<longleftrightarrow> j < length (fst s) \<and> entry_identity (fst s ! j) key = Some i)"

lemma index_okD: "index_ok key (merged, seen) \<Longrightarrow>
    map_of seen i = Some j \<longleftrightarrow> j < length merged \<and> entry_identity (merged ! j) key = Some i"
  by (simp add: index_ok_def)

lemma index_ok_step: "index_ok key s \<Longrightarrow> index_ok key (merge_entry replace key p s)"
proof -
  assume ok: "index_ok key s"
  obtain fresh item merged seen where [simp]: "p = (fresh, item)" "s = (merged, seen)"
    by (cases p; cases s) auto
  note iff = index_okD [OF ok [simplified]]
  show ?thesis
  proof (cases "entry_identity item key")
    case None
    then show ?thesis using ok by (auto simp: merge_entry_def index_ok_def nth_append)
  next
    case id: (Some i)
    show ?thesis
    proof (cases "map_of seen i")
      case None
      then have no: "\<not> (j < length merged \<and> entry_identity (merged ! j) key = Some i)" for j
        using iff [of i j] by simp
      then have "i \<notin> set (identities key merged)" by (auto simp: in_identities)
      moreover have "map_of ((i, length merged) # seen) i' = Some j \<longleftrightarrow>
          j < length (merged @ [item]) \<and> entry_identity ((merged @ [item]) ! j) key = Some i'" for i' j
        using no [of j] iff [of i' j] id by (auto simp: nth_append less_Suc_eq)
      ultimately show ?thesis using ok id None by (simp add: merge_entry_def index_ok_def)
    next
      case (Some j)
      then have j: "j < length merged" "entry_identity (merged ! j) key = Some i" using iff by auto
      then have "identities key (merged[j := item]) = identities key merged" using id by (simp add: identities_update)
      moreover have "entry_identity (merged[j := item] ! k) key = entry_identity (merged ! k) key" if "k < length merged" for k
        using that j id by (cases "k = j") auto
      moreover have "merge_entry replace key p s = (if replace \<and> fresh then merged[j := item] else merged, seen)"
        using id Some by (simp add: merge_entry_def)
      ultimately show ?thesis using ok by (simp add: index_ok_def cong: conj_cong)
    qed
  qed
qed

lemma index_ok_fold: "index_ok key s \<Longrightarrow> index_ok key (fold (merge_entry replace key) ps s)"
  by (induction ps arbitrary: s) (auto simp: index_ok_step)

lemma index_ok_start: "index_ok key ([], [])"
  by (simp add: index_ok_def identities_def List.map_filter_def)

lemma find_entry_index: "index_ok key (merged, seen) \<Longrightarrow> map_of seen i = Some j \<Longrightarrow> find_entry key i merged = Some (merged ! j)"
proof -
  assume ok: "index_ok key (merged, seen)" and s: "map_of seen i = Some j"
  have "k = j" if "k < length merged" "entry_identity (merged ! k) key = Some i" for k
    using index_okD [OF ok, of i k] s that by simp
  then have "\<not> (\<exists>k < j. entry_identity (merged ! k) key = Some i)"
    using index_okD [OF ok, of i j] s by (metis less_trans order_less_irrefl)
  then show ?thesis using index_okD [OF ok, of i j] s
    unfolding find_entry_def find_Some_iff by blast
qed

lemma find_entry_no_index:
  assumes "index_ok key (merged, seen)" and "map_of seen i = None"
  shows "find_entry key i merged = None"
proof -
  have "entry_identity (merged ! j) key \<noteq> Some i" if "j < length merged" for j
    using index_okD [OF assms(1), of i j] assms(2) that by simp
  then have "\<forall>x \<in> set merged. entry_identity x key \<noteq> Some i" by (metis in_set_conv_nth)
  then show ?thesis by (simp add: find_entry_def find_None_iff)
qed

lemma find_entry_update:
  assumes "index_ok key (merged, seen)" and "map_of seen i = Some j" and "entry_identity x key = Some i"
  shows "find_entry key i' (merged[j := x]) = (if i' = i then Some x else find_entry key i' merged)"
proof -
  have j: "j < length merged" "entry_identity (merged ! j) key = Some i" using index_okD assms(1,2) by auto
  have ok: "index_ok key (merged[j := x], seen)"
    using index_ok_step [OF assms(1), of True "(True, x)"] assms(2,3) by (simp add: merge_entry_def)
  show ?thesis
  proof (cases "map_of seen i'")
    case None
    then show ?thesis using find_entry_no_index [OF ok] find_entry_no_index [OF assms(1)] assms(2) by auto
  next
    case (Some k)
    then have "k = j \<longleftrightarrow> i' = i" using index_okD [OF assms(1), of i' k] j assms(2) by auto
    then show ?thesis using find_entry_index [OF ok Some] find_entry_index [OF assms(1) Some] j by auto
  qed
qed

lemma find_entry_step:
  assumes "index_ok key s"
  shows "find_entry key i (fst (merge_entry replace key (fresh, item) s)) =
    (if entry_identity item key = Some i
     then (if find_entry key i (fst s) = None \<or> replace \<and> fresh then Some item else find_entry key i (fst s))
     else find_entry key i (fst s))"
proof -
  obtain merged seen where [simp]: "s = (merged, seen)" by (cases s)
  note ok = assms [simplified]
  show ?thesis
  proof (cases "entry_identity item key")
    case None
    then show ?thesis by (simp add: merge_entry_def find_entry_append find_entry_Cons split: option.split)
  next
    case (Some i0)
    then show ?thesis
      using find_entry_no_index [OF ok, of i0] find_entry_index [OF ok, of i0] find_entry_update [OF ok _ Some]
      by (cases "map_of seen i0") (auto simp: merge_entry_def find_entry_append find_entry_Cons split: option.split)
  qed
qed

lemma find_entry_fold_keep:
  "index_ok key s \<Longrightarrow> \<forall>p \<in> set ps. \<not> (replace \<and> fst p) \<Longrightarrow>
   find_entry key i (fst (fold (merge_entry replace key) ps s)) = find_entry key i (fst s @ map snd ps)"
proof (induction ps arbitrary: s)
  case (Cons p ps)
  obtain fresh item where [simp]: "p = (fresh, item)" by (cases p)
  show ?case
    using Cons.IH [OF index_ok_step [OF Cons.prems(1)]] Cons.prems(2) find_entry_step [OF Cons.prems(1), of i replace fresh item]
    by (auto simp: find_entry_append find_entry_Cons split: option.split)
qed simp

lemma find_entry_fold_replace:
  "index_ok key s \<Longrightarrow>
   find_entry key i (fst (fold (merge_entry True key) (map (Pair True) items) s)) = find_entry key i (rev items @ fst s)"
proof (induction items arbitrary: s)
  case (Cons x xs)
  show ?case
    using Cons.IH [OF index_ok_step [OF Cons.prems]] find_entry_step [OF Cons.prems, of i True True x]
    by (auto simp: find_entry_append find_entry_Cons split: option.split)
qed simp

lemma find_entry_merge_keep: "find_entry key i (merge_entries False key stored entries) = find_entry key i (stored @ entries)"
  using find_entry_fold_keep [where replace = False and ps = "map (Pair False) stored @ map (Pair True) entries", OF index_ok_start]
  by (simp add: merge_entries_def o_def)

lemma find_entry_merge_replace: "find_entry key i (merge_entries True key stored entries) = find_entry key i (rev entries @ stored)"
proof -
  let ?s = "fold (merge_entry True key) (map (Pair False) stored) ([], [])"
  have "find_entry key i (fst ?s) = find_entry key i stored"
    by (subst find_entry_fold_keep [OF index_ok_start]) (simp_all add: o_def)
  moreover have "merge_entries True key stored entries = fst (fold (merge_entry True key) (map (Pair True) entries) ?s)"
    by (simp only: merge_entries_def fold_append comp_apply)
  moreover have "find_entry key i (fst (fold (merge_entry True key) (map (Pair True) entries) ?s)) =
      find_entry key i (rev entries @ fst ?s)"
    by (rule find_entry_fold_replace [OF index_ok_fold [OF index_ok_start]])
  ultimately show ?thesis by (simp only: find_entry_append)
qed

lemma identities_merge: "distinct (identities key (merge_entries replace key stored entries))"
  using index_ok_fold [OF index_ok_start, of key replace "map (Pair False) stored @ map (Pair True) entries"]
  by (simp add: merge_entries_def index_ok_def)

subsection \<open>The batch\<close>

lemma run_writes_lifecycle:
  "\<forall>(l, w) \<in> set ws. \<forall>st. lifecycle_same st (snd (w st)) \<Longrightarrow> lifecycle_same st (snd (run_writes ws acc st))"
proof (induction ws arbitrary: acc st)
  case (Cons p ws)
  obtain label w where p: "p = (label, w)" by (cases p)
  obtain r st' where w: "w st = (r, st')" by fastforce
  have "case p of (l, w) \<Rightarrow> \<forall>st. lifecycle_same st (snd (w st))" using Cons.prems by (rule bspec) simp
  then have "\<forall>st. lifecycle_same st (snd (w st))" by (simp add: p)
  then have "lifecycle_same st (snd (w st))" by (rule spec)
  then have "lifecycle_same st st'" by (simp add: w)
  moreover have "lifecycle_same st' (snd (run_writes ws acc' st'))" for acc'
    by (rule Cons.IH) (use Cons.prems in simp)
  ultimately have "lifecycle_same st (snd (run_writes ws acc' st'))" for acc'
    using lifecycle_same_trans by blast
  then show ?case using p w \<open>lifecycle_same st st'\<close> by (cases r) simp_all
qed simp

lemma capture_writer_lifecycle:
  "plain_field oper \<Longrightarrow> lifecycle_same st (snd (run_capture oper st))"
  by (rule run_capture_lifecycle [OF _ prod.collapse [symmetric]])

definition is_capture :: "(feature \<Rightarrow> outcome \<times> feature) \<Rightarrow> bool" where
  "is_capture w \<longleftrightarrow> (\<exists>oper. plain_field oper \<and> w = run_capture oper)"

lemma is_capture_lifecycle: "is_capture w \<Longrightarrow> lifecycle_same st (snd (w st))"
  by (auto simp: is_capture_def capture_writer_lifecycle)

lemma is_captureI: "(\<And>st. w st = run_capture oper st) \<Longrightarrow> plain_field oper \<Longrightarrow> is_capture w"
  unfolding is_capture_def by (rule exI [of _ oper]) (simp add: fun_eq_iff)

lemma is_capture_writers:
  "field \<notin> set PROTECTED_SET_KEYS \<Longrightarrow> is_capture (append_capture_entries field key raws replace)"
  "field \<notin> set PROTECTED_SET_KEYS \<Longrightarrow> is_capture (append_string_list field names)"
  "is_capture (upsert_coverage req tasks tests title)"
  "is_capture (upsert_step_summary st raw)"
  "is_capture (set_fields pairs)"
proof -
  show "is_capture (append_capture_entries field key raws replace)" if "field \<notin> set PROTECTED_SET_KEYS"
    using that by (intro is_captureI [of _ "Entries field key raws replace"]) simp_all
  show "is_capture (append_string_list field names)" if "field \<notin> set PROTECTED_SET_KEYS"
    using that by (intro is_captureI [of _ "Strings field names"]) simp_all
  show "is_capture (upsert_coverage req tasks tests title)"
    by (rule is_captureI [of _ "Coverage req tasks tests title"]) simp_all
  show "is_capture (upsert_step_summary st raw)"
    by (rule is_captureI [of _ "StepSummary st raw"]) simp_all
  show "is_capture (set_fields pairs)"
    by (rule is_captureI [of _ "SetFields pairs"]) simp_all
qed

lemma batch_group_capture:
  "(l, w) \<in> set (batch_entries doc key i) \<Longrightarrow> key \<notin> set PROTECTED_SET_KEYS \<Longrightarrow> is_capture w"
  "(l, w) \<in> set (batch_strings doc key) \<Longrightarrow> key \<notin> set PROTECTED_SET_KEYS \<Longrightarrow> is_capture w"
  "(l, w) \<in> set (batch_coverage doc) \<Longrightarrow> is_capture w"
  "(l, w) \<in> set (batch_summary doc step) \<Longrightarrow> is_capture w"
  "(l, w) \<in> set (batch_fields doc) \<Longrightarrow> is_capture w"
  by (auto simp: batch_entries_def Let_def is_capture_writers split: if_splits)
     (auto simp: batch_strings_def batch_coverage_def batch_summary_def batch_fields_def
        Let_def is_capture_writers split: if_splits)

lemma batch_writes_capture: "(l, w) \<in> set (batch_writes doc step) \<Longrightarrow> is_capture w"
  unfolding batch_writes_def set_append Un_iff
  by (elim disjE; erule batch_group_capture; simp add: PROTECTED_SET_KEYS_def)

section \<open>Properties\<close>

text \<open>C27: No capture writer touches the lifecycle.  Whatever is recorded, on whatever directory, the
  log, the legacy log, the status and the current step keep their values, and nothing of the
  directory but the record changes.\<close>

theorem capture_keeps_lifecycle:
  assumes "plain_field oper" and "run_capture oper st = (r, st')"
  shows "(\<forall>k \<in> set PROTECTED_SET_KEYS. jget (read_ctx st') k = jget (read_ctx st) k) \<and>
         log_of st' = log_of st \<and> st'\<lparr>ctx_file := ctx_file st\<rparr> = st"
  using run_capture_lifecycle [OF assms] lifecycle_same_log by (auto simp: lifecycle_same_def)

theorem capture_keeps_lifecycle_witness:
  "status_of (snd (run_capture (SetFields [''status=completed'', ''size = 3''])
     (example_dir ''implementing'' ''implement'' []))) = JStr ''implementing'' \<and>
   jget (read_ctx (snd (run_capture (SetFields [''status=completed'', ''size = 3''])
     (example_dir ''implementing'' ''implement'' [])))) ''size'' = JInt 3"
proof
  let ?s = "example_dir ''implementing'' ''implement'' []"
  let ?o = "SetFields [''status=completed'', ''size = 3'']"
  have "jget (read_ctx (snd (run_capture ?o ?s))) ''status'' = jget (read_ctx ?s) ''status''"
    using capture_keeps_lifecycle [of ?o, OF _ prod.collapse [symmetric]] by (simp add: PROTECTED_SET_KEYS_def)
  moreover have "jget (read_ctx ?s) ''status'' = JStr ''implementing''" by code_simp
  ultimately show "status_of (snd (run_capture ?o ?s)) = JStr ''implementing''" by (simp only: status_of_def)
  show "jget (read_ctx (snd (run_capture ?o ?s))) ''size'' = JInt 3" by code_simp
qed

text \<open>A batch cannot bypass the lifecycle either: whatever document is handed in, valid or not, and
  wherever an exception stops it, the log, the status and the current step are as before.\<close>

theorem batch_keeps_lifecycle:
  "log_of (snd (apply_batch raw step st)) = log_of st \<and>
   status_of (snd (apply_batch raw step st)) = status_of st \<and>
   jget (read_ctx (snd (apply_batch raw step st))) ''currentStep'' = jget (read_ctx st) ''currentStep''"
proof -
  have "lifecycle_same st (snd (apply_batch raw step st))"
    using batch_writes_capture is_capture_lifecycle
    by (auto simp: apply_batch_def split: option.split intro!: run_writes_lifecycle)
  then show ?thesis using lifecycle_same_log by (auto simp: lifecycle_same_def PROTECTED_SET_KEYS_def)
qed

text \<open>A check that is run again reports its latest result and never doubles: with replacement, the
  merged list holds each identity once, and for each identity the last new entry, or the stored one
  when the call brings none.\<close>

theorem latest_verification_wins:
  "distinct (identities key (merge_entries True key stored entries)) \<and>
   find_entry key ident (merge_entries True key stored entries) = find_entry key ident (rev entries @ stored)"
  by (simp add: identities_merge find_entry_merge_replace)

text \<open>Without replacement an entry that is already recorded wins: each identity occurs once, with the
  entry that had it first, the stored ones before the new ones.\<close>

theorem first_entry_wins:
  "distinct (identities key (merge_entries False key stored entries)) \<and>
   find_entry key ident (merge_entries False key stored entries) = find_entry key ident (stored @ entries)"
  by (simp add: identities_merge find_entry_merge_keep)

text \<open>Recording the loaded living specs is idempotent: a second run with the same names leaves the
  record byte for byte as the first one left it.\<close>

theorem loaded_specs_idempotent:
  "ctx_file (snd (set_living_specs_loaded names (snd (set_living_specs_loaded names st)))) =
   ctx_file (snd (set_living_specs_loaded names st))"
proof (cases "clean_names names = []")
  case False
  define f where "f = (\<lambda>ctx. put_living ''loaded'' (merge_names (jget (living_block ctx) ''loaded'') (clean_names names)) ctx)"
  let ?c = "fill_required st (read_ctx st)"
  let ?v = "\<lambda>ctx. merge_names (jget (living_block ctx) ''loaded'') (clean_names names)"
  have written: "set_living_specs_loaded names s =
      (Wrote, s\<lparr>ctx_file := DocFile (JDict (f (fill_required s (read_ctx s))))\<rparr>)" for s
    by (rule living.effect [of "''loaded''" ?v s]) (use False in \<open>simp_all add: set_living_specs_loaded_def f_def\<close>)
  have fill: "fill_required st (f ?c) = f ?c"
    by (rule fill_required_id)
       (use fill_required_keys [of st "read_ctx st"] fill_required_name [of st "read_ctx st"]
        in \<open>simp_all add: f_def put_living_def json_simps\<close>)
  have again: "f (f ?c) = f ?c"
  proof -
    let ?old = "list_or_empty (jget (living_block ?c) ''loaded'')" and ?new = "map JStr (clean_names names)"
    have "merge_new py_eq [] (merge_new py_eq [] (?old @ ?new) @ ?new) = merge_new py_eq [] (?old @ ?new)"
      by (rule merge_new_again) auto
    then show ?thesis by (simp add: f_def put_living_def living_block_def merge_names_def json_simps)
  qed
  show ?thesis unfolding written by (simp add: read_ctx_def [of "_\<lparr>ctx_file := _\<rparr>"] fill again)
qed (simp add: set_living_specs_loaded_def)

text \<open>The plain values of a batch's \<open>set\<close> map survive the detour over text: an integer, a boolean or
  null written as \<open>key=value\<close> is read back as the same value.\<close>

theorem set_value_roundtrip:
  assumes "v = JInt i \<or> v = JBool b \<or> v = JNull"
  shows "coerce_value (strip (py_str v)) = v"
proof -
  have "int_text i \<noteq> ''true''" "int_text i \<noteq> ''false''" "int_text i \<noteq> ''null''" "int_text i \<noteq> ''none''"
    using set_int_text [of "CHR ''e''" i] set_int_text [of "CHR ''l''" i] by (auto simp: is_decimal_def)
  then show ?thesis using assms
    by (cases b) (elim disjE; simp add: coerce_value_def lower_int_text py_int_text; code_simp)+
qed

theorem set_value_roundtrip_witness: "coerce_value (strip (py_str (JInt (-42)))) = JInt (-42)"
  by (rule set_value_roundtrip [of _ "-42" True]) simp

text \<open>The two writes of a requirement's coverage compose: a slot that is supplied is replaced, a slot
  that is not keeps what was recorded, and no other requirement's entry changes.\<close>

theorem coverage_composes:
  assumes "upsert_coverage (JStr req) tasks tests title st = (Wrote, st')" and "strip_title title = Some t"
    and "old = dict_or_empty (jget (read_ctx st) ''coverage'')"
    and "new = dict_or_empty (jget (read_ctx st') ''coverage'')"
    and "e = dict_or_empty (jget old (strip req))" and "e' = dict_or_empty (jget new (strip req))"
  shows "jget e' ''title'' = (if t \<noteq> [] then JStr t else jget e ''title'') \<and>
    jget e' ''tasks'' = (if as_name_list tasks \<noteq> [] then JList (map JStr (as_name_list tasks)) else jget e ''tasks'') \<and>
    jget e' ''tests'' = (if as_name_list tests \<noteq> [] then JList (map JStr (as_name_list tests)) else jget e ''tests'') \<and>
    (\<forall>other. other \<noteq> strip req \<longrightarrow> jget new other = jget old other)"
proof -
  let ?c = "put_coverage (strip req) t (as_name_list tasks) (as_name_list tests) (fill_required st (read_ctx st))"
  have "st' = st\<lparr>ctx_file := DocFile (JDict ?c)\<rparr>"
    by (rule coverage.effect [of "strip req" t "as_name_list tasks" "as_name_list tests" st])
       (use assms(1,2) in \<open>auto simp: upsert_coverage_def split: if_splits\<close>)
  then have "read_ctx st' = ?c" by (simp add: read_ctx_def)
  then have "new = jput (strip req) (JDict (coverage_entry e t (as_name_list tasks) (as_name_list tests))) old"
    using assms(3,5) by (simp add: assms(4) put_coverage_def Let_def json_simps)
  then show ?thesis by (simp add: assms(6) coverage_entry_def Let_def json_simps)
qed

theorem coverage_composes_witness:
  "jget (dict_or_empty (jget (dict_or_empty (jget (read_ctx (snd (upsert_coverage (JStr ''FR-001'')
       (JStr ''T001, T002'') JNull JNull (example_dir ''implementing'' ''implement'' []))))
     ''coverage'')) ''FR-001'')) ''tasks'' = JList [JStr ''T001'', JStr ''T002'']"
proof -
  let ?s = "example_dir ''implementing'' ''implement'' []"
  let ?u = "upsert_coverage (JStr ''FR-001'') (JStr ''T001, T002'') JNull JNull ?s"
  have "fst ?u = Wrote" and names: "as_name_list (JStr ''T001, T002'') = [''T001'', ''T002'']"
    and req: "strip ''FR-001'' = ''FR-001''"
    by code_simp+
  then have "?u = (Wrote, snd ?u)" by (simp add: prod_eq_iff)
  from coverage_composes [OF this, of "[]", OF _ refl refl refl refl] show ?thesis
    by (simp add: strip_title_def names req)
qed

end
