(* ===== verification/ShapeCheck.thy ===== *)
theory ShapeCheck
  imports SpecLoad Deltas
begin

text \<open>
  The shape check of living specs and of the deltas of a feature (\<open>living_validate.py\<close>).  A finding
  keeps its severity, its code, its file, its line and its capability; the two sentences it also
  carries are for the reader and decide nothing.  A document is taken as its rows: line number,
  fence flag, line.
\<close>

subsection \<open>Words\<close>

text \<open>\<open>\w\<close>, and the maximal runs of characters of a class.\<close>

definition is_word :: "char \<Rightarrow> bool" where
  "is_word c =
     (let n = (of_char c :: nat)
      in (48 \<le> n \<and> n \<le> 57) \<or> (65 \<le> n \<and> n \<le> 90) \<or> (97 \<le> n \<and> n \<le> 122) \<or> n = 95
         \<or> n \<in> set [170, 178, 179, 181, 185, 186, 188, 189, 190] \<or> (192 \<le> n \<and> n \<noteq> 215 \<and> n \<noteq> 247))"

fun runs :: "(char \<Rightarrow> bool) \<Rightarrow> string \<Rightarrow> string \<Rightarrow> string list" where
  "runs P cur [] = (if cur = [] then [] else [rev cur])"
| "runs P cur (c # cs) =
     (if P c then runs P (c # cur) cs else (if cur = [] then [] else [rev cur]) @ runs P [] cs)"

definition word_count :: "string \<Rightarrow> nat" where
  "word_count line = length (runs (\<lambda>c. \<not> is_space c) [] line)"

definition ends_word :: "string \<Rightarrow> bool" where
  "ends_word rest \<longleftrightarrow> rest = [] \<or> \<not> is_word (hd rest)"

text \<open>\<open>\b(SHALL|MUST|SHOULD)\b\<close>; \<open>inside\<close> says that the character before is part of a word.\<close>

fun has_normative :: "bool \<Rightarrow> string \<Rightarrow> bool" where
  "has_normative inside [] = False"
| "has_normative inside (c # cs) =
     (\<not> inside \<and> list_ex (\<lambda>w. prefix w (c # cs) \<and> ends_word (drop (length w) (c # cs)))
                    [''SHALL'', ''MUST'', ''SHOULD'']
      \<or> has_normative (is_word c) cs)"

text \<open>\<open>(?<=[.!?])\s+\<close> as a separator.\<close>

function sentences :: "string \<Rightarrow> string list" where
  "sentences [] = [[]]"
| "sentences (c # cs) =
     (if c \<in> set ''.!?'' \<and> cs \<noteq> [] \<and> is_space (hd cs) then [c] # sentences (dropWhile is_space cs)
      else case sentences cs of s # ss \<Rightarrow> (c # s) # ss | [] \<Rightarrow> [[c]])"
  by pat_completeness auto
termination
  by (relation "measure length") (auto simp: less_Suc_eq_le length_dropWhile_le)

definition rule_count :: "string \<Rightarrow> nat" where
  "rule_count line = length (filter (has_normative False) (sentences line))"

subsection \<open>Lines\<close>

text \<open>\<open>^##(?!#)\s+(.+?)\s*$\<close> and \<open>^####(?!#)\s+Scenario\s*:\s*(.+?)\s*$\<close>, ignoring case.\<close>

definition is_section :: "string \<Rightarrow> bool" where
  "is_section l \<longleftrightarrow> is_section_line l \<and> (lstrip (drop 2 l) \<noteq> [] \<or> 4 \<le> length l)"

definition is_scenario :: "string \<Rightarrow> bool" where
  "is_scenario l =
     (let r = drop 4 l; t = lstrip r; u = lstrip (drop 8 t)
      in prefix ''####'' l \<and> r \<noteq> [] \<and> is_space (hd r) \<and> prefix ''scenario'' (lower t)
         \<and> prefix '':'' u \<and> tl u \<noteq> [])"

text \<open>\<open>^\s*(?:[-*+]|\d+[.)])\s*\<close> and then one of the words, with up to two stars before it.\<close>

definition after_bullet :: "string \<Rightarrow> string option" where
  "after_bullet l =
     (let s = lstrip l; d = takeWhile is_decimal s; r = drop (length d) s
      in if s \<noteq> [] \<and> hd s \<in> set ''-*+'' then Some (lstrip (tl s))
         else if d \<noteq> [] \<and> r \<noteq> [] \<and> hd r \<in> set ''.)'' then Some (lstrip (tl r))
         else None)"

definition bullet_of :: "string list \<Rightarrow> string \<Rightarrow> bool" where
  "bullet_of ws l =
     (case after_bullet l of
        None \<Rightarrow> False
      | Some t \<Rightarrow>
          (let stars = takeWhile (\<lambda>c. c = CHR ''*'') t; r = drop (length stars) t
           in length stars \<le> 2 \<and> list_ex (\<lambda>w. prefix w (lower r) \<and> ends_word (drop (length w) r)) ws))"

definition is_when :: "string \<Rightarrow> bool" where
  "is_when l = bullet_of [''when'', ''given''] l"

definition is_then :: "string \<Rightarrow> bool" where
  "is_then l = bullet_of [''then''] l"

text \<open>
  \<open>^\s*(?:>\s*)*(?:#{1,6}\s+)?(?:[*_]{1,3})?\s*\[draft\]\<close>, ignoring case, in the first ten lines
  after the front matter.
\<close>

definition is_draft_line :: "string \<Rightarrow> bool" where
  "is_draft_line l =
     (let t = dropWhile (\<lambda>c. is_space c \<or> c = CHR ''>'') l;
          h = takeWhile (\<lambda>c. c = CHR ''#'') t; r = drop (length h) t;
          t2 = (if h \<noteq> [] \<and> length h \<le> 6 \<and> r \<noteq> [] \<and> is_space (hd r) then lstrip r else t);
          e = takeWhile (\<lambda>c. c \<in> set ''*_'') t2
      in length e \<le> 3 \<and> prefix ''[draft]'' (lower (lstrip (drop (length e) t2))))"

definition body_lines :: "string list \<Rightarrow> string list" where
  "body_lines ls =
     (case ls of
        l # rest \<Rightarrow>
          (if strip l = ''---''
           then (case dropWhile (\<lambda>x. strip x \<noteq> ''---'') rest of [] \<Rightarrow> ls | _ # after \<Rightarrow> after)
           else ls)
      | [] \<Rightarrow> [])"

definition is_draft :: "string list \<Rightarrow> bool" where
  "is_draft ls \<longleftrightarrow> list_ex is_draft_line (take 10 (body_lines ls))"

subsection \<open>Rows\<close>

type_synonym row = "nat \<times> bool \<times> string"

definition rows_of :: "string list \<Rightarrow> row list" where
  "rows_of ls = zip [1..<Suc (length ls)] (flagged ls)"

definition open_text :: "row \<Rightarrow> string option" where
  "open_text r = (if fst (snd r) then None else Some (snd (snd r)))"

definition req_row :: "row \<Rightarrow> (nat \<times> string) option" where
  "req_row r = (case open_text r of None \<Rightarrow> None | Some l \<Rightarrow> map_option (Pair (fst r)) (req_group l))"

definition section_row :: "row \<Rightarrow> bool" where
  "section_row r = (case open_text r of None \<Rightarrow> False | Some l \<Rightarrow> is_section l)"

definition scenario_row :: "row \<Rightarrow> nat option" where
  "scenario_row r = (case open_text r of None \<Rightarrow> None | Some l \<Rightarrow> if is_scenario l then Some (fst r) else None)"

text \<open>The parts of a document: from a row that opens one up to the next row that stops it.\<close>

function chunks :: "(row \<Rightarrow> 'h option) \<Rightarrow> (row \<Rightarrow> bool) \<Rightarrow> row list \<Rightarrow> ('h \<times> row list) list" where
  "chunks opens stops [] = []"
| "chunks opens stops (r # rs) =
     (case opens r of
        None \<Rightarrow> chunks opens stops rs
      | Some h \<Rightarrow> (h, takeWhile (\<lambda>x. \<not> stops x) rs) # chunks opens stops (dropWhile (\<lambda>x. \<not> stops x) rs))"
  by pat_completeness auto
termination
  by (relation "measure (\<lambda>(_, _, rs). length rs)") (auto simp: less_Suc_eq_le length_dropWhile_le)

definition stops_requirement :: "row \<Rightarrow> bool" where
  "stops_requirement r \<longleftrightarrow> req_row r \<noteq> None \<or> section_row r"

definition requirement_chunks :: "row list \<Rightarrow> ((nat \<times> string) \<times> row list) list" where
  "requirement_chunks rs = chunks req_row stops_requirement rs"

definition scenario_chunks :: "row list \<Rightarrow> (nat \<times> row list) list" where
  "scenario_chunks rs = chunks scenario_row (\<lambda>r. scenario_row r \<noteq> None) rs"

definition open_lines :: "row list \<Rightarrow> string list" where
  "open_lines rs = List.map_filter open_text rs"

subsection \<open>Findings\<close>

datatype severity = Error | Warning

record finding =
  f_severity :: severity
  f_code :: string
  f_path :: string
  f_line :: nat
  f_capability :: "string option"

definition finding_of :: "severity \<Rightarrow> string \<Rightarrow> string \<Rightarrow> string option \<Rightarrow> nat \<Rightarrow> finding" where
  "finding_of sev code path cap n =
     \<lparr>f_severity = sev, f_code = code, f_path = path, f_line = n, f_capability = cap\<rparr>"

definition warn_if :: "bool \<Rightarrow> string \<Rightarrow> string \<Rightarrow> string option \<Rightarrow> nat \<Rightarrow> finding list" where
  "warn_if b code path cap n = (if b then [finding_of Warning code path cap n] else [])"

definition MAX_LINES :: nat where "MAX_LINES = 160"
definition MIN_REQUIREMENTS :: nat where "MIN_REQUIREMENTS = 3"
definition MAX_RULES :: nat where "MAX_RULES = 4"
definition MAX_REQUIREMENT_WORDS :: nat where "MAX_REQUIREMENT_WORDS = 120"

subsection \<open>One requirement\<close>

definition req_prose :: "row list \<Rightarrow> string list" where
  "req_prose rs =
     filter (\<lambda>l. \<not> prefix ''<!--'' (lstrip l)) (open_lines (takeWhile (\<lambda>r. scenario_row r = None) rs))"

definition size_findings :: "string \<Rightarrow> string option \<Rightarrow> nat \<Rightarrow> row list \<Rightarrow> finding list" where
  "size_findings path cap n rs =
     (let prose = req_prose rs in
      if MAX_RULES < sum_list (map rule_count prose)
      then [finding_of Warning ''requirement-bundles-rules'' path cap n]
      else warn_if (MAX_REQUIREMENT_WORDS < sum_list (map word_count prose)) ''requirement-too-wordy'' path cap n)"

definition scenario_ok :: "row list \<Rightarrow> bool" where
  "scenario_ok rs \<longleftrightarrow> list_ex is_when (open_lines rs) \<and> list_ex is_then (open_lines rs)"

definition scenario_findings :: "string \<Rightarrow> string option \<Rightarrow> row list \<Rightarrow> finding list" where
  "scenario_findings path cap rs =
     map (\<lambda>sc. finding_of Error ''scenario-missing-half'' path cap (fst sc))
       (filter (\<lambda>sc. \<not> scenario_ok (snd sc)) (scenario_chunks rs))"

text \<open>The file marker on top of a requirement, with its line; the other two markers may stand above it.\<close>

fun find_touches :: "row list \<Rightarrow> (nat \<times> string list) option" where
  "find_touches [] = None"
| "find_touches (r # rs) =
     (let l = snd (snd r) in
      if strip l = [] then find_touches rs
      else case marker_value ''touches'' l of
          Some v \<Rightarrow> Some (fst r, split_globs v)
        | None \<Rightarrow>
            (if marker_value ''adopted'' l \<noteq> None \<or> marker_value ''aligns'' l \<noteq> None then find_touches rs else None))"

text \<open>
  The project a check runs in: the paths git lists, the files on disk, and the names in a directory.
\<close>

record repo =
  tracked :: "string list"
  on_disk :: files
  listing :: "string \<Rightarrow> string list option"

definition ancestors :: "string \<Rightarrow> string list" where
  "ancestors f = (let parts = split_on (CHR ''/'') f in map (\<lambda>i. join ''/'' (take i parts)) [1..<length parts])"

definition repo_paths :: "repo \<Rightarrow> string list" where
  "repo_paths rp = sort (remdups (tracked rp @ concat (map ancestors (tracked rp))))"

definition glob_matches_anything :: "repo \<Rightarrow> string \<Rightarrow> bool" where
  "glob_matches_anything rp pat \<longleftrightarrow> list_ex (gmatch (compile_glob (posix pat))) (repo_paths rp)"

definition marker_findings :: "repo option \<Rightarrow> string \<Rightarrow> string option \<Rightarrow> row list \<Rightarrow> finding list" where
  "marker_findings ro path cap rs =
     (case (ro, find_touches rs) of
        (Some rp, Some (n, globs)) \<Rightarrow>
          warn_if (globs \<noteq> [] \<and> \<not> list_ex (glob_matches_anything rp) globs) ''unmatched-touches-glob'' path cap n
      | _ \<Rightarrow> [])"

definition requirement_findings ::
  "repo option \<Rightarrow> string \<Rightarrow> string option \<Rightarrow> bool \<Rightarrow> nat \<times> row list \<Rightarrow> finding list" where
  "requirement_findings ro path cap again c =
     (let (n, rs) = c in
      (if again then [finding_of Error ''duplicate-requirement'' path cap n] else [])
      @ warn_if (scenario_chunks rs = []) ''requirement-without-scenario'' path cap n
      @ size_findings path cap n rs
      @ scenario_findings path cap rs
      @ marker_findings ro path cap rs)"

fun check_requirements ::
  "repo option \<Rightarrow> string \<Rightarrow> string option \<Rightarrow> string list \<Rightarrow> ((nat \<times> string) \<times> row list) list \<Rightarrow> finding list" where
  "check_requirements ro path cap seen [] = []"
| "check_requirements ro path cap seen (((n, h), rs) # cs) =
     requirement_findings ro path cap (h \<in> set seen) (n, rs) @ check_requirements ro path cap (h # seen) cs"

subsection \<open>The capability around a spec\<close>

definition registry_of :: "repo \<Rightarrow> living" where
  "registry_of rp = fst (resolve_living_specs (on_disk rp))"

definition capability_claims :: "repo \<Rightarrow> string \<Rightarrow> capability option" where
  "capability_claims rp name = List.find (\<lambda>c. cap_name c = name) (capabilities (registry_of rp))"

definition claimed_globs :: "repo \<Rightarrow> string \<Rightarrow> string list" where
  "claimed_globs rp name = (case capability_claims rp name of None \<Rightarrow> [] | Some c \<Rightarrow> cap_match c)"

definition reaches :: "string \<Rightarrow> string \<Rightarrow> bool" where
  "reaches pat f \<longleftrightarrow> posix (strip pat) \<noteq> [] \<and> glob_matches (posix (strip pat)) f"

definition files_for :: "string list \<Rightarrow> string \<Rightarrow> string list" where
  "files_for paths pat = filter (reaches pat) paths"

definition only_files :: "repo \<Rightarrow> string list \<Rightarrow> string list" where
  "only_files rp paths = filter (\<lambda>p. on_disk rp p \<noteq> None) paths"

definition shares_membership :: "repo \<Rightarrow> string \<Rightarrow> string list \<Rightarrow> bool" where
  "shares_membership rp name globs \<longleftrightarrow>
     list_ex (\<lambda>c. cap_name c \<noteq> name \<and> list_ex (\<lambda>g. strip g \<in> strip ` set globs) (cap_match c)) (capabilities (registry_of rp))"

definition claimed_files :: "repo \<Rightarrow> string \<Rightarrow> string list" where
  "claimed_files rp name =
     (case capability_claims rp name of
        None \<Rightarrow> []
      | Some c \<Rightarrow>
          only_files rp (filter (\<lambda>f. list_ex (\<lambda>g. reaches g f) (cap_match c)
              \<and> \<not> list_ex (\<lambda>g. reaches g f) (cap_exclude c @ exempt (registry_of rp))) (repo_paths rp)))"

text \<open>
  \<open>cited\<close> are the globs of the markers with their lines; \<open>unmarked\<close> says that some requirement has
  none.
\<close>

definition membership_findings ::
  "repo \<Rightarrow> string \<Rightarrow> string \<Rightarrow> (string \<times> nat) list \<Rightarrow> bool \<Rightarrow> finding list" where
  "membership_findings rp path name cited unmarked =
     (let globs = claimed_globs rp name;
          paths = (if globs = [] then [] else repo_paths rp);
          claimed = claimed_files rp name;
          real = filter (\<lambda>(g, n). files_for paths g \<noteq> []) cited;
          orphaned = filter (\<lambda>(g, n). \<not> list_ex (reaches g) claimed) real;
          dark = (if shares_membership rp name globs then []
                  else filter (\<lambda>g. list_ex (\<lambda>f. reaches g f \<and> \<not> list_ex (\<lambda>(c, n). reaches c f) real) claimed) globs)
      in if claimed = [] \<or> real = [] then []
         else (if orphaned \<noteq> [] \<and> length orphaned = length real
               then [finding_of Warning ''requirements-outside-capability'' path (Some name) (snd (hd orphaned))] else [])
              @ warn_if (\<not> unmarked \<and> dark \<noteq> [] \<and> length dark < length globs)
                  ''capability-claims-undescribed-code'' path (Some name) 1)"

definition spec_membership ::
  "repo option \<Rightarrow> string \<Rightarrow> string option \<Rightarrow> ((nat \<times> string) \<times> row list) list \<Rightarrow> finding list" where
  "spec_membership ro path cap cs =
     (case (ro, cap) of
        (Some rp, Some name) \<Rightarrow>
          (let marks = map (\<lambda>c. find_touches (snd c)) cs;
               cited = concat (map (\<lambda>m. case m of None \<Rightarrow> [] | Some (n, globs) \<Rightarrow> map (\<lambda>g. (g, n)) globs) marks)
           in if name = [] \<or> cited = [] then []
              else membership_findings rp path name cited (None \<in> set marks))
      | _ \<Rightarrow> [])"

subsection \<open>The spec as a whole\<close>

definition has_sibling_spec :: "repo \<Rightarrow> string \<Rightarrow> bool" where
  "has_sibling_spec rp path =
     (case listing rp (dirname path) of
        None \<Rightarrow> False
      | Some names \<Rightarrow>
          list_ex (\<lambda>n. n \<noteq> last (split_on (CHR ''/'') path) \<and> suffix ''.spec.md'' n) names)"

definition draft_banner :: "string list \<Rightarrow> bool" where
  "draft_banner ls \<longleftrightarrow> list_ex (\<lambda>l. prefix ''> [DRAFT]'' l \<and> cut_at ''Adopted from'' l \<noteq> None) (take 6 ls)"

definition is_reviewed :: "string list \<Rightarrow> bool" where
  "is_reviewed ls \<longleftrightarrow> list_ex (\<lambda>l. prefix ''<!--'' l \<and> prefix ''reviewed:'' (lstrip (drop 4 l))) ls"

definition marker_glob_in :: "string \<Rightarrow> string list \<Rightarrow> bool" where
  "marker_glob_in l globs =
     (case marker_value ''touches'' l of
        None \<Rightarrow> False | Some v \<Rightarrow> list_ex (\<lambda>g. strip g \<in> set globs) (split_on (CHR '','') v))"

definition boundary_scoped :: "string list \<Rightarrow> string list \<Rightarrow> bool" where
  "boundary_scoped ls globs \<longleftrightarrow>
     list_ex (\<lambda>(r, below). req_row r \<noteq> None \<and> marker_glob_in below globs) (zip (rows_of ls) (drop 1 ls @ [[]]))"

definition spec_findings :: "repo \<Rightarrow> string \<Rightarrow> string option \<Rightarrow> string list \<Rightarrow> nat \<Rightarrow> finding list" where
  "spec_findings rp path cap ls reqs =
     (let banner = draft_banner ls;
          globs = (case cap of None \<Rightarrow> [] | Some name \<Rightarrow> if name = [] then [] else claimed_globs rp name)
      in warn_if (0 < reqs \<and> reqs < MIN_REQUIREMENTS \<and> has_sibling_spec rp path) ''spec-too-thin'' path cap 1
         @ warn_if (banner \<and> 0 < reqs \<and> \<not> list_ex (\<lambda>l. marker_value ''adopted'' l \<noteq> None) ls) ''draft-banner-stale'' path cap 1
         @ warn_if (0 < reqs \<and> \<not> banner \<and> \<not> is_reviewed ls \<and> is_draft ls) ''draft-unreviewed'' path cap 1
         @ warn_if (banner \<and> 0 < reqs \<and> (suffix ''.rules.md'' path \<or> suffix ''.arch.md'' path)
                    \<and> globs \<noteq> [] \<and> \<not> boundary_scoped ls globs) ''draft-without-boundary-rule'' path cap 1
         @ warn_if (MAX_LINES < length ls) ''spec-too-large'' path cap 1)"

text \<open>The order of a report: by line, then by code, ties as they were found.\<close>

definition by_line :: "finding \<Rightarrow> nat \<times> string" where
  "by_line f = (f_line f, f_code f)"

definition shift :: "nat \<Rightarrow> finding \<Rightarrow> finding" where
  "shift k f = f\<lparr>f_line := f_line f + k\<rparr>"

definition check_living_spec :: "string \<Rightarrow> string \<Rightarrow> repo option \<Rightarrow> string option \<Rightarrow> nat \<Rightarrow> finding list" where
  "check_living_spec text path ro cap offset =
     (let ls = splitlines text; cs = requirement_chunks (rows_of ls);
          reqs = length (filter (\<lambda>r. req_row r \<noteq> None) (rows_of ls))
      in sort_key by_line (map (shift offset)
           (check_requirements ro path cap [] cs
            @ spec_membership ro path cap cs
            @ (case ro of None \<Rightarrow> [] | Some rp \<Rightarrow> spec_findings rp path cap ls reqs)
            @ warn_if (\<not> fences_are_balanced text) ''unbalanced-fence'' path cap 1)))"

subsection \<open>The deltas of a feature\<close>

record delta_block =
  b_verb :: verb
  b_capability :: "string option"
  b_marker_line :: nat
  b_start :: nat
  b_stop :: nat
  b_heads :: "(string \<times> nat) list"

definition open_block :: "verb \<Rightarrow> nat \<Rightarrow> delta_block" where
  "open_block v n =
     \<lparr>b_verb = v, b_capability = None, b_marker_line = n, b_start = n, b_stop = n, b_heads = []\<rparr>"

definition close_block :: "nat \<Rightarrow> delta_block option \<Rightarrow> delta_block list" where
  "close_block i cur = (case cur of None \<Rightarrow> [] | Some b \<Rightarrow> [b\<lparr>b_stop := i\<rparr>])"

text \<open>
  \<open>^\s*<!--\s*capability:\s*([^\s>]+)\s*-->\s*$\<close>, ignoring case; as in \<open>Deltas.cap_marker_at\<close> the name
  gives back the dashes of the closing.
\<close>

definition cap_marker_line :: "string \<Rightarrow> string option" where
  "cap_marker_line l =
     (let t = lstrip (drop 4 (lstrip l)); u = lstrip (drop 11 t);
          r = takeWhile (\<lambda>c. \<not> is_space c \<and> c \<noteq> CHR ''>'') u; v = drop (length r) u
      in if \<not> prefix ''<!--'' (lstrip l) \<or> \<not> prefix ''capability:'' (lower t) \<or> r = [] then None
         else if strip v = ''-->'' then Some r
         else if suffix ''--'' r \<and> 2 < length r \<and> rstrip v = ''>'' then Some (take (length r - 2) r)
         else None)"

fun delta_blocks_from :: "nat \<Rightarrow> delta_block option \<Rightarrow> row list \<Rightarrow> delta_block list" where
  "delta_blocks_from len cur [] = close_block len cur"
| "delta_blocks_from len cur (r # rs) =
     (case open_text r of
        None \<Rightarrow> delta_blocks_from len cur rs
      | Some l \<Rightarrow>
          (case delta_header l of
             Some v \<Rightarrow> close_block (fst r - 1) cur @ delta_blocks_from len (Some (open_block v (fst r))) rs
           | None \<Rightarrow>
               (case cur of
                  None \<Rightarrow> delta_blocks_from len None rs
                | Some b \<Rightarrow>
                    (if is_section l then close_block (fst r - 1) cur @ delta_blocks_from len None rs
                     else case cap_marker_line l of
                         Some c \<Rightarrow> delta_blocks_from len (Some (b\<lparr>b_capability := Some c, b_marker_line := fst r\<rparr>)) rs
                       | None \<Rightarrow>
                           (case req_group l of
                              Some h \<Rightarrow> delta_blocks_from len (Some (b\<lparr>b_heads := b_heads b @ [(h, fst r)]\<rparr>)) rs
                            | None \<Rightarrow> delta_blocks_from len cur rs)))))"

definition delta_blocks :: "string \<Rightarrow> delta_block list" where
  "delta_blocks text = (let ls = splitlines text in delta_blocks_from (length ls) None (rows_of ls))"

subsection \<open>Headings that restate one another\<close>

definition STOP_WORDS :: "string list" where
  "STOP_WORDS = [''a'', ''an'', ''the'', ''is'', ''are'', ''to'', ''of'', ''and'', ''or'', ''in'', ''on'', ''for'', ''with'',
     ''its'', ''it'', ''their'', ''this'', ''that'']"

text \<open>\<open>re.sub(r"(ing|ed|es|e|s|d)$", "", w)\<close>: the ending that begins first.\<close>

definition stem :: "string \<Rightarrow> string" where
  "stem w =
     (if length w \<le> 3 then w
      else case List.find (\<lambda>e. suffix e w) [''ing'', ''ed'', ''es'', ''e'', ''s'', ''d''] of
          None \<Rightarrow> w | Some e \<Rightarrow> take (length w - length e) w)"

definition is_key_char :: "char \<Rightarrow> bool" where
  "is_key_char c = (let n = (of_char c :: nat) in (48 \<le> n \<and> n \<le> 57) \<or> (97 \<le> n \<and> n \<le> 122))"

definition heading_words :: "string \<Rightarrow> string list" where
  "heading_words h = remdups (map stem (filter (\<lambda>w. w \<notin> set STOP_WORDS) (runs is_key_char [] (lower h))))"

definition restates :: "string \<Rightarrow> string \<Rightarrow> bool" where
  "restates h other =
     (let mine = heading_words h; theirs = heading_words other;
          both = length (filter (\<lambda>w. w \<in> set theirs) mine); all = length mine + length theirs - both
      in other \<noteq> h \<and> mine \<noteq> [] \<and> theirs \<noteq> [] \<and>
         (3 * all \<le> 5 * both \<or> (3 \<le> min (length mine) (length theirs) \<and> (both = length mine \<or> both = length theirs))))"

definition near_heading :: "string \<Rightarrow> string list \<Rightarrow> bool" where
  "near_heading h present \<longleftrightarrow> list_ex (restates h) present"

text \<open>\<open>\s*\[inferred\]\s*\<close> replaced by one blank, and the result stripped.\<close>

function sub_inferred :: "string \<Rightarrow> string" where
  "sub_inferred [] = []"
| "sub_inferred (c # cs) =
     (let t = lstrip (c # cs) in
      if prefix ''[inferred]'' (lower t) then '' '' @ sub_inferred (lstrip (drop 10 t)) else c # sub_inferred cs)"
  by pat_completeness auto
termination
proof (relation "measure length")
  fix c :: char and cs t
  assume t: "t = lstrip (c # cs)" and p: "prefix ''[inferred]'' (lower t)"
  have "t \<noteq> []" using p by (auto simp: lower_def)
  then have "length (lstrip (drop 10 t)) < length t"
    using length_dropWhile_le [of is_space "drop 10 t"] by (cases t) (auto simp: lstrip_def)
  moreover have "length t \<le> length (c # cs)" unfolding t lstrip_def by (rule length_dropWhile_le)
  ultimately show "(lstrip (drop 10 t), c # cs) \<in> measure length" by simp
qed simp_all

definition requirement_key :: "string \<Rightarrow> string" where
  "requirement_key h = strip (sub_inferred h)"

definition requirement_headings :: "string \<Rightarrow> (string \<times> nat) list" where
  "requirement_headings text =
     map (\<lambda>(n, h). (h, n)) (List.map_filter req_row (rows_of (splitlines text)))"

subsection \<open>The check of the deltas\<close>

definition block_text :: "string \<Rightarrow> delta_block \<Rightarrow> string" where
  "block_text text b = join nl (drop (b_start b) (take (b_stop b) (splitlines text)))"

definition target_findings :: "string \<Rightarrow> string \<Rightarrow> string list \<Rightarrow> string \<Rightarrow> delta_block \<Rightarrow> finding list" where
  "target_findings path cap removed target b =
     (let present = map fst (requirement_headings target) in
      case b_verb b of
        Added \<Rightarrow> concat (map (\<lambda>(h, n). warn_if (near_heading h present) ''added-heading-near-existing'' path (Some cap) n) (b_heads b))
      | Renamed \<Rightarrow> []
      | _ \<Rightarrow> concat (map (\<lambda>(h, n). warn_if (h \<notin> set present \<and> requirement_key h \<notin> requirement_key ` set removed)
                                     ''delta-heading-not-found'' path (Some cap) n) (b_heads b)))"

definition block_findings ::
  "string \<Rightarrow> string \<Rightarrow> string list \<Rightarrow> (string \<Rightarrow> string option) \<Rightarrow> string option \<Rightarrow> (string \<Rightarrow> string list)
     \<Rightarrow> delta_block \<Rightarrow> finding list" where
  "block_findings text path known texts dflt removed b =
     (let cap = (case b_capability b of Some c \<Rightarrow> Some c | None \<Rightarrow> dflt) in
      case cap of
        None \<Rightarrow>
          (if b_verb b = Added \<or> b_verb b = Modified
           then check_living_spec (block_text text b) path None None (b_start b) else [])
      | Some c \<Rightarrow>
          (if c \<noteq> [] \<and> c \<notin> set known then [finding_of Error ''unknown-capability'' path (Some c) (b_marker_line b)]
           else (if b_verb b = Added \<or> b_verb b = Modified
                 then check_living_spec (block_text text b) path None (Some c) (b_start b) else [])
                @ (case (if c = [] then None else texts c) of
                     None \<Rightarrow> [] | Some target \<Rightarrow> target_findings path c (removed c) target b)))"

definition check_feature_deltas ::
  "string \<Rightarrow> string \<Rightarrow> string list \<Rightarrow> (string \<Rightarrow> string option) \<Rightarrow> string option \<Rightarrow> (string \<Rightarrow> string list)
     \<Rightarrow> finding list" where
  "check_feature_deltas text path known texts dflt removed =
     sort_key by_line (concat (map (block_findings text path known texts dflt removed) (delta_blocks text)))"

end
