(* ===== verification/ShapeFacts.thy ===== *)
theory ShapeFacts
  imports ShapeCheck
begin

text \<open>
  What the shape check promises: an error exactly where a heading is repeated or a scenario lacks a
  half, and findings that point into the document.
\<close>

subsection \<open>Rows and chunks\<close>

lemma map_filter_dropWhile:
  "(\<And>r. opens r \<noteq> None \<Longrightarrow> stops r) \<Longrightarrow>
   List.map_filter opens (dropWhile (\<lambda>x. \<not> stops x) rs) = List.map_filter opens rs"
  by (induction rs) (auto simp: List.map_filter_def)

lemma chunks_heads:
  "(\<And>r. opens r \<noteq> None \<Longrightarrow> stops r) \<Longrightarrow> map fst (chunks opens stops rs) = List.map_filter opens rs"
proof (induction opens stops rs rule: chunks.induct)
  case (2 opens stops r rs)
  then show ?case
    using map_filter_dropWhile [of opens stops rs] by (cases "opens r") (auto simp: List.map_filter_def)
qed (simp add: List.map_filter_def)

lemma chunks_rows:
  "(h, part) \<in> set (chunks opens stops rs) \<Longrightarrow> set part \<subseteq> set rs \<and> (\<exists>r \<in> set rs. opens r = Some h)"
proof (induction opens stops rs rule: chunks.induct)
  case (2 opens stops r rs)
  have sub: "set (dropWhile P rs) \<subseteq> set rs" "set (takeWhile P rs) \<subseteq> set rs" for P
    by (auto dest: set_takeWhileD set_dropWhileD)
  show ?case
  proof (cases "opens r")
    case None
    then show ?thesis using 2 by auto
  next
    case (Some h')
    then show ?thesis using 2(2) [OF Some] 2(3) sub by fastforce
  qed
qed simp

lemma rows_of_snd: "map snd (rows_of ls) = flagged ls"
  by (simp add: rows_of_def flagged_def del: upt_Suc)

lemma rows_of_line: "r \<in> set (rows_of ls) \<Longrightarrow> 1 \<le> fst r \<and> fst r \<le> length ls"
  by (cases r) (auto simp: rows_of_def simp del: upt_Suc dest!: set_zip_leftD)

lemma req_row_line: "req_row r = Some (n, h) \<Longrightarrow> n = fst r"
  by (auto simp: req_row_def split: option.splits)

lemma scenario_row_line: "scenario_row r = Some n \<Longrightarrow> n = fst r"
  by (auto simp: scenario_row_def split: option.splits if_splits)

lemma req_row_heading:
  "map_option snd (req_row r) = (if fst (snd r) then None else req_group (snd (snd r)))"
  by (simp add: req_row_def open_text_def option.map_comp o_def option.map_ident)

text \<open>The check counts the requirements that the slicer counts.\<close>

lemma map_filter_map_option: "map g (List.map_filter f xs) = List.map_filter (\<lambda>x. map_option g (f x)) xs"
  by (induction xs) (auto simp: List.map_filter_def)

lemma map_filter_map: "List.map_filter f (map g xs) = List.map_filter (\<lambda>x. f (g x)) xs"
  by (induction xs) (auto simp: List.map_filter_def)

lemma chunk_headings:
  "map (snd \<circ> fst) (requirement_chunks (rows_of (splitlines text))) = map heading (requirement_slices text)"
proof -
  let ?rows = "rows_of (splitlines text)"
  have "map (snd \<circ> fst) (requirement_chunks ?rows) = map snd (List.map_filter req_row ?rows)"
    unfolding requirement_chunks_def map_map [symmetric] using chunks_heads [of req_row stops_requirement]
    by (simp add: stops_requirement_def)
  also have "\<dots> = List.map_filter (\<lambda>p. if fst p then None else req_group (snd p)) (map snd ?rows)"
    by (simp only: map_filter_map_option map_filter_map req_row_heading)
  finally show ?thesis by (simp only: rows_of_snd requirement_slices_def slices_headings)
qed

subsection \<open>Errors\<close>

definition warnings_only :: "finding list \<Rightarrow> bool" where
  "warnings_only fs \<longleftrightarrow> (\<forall>f \<in> set fs. f_severity f = Warning)"

lemma warnings_only_simps [simp]:
  "warnings_only []" "warnings_only (f # fs) \<longleftrightarrow> f_severity f = Warning \<and> warnings_only fs"
  "warnings_only (fs @ gs) \<longleftrightarrow> warnings_only fs \<and> warnings_only gs"
  "warnings_only (sort_key k fs) = warnings_only fs" "warnings_only (map (shift j) fs) = warnings_only fs"
  "warnings_only (warn_if b code path cap n)"
  by (auto simp: warnings_only_def warn_if_def finding_of_def shift_def)

lemma finding_of_severity [simp]: "f_severity (finding_of sev code path cap n) = sev"
  by (simp add: finding_of_def)

lemma finding_of_line [simp]: "f_line (finding_of sev code path cap n) = n"
  by (simp add: finding_of_def)

definition scenarios_full :: "row list \<Rightarrow> bool" where
  "scenarios_full rs \<longleftrightarrow> (\<forall>sc \<in> set (scenario_chunks rs). scenario_ok (snd sc))"

lemma scenario_findings_warnings: "warnings_only (scenario_findings path cap rs) = scenarios_full rs"
  by (auto simp: warnings_only_def scenario_findings_def scenarios_full_def)

lemma marker_findings_warnings: "warnings_only (marker_findings ro path cap rs)"
  by (simp add: marker_findings_def split: option.split prod.split)

lemma requirement_findings_warnings:
  "warnings_only (requirement_findings ro path cap again (n, rs)) \<longleftrightarrow> \<not> again \<and> scenarios_full rs"
  by (simp add: requirement_findings_def size_findings_def Let_def scenario_findings_warnings marker_findings_warnings)

lemma check_requirements_warnings:
  "warnings_only (check_requirements ro path cap seen cs) \<longleftrightarrow>
     distinct (map (snd \<circ> fst) cs) \<and> set (map (snd \<circ> fst) cs) \<inter> set seen = {} \<and> (\<forall>c \<in> set cs. scenarios_full (snd c))"
  by (induction ro path cap seen cs rule: check_requirements.induct) (auto simp: requirement_findings_warnings)

lemma membership_warnings: "warnings_only (spec_membership ro path cap cs)"
  by (simp add: spec_membership_def membership_findings_def Let_def split: option.split)

lemma spec_findings_warnings: "warnings_only (spec_findings rp path cap ls reqs)"
  by (simp add: spec_findings_def Let_def)

text \<open>A text is sound when its headings are distinct and its scenarios have both halves.\<close>

definition sound_text :: "string \<Rightarrow> bool" where
  "sound_text text \<longleftrightarrow>
     distinct (map heading (requirement_slices text)) \<and>
     (\<forall>c \<in> set (requirement_chunks (rows_of (splitlines text))). scenarios_full (snd c))"

lemma check_living_spec_warnings: "warnings_only (check_living_spec text path ro cap k) = sound_text text"
  by (simp add: check_living_spec_def Let_def check_requirements_warnings membership_warnings spec_findings_warnings
      sound_text_def chunk_headings split: option.split)

subsection \<open>Lines\<close>

definition lines_in :: "nat set \<Rightarrow> finding list \<Rightarrow> bool" where
  "lines_in N fs \<longleftrightarrow> (\<forall>f \<in> set fs. f_line f \<in> N)"

lemma lines_in_simps [simp]:
  "lines_in N []" "lines_in N (f # fs) \<longleftrightarrow> f_line f \<in> N \<and> lines_in N fs"
  "lines_in N (fs @ gs) \<longleftrightarrow> lines_in N fs \<and> lines_in N gs"
  "lines_in N (sort_key k fs) = lines_in N fs" "lines_in N (map (shift j) fs) = lines_in {n. n + j \<in> N} fs"
  "lines_in N (warn_if b code path cap n) \<longleftrightarrow> (b \<longrightarrow> n \<in> N)"
  "lines_in N (concat fss) \<longleftrightarrow> (\<forall>fs \<in> set fss. lines_in N fs)"
  by (auto simp: lines_in_def warn_if_def shift_def)

lemma find_touches_line: "find_touches rs = Some (n, globs) \<Longrightarrow> n \<in> fst ` set rs"
  by (induction rs) (auto simp: Let_def split: if_splits option.splits)

lemma scenario_findings_lines: "fst ` set rs \<subseteq> N \<Longrightarrow> lines_in N (scenario_findings path cap rs)"
proof -
  assume N: "fst ` set rs \<subseteq> N"
  have "n \<in> N" if sc: "(n, part) \<in> set (scenario_chunks rs)" for n part
  proof -
    obtain r where "r \<in> set rs" "scenario_row r = Some n" using chunks_rows [OF sc [unfolded scenario_chunks_def]] by blast
    then show ?thesis using N scenario_row_line by blast
  qed
  then show ?thesis by (auto simp: lines_in_def scenario_findings_def)
qed

lemma check_requirements_lines:
  "\<forall>c \<in> set cs. fst (fst c) \<in> N \<and> fst ` set (snd c) \<subseteq> N \<Longrightarrow> lines_in N (check_requirements ro path cap seen cs)"
proof (induction ro path cap seen cs rule: check_requirements.induct)
  case (2 ro path cap seen n h rs cs)
  then have "n \<in> N" "fst ` set rs \<subseteq> N" by auto
  then have "lines_in N (requirement_findings ro path cap again (n, rs))" for again
    using scenario_findings_lines [of rs N] find_touches_line [of rs]
    by (auto simp: requirement_findings_def size_findings_def Let_def marker_findings_def split: option.split prod.split)
  then show ?case using 2 by simp
qed simp

lemma chunk_lines:
  assumes "c \<in> set (requirement_chunks (rows_of ls))"
  shows "fst (fst c) \<in> {1..length ls}" and "fst ` set (snd c) \<subseteq> {1..length ls}"
proof -
  obtain n h part where c: "c = ((n, h), part)" by (cases c) auto
  then have *: "set part \<subseteq> set (rows_of ls) \<and> (\<exists>r \<in> set (rows_of ls). req_row r = Some (n, h))"
    using assms by (auto simp: requirement_chunks_def dest: chunks_rows)
  then show "fst (fst c) \<in> {1..length ls}" using c rows_of_line req_row_line by fastforce
  show "fst ` set (snd c) \<subseteq> {1..length ls}" using c * rows_of_line by fastforce
qed

lemma membership_findings_lines:
  assumes cited: "snd ` set cited \<subseteq> N" and one: "1 \<in> N"
  shows "lines_in N (membership_findings rp path name cited unmarked)"
proof -
  have "snd (hd (filter P (filter Q cited))) \<in> N" if "filter P (filter Q cited) \<noteq> []" for P Q
  proof -
    have "hd (filter P (filter Q cited)) \<in> set cited" using hd_in_set [OF that] by simp
    then show ?thesis using cited by blast
  qed
  then show ?thesis using one unfolding membership_findings_def Let_def by simp
qed

lemma spec_membership_lines:
  assumes rows: "\<forall>c \<in> set cs. fst ` set (snd c) \<subseteq> N" and one: "cs \<noteq> [] \<Longrightarrow> 1 \<in> N"
  shows "lines_in N (spec_membership ro path cap cs)"
proof (cases "\<exists>rp name. ro = Some rp \<and> cap = Some name")
  case True
  then obtain rp name where rn: "ro = Some rp" "cap = Some name" by blast
  define cited where "cited = concat (map (\<lambda>m. case m of None \<Rightarrow> [] | Some (n, globs) \<Rightarrow> map (\<lambda>g. (g, n)) globs)
    (map (\<lambda>c. find_touches (snd c)) cs))"
  have "snd x \<in> N" if x: "x \<in> set cited" for x
  proof -
    obtain c n globs where "c \<in> set cs" "find_touches (snd c) = Some (n, globs)" "snd x = n"
      using x unfolding cited_def by (auto split: option.splits) (metis snd_conv)
    then show ?thesis using rows find_touches_line by blast
  qed
  then have sub: "snd ` set cited \<subseteq> N" by blast
  show ?thesis
  proof (cases "name = [] \<or> cited = []")
    case False
    then have "1 \<in> N" using one by (cases cs) (auto simp: cited_def)
    then show ?thesis using False membership_findings_lines [OF sub]
      unfolding spec_membership_def rn prod.case option.case Let_def cited_def [symmetric] by simp
  qed (auto simp: spec_membership_def rn Let_def cited_def)
qed (auto simp: spec_membership_def split: option.split)

lemma spec_findings_lines: "(0 < reqs \<or> MAX_LINES < length ls \<Longrightarrow> 1 \<in> N) \<Longrightarrow> lines_in N (spec_findings rp path cap ls reqs)"
  by (auto simp: spec_findings_def Let_def)

lemma check_living_spec_lines: "lines_in {k + 1..k + length (splitlines text)} (check_living_spec text path ro cap k)"
proof -
  let ?ls = "splitlines text" and ?N = "{1..length (splitlines text)}"
  let ?cs = "requirement_chunks (rows_of ?ls)" and ?reqs = "length (filter (\<lambda>r. req_row r \<noteq> None) (rows_of ?ls))"
  have shift: "{n. n + k \<in> {k + 1..k + length ?ls}} = ?N" by (auto simp: set_eq_iff)
  have empty: "?ls = [] \<Longrightarrow> rows_of ?ls = [] \<and> ?cs = [] \<and> fences_are_balanced text"
    by (simp add: rows_of_def fences_are_balanced_def requirement_chunks_def)
  have one: "?ls \<noteq> [] \<Longrightarrow> 1 \<in> ?N" by (cases ?ls) auto
  have big: "0 < ?reqs \<or> MAX_LINES < length ?ls \<Longrightarrow> 1 \<in> ?N"
    using one empty by (cases "?ls = []") simp_all
  have "lines_in ?N (check_requirements ro path cap [] ?cs)" using chunk_lines by (intro check_requirements_lines) blast
  moreover have "lines_in ?N (spec_membership ro path cap ?cs)"
    using chunk_lines(2) one empty by (intro spec_membership_lines) blast+
  moreover have "lines_in ?N (spec_findings rp path cap ?ls ?reqs)" for rp
    using big by (rule spec_findings_lines)
  moreover have "lines_in ?N (warn_if (\<not> fences_are_balanced text) c path cap 1)" for c
    using one empty by (cases "?ls = []") simp_all
  ultimately show ?thesis
    unfolding check_living_spec_def Let_def lines_in_simps(4,5) shift lines_in_simps(3)
    by (cases ro) (simp_all only: option.case lines_in_simps(1))
qed

subsection \<open>Delta blocks\<close>

definition inside :: "nat \<Rightarrow> delta_block \<Rightarrow> bool" where
  "inside len b \<longleftrightarrow> b_marker_line b \<in> {1..len} \<and> snd ` set (b_heads b) \<subseteq> {1..len}"

definition within :: "nat \<Rightarrow> delta_block \<Rightarrow> bool" where
  "within len b \<longleftrightarrow> inside len b \<and> b_stop b \<le> len"

lemma close_block_within:
  "pred_option (inside len) cur \<Longrightarrow> i \<le> len \<Longrightarrow> list_all (within len) (close_block i cur)"
  by (cases cur) (simp_all add: close_block_def inside_def within_def)

lemma delta_blocks_from_within:
  "\<forall>r \<in> set rs. fst r \<in> {1..len} \<Longrightarrow> pred_option (inside len) cur \<Longrightarrow> list_all (within len) (delta_blocks_from len cur rs)"
proof (induction rs arbitrary: cur)
  case Nil
  then show ?case by (simp add: close_block_within)
next
  case (Cons r rs)
  have r: "fst r \<in> {1..len}" and IH: "\<And>cur. pred_option (inside len) cur \<Longrightarrow> list_all (within len) (delta_blocks_from len cur rs)"
    using Cons by simp_all
  have closed: "list_all (within len) (close_block (fst r - 1) cur)"
    using Cons.prems r by (intro close_block_within) auto
  have opened: "inside len (open_block v (fst r))" for v
    using r by (simp add: inside_def open_block_def)
  have changed: "inside len (c\<lparr>b_capability := m, b_marker_line := fst r\<rparr>)"
    "inside len (c\<lparr>b_heads := b_heads c @ [(h, fst r)]\<rparr>)" if "inside len c" for c m h
    using that r by (simp_all add: inside_def)
  show ?case
    using Cons.prems(2) closed opened changed IH [of None] IH [of cur] IH [of "Some _"]
    by (cases cur) (simp_all split: option.split)
qed

lemma rows_in: "\<forall>r \<in> set (rows_of ls). fst r \<in> {1..length ls}"
  using rows_of_line by auto

lemma delta_blocks_within: "b \<in> set (delta_blocks text) \<Longrightarrow> within (length (splitlines text)) b"
  using delta_blocks_from_within [where cur = None, OF rows_in] by (simp add: delta_blocks_def Let_def list_all_iff)

lemma block_text_lines: "b_start b + length (splitlines (block_text text b)) \<le> max (b_start b) (b_stop b)"
proof -
  let ?ls = "drop (b_start b) (take (b_stop b) (splitlines text))"
  have "\<forall>l \<in> set ?ls. clean_line l" using clean_line_splitlines by (meson in_set_dropD in_set_takeD)
  then have "length (splitlines (block_text text b)) \<le> length ?ls"
    unfolding block_text_def by (auto simp: splitlines_join)
  then show ?thesis by simp
qed

lemma target_findings_lines:
  "inside len b \<Longrightarrow> lines_in {1..len} (target_findings path cap removed target b)"
  by (auto simp: inside_def target_findings_def Let_def split: verb.split)

lemma block_findings_lines:
  assumes "b \<in> set (delta_blocks text)"
  shows "lines_in {1..length (splitlines text)} (block_findings text path known texts dflt removed b)"
proof -
  let ?N = "{1..length (splitlines text)}"
  have b: "inside (length (splitlines text)) b" "b_stop b \<le> length (splitlines text)"
    using delta_blocks_within [OF assms] by (simp_all add: within_def)
  have shape: "lines_in ?N (check_living_spec (block_text text b) path None cap (b_start b))" for cap
  proof -
    have "f_line f \<in> ?N" if f: "f \<in> set (check_living_spec (block_text text b) path None cap (b_start b))" for f
    proof -
      have "b_start b < f_line f" "f_line f \<le> b_start b + length (splitlines (block_text text b))"
        using check_living_spec_lines [of "b_start b" "block_text text b" path None cap] f by (auto simp: lines_in_def)
      then show ?thesis using block_text_lines [of b "text"] b(2) by auto
    qed
    then show ?thesis by (auto simp: lines_in_def)
  qed
  show ?thesis
    using b(1) shape target_findings_lines [OF b(1)]
    by (auto simp: block_findings_def Let_def inside_def split: option.split)
qed

subsection \<open>Capabilities\<close>

definition about :: "string option \<Rightarrow> finding list \<Rightarrow> bool" where
  "about cap fs \<longleftrightarrow> (\<forall>f \<in> set fs. f_capability f = cap)"

lemma about_simps [simp]:
  "about cap []" "about cap (fs @ gs) \<longleftrightarrow> about cap fs \<and> about cap gs" "about cap (sort_key k fs) = about cap fs"
  "about cap (map (shift j) fs) = about cap fs" "about cap (warn_if b code path cap n)"
  "about cap [finding_of sev code path cap n]"
  by (auto simp: about_def warn_if_def finding_of_def shift_def)

lemma check_requirements_about: "about cap (check_requirements None path cap seen cs)"
proof (induction cs arbitrary: seen)
  case (Cons c cs)
  have "about cap (requirement_findings None path cap again (n, rs))" for again n rs
    by (auto simp: requirement_findings_def size_findings_def Let_def scenario_findings_def marker_findings_def)
      (auto simp: about_def finding_of_def)
  then show ?case using Cons by (cases c) auto
qed simp

lemma check_body_about: "about cap (check_living_spec text path None cap k)"
  by (simp add: check_living_spec_def Let_def check_requirements_about spec_membership_def)

lemma block_findings_sound:
  assumes "(case b_capability b of Some c \<Rightarrow> Some c | None \<Rightarrow> dflt) = Some name"
    and "b_verb b = Added \<or> b_verb b = Modified"
    and "\<And>f. f \<in> set (block_findings text path known texts dflt removed b) \<Longrightarrow> f_severity f = Error \<Longrightarrow> f_capability f \<noteq> Some name"
  shows "sound_text (block_text text b)"
proof -
  let ?fs = "check_living_spec (block_text text b) path None (Some name) (b_start b)"
  have "\<not> (name \<noteq> [] \<and> name \<notin> set known)"
  proof
    assume "name \<noteq> [] \<and> name \<notin> set known"
    then have "finding_of Error ''unknown-capability'' path (Some name) (b_marker_line b)
        \<in> set (block_findings text path known texts dflt removed b)"
      unfolding block_findings_def Let_def assms(1) by simp
    from assms(3) [OF this] show False by (simp add: finding_of_def)
  qed
  then have "set ?fs \<subseteq> set (block_findings text path known texts dflt removed b)"
    unfolding block_findings_def Let_def assms(1) using assms(2) by auto
  then have "f_severity f = Warning" if "f \<in> set ?fs" for f
    using assms(3) [of f] that check_body_about [of "Some name" "block_text text b" path "b_start b"]
    by (cases "f_severity f") (auto simp: about_def)
  then have "warnings_only ?fs" by (simp add: warnings_only_def)
  then show ?thesis by (simp add: check_living_spec_warnings)
qed

section \<open>Properties\<close>

text \<open>C22: A spec passes the check without an error exactly when no two requirements that the slicer sees share a
  heading and every scenario outside a fence has a condition and an outcome; where the check runs,
  for which capability and at which offset makes no difference.\<close>

theorem shape_errors_exactly:
  "list_all (\<lambda>f. f_severity f = Warning) (check_living_spec text path ro cap k) \<longleftrightarrow>
     distinct (map heading (requirement_slices text)) \<and>
     list_all (\<lambda>c. list_all (\<lambda>sc. list_ex is_when (open_lines (snd sc)) \<and> list_ex is_then (open_lines (snd sc)))
                  (scenario_chunks (snd c)))
       (requirement_chunks (rows_of (splitlines text)))"
  using check_living_spec_warnings [of "text" path ro cap k]
  by (simp add: warnings_only_def sound_text_def scenarios_full_def scenario_ok_def list_all_iff)

text \<open>C36: Every finding about a feature's deltas names a line of the feature's spec: never line zero, never past
  the last line, although the body of each block is checked as a document of its own.\<close>

theorem finding_lines_in_document:
  assumes "f \<in> set (check_feature_deltas text path known texts dflt removed)"
  shows "1 \<le> f_line f \<and> f_line f \<le> length (splitlines text)"
proof -
  have "lines_in {1..length (splitlines text)} (check_feature_deltas text path known texts dflt removed)"
    using block_findings_lines by (simp add: check_feature_deltas_def)
  then show ?thesis using assms by (auto simp: lines_in_def)
qed

definition half_doc :: string where
  "half_doc = join nl [''# F'', [], ''## ADDED Requirements'', [], ''### A'', ''rule'', [], ''#### Scenario: s'', ''- WHEN x'', [],
     ''## Next'', ''text'']"

definition half_finding :: finding where
  "half_finding = finding_of Error ''scenario-missing-half'' ''spec.md'' (Some ''app'') 8"

theorem finding_lines_in_document_witness:
  "1 \<le> f_line half_finding \<and> f_line half_finding \<le> length (splitlines half_doc)"
proof (rule finding_lines_in_document)
  have "check_feature_deltas half_doc ''spec.md'' [''app''] (\<lambda>_. None) (Some ''app'') (\<lambda>_. []) = [half_finding]"
    by code_simp
  then show "half_finding \<in> set (check_feature_deltas half_doc ''spec.md'' [''app''] (\<lambda>_. None) (Some ''app'') (\<lambda>_. []))"
    by simp
qed

section \<open>Two readers of one block\<close>

text \<open>
  The parser that feeds the fold does not know fences, the shape check does: a delta block shown inside
  a fence is folded and never checked.
\<close>

definition fenced_doc :: string where
  "fenced_doc = join nl [''# F'', ''~~~'', ''## ADDED Requirements'', ''### A'', ''#### Scenario: s'', ''- WHEN x'', ''~~~'']"

lemma fenced_block_is_parsed_not_checked:
  "map fst (units (parse_spec_deltas fenced_doc) Added) = [''A'']" "delta_blocks fenced_doc = []"
  by code_simp+

text \<open>With two markers in one block the parser routes by the first and the check judges by the last.\<close>

definition two_markers_doc :: string where
  "two_markers_doc = join nl [''## ADDED Requirements'', ''<!-- capability: a -->'', ''<!-- capability: b -->'', ''### A'']"

lemma two_markers_disagree:
  "unit_caps (parse_spec_deltas two_markers_doc) Added = [Some ''a'']"
  "map b_capability (delta_blocks two_markers_doc) = [Some ''b'']"
  by code_simp+

end
