(* ===== verification/FoldRun.thy ===== *)
theory FoldRun
  imports FoldFacts Capture ShapeFacts
begin

text \<open>
  One run of the fold (the rest of \<open>living_spec_fold.py\<close>): which capabilities a feature loaded, skipped
  and synced, the targets of its deltas, and the write of each target's spec.  What comes from outside
  is the record \<open>fold_env\<close>: the files git reports as changed, the tree of the project, the scaffold of
  a spec that does not exist yet and the text of the concern (both hold a dash outside the character
  range).  A write succeeds.
\<close>

subsection \<open>What the feature recorded\<close>

text \<open>\<open>(ctx.get("livingSpecs") or {}).get(key) or []\<close> as a loop reads it; \<open>None\<close> is the exception.\<close>

definition living_items :: "string \<Rightarrow> feature \<Rightarrow> json list option" where
  "living_items key st =
     (let v = jget (read_ctx st) ''livingSpecs'' in
      if \<not> truthy v then Some []
      else case v of JDict d \<Rightarrow> py_iter_or_empty (jget d key) | _ \<Rightarrow> None)"

definition named :: "json \<Rightarrow> string option" where
  "named j = (case j of JStr s \<Rightarrow> if strip s = [] then None else Some s | _ \<Rightarrow> None)"

definition loaded_capabilities :: "feature \<Rightarrow> string list option" where
  "loaded_capabilities st = map_option (List.map_filter named) (living_items ''loaded'' st)"

definition skipped_capability_names :: "feature \<Rightarrow> string list option" where
  "skipped_capability_names st =
     map_option (List.map_filter (\<lambda>j. case j of
         JDict e \<Rightarrow> if field_text e ''name'' = [] then None else Some (field_text e ''name'') | _ \<Rightarrow> None))
       (living_items ''skipped'' st)"

definition synced_capability_names :: "feature \<Rightarrow> string list option" where
  "synced_capability_names st = map_option (map strip \<circ> List.map_filter named) (living_items ''synced'' st)"

definition accountability_gap :: "feature \<Rightarrow> string list \<Rightarrow> string list option" where
  "accountability_gap st synced =
     (case loaded_capabilities st of
        None \<Rightarrow> None
      | Some [] \<Rightarrow> Some []
      | Some loaded \<Rightarrow>
          (case (synced_capability_names st, skipped_capability_names st) of
             (Some before, Some skipped) \<Rightarrow> Some (filter (\<lambda>c. c \<notin> set (synced @ before @ skipped)) loaded)
           | _ \<Rightarrow> None))"

subsection \<open>Targets\<close>

record fold_env =
  git_changed :: "string list"
  project_tree :: dir_tree
  scaffold :: "string \<Rightarrow> string"
  nothing_loaded :: string

definition note_nothing_loaded :: "fold_env \<Rightarrow> feature \<Rightarrow> files \<Rightarrow> feature" where
  "note_nothing_loaded env st fs =
     (if fs LIVING_SPECS_REL = None then st
      else snd (append_capture_entries ''concerns'' ''note'' [nothing_loaded env] False st))"

definition marker_names :: "deltas \<Rightarrow> string list" where
  "marker_names d =
     sort (remdups (filter (\<lambda>n. n \<noteq> [])
       (List.map_filter id (concat (map (unit_caps d) [Added, Modified, Removed, Renamed])) @ map snd (markers d))))"

definition marked_target :: "living \<Rightarrow> files \<Rightarrow> entry list \<Rightarrow> string \<Rightarrow> entry option" where
  "marked_target l fs entries name =
     (case map_of (map (\<lambda>e. (e_name e, e)) (rev entries)) name of
        Some e \<Rightarrow> Some e
      | None \<Rightarrow>
          (case map_of (map (\<lambda>c. (cap_name c, c)) (rev (capabilities l))) name of
             None \<Rightarrow> None | Some cap \<Rightarrow> entry_of fs cap))"

definition fold_targets :: "fold_env \<Rightarrow> living \<Rightarrow> files \<Rightarrow> deltas \<Rightarrow> (entry list \<times> string option) option" where
  "fold_targets env l fs d =
     (case (if git_changed env = [] then Some [] else match_changed (git_changed env) l fs) of
        None \<Rightarrow> None
      | Some matched \<Rightarrow>
          (let heads = take 1 matched; dflt = (case heads of [] \<Rightarrow> None | e # _ \<Rightarrow> Some (e_name e))
           in if marker_names d = [] then Some (heads, dflt)
              else case Option.bind (find_orphans l (project_tree env)) (discover_all l fs) of
                  None \<Rightarrow> None
                | Some entries \<Rightarrow>
                    Some (heads @ List.map_filter (marked_target l fs entries)
                            (filter (\<lambda>n. Some n \<noteq> dflt) (marker_names d)), dflt)))"

subsection \<open>The shape check before the fold\<close>

definition target_texts :: "files \<Rightarrow> entry list \<Rightarrow> string \<Rightarrow> string option" where
  "target_texts fs targets name =
     map_of (rev (List.map_filter (\<lambda>e. if e_spec e = [] \<or> e_name e = [] then None
                                     else map_option (Pair (e_name e)) (fs (e_spec e))) targets)) name"

definition shape_errors :: "string \<Rightarrow> string \<Rightarrow> entry list \<Rightarrow> files \<Rightarrow> string option \<Rightarrow> finding list" where
  "shape_errors spec_text spec_rel targets fs dflt =
     filter (\<lambda>f. f_severity f = Error)
       (check_feature_deltas spec_text spec_rel (filter (\<lambda>n. n \<noteq> []) (map e_name targets)) (target_texts fs targets)
          dflt (\<lambda>_. []))"

definition is_refused :: "finding list \<Rightarrow> string \<Rightarrow> bool" where
  "is_refused blocked name \<longleftrightarrow> list_ex (\<lambda>f. f_capability f = Some name) blocked"

subsection \<open>The fold\<close>

definition would_empty :: "string \<Rightarrow> bool" where
  "would_empty after \<longleftrightarrow> fences_are_balanced after \<and> requirement_slices after = []"

definition fold_target ::
  "fold_env \<Rightarrow> finding list \<Rightarrow> deltas \<Rightarrow> string option \<Rightarrow> entry \<Rightarrow> files \<times> string list \<Rightarrow> files \<times> string list" where
  "fold_target env blocked d dflt e s =
     (let (fs, synced) = s;
          mine = deltas_for d (e_name e) (dflt = Some (e_name e))
      in if e_spec e = [] \<or> \<not> has_deltas mine \<or> is_refused blocked (e_name e) then s
         else let before = (case fs (e_spec e) of Some t \<Rightarrow> t | None \<Rightarrow> scaffold env (e_name e));
                  after = fst (apply_deltas before mine)
              in if after = before \<or> would_empty after \<and> \<not> e_retire e then s
                 else (fs(e_spec e \<mapsto> after), synced @ [e_name e]))"

definition fold_living_spec :: "fold_env \<Rightarrow> feature \<Rightarrow> files \<Rightarrow> outcome \<times> feature \<times> files" where
  "fold_living_spec env st fs =
     (let l = fst (resolve_living_specs fs) in
      if \<not> enabled l then (Declined, st, fs)
      else case map_of (md_files st) (feature_spec_path st) of
          None \<Rightarrow> (Declined, st, fs)
        | Some spec_text \<Rightarrow>
            (let d = parse_spec_deltas spec_text in
             if \<not> has_deltas d then
               (case loaded_capabilities st of
                  None \<Rightarrow> (Raised, st, fs)
                | Some [] \<Rightarrow> (Declined, note_nothing_loaded env st fs, fs)
                | Some _ \<Rightarrow>
                    (if skipped_capability_names st = None \<or> accountability_gap st [] = None then (Raised, st, fs)
                     else (Declined, st, fs)))
             else case fold_targets env l fs d of
                 None \<Rightarrow> (Declined, st, fs)
               | Some (targets, dflt) \<Rightarrow>
                   (if targets = [] then (Declined, st, fs)
                    else let (fs', synced) = fold (fold_target env (shape_errors spec_text (feature_spec_path st) targets fs dflt) d dflt)
                                           targets (fs, [])
                         in if accountability_gap st synced = None then (Raised, st, fs')
                            else if synced = [] then (Declined, st, fs')
                            else (case set_living_specs_synced synced st of (r, st') \<Rightarrow> (r, st', fs')))))"

section \<open>Facts\<close>

lemma fold_target_synced: "fold_target env blocked d dflt e (fs, synced) = (fs', synced') \<Longrightarrow> prefix synced synced'"
  by (auto simp: fold_target_def Let_def split: if_splits)

text \<open>What a write of one path promises: a text with requirements, or the declared retirement.\<close>

definition written_ok :: "finding list \<Rightarrow> entry list \<Rightarrow> files \<Rightarrow> files \<Rightarrow> bool" where
  "written_ok blocked es fs fs' \<longleftrightarrow>
     (\<forall>p. fs' p = fs p \<or> (\<exists>e \<in> set es. \<exists>text. e_spec e = p \<and> fs' p = Some text \<and> (would_empty text \<longrightarrow> e_retire e)
        \<and> \<not> is_refused blocked (e_name e)))"

lemma fold_target_cases:
  assumes "fold_target env blocked d dflt e (fs1, synced) = (fs2, synced')"
  obtains "fs2 = fs1"
  | after where "fs2 = fs1(e_spec e \<mapsto> after)" and "would_empty after \<longrightarrow> e_retire e" and "\<not> is_refused blocked (e_name e)"
  using assms by (auto simp: fold_target_def Let_def split: if_splits)

lemma fold_target_writes:
  assumes "fold_target env blocked d dflt e (fs1, synced) = (fs2, synced')" and ok: "written_ok blocked es fs fs1" and "e \<in> set es"
  shows "written_ok blocked es fs fs2"
  using assms(1)
proof (cases rule: fold_target_cases)
  case (2 after)
  show ?thesis unfolding written_ok_def
  proof
    fix p
    show "fs2 p = fs p \<or> (\<exists>e \<in> set es. \<exists>text. e_spec e = p \<and> fs2 p = Some text \<and> (would_empty text \<longrightarrow> e_retire e)
        \<and> \<not> is_refused blocked (e_name e))"
    proof (cases "p = e_spec e")
      case True
      then show ?thesis using 2 assms(3) by auto
    next
      case False
      then show ?thesis using ok 2(1) by (simp add: written_ok_def)
    qed
  qed
qed (use ok in simp)

lemma fold_targets_write:
  "fold (fold_target env blocked d dflt) xs (fs1, synced) = (fs2, synced') \<Longrightarrow> written_ok blocked es fs fs1 \<Longrightarrow> set xs \<subseteq> set es
     \<Longrightarrow> written_ok blocked es fs fs2"
proof (induction xs arbitrary: fs1 synced)
  case (Cons x xs)
  obtain fs3 s3 where step: "fold_target env blocked d dflt x (fs1, synced) = (fs3, s3)" by fastforce
  then have "written_ok blocked es fs fs3" using fold_target_writes [OF step Cons.prems(2)] Cons.prems(3) by simp
  then show ?case using Cons.IH [of fs3 s3] Cons.prems(1,3) step by simp
qed simp

lemma synced_lifecycle: "lifecycle_same st (snd (set_living_specs_synced names st))"
  using capture_writer_lifecycle [of "SpecsSynced names" st] by simp

lemma note_lifecycle: "lifecycle_same st (note_nothing_loaded env st fs)"
  using capture_writer_lifecycle [of "Entries ''concerns'' ''note'' [nothing_loaded env] False" st]
  by (simp add: note_nothing_loaded_def PROTECTED_SET_KEYS_def)

lemma fold_state:
  "fst (snd (fold_living_spec env st fs)) \<in> {st, note_nothing_loaded env st fs} \<union> range (\<lambda>names. snd (set_living_specs_synced names st))"
  by (simp add: fold_living_spec_def Let_def case_prod_beta split: option.split list.split)

text \<open>A project with one capability, and a feature that adds a requirement to it.\<close>

definition example_env :: fold_env where
  "example_env = \<lparr>git_changed = [''src/a.ts''], project_tree = Dir [] [], 
     scaffold = (\<lambda>n. ''# '' @ n), nothing_loaded = ''n''\<rparr>"

definition example_project :: files where
  "example_project p =
     (if p = ''living-specs.yml''
      then Some (join nl [''enabled: true'', ''capabilities:'', ''  - name: app'', ''    match: [src/**]'', ''    spec: app.spec.md''])
      else if p = ''app.spec.md'' then Some (join nl [''# App'', [], ''## Requirements''] @ nl)
      else None)"

definition example_feature :: feature where
  "example_feature = (example_dir ''implemented'' ''implement'' [])
     \<lparr>md_files := [(''spec.md'', join nl [''## ADDED Requirements'', [], ''### A'', ''rule''])]\<rparr>"

lemma example_fold:
  "fst (fold_living_spec example_env example_feature example_project) = Wrote \<and>
   snd (snd (fold_living_spec example_env example_feature example_project)) ''app.spec.md'' =
     Some (join nl [''# App'', [], ''## Requirements'', [], ''### A'', ''rule''] @ nl)"
  by code_simp

lemma example_run:
  "fold_living_spec example_env example_feature example_project =
     (fst (fold_living_spec example_env example_feature example_project),
      fst (snd (fold_living_spec example_env example_feature example_project)),
      snd (snd (fold_living_spec example_env example_feature example_project)))"
  by simp

lemma example_changed:
  "snd (snd (fold_living_spec example_env example_feature example_project)) ''app.spec.md'' \<noteq> example_project ''app.spec.md''"
proof -
  have "example_project ''app.spec.md'' \<noteq>
      Some (join nl [''# App'', [], ''## Requirements'', [], ''### A'', ''rule''] @ nl)" by code_simp
  then show ?thesis using example_fold by simp
qed

text \<open>What a run that changed a file tells about its feature, its targets and what was written.\<close>

lemma fold_changed:
  assumes "fold_living_spec env st fs = (r, st', fs')" and "fs' p \<noteq> fs p"
  obtains doc targets dflt where "map_of (md_files st) (feature_spec_path st) = Some doc"
    and "fold_targets env (fst (resolve_living_specs fs)) fs (parse_spec_deltas doc) = Some (targets, dflt)"
    and "written_ok (shape_errors doc (feature_spec_path st) targets fs dflt) targets fs fs'"
proof -
  let ?l = "fst (resolve_living_specs fs)"
  obtain doc where doc: "map_of (md_files st) (feature_spec_path st) = Some doc"
    using assms by (auto simp: fold_living_spec_def Let_def split: if_splits option.splits list.splits)
  let ?d = "parse_spec_deltas doc"
  obtain targets dflt where targets: "fold_targets env ?l fs ?d = Some (targets, dflt)"
    using assms doc by (auto simp: fold_living_spec_def Let_def split: if_splits option.splits list.splits)
  let ?blocked = "shape_errors doc (feature_spec_path st) targets fs dflt"
  obtain fs2 synced where run: "fold (fold_target env ?blocked ?d dflt) targets (fs, []) = (fs2, synced)" by fastforce
  have "fs' = fs2"
    using assms doc targets run by (auto simp: fold_living_spec_def Let_def split: if_splits option.splits list.splits prod.splits)
  moreover have "written_ok ?blocked targets fs fs" by (simp add: written_ok_def)
  ultimately have "written_ok ?blocked targets fs fs'" using fold_targets_write [OF run] by simp
  then show thesis by (rule that [OF doc targets])
qed

section \<open>Properties\<close>

text \<open>C11: A fold never empties a spec by accident: a spec file it changes has requirements afterwards, unless
  the registry declares its capability retired or its fences are left open; no other file changes.\<close>

theorem fold_never_empties:
  assumes "fold_living_spec env st fs = (r, st', fs')" and "fs' p \<noteq> fs p"
  shows "\<exists>text. fs' p = Some text \<and>
    (requirement_slices text \<noteq> [] \<or> \<not> fences_are_balanced text \<or>
      (\<exists>targets dflt. fold_targets env (fst (resolve_living_specs fs)) fs
          (parse_spec_deltas (the (map_of (md_files st) (feature_spec_path st)))) = Some (targets, dflt) \<and>
        (\<exists>e \<in> set targets. e_spec e = p \<and> e_retire e)))"
proof -
  obtain doc targets dflt where run: "map_of (md_files st) (feature_spec_path st) = Some doc"
    "fold_targets env (fst (resolve_living_specs fs)) fs (parse_spec_deltas doc) = Some (targets, dflt)"
    "written_ok (shape_errors doc (feature_spec_path st) targets fs dflt) targets fs fs'"
    using fold_changed [OF assms] by blast
  then obtain e after where "e \<in> set targets" "e_spec e = p" "fs' p = Some after" "would_empty after \<longrightarrow> e_retire e"
    using assms(2) unfolding written_ok_def by blast
  then show ?thesis using run(1,2) by (auto simp: would_empty_def)
qed

theorem fold_never_empties_witness:
  "\<exists>text. snd (snd (fold_living_spec example_env example_feature example_project)) ''app.spec.md'' = Some text \<and>
    (requirement_slices text \<noteq> [] \<or> \<not> fences_are_balanced text \<or>
      (\<exists>targets dflt. fold_targets example_env (fst (resolve_living_specs example_project)) example_project
          (parse_spec_deltas (the (map_of (md_files example_feature) (feature_spec_path example_feature)))) = Some (targets, dflt) \<and>
        (\<exists>e \<in> set targets. e_spec e = ''app.spec.md'' \<and> e_retire e)))"
  by (rule fold_never_empties [OF example_run example_changed])

text \<open>Folding touches nothing of the feature's lifecycle: whatever it writes to the living specs, the log,
  the status and the current step of the feature stay as they were.\<close>

theorem fold_keeps_lifecycle:
  "log_of (fst (snd (fold_living_spec env st fs))) = log_of st \<and>
   status_of (fst (snd (fold_living_spec env st fs))) = status_of st \<and>
   jget (read_ctx (fst (snd (fold_living_spec env st fs)))) ''currentStep'' = jget (read_ctx st) ''currentStep''"
proof -
  have "lifecycle_same st (fst (snd (fold_living_spec env st fs)))"
    using fold_state [of env st fs] synced_lifecycle note_lifecycle by fastforce
  then show ?thesis using lifecycle_same_log by (auto simp: lifecycle_same_def PROTECTED_SET_KEYS_def)
qed



end
