(* ===== verification/WriteLock.thy ===== *)
theory WriteLock
  imports Main
begin

text \<open>
  The cross-process write lock of \<open>spec_context.py\<close>: any number of writers, each a process with the
  phases of \<open>_acquire_lock\<close>, \<open>_reclaim_lock\<close> and \<open>_release_lock\<close>, interleaved step by step.  The lock is
  the existence of one file.  A file is known by the process that created it and by whether that
  process has written its token into it yet; the content read by others is the token or nothing.

  A process that is alive touches its lock in time, so a lock is only taken for abandoned when its
  owner is dead.  A process may die between any two steps.  The parameter \<open>solo\<close> of the step relation
  forbids a second process to start a reclaim while another one is in the middle of it; without it
  the relation is the code.
\<close>

type_synonym pid = nat
type_synonym lock_file = "pid \<times> bool"

datatype phase =
    Idle
  | Trying
  | Created
  | Saw lock_file
  | Reclaiming lock_file
  | Checked
  | Holding
  | Releasing
  | Unlocked
  | Done

record lock_state =
  lock :: "lock_file option"
  phase_of :: "pid \<Rightarrow> phase"
  dead :: "pid set"

text \<open>What \<open>_read_lock_owner\<close> reads: the token of the creator, or the empty text.\<close>

definition content :: "lock_file \<Rightarrow> pid option" where
  "content f = (if snd f then Some (fst f) else None)"

definition reclaiming :: "phase \<Rightarrow> bool" where
  "reclaiming ph = (case ph of Reclaiming _ \<Rightarrow> True | Checked \<Rightarrow> True | _ \<Rightarrow> False)"

definition alone :: "lock_state \<Rightarrow> pid \<Rightarrow> bool" where
  "alone s p \<longleftrightarrow> (\<forall>q. q \<noteq> p \<longrightarrow> q \<notin> dead s \<longrightarrow> \<not> reclaiming (phase_of s q))"

definition go :: "pid \<Rightarrow> phase \<Rightarrow> lock_state \<Rightarrow> lock_state" where
  "go p ph s = s\<lparr>phase_of := (phase_of s)(p := ph)\<rparr>"

text \<open>
  \<open>look\<close> is a failed creation with the read of the owner; \<open>gone\<close> and \<open>abandoned\<close> are the two reasons to
  reclaim; \<open>recheck\<close> and \<open>unlink\<close> are the two halves of \<open>_reclaim_lock\<close>, which are not one step in the
  code; \<open>check_own\<close> and \<open>drop\<close> are the same two halves when a holder releases.
\<close>

inductive lock_step :: "bool \<Rightarrow> lock_state \<Rightarrow> lock_state \<Rightarrow> bool" for solo where
  start: "p \<notin> dead s \<Longrightarrow> phase_of s p = Idle \<Longrightarrow> lock_step solo s (go p Trying s)"
| create: "p \<notin> dead s \<Longrightarrow> phase_of s p = Trying \<Longrightarrow> lock s = None \<Longrightarrow>
     lock_step solo s (go p Created (s\<lparr>lock := Some (p, False)\<rparr>))"
| write_token: "p \<notin> dead s \<Longrightarrow> phase_of s p = Created \<Longrightarrow>
     lock_step solo s (go p Holding (s\<lparr>lock := (if lock s = Some (p, False) then Some (p, True) else lock s)\<rparr>))"
| look: "p \<notin> dead s \<Longrightarrow> phase_of s p = Trying \<Longrightarrow> lock s = Some f \<Longrightarrow> lock_step solo s (go p (Saw f) s)"
| gone: "p \<notin> dead s \<Longrightarrow> phase_of s p = Saw f \<Longrightarrow> content f = Some q \<Longrightarrow> q \<in> dead s \<Longrightarrow> solo \<longrightarrow> alone s p \<Longrightarrow>
     lock_step solo s (go p (Reclaiming f) s)"
| abandoned: "p \<notin> dead s \<Longrightarrow> phase_of s p = Saw f \<Longrightarrow> lock s = Some f' \<Longrightarrow> fst f' \<in> dead s \<Longrightarrow> solo \<longrightarrow> alone s p \<Longrightarrow>
     lock_step solo s (go p (Reclaiming f) s)"
| wait: "p \<notin> dead s \<Longrightarrow> phase_of s p = Saw f \<Longrightarrow> lock_step solo s (go p Trying s)"
| give_up: "p \<notin> dead s \<Longrightarrow> phase_of s p = Saw f \<Longrightarrow> lock_step solo s (go p Unlocked s)"
| recheck_same: "p \<notin> dead s \<Longrightarrow> phase_of s p = Reclaiming f \<Longrightarrow> lock s = Some f' \<Longrightarrow> content f' = content f \<Longrightarrow>
     lock_step solo s (go p Checked s)"
| recheck_other: "p \<notin> dead s \<Longrightarrow> phase_of s p = Reclaiming f \<Longrightarrow>
     lock s = None \<or> (\<exists>f'. lock s = Some f' \<and> content f' \<noteq> content f) \<Longrightarrow> lock_step solo s (go p Trying s)"
| unlink: "p \<notin> dead s \<Longrightarrow> phase_of s p = Checked \<Longrightarrow> lock_step solo s (go p Trying (s\<lparr>lock := None\<rparr>))"
| check_own: "p \<notin> dead s \<Longrightarrow> phase_of s p = Holding \<Longrightarrow> lock s = Some (p, True) \<Longrightarrow> lock_step solo s (go p Releasing s)"
| not_own: "p \<notin> dead s \<Longrightarrow> phase_of s p = Holding \<Longrightarrow> lock s \<noteq> Some (p, True) \<Longrightarrow> lock_step solo s (go p Done s)"
| drop: "p \<notin> dead s \<Longrightarrow> phase_of s p = Releasing \<Longrightarrow> lock_step solo s (go p Done (s\<lparr>lock := None\<rparr>))"
| finish: "p \<notin> dead s \<Longrightarrow> phase_of s p = Unlocked \<Longrightarrow> lock_step solo s (go p Done s)"
| crash: "p \<notin> dead s \<Longrightarrow> lock_step solo s (s\<lparr>dead := insert p (dead s)\<rparr>)"

definition lock_start :: lock_state where
  "lock_start = \<lparr>lock = None, phase_of = (\<lambda>_. Idle), dead = {}\<rparr>"

inductive lock_reach :: "bool \<Rightarrow> lock_state \<Rightarrow> bool" for solo where
  init: "lock_reach solo lock_start"
| step: "lock_reach solo s \<Longrightarrow> lock_step solo s s' \<Longrightarrow> lock_reach solo s'"

text \<open>A process is in its write while it holds the lock and is about to release it.\<close>

definition writing :: "lock_state \<Rightarrow> pid \<Rightarrow> bool" where
  "writing s p \<longleftrightarrow> p \<notin> dead s \<and> (phase_of s p = Holding \<or> phase_of s p = Releasing)"

inductive_cases lock_stepE: "lock_step solo s s'"

section \<open>Facts\<close>

lemma go_simps [simp]:
  "lock (go p ph s) = lock s" "dead (go p ph s) = dead s"
  "phase_of (go p ph s) q = (if q = p then ph else phase_of s q)"
  by (simp_all add: go_def)

text \<open>The invariant: who has which file, and a file about to be reclaimed has a dead owner.\<close>

definition owns :: "lock_state \<Rightarrow> pid \<Rightarrow> bool" where
  "owns s p \<longleftrightarrow>
     (phase_of s p = Created \<longrightarrow> lock s = Some (p, False)) \<and>
     (phase_of s p = Holding \<or> phase_of s p = Releasing \<longrightarrow> lock s = Some (p, True))"

definition orphaned :: "lock_state \<Rightarrow> bool" where
  "orphaned s \<longleftrightarrow> (\<exists>f. lock s = Some f \<and> fst f \<in> dead s)"

definition reclaims_orphan :: "lock_state \<Rightarrow> pid \<Rightarrow> bool" where
  "reclaims_orphan s p \<longleftrightarrow>
     (phase_of s p = Checked \<longrightarrow> orphaned s) \<and>
     (\<forall>f. phase_of s p = Reclaiming f \<longrightarrow> orphaned s \<or> (\<exists>q \<in> dead s. content f = Some q)) \<and>
     (reclaiming (phase_of s p) \<longrightarrow> alone s p)"

definition lock_inv :: "lock_state \<Rightarrow> bool" where
  "lock_inv s \<longleftrightarrow> (\<forall>p. p \<notin> dead s \<longrightarrow> owns s p \<and> reclaims_orphan s p)"

lemma reclaiming_simps [simp]:
  "reclaiming (Reclaiming f)" "reclaiming Checked" "\<not> reclaiming Idle" "\<not> reclaiming Trying" "\<not> reclaiming Created"
  "\<not> reclaiming (Saw f)" "\<not> reclaiming Holding" "\<not> reclaiming Releasing" "\<not> reclaiming Unlocked" "\<not> reclaiming Done"
  by (simp_all add: reclaiming_def)

definition has_file :: "phase \<Rightarrow> bool" where
  "has_file ph \<longleftrightarrow> ph \<in> {Created, Holding, Releasing}"

lemma lock_inv_own:
  assumes "lock_inv s" and "p \<notin> dead s"
  shows "owns s p" and "reclaims_orphan s p"
  using assms by (auto simp: lock_inv_def)

text \<open>Two processes that are alive never have a file each, and an orphaned file is nobody's.\<close>

lemma has_file_lock:
  assumes "lock_inv s" and "p \<notin> dead s" and "has_file (phase_of s p)"
  shows "\<exists>w. lock s = Some (p, w)"
  using lock_inv_own(1) [OF assms(1,2)] assms(3) by (auto simp: owns_def has_file_def)

lemma one_file:
  assumes "lock_inv s" and "p \<notin> dead s" "has_file (phase_of s p)" and "q \<notin> dead s" "q \<noteq> p"
  shows "\<not> has_file (phase_of s q)" and "phase_of s q \<noteq> Checked" and "\<not> orphaned s"
  using has_file_lock [OF assms(1-3)] has_file_lock [OF assms(1,4)] lock_inv_own(2) [OF assms(1,4)] assms(2,5)
  by (auto simp: reclaims_orphan_def orphaned_def)

lemma orphaned_keeps: "orphaned s \<Longrightarrow> lock s' = lock s \<Longrightarrow> dead s \<subseteq> dead s' \<Longrightarrow> orphaned s'"
  by (auto simp: orphaned_def)

text \<open>Only three steps touch the file; the others leave the owners as they are.\<close>

lemma owns_go_other: "r \<noteq> p \<Longrightarrow> owns (go p ph s) r = owns s r"
  by (simp add: owns_def)

lemma owns_no_file: "\<not> has_file (phase_of s r) \<Longrightarrow> owns s r"
  by (auto simp: owns_def has_file_def)

lemma owns_go_no_file: "owns s r \<Longrightarrow> \<not> has_file ph \<Longrightarrow> owns (go p ph s) r"
  by (cases "r = p") (simp_all add: owns_go_other owns_no_file)

lemma has_file_simps [simp]:
  "has_file Created" "has_file Holding" "has_file Releasing" "\<not> has_file Idle" "\<not> has_file Trying" "\<not> has_file (Saw f)"
  "\<not> has_file (Reclaiming f)" "\<not> has_file Checked" "\<not> has_file Unlocked" "\<not> has_file Done"
  by (simp_all add: has_file_def)

lemma lock_step_owns:
  assumes "lock_step True s s'" and inv: "lock_inv s" and r: "r \<notin> dead s'"
  shows "owns s' r"
proof -
  have live: "r \<notin> dead s" using assms(1) r by cases auto
  have o: "owns s r" by (rule lock_inv_own(1) [OF inv live])
  show ?thesis using assms(1)
  proof cases
    case (create p)
    show ?thesis
    proof (cases "r = p")
      case False
      then have "\<not> has_file (phase_of s r)" using has_file_lock [OF inv live] create(4) by auto
      then show ?thesis using False create(1) by (intro owns_no_file) simp
    qed (simp add: create(1) owns_def)
  next
    case (write_token p)
    have mine: "lock s = Some (p, False)" using lock_inv_own(1) [OF inv write_token(2)] write_token(3) by (simp add: owns_def)
    show ?thesis
    proof (cases "r = p")
      case False
      then have "\<not> has_file (phase_of s r)" using has_file_lock [OF inv live] mine by auto
      then show ?thesis using False write_token(1) by (intro owns_no_file) simp
    qed (simp add: write_token(1) owns_def mine)
  next
    case (unlink p)
    have "r \<noteq> p \<Longrightarrow> \<not> has_file (phase_of s r)" using one_file(2) [OF inv live _ unlink(2)] unlink(3) by auto
    then show ?thesis using unlink(1) by (intro owns_no_file) simp
  next
    case (drop p)
    have "r \<noteq> p \<Longrightarrow> \<not> has_file (phase_of s r)" using one_file(1) [OF inv drop(2) _ live] drop(3) by simp
    then show ?thesis using drop(1) by (intro owns_no_file) simp
  next
    case (check_own p)
    then show ?thesis using o by (cases "r = p") (simp_all add: owns_def)
  next
    case (crash p)
    then show ?thesis using o by (simp add: owns_def)
  qed (use o in \<open>simp_all add: owns_go_no_file\<close>)
qed

text \<open>What a process is about to remove stays an orphan while nobody else removes a file.\<close>

lemma reclaims_none: "\<not> reclaiming (phase_of s r) \<Longrightarrow> reclaims_orphan s r"
  by (auto simp: reclaims_orphan_def)

lemma reclaims_keeps:
  assumes "reclaims_orphan s r" and "orphaned s \<Longrightarrow> orphaned s'" and "dead s \<subseteq> dead s'"
    and "phase_of s' r = phase_of s r"
    and "reclaiming (phase_of s r) \<Longrightarrow> alone s r \<Longrightarrow> alone s' r"
  shows "reclaims_orphan s' r"
  using assms unfolding reclaims_orphan_def by (metis subsetD)

lemma reclaims_go_quiet:
  assumes "reclaims_orphan s r" and "\<not> reclaiming ph" and "orphaned s \<Longrightarrow> orphaned s0"
    and "dead s0 = dead s" and "phase_of s0 = phase_of s"
  shows "reclaims_orphan (go p ph s0) r"
proof (cases "r = p")
  case False
  have "orphaned (go p ph s0) = orphaned s0" by (simp add: orphaned_def)
  then show ?thesis using assms False by (intro reclaims_keeps [OF assms(1)]) (auto simp: alone_def)
qed (simp add: reclaims_none assms(2))

lemma reclaims_start:
  assumes "alone s p" and "r \<notin> dead s" and "reclaims_orphan s r" and "orphaned s \<or> (\<exists>q \<in> dead s. content f = Some q)"
  shows "reclaims_orphan (go p (Reclaiming f) s) r"
proof (cases "r = p")
  case True
  have "orphaned (go p (Reclaiming f) s) = orphaned s" by (simp add: orphaned_def)
  then show ?thesis using assms(1,4) True by (auto simp: reclaims_orphan_def alone_def)
next
  case False
  then show ?thesis using assms(1,2) by (intro reclaims_none) (simp add: alone_def)
qed

lemma content_owner: "content f = Some q \<Longrightarrow> fst f = q"
  by (simp add: content_def split: if_splits)

lemma lock_step_reclaims:
  assumes "lock_step True s s'" and inv: "lock_inv s" and r: "r \<notin> dead s'"
  shows "reclaims_orphan s' r"
proof -
  have live: "r \<notin> dead s" using assms(1) r by cases auto
  note mine = lock_inv_own(2) [OF inv live]
  show ?thesis using assms(1)
  proof cases
    case (create p)
    then show ?thesis using mine by (auto intro!: reclaims_go_quiet simp: orphaned_def)
  next
    case (write_token p)
    have "lock s = Some (p, False)" using lock_inv_own(1) [OF inv write_token(2)] write_token(3) by (simp add: owns_def)
    then show ?thesis using mine write_token by (auto intro!: reclaims_go_quiet simp: orphaned_def)
  next
    case (gone p f q)
    then show ?thesis using mine live by (auto intro!: reclaims_start)
  next
    case (abandoned p f f')
    then have "orphaned s" by (simp add: orphaned_def)
    then show ?thesis using abandoned mine live by (auto intro!: reclaims_start)
  next
    case (recheck_same p f f')
    note of_p = lock_inv_own(2) [OF inv recheck_same(2)]
    have a: "alone s p" using of_p recheck_same(3) by (simp add: reclaims_orphan_def)
    have "orphaned s" using of_p recheck_same(3-5) content_owner [of f'] by (fastforce simp: reclaims_orphan_def orphaned_def)
    then have o: "orphaned (go p Checked s)" by (simp add: orphaned_def)
    show ?thesis
    proof (cases "r = p")
      case True
      then show ?thesis using a o recheck_same(1) by (simp add: reclaims_orphan_def alone_def)
    next
      case False
      then show ?thesis using a live recheck_same(1) by (intro reclaims_none) (simp add: alone_def)
    qed
  next
    case (unlink p)
    have "alone s p" using lock_inv_own(2) [OF inv unlink(2)] unlink(3) by (simp add: reclaims_orphan_def)
    then show ?thesis using live unlink(1) by (intro reclaims_none) (simp add: alone_def)
  next
    case (drop p)
    have "has_file (phase_of s p)" using drop(3) by simp
    then have "lock s = Some (p, True)" using lock_inv_own(1) [OF inv drop(2)] drop(3) by (simp add: owns_def)
    then have "\<not> orphaned s" using drop(2) by (simp add: orphaned_def)
    then show ?thesis using mine drop(1) by (auto intro!: reclaims_go_quiet)
  next
    case (crash p)
    then show ?thesis using mine by (auto intro!: reclaims_keeps [OF mine] simp: orphaned_def alone_def)
  qed (use mine in \<open>auto intro!: reclaims_go_quiet\<close>)
qed

lemma lock_inv_start: "lock_inv lock_start"
  by (simp add: lock_inv_def lock_start_def owns_def reclaims_orphan_def)

lemma lock_inv_reach: "lock_reach True s \<Longrightarrow> lock_inv s"
proof (induction rule: lock_reach.induct)
  case (step s s')
  then show ?case by (auto simp only: lock_inv_def [of s'] intro: lock_step_owns lock_step_reclaims)
qed (rule lock_inv_start)

lemma writing_has_file: "writing s p \<Longrightarrow> has_file (phase_of s p)"
  by (auto simp: writing_def)

text \<open>C9: Where no two processes reclaim at the same time, the lock excludes: in every state that the writers can
  reach, however they are interleaved and whichever of them die, at most one live process writes under
  the lock.\<close>

theorem one_writer_at_a_time:
  assumes "lock_reach True s" and "writing s p" and "writing s q"
  shows "p = q"
proof (rule ccontr)
  assume "p \<noteq> q"
  then have "\<not> has_file (phase_of s q)"
    using one_file(1) [OF lock_inv_reach [OF assms(1)], of p q] assms(2,3) writing_has_file by (simp add: writing_def)
  then show False using writing_has_file [OF assms(3)] by simp
qed

section \<open>Taking a lock over\<close>

text \<open>Runs of several steps, and the two parts of a takeover: find the lock orphaned, then replace it.\<close>

lemma reach_run: "rtranclp (lock_step solo) s s' \<Longrightarrow> lock_reach solo s \<Longrightarrow> lock_reach solo s'"
  by (induction rule: rtranclp_induct) (auto intro: lock_reach.step)

lemma run_two: "R a b \<Longrightarrow> R b c \<Longrightarrow> rtranclp R a c"
  by (rule rtranclp.rtrancl_into_rtrancl [OF r_into_rtranclp])

lemma run_three: "R a b \<Longrightarrow> R b c \<Longrightarrow> R c d \<Longrightarrow> rtranclp R a d"
  by (rule rtranclp.rtrancl_into_rtrancl [OF run_two])

lemma run_acquire:
  assumes "p \<notin> dead s" and "phase_of s p = Trying" and "lock s = None"
  shows "\<exists>s'. rtranclp (lock_step solo) s s' \<and> writing s' p \<and> dead s' = dead s \<and> lock s' = Some (p, True)
      \<and> (\<forall>q. q \<noteq> p \<longrightarrow> phase_of s' q = phase_of s q)"
proof -
  let ?s1 = "go p Created (s\<lparr>lock := Some (p, False)\<rparr>)"
  let ?s2 = "go p Holding (?s1\<lparr>lock := Some (p, True)\<rparr>)"
  have "lock_step solo s ?s1" using assms by (rule lock_step.create)
  moreover have "lock_step solo ?s1 ?s2" using lock_step.write_token [of p ?s1 solo] assms(1) by simp
  ultimately have "rtranclp (lock_step solo) s ?s2" by (rule run_two)
  then show ?thesis using assms(1) by (intro exI [of _ ?s2]) (simp add: writing_def)
qed

lemma run_find_orphan:
  assumes "p \<notin> dead s" and "phase_of s p = Trying" and "lock s = Some f" "fst f \<in> dead s" and "solo \<longrightarrow> alone s p"
  shows "\<exists>s'. rtranclp (lock_step solo) s s' \<and> phase_of s' p = Checked \<and> dead s' = dead s \<and> lock s' = lock s
      \<and> (\<forall>q. q \<noteq> p \<longrightarrow> phase_of s' q = phase_of s q)"
proof -
  let ?s1 = "go p (Saw f) s"
  let ?s2 = "go p (Reclaiming f) ?s1"
  let ?s3 = "go p Checked ?s2"
  have "lock_step solo s ?s1" using assms(1-3) by (rule lock_step.look)
  moreover have "solo \<longrightarrow> alone ?s1 p" using assms(5) by (simp add: alone_def)
  then have "lock_step solo ?s1 ?s2" using assms(1,3,4) by (intro lock_step.abandoned [of p ?s1 f f]) simp_all
  moreover have "lock_step solo ?s2 ?s3" using assms(1,3) by (intro lock_step.recheck_same [of p ?s2 f f]) simp_all
  ultimately have "rtranclp (lock_step solo) s ?s3" by (rule run_three)
  then show ?thesis by (intro exI [of _ ?s3]) simp
qed

lemma run_take_over:
  assumes "p \<notin> dead s" and "phase_of s p = Checked"
  shows "\<exists>s'. rtranclp (lock_step solo) s s' \<and> writing s' p \<and> dead s' = dead s
      \<and> (\<forall>q. q \<noteq> p \<longrightarrow> phase_of s' q = phase_of s q)"
proof -
  let ?s1 = "go p Trying (s\<lparr>lock := None\<rparr>)"
  have one: "lock_step solo s ?s1" using assms by (rule lock_step.unlink)
  obtain s' where "rtranclp (lock_step solo) ?s1 s'" "writing s' p" "dead s' = dead s"
      "\<forall>q. q \<noteq> p \<longrightarrow> phase_of s' q = phase_of s q"
    using run_acquire [of p ?s1 solo] assms(1) by auto
  then show ?thesis using converse_rtranclp_into_rtranclp [of "lock_step solo", OF one] by blast
qed

text \<open>C34: A lock whose owner has died blocks nobody: a live waiter has a run of its own steps alone, through the
  reclaim, at whose end it writes under the lock, whether or not the owner had written its token.\<close>

theorem dead_owner_blocks_nobody:
  assumes "p \<notin> dead s" and "phase_of s p = Trying" and "lock s = Some f" "fst f \<in> dead s" and "solo \<longrightarrow> alone s p"
  shows "\<exists>s'. rtranclp (lock_step solo) s s' \<and> writing s' p \<and> dead s' = dead s
      \<and> (\<forall>q. q \<noteq> p \<longrightarrow> phase_of s' q = phase_of s q)"
proof -
  obtain s1 where one: "rtranclp (lock_step solo) s s1" "phase_of s1 p = Checked" "dead s1 = dead s"
      "\<forall>q. q \<noteq> p \<longrightarrow> phase_of s1 q = phase_of s q"
    using run_find_orphan [OF assms] by blast
  obtain s2 where "rtranclp (lock_step solo) s1 s2" "writing s2 p" "dead s2 = dead s1"
      "\<forall>q. q \<noteq> p \<longrightarrow> phase_of s2 q = phase_of s1 q"
    using run_take_over [of p s1 solo] one(2,3) assms(1) by auto
  then show ?thesis using one rtranclp_trans [OF one(1)] by (intro exI [of _ s2]) simp
qed

text \<open>The state at whose lock two processes wait while its owner is dead, reached from the start.\<close>

definition orphan_example :: lock_state where
  "orphan_example = \<lparr>lock = Some (0, True), phase_of = (\<lambda>_. Idle)(0 := Holding, 1 := Trying, 2 := Trying), dead = {0}\<rparr>"

lemma orphan_example_simps:
  "lock orphan_example = Some (0, True)" "dead orphan_example = {0}" "1 \<notin> dead orphan_example"
  "phase_of orphan_example 1 = Trying" "phase_of orphan_example 2 = Trying" "fst (0::pid, True) \<in> dead orphan_example"
  by (simp_all add: orphan_example_def)

lemma orphan_example_alone: "solo \<longrightarrow> alone orphan_example 1"
  by (simp add: orphan_example_def alone_def)

lemma orphan_example_checked:
  "\<exists>s. rtranclp (lock_step solo) orphan_example s \<and> phase_of s 1 = Checked \<and> dead s = {0} \<and> lock s = Some (0, True)
      \<and> phase_of s 2 = Trying"
  using run_find_orphan [OF orphan_example_simps(3,4,1,6) orphan_example_alone, of solo]
  unfolding orphan_example_simps by (metis one_eq_numeral_iff semiring_norm(85) orphan_example_simps(5))

lemma orphan_example_reached: "lock_reach solo orphan_example"
proof -
  note step = lock_reach.step
  let ?s1 = "go 0 Trying lock_start"
  let ?s2 = "go 0 Created (?s1\<lparr>lock := Some (0, False)\<rparr>)"
  let ?s3 = "go 0 Holding (?s2\<lparr>lock := Some (0, True)\<rparr>)"
  let ?s4 = "go 1 Trying ?s3"
  let ?s5 = "go 2 Trying ?s4"
  have d: "dead lock_start = {}" "phase_of lock_start = (\<lambda>_. Idle)" "lock lock_start = None" by (simp_all add: lock_start_def)
  have steps: "lock_step solo lock_start ?s1" "lock_step solo ?s1 ?s2" "lock_step solo ?s2 ?s3" "lock_step solo ?s3 ?s4"
      "lock_step solo ?s4 ?s5" "lock_step solo ?s5 (?s5\<lparr>dead := insert 0 (dead ?s5)\<rparr>)"
    using lock_step.start [of 0 lock_start solo] lock_step.create [of 0 ?s1 solo] lock_step.write_token [of 0 ?s2 solo]
      lock_step.start [of 1 ?s3 solo] lock_step.start [of 2 ?s4 solo] lock_step.crash [of 0 ?s5 solo]
    by (simp_all add: d)
  have "lock_reach solo (?s5\<lparr>dead := insert 0 (dead ?s5)\<rparr>)"
    by (rule step [OF step [OF step [OF step [OF step [OF step [OF lock_reach.init steps(1)] steps(2)] steps(3)] steps(4)] steps(5)] steps(6)])
  moreover have "?s5\<lparr>dead := insert 0 (dead ?s5)\<rparr> = orphan_example"
    by (rule lock_state.equality) (auto simp: orphan_example_def d fun_eq_iff)
  ultimately show ?thesis by simp
qed

theorem dead_owner_blocks_nobody_witness:
  "\<exists>s'. rtranclp (lock_step True) orphan_example s' \<and> writing s' 1 \<and> dead s' = dead orphan_example
      \<and> (\<forall>q. q \<noteq> 1 \<longrightarrow> phase_of s' q = phase_of orphan_example q)"
  by (rule dead_owner_blocks_nobody [OF orphan_example_simps(3,4,1,6) orphan_example_alone])

theorem one_writer_at_a_time_witness: "\<exists>s. lock_reach True s \<and> writing s 1 \<and> (\<forall>q. writing s q \<longrightarrow> 1 = q)"
proof -
  obtain s1 where s1: "rtranclp (lock_step True) orphan_example s1" "phase_of s1 1 = Checked" "dead s1 = {0}"
    using orphan_example_checked [of True] by blast
  obtain s2 where s2: "rtranclp (lock_step True) s1 s2" "writing s2 1"
    using run_take_over [of 1 s1 True] s1(2,3) by auto
  have r: "lock_reach True s2" by (rule reach_run [OF s2(1) reach_run [OF s1(1) orphan_example_reached]])
  then show ?thesis using one_writer_at_a_time [OF r s2(2)] s2(2) by blast
qed


end
