(* ===== verification/ShapeReport.thy ===== *)
theory ShapeReport
  imports ShapeFacts Store
begin

text \<open>
  The report over a project (\<open>build_report\<close> of \<open>living_validate.py\<close>): every registered spec that is on
  disk, its rules tier, and every feature spec that is not completed.  Files that are on disk can be
  read; a registry in a parent directory is an argument, since the project is read from its root.
\<close>

datatype skip = RegistryAbove string | NoSuchCapability string

record report =
  rep_enabled :: bool
  rep_checked :: nat
  rep_findings :: "finding list"
  rep_skipped :: "skip list"

definition is_completed :: "feature \<Rightarrow> bool" where
  "is_completed st = (case ctx_file st of DocFile (JDict d) \<Rightarrow> jget d ''status'' = JStr ''completed'' | _ \<Rightarrow> False)"

text \<open>The feature specs to check: their path and their text, in the order of the directory names.\<close>

definition active_feature_specs :: "(string \<times> feature) list \<Rightarrow> (string \<times> string) list" where
  "active_feature_specs dirs =
     List.map_filter (\<lambda>(name, st).
         case map_of (md_files st) (feature_spec_path st) of
           None \<Rightarrow> None
         | Some text \<Rightarrow>
             if is_completed st then None else Some (''specs/'' @ name @ ''/'' @ feature_spec_path st, text))
       (sort_key fst dirs)"

definition rules_findings :: "files \<Rightarrow> string \<Rightarrow> string \<Rightarrow> finding list" where
  "rules_findings fs name rel =
     (case map_of (tier_paths rel (Some fs)) ''rules'' of
        Some (path, Some True) \<Rightarrow>
          (let rules_text = (case fs path of None \<Rightarrow> [] | Some t \<Rightarrow> t)
           in warn_if (\<not> list_ex (\<lambda>l. prefix ''- '' (lstrip l) \<or> prefix ''* '' (lstrip l)) (splitlines rules_text))
                ''rules-empty'' path (Some name) 1)
      | _ \<Rightarrow> [])"

text \<open>One capability: nothing when it is not the wanted one or its spec is not on disk.\<close>

definition capability_text :: "files \<Rightarrow> string \<Rightarrow> capability \<Rightarrow> string option" where
  "capability_text fs wanted c = (if wanted \<noteq> [] \<and> cap_name c \<noteq> wanted then None else fs (cap_spec c))"

definition capability_findings :: "repo \<Rightarrow> string \<Rightarrow> capability \<Rightarrow> finding list" where
  "capability_findings rp wanted c =
     (case capability_text (on_disk rp) wanted c of
        None \<Rightarrow> []
      | Some text \<Rightarrow>
          check_living_spec text (cap_spec c) (Some rp) (Some (cap_name c)) 0
          @ rules_findings (on_disk rp) (cap_name c) (cap_spec c))"

definition by_path :: "finding \<Rightarrow> string \<times> nat \<times> string" where
  "by_path f = (f_path f, f_line f, f_code f)"

definition build_report :: "repo \<Rightarrow> string option \<Rightarrow> (string \<times> feature) list \<Rightarrow> string \<Rightarrow> report option" where
  "build_report rp upper dirs wanted =
     (let fs = on_disk rp; l = registry_of rp; caps = capabilities l;
          names = map cap_name caps;
          on = filter (\<lambda>c. capability_text fs wanted c \<noteq> None) caps;
          texts = (\<lambda>n. map_of (rev (List.map_filter (\<lambda>c. map_option (Pair (cap_name c)) (capability_text fs wanted c)) caps)) n);
          removed = (\<lambda>n. case filter (\<lambda>c. cap_name c = n) (rev on) of [] \<Rightarrow> [] | c # _ \<Rightarrow> removed_requirements fs (cap_spec c) n);
          features = (if wanted = [] then active_feature_specs dirs else [])
      in if \<not> enabled l then
           Some \<lparr>rep_enabled = False, rep_checked = 0, rep_findings = [],
             rep_skipped = (case upper of Some p \<Rightarrow> if fs LIVING_SPECS_REL = None then [RegistryAbove p] else [] | None \<Rightarrow> [])\<rparr>
         else if traverse resolve_spec caps = None then None
         else Some \<lparr>rep_enabled = True, rep_checked = length on + length features,
             rep_findings = sort_key by_path
               (concat (map (capability_findings rp wanted) caps)
                @ concat (map (\<lambda>(rel, text). check_feature_deltas text rel names texts None removed) features)),
             rep_skipped = (if wanted \<noteq> [] \<and> wanted \<notin> set names then [NoSuchCapability wanted] else [])\<rparr>)"

section \<open>Facts\<close>

lemma rules_findings_warnings: "warnings_only (rules_findings fs name rel)"
  by (simp add: rules_findings_def Let_def split: option.split prod.split bool.split)

lemma capability_findings_warnings:
  "warnings_only (capability_findings rp wanted c) \<longleftrightarrow>
     pred_option sound_text (capability_text (on_disk rp) wanted c)"
  by (simp add: capability_findings_def rules_findings_warnings check_living_spec_warnings split: option.split)

lemma warnings_only_concat: "warnings_only (concat fss) \<longleftrightarrow> (\<forall>fs \<in> set fss. warnings_only fs)"
  by (auto simp: warnings_only_def)

text \<open>A report on one capability is free of errors exactly when the text of that capability is sound: the
  other specs of the project and the specs of its features have no part in it.\<close>

theorem report_on_one_capability:
  assumes "build_report rp upper dirs wanted = Some rep" and "rep_enabled rep" and "wanted \<noteq> []"
  shows "list_all (\<lambda>f. f_severity f = Warning) (rep_findings rep) \<longleftrightarrow>
    list_all (\<lambda>c. pred_option sound_text (if cap_name c = wanted then on_disk rp (cap_spec c) else None))
      (capabilities (registry_of rp))"
proof -
  have "rep_findings rep = sort_key by_path (concat (map (capability_findings rp wanted) (capabilities (registry_of rp))))"
    using assms by (auto simp: build_report_def Let_def split: if_splits)
  then have "warnings_only (rep_findings rep) \<longleftrightarrow>
      (\<forall>c \<in> set (capabilities (registry_of rp)). pred_option sound_text (capability_text (on_disk rp) wanted c))"
    by (simp add: warnings_only_concat capability_findings_warnings)
  moreover have "capability_text (on_disk rp) wanted c = (if cap_name c = wanted then on_disk rp (cap_spec c) else None)" for c
    using assms(3) by (simp add: capability_text_def)
  ultimately show ?thesis by (simp only: warnings_only_def list_all_iff)
qed

definition report_repo :: repo where
  "report_repo = \<lparr>tracked = [''app.spec.md''],
     on_disk = (\<lambda>p. if p = ''living-specs.yml''
        then Some (join nl [''enabled: true'', ''capabilities:'', ''  - name: app'', ''    match: [src/**]'', ''    spec: app.spec.md''])
        else if p = ''app.spec.md'' then Some (join nl [''### A'', ''rule'', ''#### Scenario: s'', ''- WHEN x''] @ nl)
        else None),
     listing = (\<lambda>_. None)\<rparr>"

theorem report_on_one_capability_witness:
  "\<exists>rep. build_report report_repo None [] ''app'' = Some rep \<and>
    (list_all (\<lambda>f. f_severity f = Warning) (rep_findings rep) \<longleftrightarrow>
     list_all (\<lambda>c. pred_option sound_text (if cap_name c = ''app'' then on_disk report_repo (cap_spec c) else None))
       (capabilities (registry_of report_repo)))"
proof -
  have "map_option rep_enabled (build_report report_repo None [] ''app'') = Some True"
    by code_simp
  then obtain rep where "build_report report_repo None [] ''app'' = Some rep" "rep_enabled rep" by auto
  then show ?thesis using report_on_one_capability [of report_repo None "[]" "''app''"] by blast
qed

end
