(* ===== verification/Drift.thy ===== *)
theory Drift
  imports ShapeFacts
begin

text \<open>
  The drift report (\<open>drift.py\<close>): which files changed since a capability's living spec was last
  committed, without the change having been folded back.  Git is the record \<open>git\<close> of the answers its
  commands give: the standard output, or \<open>None\<close> for a failing exit code.  A raised exception is
  \<open>None\<close>.
\<close>

subsection \<open>Git\<close>

record git =
  inside_work_tree :: "string option"
  shallow_file :: "string list option"
  verify_head :: bool
  last_commit :: "string \<Rightarrow> string option"
  diff_names :: "bool \<Rightarrow> string \<Rightarrow> string option \<Rightarrow> string option"
  untracked_names :: "string option \<Rightarrow> string option"
  merge_base :: "string \<Rightarrow> string"

definition is_git_repo :: "git \<Rightarrow> bool" where
  "is_git_repo g \<longleftrightarrow> map_option strip (inside_work_tree g) = Some ''true''"

datatype spec_state = Ok | Uncommitted | Unreadable

definition spec_commit :: "git \<Rightarrow> string \<Rightarrow> spec_state \<times> string" where
  "spec_commit g spec =
     (case last_commit g spec of
        None \<Rightarrow> (Unreadable, [])
      | Some out \<Rightarrow> if strip out = [] then (Uncommitted, []) else (Ok, strip out))"

definition name_lines :: "string option \<Rightarrow> string list" where
  "name_lines out = (case out of None \<Rightarrow> [] | Some t \<Rightarrow> filter (\<lambda>l. l \<noteq> []) (map strip (splitlines t)))"

definition changed_since :: "git \<Rightarrow> string \<Rightarrow> string option \<Rightarrow> bool \<Rightarrow> string list" where
  "changed_since g commit pathspec working = name_lines (diff_names g working commit pathspec)"

definition untracked :: "git \<Rightarrow> string option \<Rightarrow> string list" where
  "untracked g pathspec = name_lines (untracked_names g pathspec)"

subsection \<open>What the pipeline recorded\<close>

definition path_texts :: "json list \<Rightarrow> string list" where
  "path_texts js = List.map_filter (\<lambda>j. case j of JStr s \<Rightarrow> Some (posix s) | _ \<Rightarrow> None) js"

definition read_context_files :: "files \<Rightarrow> string \<Rightarrow> string list option" where
  "read_context_files fs path =
     (case Option.bind (fs path) json_loads of
        Some (JDict d) \<Rightarrow>
          (case (py_iter_or_empty (jget d ''files_modified''), py_iter_or_empty (jget d ''history'')) of
             (Some ms, Some hs) \<Rightarrow>
               map_option (\<lambda>fss. path_texts ms @ concat fss)
                 (traverse (\<lambda>e. case e of JDict x \<Rightarrow> map_option path_texts (py_iter_or_empty (jget x ''files'')) | _ \<Rightarrow> Some []) hs)
           | _ \<Rightarrow> None)
      | _ \<Rightarrow> Some [])"

definition context_paths :: "git \<Rightarrow> string \<Rightarrow> bool \<Rightarrow> string list" where
  "context_paths g commit working =
     filter (suffix ''/.spec-context.json'')
       (map posix (changed_since g commit (Some ''specs/'') working
                   @ (if working then untracked g (Some ''specs/'') else [])))"

definition tracked_files_since :: "files \<Rightarrow> git \<Rightarrow> string \<Rightarrow> bool \<Rightarrow> string list option" where
  "tracked_files_since fs g commit working = map_option concat (traverse (read_context_files fs) (context_paths g commit working))"

definition vouched_names :: "files \<Rightarrow> string \<Rightarrow> string list option" where
  "vouched_names fs path =
     (case Option.bind (fs path) json_loads of
        Some (JDict d) \<Rightarrow>
          (case jget d ''livingSpecs'' of
             JDict living \<Rightarrow>
               (case (py_iter_or_empty (jget living ''synced''), py_iter_or_empty (jget living ''skipped'')) of
                  (Some synced, Some skipped) \<Rightarrow>
                    Some (List.map_filter (\<lambda>j. case j of JStr s \<Rightarrow> Some s | _ \<Rightarrow> None)
                            (synced @ map (\<lambda>j. case j of JDict x \<Rightarrow> jget x ''name'' | _ \<Rightarrow> j) skipped))
                | _ \<Rightarrow> None)
           | _ \<Rightarrow> Some [])
      | _ \<Rightarrow> Some [])"

definition vouched_files_since :: "files \<Rightarrow> git \<Rightarrow> string \<Rightarrow> string \<Rightarrow> bool \<Rightarrow> string list option" where
  "vouched_files_since fs g commit name working =
     map_option concat
       (traverse (\<lambda>p. case vouched_names fs p of
            None \<Rightarrow> None | Some ns \<Rightarrow> if name \<in> set ns then read_context_files fs p else Some [])
          (context_paths g commit working))"

subsection \<open>Which changed files count\<close>

text \<open>\<open>p.rsplit("/", 1)[0] if "/" in p else ""\<close> and \<open>p.rsplit("/", 1)[-1]\<close>.\<close>

definition parent_dir :: "string \<Rightarrow> string" where
  "parent_dir p = join ''/'' (butlast (split_on (CHR ''/'') p))"

definition base_name :: "string \<Rightarrow> string" where
  "base_name p = last (split_on (CHR ''/'') p)"

definition is_tier_file :: "string \<Rightarrow> bool" where
  "is_tier_file fp \<longleftrightarrow> list_ex (\<lambda>t. suffix t fp) RESERVED_TIERS"

definition is_any_spec_doc :: "string \<Rightarrow> string list \<Rightarrow> bool" where
  "is_any_spec_doc fp spec_dirs \<longleftrightarrow> (is_tier_file fp \<or> suffix ''.spec.md'' fp) \<and> parent_dir fp \<in> set spec_dirs"

definition is_own_spec_doc :: "string \<Rightarrow> string \<Rightarrow> bool" where
  "is_own_spec_doc fp spec_posix \<longleftrightarrow> fp = spec_posix \<or> parent_dir fp = parent_dir spec_posix \<and> is_tier_file fp"

definition is_exempt :: "string \<Rightarrow> string list \<Rightarrow> bool" where
  "is_exempt f globs \<longleftrightarrow> list_ex (\<lambda>g. glob_matches g f \<or> glob_matches g (base_name f)) globs"

definition marker_globs :: "files \<Rightarrow> living \<Rightarrow> (string \<times> string list) list" where
  "marker_globs fs l =
     fold (\<lambda>c out. case (if cap_spec c = [] then None else fs (cap_spec c)) of
             None \<Rightarrow> out
           | Some text \<Rightarrow> AList.update (cap_name c) (concat (map touches (requirement_slices text))) out)
       (capabilities l) []"

definition names_file :: "string \<Rightarrow> string list \<Rightarrow> bool" where
  "names_file fp globs \<longleftrightarrow> list_ex (\<lambda>g. glob_matches g fp) globs"

definition named_elsewhere :: "string \<Rightarrow> string \<Rightarrow> (string \<times> string list) list \<Rightarrow> bool" where
  "named_elsewhere fp name marks \<longleftrightarrow>
     \<not> names_file fp (case map_of marks name of None \<Rightarrow> [] | Some gs \<Rightarrow> gs) \<and>
     list_ex (\<lambda>(n, gs). n \<noteq> name \<and> names_file fp gs) marks"

definition spec_directories :: "living \<Rightarrow> string list" where
  "spec_directories l = map (\<lambda>c. parent_dir (posix (cap_spec c))) (filter (\<lambda>c. cap_spec c \<noteq> []) (capabilities l))"

subsection \<open>The verdict on one capability\<close>

datatype skip_reason = NoSpecPath | NoGit | SkipUnreadable | SkipUncommitted | SkipShallow

record drift_cap =
  d_name :: string
  d_spec :: string
  d_commit :: string
  d_drifted :: "(string \<times> string) list"
  d_in_sync :: bool

datatype verdict = Skipped string skip_reason | Checked drift_cap

text \<open>The commit a capability is measured from, or the reason it cannot be.\<close>

definition baseline :: "git \<Rightarrow> string option \<Rightarrow> string \<Rightarrow> skip_reason + string" where
  "baseline g since spec =
     (if \<not> is_git_repo g then Inl NoGit
      else case shallow_file g of
          None \<Rightarrow> Inl SkipUnreadable
        | Some grafts \<Rightarrow>
            (let (state, commit) =
               (case since of
                  Some ref \<Rightarrow> if ref \<noteq> [] \<and> strip (merge_base g ref) \<noteq> [] then (Ok, strip (merge_base g ref)) else spec_commit g spec
                | None \<Rightarrow> spec_commit g spec)
             in if state \<noteq> Ok then Inl (if state = Unreadable \<and> verify_head g then SkipUnreadable else SkipUncommitted)
                else if commit \<in> set grafts then Inl SkipShallow
                else Inr commit))"

definition is_drift ::
  "living \<Rightarrow> (string \<times> string list) list \<Rightarrow> capability \<Rightarrow> string list \<Rightarrow> string \<Rightarrow> bool" where
  "is_drift l marks cap vouched fp \<longleftrightarrow>
     \<not> is_own_spec_doc fp (posix (cap_spec cap)) \<and> \<not> is_any_spec_doc fp (spec_directories l) \<and>
     matches cap fp \<and> \<not> is_exempt fp (exempt l) \<and> fp \<notin> set vouched \<and> \<not> named_elsewhere fp (cap_name cap) marks"

definition drift_entry ::
  "living \<Rightarrow> (string \<times> string list) list \<Rightarrow> bool \<Rightarrow> capability \<Rightarrow> string \<Rightarrow> string list \<Rightarrow> string list \<Rightarrow> string list \<Rightarrow> drift_cap" where
  "drift_entry l marks branch cap commit changed recorded vouched =
     (let spec = posix (cap_spec cap); files = dedup (map posix changed);
          folded_here = list_ex (\<lambda>fp. is_own_spec_doc fp spec) files;
          found = sort_key (\<lambda>d. d)
            (map (\<lambda>fp. (if fp \<in> set recorded then ''tracked'' else ''unspeced'', fp))
               (filter (is_drift l marks cap vouched) files));
          drifted = (if branch \<and> folded_here then [] else found)
      in \<lparr>d_name = cap_name cap, d_spec = spec, d_commit = take 8 commit, d_drifted = drifted,
          d_in_sync = (drifted = [])\<rparr>)"

definition drift_verdict ::
  "files \<Rightarrow> git \<Rightarrow> living \<Rightarrow> bool \<Rightarrow> string option \<Rightarrow> capability \<Rightarrow> verdict option" where
  "drift_verdict fs g l working since cap =
     (if cap_spec cap = [] then Some (Skipped (cap_name cap) NoSpecPath)
      else case baseline g since (cap_spec cap) of
          Inl reason \<Rightarrow> Some (Skipped (cap_name cap) reason)
        | Inr commit \<Rightarrow>
            (case (tracked_files_since fs g commit working, vouched_files_since fs g commit (cap_name cap) working) of
               (Some recorded, Some vouched) \<Rightarrow>
                 Some (Checked (drift_entry l (marker_globs fs l) (since \<noteq> None \<and> since \<noteq> Some []) cap commit
                   (changed_since g commit None working @ (if working then untracked g None else [])) recorded vouched))
             | _ \<Rightarrow> None))"

subsection \<open>The report\<close>

record drift_report =
  dr_enabled :: bool
  dr_working :: bool
  dr_checked :: nat
  dr_capabilities :: "drift_cap list"
  dr_skipped :: "(string \<times> skip_reason) list"

definition compute_drift ::
  "files \<Rightarrow> git \<Rightarrow> living \<Rightarrow> bool \<Rightarrow> string option \<Rightarrow> drift_report option" where
  "compute_drift fs g l working since =
     (if \<not> enabled l then
        Some \<lparr>dr_enabled = False, dr_working = working, dr_checked = 0, dr_capabilities = [], dr_skipped = []\<rparr>
      else map_option (\<lambda>vs.
          let checked = List.map_filter (\<lambda>v. case v of Checked e \<Rightarrow> Some e | _ \<Rightarrow> None) vs
          in \<lparr>dr_enabled = True, dr_working = working, dr_checked = length checked,
              dr_capabilities = sort_key d_name checked,
              dr_skipped = List.map_filter (\<lambda>v. case v of Skipped n r \<Rightarrow> Some (n, r) | _ \<Rightarrow> None) vs\<rparr>)
        (traverse (drift_verdict fs g l working since) (capabilities l)))"

definition counts_line :: "drift_report \<Rightarrow> string" where
  "counts_line r = nat_text (dr_checked r) @ '' checked, '' @ nat_text (length (dr_skipped r)) @ '' skipped''"

subsection \<open>Accepting a spec as it is\<close>

definition is_hex :: "char \<Rightarrow> bool" where
  "is_hex c \<longleftrightarrow> c \<in> set ''0123456789abcdef''"

definition reviewed_line :: "string \<Rightarrow> string" where
  "reviewed_line head = ''<!-- reviewed: '' @ head @ '' -->''"

text \<open>
  \<open>^<!--\s*reviewed:\s*([0-9a-f]{7,40})\s*-->\s*$\<close> with \<open>re.M\<close> at the start of \<open>s\<close>: what is left behind
  the match.  The closing \<open>\s*\<close> takes every blank it can: all of them at the end of the text, else up
  to the last line feed among them.
\<close>

definition reviewed_at :: "string \<Rightarrow> string option" where
  "reviewed_at s =
     (let t = lstrip (drop 4 s); u = lstrip (drop 9 t); h = takeWhile is_hex u; v = lstrip (drop (length h) u);
          r = drop 3 v; w = takeWhile is_space r; after = drop (length w) r
      in if \<not> prefix ''<!--'' s \<or> \<not> prefix ''reviewed:'' t \<or> length h < 7 \<or> 40 < length h \<or> \<not> prefix ''-->'' v then None
         else if after = [] then Some []
         else if CHR 0x0A \<in> set w then Some (CHR 0x0A # rev (takeWhile (\<lambda>c. c \<noteq> CHR 0x0A) (rev w)) @ after)
         else None)"

fun sub_reviewed :: "bool \<Rightarrow> string \<Rightarrow> string \<Rightarrow> string option" where
  "sub_reviewed start line [] = None"
| "sub_reviewed start line (c # cs) =
     (case (if start then reviewed_at (c # cs) else None) of
        Some rest \<Rightarrow> Some (line @ rest)
      | None \<Rightarrow> map_option (Cons c) (sub_reviewed (c = CHR 0x0A) line cs))"

definition accept_text :: "string \<Rightarrow> string \<Rightarrow> string" where
  "accept_text head text =
     (let line = reviewed_line head; ls = splitlines text in
      case sub_reviewed True line text of
        Some t \<Rightarrow> t
      | None \<Rightarrow>
          join nl (if ls \<noteq> [] \<and> prefix ''# '' (hd ls) then hd ls # [] # line # tl ls else line # ls)
          @ (if suffix nl text then nl else []))"

text \<open>The files after \<open>accept\<close>, and how many specs it touched; an unknown name or an unreadable spec is passed over.\<close>

definition accept_one :: "living \<Rightarrow> string \<Rightarrow> string \<Rightarrow> files \<times> nat \<Rightarrow> files \<times> nat" where
  "accept_one l head name s =
     (let (fs, n) = s in
      case map_of (map (\<lambda>c. (cap_name c, c)) (rev (capabilities l))) name of
        None \<Rightarrow> s
      | Some c \<Rightarrow>
          (case (if cap_spec c = [] then None else fs (cap_spec c)) of
             None \<Rightarrow> s
           | Some text \<Rightarrow> (fs(cap_spec c \<mapsto> accept_text head text), Suc n)))"

definition accept :: "living \<Rightarrow> string \<Rightarrow> string list \<Rightarrow> files \<Rightarrow> files \<times> nat" where
  "accept l short_head names fs =
     (let head = (if strip short_head = [] then ''unknown'' else strip short_head)
      in fold (accept_one l head) names (fs, 0))"

section \<open>Facts\<close>

subsection \<open>Every capability is accounted for\<close>

lemma drift_verdict_name:
  "drift_verdict fs g l working since cap = Some v \<Longrightarrow>
   (case v of Skipped n _ \<Rightarrow> n | Checked e \<Rightarrow> d_name e) = cap_name cap"
  by (auto simp: drift_verdict_def drift_entry_def Let_def split: if_splits sum.splits option.splits)

lemma verdict_names:
  "traverse (drift_verdict fs g l working since) caps = Some vs \<Longrightarrow>
   map (\<lambda>v. case v of Skipped n _ \<Rightarrow> n | Checked e \<Rightarrow> d_name e) vs = map cap_name caps"
proof (induction caps arbitrary: vs)
  case (Cons c caps)
  then show ?case by (auto dest: drift_verdict_name split: option.splits)
qed simp

lemma verdicts_split:
  "mset (map (\<lambda>v. case v of Skipped n _ \<Rightarrow> n | Checked e \<Rightarrow> d_name e) vs) =
   mset (map d_name (List.map_filter (\<lambda>v. case v of Checked e \<Rightarrow> Some e | _ \<Rightarrow> None) vs)) +
   mset (map fst (List.map_filter (\<lambda>v. case v of Skipped n r \<Rightarrow> Some (n, r) | _ \<Rightarrow> None) vs))"
  by (induction vs) (auto simp: List.map_filter_def split: verdict.split)

subsection \<open>Accepting\<close>

lemma sub_reviewed_line:
  "sub_reviewed start line s = Some t \<Longrightarrow> \<exists>a b. t = a @ line @ b \<and> (a = [] \<and> start \<or> a \<noteq> [] \<and> last a = CHR 0x0A)
     \<and> (b = [] \<or> hd b = CHR 0x0A)"
proof (induction start line s arbitrary: t rule: sub_reviewed.induct)
  case (2 start line c cs)
  show ?case
  proof (cases "if start then reviewed_at (c # cs) else None")
    case None
    then obtain t' where t': "sub_reviewed (c = CHR 0x0A) line cs = Some t'" "t = c # t'" using 2(2) by auto
    then obtain a b where ab: "t' = a @ line @ b" "a = [] \<and> c = CHR 0x0A \<or> a \<noteq> [] \<and> last a = CHR 0x0A" "b = [] \<or> hd b = CHR 0x0A"
      using 2(1) [OF None t'(1)] by blast
    then show ?thesis using t'(2) by (intro exI [of _ "c # a"] exI [of _ b]) auto
  next
    case (Some rest)
    then have "start" "rest = [] \<or> hd rest = CHR 0x0A" by (auto simp: reviewed_at_def Let_def split: if_splits)
    then show ?thesis using Some 2(2) by (intro exI [of _ "[]"] exI [of _ rest]) simp
  qed
qed simp

lemma split_after_newline: "\<exists>xs. split_lines_aux cur (a @ CHR 0x0A # s) = xs @ split_lines_aux [] s"
proof (induction cur a rule: split_lines_induct)
  case (Nil cur)
  then show ?case by (auto simp: split_lines_newline)
next
  case (crlf cur cs)
  then show ?case by (auto simp: split_lines_crlf)
next
  case (break_char cur c cs)
  show ?case
  proof (cases "c = CHR 0x0D \<and> cs = []")
    case True
    then show ?thesis by (auto simp: split_lines_crlf)
  next
    case False
    then have "\<not> (c = CHR 0x0D \<and> cs @ CHR 0x0A # s \<noteq> [] \<and> hd (cs @ CHR 0x0A # s) = CHR 0x0A)"
      using break_char(2) by (cases cs) auto
    then show ?thesis using break_char(1,3) by (auto simp: split_lines_break)
  qed
next
  case (char cur c cs)
  then show ?case by (simp add: split_lines_char)
qed

lemma line_in_splitlines:
  assumes "clean_line l" "l \<noteq> []" and "a = [] \<or> last a = CHR 0x0A" and "b = [] \<or> hd b = CHR 0x0A"
  shows "l \<in> set (splitlines (a @ l @ b))"
proof -
  have l: "\<forall>c \<in> set l. \<not> is_line_break c" using assms(1) by (simp add: clean_line_def)
  have tail: "l \<in> set (map fst (split_lines_aux [] (l @ b)))"
  proof (cases b)
    case Nil
    then show ?thesis using assms(2) split_lines_aux_last [OF l, of "[]"] by simp
  next
    case (Cons c b')
    then show ?thesis using assms(4) split_lines_aux_run [OF l, of "[]" b'] by simp
  qed
  show ?thesis
  proof (cases "a = []")
    case False
    then obtain a' where "a = a' @ [CHR 0x0A]" using assms(3) by (metis append_butlast_last_id)
    then obtain xs where "split_lines_aux [] (a @ l @ b) = xs @ split_lines_aux [] (l @ b)"
      using split_after_newline [of "[]" a' "l @ b"] by auto
    then show ?thesis using tail by (auto simp: splitlines_def split_lines_ends_def)
  qed (use tail in \<open>simp add: splitlines_def split_lines_ends_def\<close>)
qed

lemma reviewed_line_clean: "clean_line head \<Longrightarrow> clean_line (reviewed_line head)"
  by (simp add: clean_line_def reviewed_line_def is_line_break_def)

lemma reviewed_line_nonempty: "reviewed_line head \<noteq> []"
  by (simp add: reviewed_line_def)

lemma reviewed_line_reviews: "reviewed_line head \<in> set ls \<Longrightarrow> is_reviewed ls"
proof -
  have "prefix ''<!--'' (reviewed_line head) \<and> prefix ''reviewed:'' (lstrip (drop 4 (reviewed_line head)))"
    by (simp add: reviewed_line_def lstrip_def is_space_def space_chars_def)
  then show "reviewed_line head \<in> set ls \<Longrightarrow> is_reviewed ls" by (auto simp: is_reviewed_def list_ex_iff)
qed

lemma joined_line:
  assumes "\<forall>l \<in> set ls. clean_line l" and "x \<in> set ls" "x \<noteq> []"
  shows "x \<in> set (splitlines (join nl ls @ (if b then nl else [])))"
proof (cases b)
  case True
  then show ?thesis using splitlines_join_nl [of ls] assms by fastforce
next
  case False
  have "x \<in> set (if ls \<noteq> [] \<and> last ls = [] then butlast ls else ls)"
    using assms(2,3) by (cases ls rule: rev_cases) auto
  then show ?thesis using False splitlines_join [OF assms(1)] by simp
qed

lemma accept_text_line:
  assumes "clean_line head"
  shows "reviewed_line head \<in> set (splitlines (accept_text head t))"
proof (cases "sub_reviewed True (reviewed_line head) t")
  case (Some t')
  then obtain a b where "t' = a @ reviewed_line head @ b" "a = [] \<or> last a = CHR 0x0A" "b = [] \<or> hd b = CHR 0x0A"
    using sub_reviewed_line by blast
  then show ?thesis
    using line_in_splitlines [OF reviewed_line_clean [OF assms] reviewed_line_nonempty] Some
    by (simp add: accept_text_def Let_def)
next
  case None
  let ?ls = "splitlines t" and ?line = "reviewed_line head"
  let ?out = "if ?ls \<noteq> [] \<and> prefix ''# '' (hd ?ls) then hd ?ls # [] # ?line # tl ?ls else ?line # ?ls"
  have "\<forall>l \<in> set ?out. clean_line l"
    using clean_line_splitlines [of _ t] reviewed_line_clean [OF assms]
    by (cases ?ls) (auto simp: clean_line_def)
  then have "?line \<in> set (splitlines (join nl ?out @ (if suffix nl t then nl else [])))"
    by (rule joined_line) (simp_all add: reviewed_line_nonempty)
  then show ?thesis using None by (simp only: accept_text_def Let_def option.case)
qed

definition lacks :: "string \<Rightarrow> finding list \<Rightarrow> bool" where
  "lacks code fs \<longleftrightarrow> (\<forall>f \<in> set fs. f_code f \<noteq> code)"

lemma lacks_simps:
  "lacks code []" "lacks code (fs @ gs) \<longleftrightarrow> lacks code fs \<and> lacks code gs" "lacks code (sort_key k fs) = lacks code fs"
  "lacks code (map (shift j) fs) = lacks code fs" "lacks code (warn_if b c path cap n) \<longleftrightarrow> (b \<longrightarrow> c \<noteq> code)"
  "lacks code [finding_of sev c path cap n] \<longleftrightarrow> c \<noteq> code"
  by (auto simp: lacks_def warn_if_def finding_of_def shift_def)

lemma check_requirements_lacks: "lacks ''draft-unreviewed'' (check_requirements ro path cap seen cs)"
proof (induction ro path cap seen cs rule: check_requirements.induct)
  case (2 ro path cap seen n h rs cs)
  have "lacks ''draft-unreviewed'' (scenario_findings path cap rs)"
    by (auto simp: lacks_def scenario_findings_def finding_of_def)
  then have "lacks ''draft-unreviewed'' (requirement_findings ro path cap again (n, rs))" for again
    by (simp add: requirement_findings_def size_findings_def marker_findings_def Let_def lacks_simps
        split: option.split prod.split)
  then show ?case using 2 by (simp add: lacks_simps)
qed (simp add: lacks_simps)

lemma reviewed_not_reported:
  "is_reviewed (splitlines t) \<Longrightarrow> lacks ''draft-unreviewed'' (check_living_spec t path ro cap k)"
  by (simp add: check_living_spec_def Let_def lacks_simps check_requirements_lacks spec_membership_def
      membership_findings_def spec_findings_def split: option.split)

section \<open>Properties\<close>

text \<open>No capability falls through a drift report: every registered capability is either checked or skipped
  with its reason, exactly once, and the count of checked capabilities that the in-sync claim rests on
  is the count of the entries.\<close>

theorem drift_accounts_for_all:
  assumes "compute_drift fs g l working since = Some r" and "enabled l"
  shows "mset (map d_name (dr_capabilities r)) + mset (map fst (dr_skipped r)) = mset (map cap_name (capabilities l)) \<and>
    dr_checked r = length (dr_capabilities r)"
proof -
  obtain vs where vs: "traverse (drift_verdict fs g l working since) (capabilities l) = Some vs"
    and r: "r = \<lparr>dr_enabled = True, dr_working = working,
        dr_checked = length (List.map_filter (\<lambda>v. case v of Checked e \<Rightarrow> Some e | _ \<Rightarrow> None) vs),
        dr_capabilities = sort_key d_name (List.map_filter (\<lambda>v. case v of Checked e \<Rightarrow> Some e | _ \<Rightarrow> None) vs),
        dr_skipped = List.map_filter (\<lambda>v. case v of Skipped n r \<Rightarrow> Some (n, r) | _ \<Rightarrow> None) vs\<rparr>"
    using assms by (auto simp: compute_drift_def Let_def)
  show ?thesis using verdict_names [OF vs] verdicts_split [of vs] by (simp add: r)
qed

text \<open>Accepting a spec settles its review: whatever the text was, the accepted text carries the marker as a
  line of its own, and the shape check no longer reports it as an unreviewed draft.\<close>

theorem accept_settles_review:
  assumes "clean_line head"
  shows "is_reviewed (splitlines (accept_text head t)) \<and>
    \<not> list_ex (\<lambda>f. f_code f = ''draft-unreviewed'') (check_living_spec (accept_text head t) path ro cap k)"
proof -
  have r: "is_reviewed (splitlines (accept_text head t))"
    by (rule reviewed_line_reviews [OF accept_text_line [OF assms]])
  then show ?thesis using reviewed_not_reported [OF r, of path ro cap k] by (auto simp: lacks_def list_ex_iff)
qed

definition draft_doc :: string where
  "draft_doc = join nl [''# App'', [], ''> [DRAFT] x'', [], ''### A'', ''rule''] @ nl"

theorem accept_settles_review_witness:
  "list_ex (\<lambda>f. f_code f = ''draft-unreviewed'')
     (check_living_spec draft_doc ''app.spec.md'' (Some \<lparr>tracked = [], on_disk = (\<lambda>_. None), listing = (\<lambda>_. None)\<rparr>) None 0) \<and>
   \<not> list_ex (\<lambda>f. f_code f = ''draft-unreviewed'')
     (check_living_spec (accept_text ''1a2b3c4'' draft_doc) ''app.spec.md''
       (Some \<lparr>tracked = [], on_disk = (\<lambda>_. None), listing = (\<lambda>_. None)\<rparr>) None 0)"
proof
  show "list_ex (\<lambda>f. f_code f = ''draft-unreviewed'')
     (check_living_spec draft_doc ''app.spec.md'' (Some \<lparr>tracked = [], on_disk = (\<lambda>_. None), listing = (\<lambda>_. None)\<rparr>) None 0)"
    by code_simp
  have "clean_line ''1a2b3c4''" by (simp add: clean_line_def is_line_break_def)
  from accept_settles_review [OF this]
  show "\<not> list_ex (\<lambda>f. f_code f = ''draft-unreviewed'')
     (check_living_spec (accept_text ''1a2b3c4'' draft_doc) ''app.spec.md''
       (Some \<lparr>tracked = [], on_disk = (\<lambda>_. None), listing = (\<lambda>_. None)\<rparr>) None 0)"
    by blast
qed

section \<open>Where the report is not conservative\<close>

definition small_living :: living where
  "small_living = \<lparr>enabled = True, layout = ''central'', exempt = [], capabilities =
     [\<lparr>cap_name = ''app'', cap_match = [''src/**''], cap_exclude = [], cap_spec = ''app.spec.md'', spec_defaulted = False,
       retire = False\<rparr>], rules = []\<rparr>"

definition small_git :: git where
  "small_git = \<lparr>inside_work_tree = Some ''true'', shallow_file = Some [], verify_head = True, last_commit = (\<lambda>_. Some ''c1''),
     diff_names = (\<lambda>_ _ p. if p = None then Some (''src/a.ts'' @ nl @ ''app.rules.md'') else Some []),
     untracked_names = (\<lambda>_. Some []), merge_base = (\<lambda>_. [])\<rparr>"

theorem drift_accounts_for_all_witness:
  "\<exists>r. compute_drift (\<lambda>_. None) small_git small_living False None = Some r \<and>
     map d_drifted (dr_capabilities r) = [[(''unspeced'', ''src/a.ts'')]] \<and>
     mset (map d_name (dr_capabilities r)) + mset (map fst (dr_skipped r)) = mset (map cap_name (capabilities small_living)) \<and>
     dr_checked r = length (dr_capabilities r)"
proof -
  have "map_option (\<lambda>r. map d_drifted (dr_capabilities r)) (compute_drift (\<lambda>_. None) small_git small_living False None) =
      Some [[(''unspeced'', ''src/a.ts'')]]"
    by code_simp
  then obtain r where "compute_drift (\<lambda>_. None) small_git small_living False None = Some r"
      "map d_drifted (dr_capabilities r) = [[(''unspeced'', ''src/a.ts'')]]" by auto
  then show ?thesis using drift_accounts_for_all [of "\<lambda>_. None" small_git small_living False None r]
    by (simp add: small_living_def)
qed

text \<open>A failing \<open>git diff\<close> is read as no change, so the capability is reported in sync.\<close>

lemma failing_diff_reads_in_sync:
  "map_option (\<lambda>r. map d_in_sync (dr_capabilities r))
     (compute_drift (\<lambda>_. None) (small_git\<lparr>diff_names := (\<lambda>_ _ _. None)\<rparr>) small_living False None) = Some [True]"
  by code_simp

text \<open>A changed context file whose \<open>files_modified\<close> is a number makes the whole report raise.\<close>

lemma odd_context_halts_report:
  "compute_drift (\<lambda>p. Some ''{\"files_modified\": 3}'')
     (small_git\<lparr>diff_names := (\<lambda>_ _ _. Some ''specs/a/.spec-context.json'')\<rparr>) small_living False None = None"
  by code_simp

text \<open>Accepting a second time takes away a blank line behind the marker.\<close>

lemma accept_eats_blank_lines:
  "accept_text ''1a2b3c4'' (''# A'' @ nl @ nl @ ''text'' @ nl) =
     join nl [''# A'', [], reviewed_line ''1a2b3c4'', [], ''text''] @ nl"
  "accept_text ''1a2b3c4'' (join nl [''# A'', [], reviewed_line ''1a2b3c4'', [], ''text''] @ nl) =
     join nl [''# A'', [], reviewed_line ''1a2b3c4'', ''text''] @ nl"
  by code_simp+

end
