(* ===== verification/RegistryTools.thy ===== *)
theory RegistryTools
  imports SpecPaths
begin

text \<open>
  The two tools that rewrite the registry: \<open>register-capability.py\<close> appends a capability,
  \<open>relocate-capability.py\<close> moves capabilities between central and colocated storage as one operation
  that is rolled back when a move or the write of the registry fails.  The project is a map from paths
  to texts; directories and the git index are not modelled.  A \<open>ValueError\<close> is \<open>None\<close>.
\<close>

subsection \<open>Registering a capability\<close>

definition reg_default_spec :: "string \<Rightarrow> string" where
  "reg_default_spec name = DEFAULT_CAPABILITY_ROOT @ ''/'' @ name @ ''/spec.md''"

text \<open>An entry without a \<open>spec\<close> key has the empty text there, which \<open>render_capability\<close> does not write.\<close>

definition normalize_existing :: "living \<Rightarrow> capability list" where
  "normalize_existing l =
     map (\<lambda>c. \<lparr>cap_name = cap_name c, cap_match = cap_match c, cap_exclude = cap_exclude c,
             cap_spec = (if cap_spec c = reg_default_spec (cap_name c) then [] else cap_spec c),
             spec_defaulted = False, retire = False\<rparr>) (capabilities l)"

definition unsupported_value :: "string \<Rightarrow> bool" where
  "unsupported_value v \<longleftrightarrow> list_ex (\<lambda>c. c \<in> set [CHR 0x22, CHR 0x0A, CHR 0x0D]) v"

definition write_registry ::
  "files \<Rightarrow> bool \<Rightarrow> capability list \<Rightarrow> string list option \<Rightarrow> (string \<times> string list) list \<Rightarrow> string option \<Rightarrow> files" where
  "write_registry fs on caps ex rs lay =
     (let rendered = render_registry on caps ex rs lay
      in fs(LIVING_SPECS_REL \<mapsto> (case fs LIVING_SPECS_REL of None \<Rightarrow> rendered | Some old \<Rightarrow> splice_registry old rendered)))"

definition key_of :: "string \<Rightarrow> string" where
  "key_of l = strip (hd (split_on (CHR '':'') l))"

definition drop_legacy_block :: "files \<Rightarrow> files \<times> bool" where
  "drop_legacy_block fs =
     (case fs LEGACY_CONFIG_REL of
        None \<Rightarrow> (fs, False)
      | Some original \<Rightarrow>
          (let ls = splitlines_keep original in
           case filter (\<lambda>i. is_top_level_key (ls ! i) \<and> key_of (ls ! i) = ''livingSpecs'') [0..<length ls] of
             [] \<Rightarrow> (fs, False)
           | start # _ \<Rightarrow>
               (fs(LEGACY_CONFIG_REL \<mapsto> concat (take start ls) @ concat (drop (block_end ls start) ls)), True)))"

datatype reg_action = AlreadyRegistered | CreatedRegistry | AppendedCapability

record reg_result =
  rg_action :: reg_action
  rg_superseded :: "string list"
  rg_spec :: string
  rg_match :: "string list"
  rg_migrated :: bool
  rg_stale :: bool

definition register ::
  "files \<Rightarrow> string \<Rightarrow> string list \<Rightarrow> string list \<Rightarrow> string \<Rightarrow> string list \<Rightarrow> (reg_result \<times> files) option" where
  "register fs name match_globs exclude spec replaces =
     (let (l, m) = resolve_living_specs fs in
      if list_ex unsupported_value (name # spec # match_globs @ exclude) \<or> errors m \<noteq> []
         \<or> snd (load_config (fs LEGACY_CONFIG_REL)) \<noteq> [] then None
      else
        let caps = normalize_existing l;
            spec_path = (if spec = [] then reg_default_spec name else spec);
            superseded = filter (\<lambda>n. n \<in> set replaces) (map cap_name caps);
            kept = filter (\<lambda>c. cap_name c \<notin> set replaces) caps
        in case List.find (\<lambda>c. cap_name c = name) kept of
             Some c \<Rightarrow>
               Some (\<lparr>rg_action = AlreadyRegistered, rg_superseded = superseded,
                 rg_spec = (if cap_spec c = [] then reg_default_spec name else cap_spec c), rg_match = cap_match c,
                 rg_migrated = False, rg_stale = False\<rparr>, fs)
           | None \<Rightarrow>
               (let new = \<lparr>cap_name = name, cap_match = match_globs, cap_exclude = exclude,
                      cap_spec = (if spec_path = reg_default_spec name then [] else spec_path),
                      spec_defaulted = False, retire = False\<rparr>;
                    fs1 = write_registry fs (if origin m = FromNowhere then True else enabled l) (kept @ [new])
                            (Some (exempt l)) (rules l) (Some (layout l));
                    (fs2, migrated) = (if should_drop_legacy m then drop_legacy_block fs1 else (fs1, False))
                in Some (\<lparr>rg_action = (if fs LIVING_SPECS_REL = None then CreatedRegistry else AppendedCapability),
                     rg_superseded = superseded, rg_spec = spec_path, rg_match = match_globs,
                     rg_migrated = migrated, rg_stale = (\<not> migrated \<and> legacy_stale m)\<rparr>, fs2)))"

subsection \<open>Where a capability moves to\<close>

datatype storage = Central | Colocated

datatype reloc_error =
    NoGlobs | NoLiteralPrefix string | NoDirectory | SpansDirectories "string list" | NoSpec | BadPath string
  | DestinationExists string

definition basename :: "string \<Rightarrow> string" where
  "basename p = last (split_on (CHR ''/'') p)"

definition display_name :: "string \<Rightarrow> string" where
  "display_name spec =
     (let base = basename (posix spec);
          stem = (case List.find (\<lambda>e. suffix e base) [SPEC_SUFFIX, ''.rules.md'', ''.arch.md'', ''.coverage.md'', ''.md''] of
                    None \<Rightarrow> base | Some e \<Rightarrow> take (length base - length e) base)
      in if stem = [] \<or> stem = ''spec'' then basename (dirname (posix spec)) else stem)"

fun common_start :: "string list \<Rightarrow> string list \<Rightarrow> string list" where
  "common_start (a # xs) (b # ys) = (if a = b then a # common_start xs ys else [])"
| "common_start _ _ = []"

definition dir_parts :: "string \<Rightarrow> string list" where
  "dir_parts d = split_on (CHR ''/'') (rstrip_chars ''/'' (dropWhile (\<lambda>c. c = CHR ''/'') d))"

definition common_dir :: "string list \<Rightarrow> string" where
  "common_dir dirs =
     (case map dir_parts dirs of [] \<Rightarrow> [] | p # ps \<Rightarrow> join ''/'' (fold (\<lambda>q acc. common_start acc q) ps p))"

text \<open>The directory a glob names: its literal prefix, or the directory of the file it names.\<close>

definition glob_dir :: "files \<Rightarrow> string \<Rightarrow> string" where
  "glob_dir fs pat =
     (let lit = posix (literal_prefix pat) in if lit \<noteq> [] \<and> fs lit \<noteq> None then posix (dirname lit) else lit)"

definition area_root :: "files \<Rightarrow> capability \<Rightarrow> reloc_error + string" where
  "area_root fs cap =
     (if cap_match cap = [] then Inl NoGlobs
      else case List.find (\<lambda>pat. posix (literal_prefix pat) = []) (cap_match cap) of
          Some pat \<Rightarrow> Inl (NoLiteralPrefix pat)
        | None \<Rightarrow>
            (let dirs = filter (\<lambda>d. d \<noteq> []) (map (glob_dir fs) (cap_match cap)) in
             case dirs of
               [] \<Rightarrow> Inl NoDirectory
             | d # ds \<Rightarrow>
                 (let area = (if set ds \<subseteq> {d} then d else common_dir dirs)
                  in if area = [] then Inl (SpansDirectories (sort (remdups dirs))) else Inr area)))"

definition needs_central :: "files \<Rightarrow> capability \<Rightarrow> string \<Rightarrow> bool" where
  "needs_central fs cap area \<longleftrightarrow>
     1 < length (remdups (filter (\<lambda>d. d \<noteq> []) (map (glob_dir fs) (cap_match cap)))) \<or>
     list_ex (\<lambda>other. cap_name other \<noteq> cap_name cap \<and>
         (case area_root fs other of Inl _ \<Rightarrow> False | Inr inner \<Rightarrow> inner \<noteq> area \<and> prefix (area @ ''/'') inner))
       (capabilities (fst (resolve_living_specs fs)))"

definition central_spec :: "string \<Rightarrow> string" where
  "central_spec name = DEFAULT_CAPABILITY_ROOT @ ''/'' @ name @ ''/'' @ name @ SPEC_SUFFIX"

definition target_spec :: "files \<Rightarrow> capability \<Rightarrow> storage \<Rightarrow> string \<Rightarrow> reloc_error + string" where
  "target_spec fs cap to override =
     (if override \<noteq> [] then Inr (posix override)
      else if to = Central then Inr (central_spec (cap_name cap))
      else case area_root fs cap of
          Inl e \<Rightarrow> Inl e
        | Inr area \<Rightarrow>
            Inr (if needs_central fs cap area then central_spec (cap_name cap)
                 else area @ ''/'' @ cap_name cap @ SPEC_SUFFIX))"

subsection \<open>Planning\<close>

record reloc_plan =
  rp_name :: string
  rp_moving :: bool
  rp_spec_from :: string
  rp_spec :: string
  rp_moves :: "(string \<times> string) list"
  rp_renamed :: bool

text \<open>The pairs of a plan that move: a source that is not there is skipped, a destination that is there refused.\<close>

fun plan_moves :: "files \<Rightarrow> (string \<times> string) list \<Rightarrow> reloc_error + (string \<times> string) list" where
  "plan_moves fs [] = Inr []"
| "plan_moves fs ((src, dst) # ps) =
     (if fs src = None then plan_moves fs ps
      else if fs dst \<noteq> None then Inl (DestinationExists dst)
      else case plan_moves fs ps of Inl e \<Rightarrow> Inl e | Inr ms \<Rightarrow> Inr ((src, dst) # ms))"

definition tier_pairs :: "files \<Rightarrow> string \<Rightarrow> string \<Rightarrow> (string \<times> string) list" where
  "tier_pairs fs current target =
     (if current = [] then []
      else (current, target) # List.map_filter (\<lambda>key.
          case (map_of (tier_paths current None) key, map_of (tier_paths target None) key) of
            (Some (src, _), Some (dst, _)) \<Rightarrow> if fs src \<noteq> None then Some (src, dst) else None
          | _ \<Rightarrow> None) (sort (map fst TIER_SUFFIXES)))"

definition plan_capability :: "files \<Rightarrow> capability \<Rightarrow> storage \<Rightarrow> string \<Rightarrow> reloc_error + reloc_plan" where
  "plan_capability fs cap to override =
     (let current = posix (cap_spec cap); place = location (cap_spec cap) in
      if current = [] \<and> to \<noteq> Central then Inl NoSpec
      else case target_spec fs cap to override of
          Inl e \<Rightarrow> Inl e
        | Inr target \<Rightarrow>
            (if unsupported_value target then Inl (BadPath target)
             else if (to = Central \<and> place = ''centralized'')
                     \<or> (to = Colocated \<and> place = ''colocated'' \<and> (override = [] \<or> current = target))
                     \<or> current = target
             then Inr \<lparr>rp_name = cap_name cap, rp_moving = False, rp_spec_from = current,
                    rp_spec = (if current = [] then target else current), rp_moves = [], rp_renamed = False\<rparr>
             else case plan_moves fs (tier_pairs fs current target) of
                 Inl e \<Rightarrow> Inl e
               | Inr ms \<Rightarrow>
                   Inr \<lparr>rp_name = cap_name cap, rp_moving = True, rp_spec_from = current, rp_spec = target, rp_moves = ms,
                     rp_renamed = ((if current = [] then cap_name cap else display_name current) \<noteq> display_name target)\<rparr>))"

subsection \<open>Moves and their rollback\<close>

definition move_file :: "string \<times> string \<Rightarrow> files \<Rightarrow> files option" where
  "move_file m fs = map_option (\<lambda>t. (fs(fst m := None))(snd m \<mapsto> t)) (fs (fst m))"

text \<open>
  The moves in order, each noted before it is tried; \<open>fault k\<close> makes the \<open>k\<close>-th raise.  The result is the
  files, the notes, and whether all moves were made.
\<close>

fun apply_moves ::
  "(nat \<Rightarrow> bool) \<Rightarrow> nat \<Rightarrow> (string \<times> string) list \<Rightarrow> files \<Rightarrow> (string \<times> string) list
     \<Rightarrow> files \<times> (string \<times> string) list \<times> bool" where
  "apply_moves fault k [] fs noted = (fs, noted, True)"
| "apply_moves fault k (m # ms) fs noted =
     (case (if fault k then None else move_file m fs) of
        None \<Rightarrow> (fs, noted @ [m], False)
      | Some fs' \<Rightarrow> apply_moves fault (Suc k) ms fs' (noted @ [m]))"

definition undo_move :: "string \<times> string \<Rightarrow> files \<Rightarrow> files" where
  "undo_move m fs = (case move_file (snd m, fst m) fs of None \<Rightarrow> fs | Some fs' \<Rightarrow> fs')"

definition rollback :: "(string \<times> string) list \<Rightarrow> files \<Rightarrow> files" where
  "rollback noted fs = fold undo_move (rev noted) fs"

subsection \<open>The relocation\<close>

definition relocated_entries :: "living \<Rightarrow> reloc_plan list \<Rightarrow> capability list" where
  "relocated_entries l moving =
     map (\<lambda>c. case map_of (map (\<lambda>p. (rp_name p, p)) (rev moving)) (cap_name c) of
           None \<Rightarrow> c
         | Some p \<Rightarrow> c\<lparr>cap_spec := (if rp_spec p = reg_default_spec (cap_name c) then [] else rp_spec p)\<rparr>)
       (normalize_existing l)"

datatype reloc_outcome =
    RefusedRun
  | RolledBack
  | Finished "reloc_plan list" "reloc_plan list" "(string \<times> reloc_error) list"

text \<open>
  The plan of every targeted capability, \<open>None\<close> for an unknown name; \<open>name\<close> is \<open>None\<close> for \<open>--all\<close>.
\<close>

definition reloc_results ::
  "living \<Rightarrow> files \<Rightarrow> storage \<Rightarrow> string option \<Rightarrow> string \<Rightarrow> (string \<times> (reloc_error + reloc_plan)) list option" where
  "reloc_results l fs to name override =
     map_option (map (\<lambda>c. (cap_name c, plan_capability fs c to (if name = None then [] else override))))
       (case name of
          None \<Rightarrow> Some (capabilities l)
        | Some n \<Rightarrow> map_option (\<lambda>c. [c]) (List.find (\<lambda>c. cap_name c = n) (capabilities l)))"

definition plans_of :: "(string \<times> (reloc_error + reloc_plan)) list \<Rightarrow> reloc_plan list" where
  "plans_of results = List.map_filter (\<lambda>r. case snd r of Inr p \<Rightarrow> Some p | Inl _ \<Rightarrow> None) results"

definition skips_of :: "(string \<times> (reloc_error + reloc_plan)) list \<Rightarrow> (string \<times> reloc_error) list" where
  "skips_of results = List.map_filter (\<lambda>r. case snd r of Inl e \<Rightarrow> Some (fst r, e) | Inr _ \<Rightarrow> None) results"

definition moves_of :: "(string \<times> (reloc_error + reloc_plan)) list \<Rightarrow> (string \<times> string) list" where
  "moves_of results = concat (map rp_moves (filter rp_moving (plans_of results)))"

text \<open>
  Files first, then the registry.  \<open>config_fault\<close> makes the write of the registry raise; a raise is
  followed by the rollback of the moves and the restoration of the registry.
\<close>

definition carry_out ::
  "(nat \<Rightarrow> bool) \<Rightarrow> bool \<Rightarrow> files \<Rightarrow> living \<Rightarrow> meta \<Rightarrow> (string \<times> (reloc_error + reloc_plan)) list \<Rightarrow> reloc_outcome \<times> files" where
  "carry_out fault config_fault fs l m results =
     (let moving = filter rp_moving (plans_of results); unchanged = filter (\<lambda>p. \<not> rp_moving p) (plans_of results)
      in if moving = [] then (Finished [] unchanged (skips_of results), fs)
         else case apply_moves fault 0 (moves_of results) fs [] of
             (fs1, noted, fin) \<Rightarrow>
               (if \<not> fin \<or> config_fault then (RolledBack, (rollback noted fs1)(LIVING_SPECS_REL := fs LIVING_SPECS_REL))
                else let fs2 = write_registry fs1 (enabled l) (relocated_entries l moving)
                                 (Some (exempt l)) (rules l) (Some (layout l));
                         fs3 = (if should_drop_legacy m then fst (drop_legacy_block fs2) else fs2)
                     in (Finished moving unchanged (skips_of results), fs3)))"

definition relocate ::
  "(nat \<Rightarrow> bool) \<Rightarrow> bool \<Rightarrow> files \<Rightarrow> storage \<Rightarrow> string option \<Rightarrow> string \<Rightarrow> reloc_outcome \<times> files" where
  "relocate fault config_fault fs to name override =
     (let (l, m) = resolve_living_specs fs in
      if errors m \<noteq> [] \<or> origin m = FromNowhere \<or> capabilities l = [] then (RefusedRun, fs)
      else case reloc_results l fs to name override of
          None \<Rightarrow> (RefusedRun, fs)
        | Some results \<Rightarrow>
            (if name \<noteq> None \<and> skips_of results \<noteq> [] then (RefusedRun, fs)
             else carry_out fault config_fault fs l m results))"

section \<open>Facts\<close>

subsection \<open>Undoing moves\<close>

definition clear_moves :: "(string \<times> string) list \<Rightarrow> files \<Rightarrow> bool" where
  "clear_moves ms fs \<longleftrightarrow> distinct (map snd ms) \<and> (\<forall>m \<in> set ms. fs (snd m) = None) \<and> snd ` set ms \<inter> fst ` set ms = {}"

lemma rollback_Cons: "rollback (m # noted) fs = undo_move m (rollback noted fs)"
  by (simp add: rollback_def)

lemma undo_moved: "fs s = Some t \<Longrightarrow> fs d = None \<Longrightarrow> s \<noteq> d \<Longrightarrow> undo_move (s, d) ((fs(s := None))(d \<mapsto> t)) = fs"
  by (auto simp: undo_move_def move_file_def fun_eq_iff)

lemma undo_not_moved: "fs d = None \<Longrightarrow> undo_move (s, d) fs = fs"
  by (simp add: undo_move_def move_file_def)

lemma clear_moves_rest:
  assumes c: "clear_moves ((s, d) # ms) fs" and "move_file (s, d) fs = Some fs'"
  shows "clear_moves ms fs'"
proof -
  have "\<forall>m \<in> set ms. snd m \<noteq> d" using c by (force simp: clear_moves_def)
  moreover have "distinct (map snd ms)" "\<forall>m \<in> set ms. fs (snd m) = None" "snd ` set ms \<inter> fst ` set ms = {}"
    using c by (auto simp: clear_moves_def)
  moreover obtain t where "fs' = (fs(s := None))(d \<mapsto> t)" using assms(2) by (auto simp: move_file_def)
  ultimately show ?thesis by (simp add: clear_moves_def)
qed

lemma apply_rollback:
  "clear_moves ms fs \<Longrightarrow> apply_moves fault k ms fs noted0 = (fs1, noted, fin) \<Longrightarrow>
   \<exists>rest. noted = noted0 @ rest \<and> rollback rest fs1 = fs"
proof (induction ms arbitrary: k fs noted0)
  case Nil
  then show ?case by (simp add: rollback_def)
next
  case (Cons m ms)
  obtain s d where m: "m = (s, d)" by (cases m)
  have clear: "fs d = None" "s \<noteq> d" using Cons.prems(1) by (auto simp: clear_moves_def m)
  show ?case
  proof (cases "if fault k then None else move_file m fs")
    case None
    then have "noted = noted0 @ [m]" "fs1 = fs" using Cons.prems(2) by auto
    then show ?thesis using undo_not_moved [of fs d s] clear(1) m by (simp add: rollback_def)
  next
    case (Some fs')
    then have moved: "move_file (s, d) fs = Some fs'" using m by (simp split: if_splits)
    obtain rest where rest: "noted = noted0 @ m # rest" "rollback rest fs1 = fs'"
      using Cons.IH [OF clear_moves_rest [OF Cons.prems(1) [unfolded m] moved], of "Suc k" "noted0 @ [m]"] Cons.prems(2) Some
      by auto
    obtain t where "fs s = Some t" "fs' = (fs(s := None))(d \<mapsto> t)" using moved by (auto simp: move_file_def)
    then have "undo_move (s, d) fs' = fs" using undo_moved clear by simp
    then show ?thesis using rest m by (intro exI [of _ "m # rest"]) (simp add: rollback_Cons)
  qed
qed

lemma apply_moves_effect:
  "clear_moves ms fs \<Longrightarrow> apply_moves fault k ms fs noted0 = (fs1, noted, True) \<Longrightarrow>
   (\<forall>(s, d) \<in> set ms. fs s \<noteq> None \<and> fs1 d = fs s \<and> fs1 s = None) \<and>
   (\<forall>p. p \<notin> fst ` set ms \<union> snd ` set ms \<longrightarrow> fs1 p = fs p)"
proof (induction ms arbitrary: k fs noted0)
  case (Cons m ms)
  obtain s d where m: "m = (s, d)" by (cases m)
  have clear: "fs d = None" "s \<noteq> d" "d \<notin> fst ` set ms" "d \<notin> snd ` set ms" "s \<notin> snd ` set ms"
    using Cons.prems(1) by (auto simp: clear_moves_def m rev_image_eqI)
  obtain fs' where moved: "move_file (s, d) fs = Some fs'" and run: "apply_moves fault (Suc k) ms fs' (noted0 @ [m]) = (fs1, noted, True)"
    using Cons.prems(2) m by (auto split: option.splits if_splits)
  obtain t where t: "fs s = Some t" "fs' = (fs(s := None))(d \<mapsto> t)" using moved by (auto simp: move_file_def)
  note IH = Cons.IH [OF clear_moves_rest [OF Cons.prems(1) [unfolded m] moved] run]
  have rest: "fs s' \<noteq> None \<and> fs1 d' = fs s' \<and> fs1 s' = None" if sd: "(s', d') \<in> set ms" for s' d'
  proof -
    have "fs' s' \<noteq> None \<and> fs1 d' = fs' s' \<and> fs1 s' = None" using IH sd by blast
    moreover from this have "s' \<noteq> s" using t(2) clear(2) by auto
    moreover have "s' \<noteq> d" using clear(3) sd by force
    ultimately show ?thesis using t(2) by simp
  qed
  have "fs1 d = Some t" using IH clear(3,4) t(2) by simp
  moreover have "fs1 s = None"
  proof (cases "s \<in> fst ` set ms")
    case True
    then show ?thesis using IH by force
  next
    case False
    then show ?thesis using IH clear(2,5) t(2) by simp
  qed
  moreover have "fs1 p = fs p" if "p \<notin> fst ` set (m # ms) \<union> snd ` set (m # ms)" for p
    using IH that t(2) m by simp
  ultimately show ?case using rest t(1) m by auto
qed simp

subsection \<open>What the plans promise\<close>

lemma plan_moves_ok: "plan_moves fs ps = Inr ms \<Longrightarrow> (\<forall>m \<in> set ms. fs (fst m) \<noteq> None \<and> fs (snd m) = None) \<and> set ms \<subseteq> set ps
    \<and> (distinct (map snd ps) \<longrightarrow> distinct (map snd ms))"
proof (induction fs ps arbitrary: ms rule: plan_moves.induct)
  case (2 fs src dst ps)
  show ?case
  proof (cases "fs src = None")
    case True
    then show ?thesis using 2 by auto
  next
    case False
    then obtain ms' where "plan_moves fs ps = Inr ms'" "ms = (src, dst) # ms'" "fs dst = None"
      using 2(3) by (auto split: if_splits sum.splits)
    then show ?thesis using 2(2) [of ms'] False by auto
  qed
qed simp

lemma tier_base_long: "length p \<le> length (tier_base p) + 8"
  by (simp add: tier_base_def) arith

lemma length_posix: "length (posix p) = length p"
  by (induction p) (simp_all add: posix_def replace_char_def)

lemma tier_keys: "sort (map fst TIER_SUFFIXES) = [''coverage'', ''rules'']"
  by code_simp

lemma tier_paths_plain:
  "map_of (tier_paths p None) ''coverage'' = Some (tier_base (posix p) @ ''.coverage.md'', None)"
  "map_of (tier_paths p None) ''rules'' = Some (tier_base (posix p) @ ''.rules.md'', None)"
  by (simp_all add: tier_paths_def tier_entry_def TIER_SUFFIXES_def Let_def)

lemma tier_pairs_distinct: "distinct (map snd (tier_pairs fs current target))"
proof -
  have "length (posix target) < length (tier_base (posix target) @ ''.coverage.md'')"
    "length (posix target) < length (tier_base (posix target) @ ''.rules.md'')"
    using tier_base_long [of "posix target"] by simp_all
  then have "target \<noteq> tier_base (posix target) @ ''.coverage.md''" "target \<noteq> tier_base (posix target) @ ''.rules.md''"
    unfolding length_posix by (metis less_irrefl)+
  then show ?thesis by (simp add: tier_pairs_def tier_keys tier_paths_plain List.map_filter_def)
qed

lemma plan_capability_moves:
  assumes "plan_capability fs cap to override = Inr p"
  shows "(\<forall>m \<in> set (rp_moves p). fs (fst m) \<noteq> None \<and> fs (snd m) = None) \<and> distinct (map snd (rp_moves p))"
proof (cases "rp_moves p = []")
  case False
  then obtain target where "plan_moves fs (tier_pairs fs (posix (cap_spec cap)) target) = Inr (rp_moves p)"
    using assms by (auto simp: plan_capability_def Let_def split: if_splits sum.splits)
  from plan_moves_ok [OF this] show ?thesis using tier_pairs_distinct by blast
qed simp

lemma reloc_results_plans:
  assumes "reloc_results l fs to name override = Some results" and "p \<in> set (plans_of results)"
  shows "\<exists>cap o'. plan_capability fs cap to o' = Inr p"
proof -
  obtain r where r: "r \<in> set results" "snd r = Inr p"
    using assms(2) by (auto simp: plans_of_def List.map_filter_def split: sum.splits)
  obtain cs where "results = map (\<lambda>c. (cap_name c, plan_capability fs c to (if name = None then [] else override))) cs"
    using assms(1) by (auto simp: reloc_results_def)
  then obtain c where "plan_capability fs c to (if name = None then [] else override) = snd r" using r(1) by auto
  then show ?thesis using r(2) by metis
qed

lemma moves_of_clear:
  assumes r: "reloc_results l fs to name override = Some results" and d: "distinct (map snd (moves_of results))"
  shows "clear_moves (moves_of results) fs"
proof -
  have "fs (fst m) \<noteq> None \<and> fs (snd m) = None" if "m \<in> set (moves_of results)" for m
    using that reloc_results_plans [OF r] plan_capability_moves by (fastforce simp: moves_of_def)
  then have ok: "\<forall>m \<in> set (moves_of results). fs (fst m) \<noteq> None \<and> fs (snd m) = None" by blast
  then have "\<forall>m \<in> set (moves_of results). \<forall>m' \<in> set (moves_of results). snd m \<noteq> fst m'" by metis
  then have "snd ` set (moves_of results) \<inter> fst ` set (moves_of results) = {}"
    unfolding disjoint_iff image_iff by (intro allI impI) (elim bexE, metis)
  then show ?thesis using d ok by (simp add: clear_moves_def)
qed

text \<open>The plan of a single capability never sends two files to one place.\<close>

lemma single_moves_distinct:
  assumes "reloc_results l fs to (Some n) override = Some results"
  shows "distinct (map snd (moves_of results))"
proof -
  obtain cap where r: "results = [(cap_name cap, plan_capability fs cap to override)]"
    using assms by (auto simp: reloc_results_def)
  show ?thesis
    using plan_capability_moves [of fs cap to override]
    by (cases "plan_capability fs cap to override") (auto simp: r moves_of_def plans_of_def List.map_filter_def)
qed

lemma run_moves_clear:
  assumes "reloc_results l fs to name override = Some results" and "name \<noteq> None \<or> distinct (map snd (moves_of results))"
  shows "clear_moves (moves_of results) fs"
proof (rule moves_of_clear [OF assms(1)])
  show "distinct (map snd (moves_of results))"
    using assms single_moves_distinct by (cases name) auto
qed

lemma relocate_carried:
  assumes "relocate fault config_fault fs to name override = (out, fs')" and "out \<noteq> RefusedRun"
  obtains results where "reloc_results (fst (resolve_living_specs fs)) fs to name override = Some results"
    and "carry_out fault config_fault fs (fst (resolve_living_specs fs)) (snd (resolve_living_specs fs)) results = (out, fs')"
  using assms by (auto simp: relocate_def Let_def case_prod_beta split: if_splits option.splits)

section \<open>Properties\<close>

text \<open>A relocation that fails leaves nothing behind: whichever move raises, or the write of the registry, after
  the rollback every file of the project has the text it had.  With \<open>--all\<close> this needs that no two
  capabilities are sent to the same place; a single capability never is.\<close>

theorem relocate_all_or_nothing:
  assumes "relocate fault config_fault fs to name override = (RolledBack, fs')"
    and "name \<noteq> None \<or> (\<forall>results. reloc_results (fst (resolve_living_specs fs)) fs to name override = Some results
           \<longrightarrow> distinct (map snd (moves_of results)))"
  shows "fs' = fs"
proof -
  obtain results where r: "reloc_results (fst (resolve_living_specs fs)) fs to name override = Some results"
    and c: "carry_out fault config_fault fs (fst (resolve_living_specs fs)) (snd (resolve_living_specs fs)) results = (RolledBack, fs')"
    using relocate_carried [OF assms(1)] by blast
  obtain fs1 noted fin where run: "apply_moves fault 0 (moves_of results) fs [] = (fs1, noted, fin)"
    by (cases "apply_moves fault 0 (moves_of results) fs []") auto
  have fs': "fs' = (rollback noted fs1)(LIVING_SPECS_REL := fs LIVING_SPECS_REL)"
    using c by (simp add: carry_out_def Let_def run split: if_splits)
  have "clear_moves (moves_of results) fs" using run_moves_clear [OF r] assms(2) r by blast
  then obtain rest where "noted = [] @ rest" "rollback rest fs1 = fs" using apply_rollback [OF _ run] by blast
  then show ?thesis by (simp add: fs' fun_upd_idem)
qed

text \<open>A relocation that succeeds moves and does not copy or lose: each destination has the text its source
  had, each source is gone, and no other file but the registry and the legacy configuration changes.\<close>

theorem relocate_moves_everything:
  assumes "relocate fault config_fault fs to name override = (Finished moving unchanged skipped, fs')" and "moving \<noteq> []"
    and "name \<noteq> None \<or> (\<forall>results. reloc_results (fst (resolve_living_specs fs)) fs to name override = Some results
           \<longrightarrow> distinct (map snd (moves_of results)))"
    and "p \<noteq> LIVING_SPECS_REL" and "p \<noteq> LEGACY_CONFIG_REL"
  shows "(\<forall>(s, d) \<in> set (concat (map rp_moves moving)).
      fs s \<noteq> None \<and> (p = d \<longrightarrow> fs' p = fs s) \<and> (p = s \<longrightarrow> fs' p = None)) \<and>
    (p \<notin> fst ` set (concat (map rp_moves moving)) \<union> snd ` set (concat (map rp_moves moving)) \<longrightarrow> fs' p = fs p)"
proof -
  obtain results where r: "reloc_results (fst (resolve_living_specs fs)) fs to name override = Some results"
    and c: "carry_out fault config_fault fs (fst (resolve_living_specs fs)) (snd (resolve_living_specs fs)) results
      = (Finished moving unchanged skipped, fs')"
    using relocate_carried [OF assms(1)] by blast
  obtain fs1 noted fin where run0: "apply_moves fault 0 (moves_of results) fs [] = (fs1, noted, fin)"
    by (cases "apply_moves fault 0 (moves_of results) fs []") auto
  have m: "moving = filter rp_moving (plans_of results)" and fin: "fin"
    using c assms(2) by (auto simp: carry_out_def Let_def run0 split: if_splits)
  have drop: "fst (drop_legacy_block fs2) p = fs2 p" for fs2
    using assms(5) by (simp add: drop_legacy_block_def Let_def split: option.split list.split)
  have p: "fs' p = fs1 p"
    using c assms(2,4) by (auto simp: carry_out_def Let_def run0 write_registry_def drop split: if_splits)
  note run = run0 [unfolded eqTrueI [OF fin]]
  have moves: "moves_of results = concat (map rp_moves moving)" by (simp add: moves_of_def m)
  have "clear_moves (moves_of results) fs" using run_moves_clear [OF r] assms(3) r by blast
  from apply_moves_effect [OF this run] show ?thesis unfolding moves p by blast
qed

text \<open>A project with one capability in central storage and its rules beside it.\<close>

definition two_files :: files where
  "two_files p =
     (if p = ''living-specs.yml''
      then Some (join nl [''enabled: true'', ''capabilities:'', ''- name: a'', ''  match: [s/**]''])
      else if p = ''capabilities/a/a.spec.md'' then Some ''# A''
      else if p = ''capabilities/a/a.rules.md'' then Some ''- r''
      else None)"

lemma two_files_rolled_back: "fst (relocate (\<lambda>k. k = 1) False two_files Colocated (Some ''a'') []) = RolledBack"
  by code_simp

theorem relocate_all_or_nothing_witness:
  "fst (relocate (\<lambda>k. k = 1) False two_files Colocated (Some ''a'') []) = RolledBack \<and>
   snd (relocate (\<lambda>k. k = 1) False two_files Colocated (Some ''a'') []) = two_files"
proof -
  have "relocate (\<lambda>k. k = 1) False two_files Colocated (Some ''a'') [] =
      (RolledBack, snd (relocate (\<lambda>k. k = 1) False two_files Colocated (Some ''a'') []))"
    using two_files_rolled_back by (intro prod_eqI) (simp_all only: fst_conv snd_conv)
  from relocate_all_or_nothing [OF this] two_files_rolled_back show ?thesis by blast
qed

definition moved_of :: "reloc_outcome \<Rightarrow> (string \<times> string) list" where
  "moved_of r = (case r of Finished ms _ _ \<Rightarrow> concat (map rp_moves ms) | _ \<Rightarrow> [])"

definition two_files_moves :: "(string \<times> string) list" where
  "two_files_moves = [(''capabilities/a/a.spec.md'', ''s/a.spec.md''), (''capabilities/a/a.rules.md'', ''s/a.rules.md'')]"

lemma two_files_moved:
  "moved_of (fst (relocate (\<lambda>_. False) False two_files Colocated (Some ''a'') [])) = two_files_moves"
  by code_simp

theorem relocate_moves_everything_witness:
  "snd (relocate (\<lambda>_. False) False two_files Colocated (Some ''a'') []) ''s/a.rules.md'' = Some ''- r''"
proof -
  let ?run = "relocate (\<lambda>_. False) False two_files Colocated (Some ''a'') []"
  have ms: "moved_of (fst ?run) = two_files_moves" by (rule two_files_moved)
  then obtain moving unchanged skipped where out: "fst ?run = Finished moving unchanged skipped"
    by (cases "fst ?run") (simp_all add: moved_of_def two_files_moves_def)
  then have moves: "concat (map rp_moves moving) = two_files_moves" using ms by (simp add: moved_of_def)
  then have "moving \<noteq> []" by (auto simp: two_files_moves_def)
  moreover have "?run = (Finished moving unchanged skipped, snd ?run)" using out by (simp add: prod_eq_iff)
  ultimately have "\<forall>(s, d) \<in> set two_files_moves. two_files s \<noteq> None \<and> (''s/a.rules.md'' = d \<longrightarrow> snd ?run ''s/a.rules.md'' = two_files s)"
    using relocate_moves_everything [of "\<lambda>_. False" False two_files Colocated "Some ''a''" "[]" moving unchanged skipped "snd ?run" "''s/a.rules.md''"]
    by (auto simp: moves LIVING_SPECS_REL_def LEGACY_CONFIG_REL_def)
  then show ?thesis by (simp add: two_files_moves_def two_files_def)
qed

section \<open>Where the tools fall short\<close>

text \<open>
  Two entries of one name under \<open>--all\<close> are sent to the same file: the second move overwrites the first
  spec, and nothing reports it.
\<close>

definition same_name :: files where
  "same_name p =
     (if p = ''living-specs.yml''
      then Some (join nl [''enabled: true'', ''capabilities:'', ''- name: a'', ''  match: [s/**]'', ''  spec: x'',
                          ''- name: a'', ''  match: [t/**]'', ''  spec: y''])
      else if p = ''x'' then Some ''X'' else if p = ''y'' then Some ''Y'' else None)"

lemma colliding_names_lose_a_spec:
  "(case relocate (\<lambda>_. False) False same_name Central None [] of
      (Finished _ _ skipped, fs) \<Rightarrow> (skipped, fs ''x'', fs ''y'', fs ''capabilities/a/a.spec.md'')
    | _ \<Rightarrow> ([], None, None, None)) = ([], None, None, Some ''Y'')"
  by code_simp

text \<open>A key of another owner between the keys of the registry is deleted by a rewrite.\<close>

lemma splice_drops_foreign_key:
  "splice_registry (join nl [''enabled: true'', ''mine: 1'', ''capabilities: []''] @ nl) (''enabled: true'' @ nl) =
     ''enabled: true'' @ nl"
  by code_simp

text \<open>
  Registering without a path reports \<open>capabilities/a/spec.md\<close>, and the registry it writes resolves to
  another path.
\<close>

lemma registered_spec_is_not_resolved:
  "map_option (\<lambda>(r, fs). (rg_spec r, map cap_spec (capabilities (fst (resolve_living_specs fs)))))
     (register (\<lambda>_. None) ''a'' [''s/**''] [] [] []) =
   Some (''capabilities/a/spec.md'', [''capabilities/a/a.spec.md''])"
  by code_simp

text \<open>A rules file under its legacy name is not moved with its spec.\<close>

lemma legacy_tier_left_behind:
  "tier_pairs (\<lambda>p. if p \<in> set [''x.spec.md'', ''x.arch.md''] then Some [] else None) ''x.spec.md'' ''s/x.spec.md'' =
     [(''x.spec.md'', ''s/x.spec.md'')]"
  by code_simp

end
