(* ===== verification/PlanText.thy ===== *)
theory PlanText
  imports ShapeCheck
begin

text \<open>
  \<open>check_plan.py\<close>, the reader: the outermost fences of a plan, the blocks it cares about (call paths,
  screens, states, code), and the grammar of their lines.  A line of a document is what lies between
  two newlines, and lines are counted from 1.  The wording of a message is not modelled: where the
  code returns an error text, the model says that there is one.
\<close>

subsection \<open>Lines and words\<close>

definition lines_of :: "string \<Rightarrow> string list" where
  "lines_of s = split_on (CHR 0x0A) (unix_newlines s)"

text \<open>\<open>s.split()\<close> and \<open>s.split(None, k)\<close>.\<close>

definition words_of :: "string \<Rightarrow> string list" where
  "words_of s = runs (\<lambda>c. \<not> is_space c) [] s"

fun split_words :: "nat \<Rightarrow> string \<Rightarrow> string list" where
  "split_words 0 s = (if lstrip s = [] then [] else [lstrip s])"
| "split_words (Suc k) s =
     (let t = lstrip s; w = takeWhile (\<lambda>c. \<not> is_space c) t
      in if t = [] then [] else w # split_words k (drop (length w) t))"

definition digits_value :: "string \<Rightarrow> nat" where
  "digits_value s = nat (decimal_value s)"

definition rstrip_blanks :: "string \<Rightarrow> string" where
  "rstrip_blanks s = rstrip_chars '' '' s"

definition is_blank :: "string \<Rightarrow> bool" where
  "is_blank l \<longleftrightarrow> strip l = []"

subsection \<open>Fences\<close>

text \<open>\<open>_FENCE\<close>: at most three spaces, a run of three or more backticks or tildes, and the rest.\<close>

definition plan_fence :: "string \<Rightarrow> (string \<times> string) option" where
  "plan_fence l =
     (let s = dropWhile (\<lambda>c. c = CHR '' '') l;
          ticks = takeWhile (\<lambda>c. c = CHR 0x60) s;
          tildes = takeWhile (\<lambda>c. c = CHR ''~'') s
      in if 3 < length l - length s then None
         else if 3 \<le> length ticks then Some (ticks, drop (length ticks) s)
         else if 3 \<le> length tildes then Some (tildes, drop (length tildes) s)
         else None)"

definition closes_fence :: "string \<Rightarrow> string \<Rightarrow> bool" where
  "closes_fence fence l =
     (case plan_fence l of
        None \<Rightarrow> False
      | Some (marks, after) \<Rightarrow> hd marks = hd fence \<and> length fence \<le> length marks \<and> strip after = [])"

type_synonym numbered = "nat \<times> string"

text \<open>The body of a fence opened before line \<open>n\<close>, whether it is closed, and what follows it.\<close>

fun take_body :: "string \<Rightarrow> nat \<Rightarrow> string list \<Rightarrow> numbered list \<times> bool \<times> nat \<times> string list" where
  "take_body fence n [] = ([], False, n, [])"
| "take_body fence n (l # ls) =
     (if closes_fence fence l then ([], True, Suc n, ls)
      else let (rows, closed, m, after) = take_body fence (Suc n) ls in ((n, l) # rows, closed, m, after))"

record fenced =
  f_info :: string
  f_start :: nat
  f_body :: "numbered list"
  f_closed :: bool
  f_next :: nat
  f_after :: "string list"

lemma take_body_shorter: "take_body fence n ls = (rows, closed, m, after) \<Longrightarrow> length after \<le> length ls"
  by (induction fence n ls arbitrary: rows closed m after rule: take_body.induct)
     (fastforce split: if_splits prod.splits)+

function fences_from :: "nat \<Rightarrow> string list \<Rightarrow> fenced list" where
  "fences_from n [] = []"
| "fences_from n (l # ls) =
     (case plan_fence l of
        None \<Rightarrow> fences_from (Suc n) ls
      | Some (marks, info) \<Rightarrow>
          (let (rows, closed, m, after) = take_body marks (Suc n) ls
           in \<lparr>f_info = strip info, f_start = n, f_body = rows, f_closed = closed, f_next = m, f_after = after\<rparr>
              # fences_from m after))"
  by pat_completeness auto
termination
  by (relation "measure (length \<circ> snd)") (auto dest: take_body_shorter [OF sym] simp: less_Suc_eq_le)

definition fences_in :: "string \<Rightarrow> fenced list" where
  "fences_in s = fences_from 1 (lines_of s)"

text \<open>\<open>_after_blanks\<close>: the first line after a fence that is not blank, with its number.\<close>

fun after_blanks :: "nat \<Rightarrow> string list \<Rightarrow> numbered list" where
  "after_blanks n [] = []"
| "after_blanks n (l # ls) = (if is_blank l then after_blanks (Suc n) ls else enumerate n (l # ls))"

subsection \<open>Blocks\<close>

record block =
  b_title :: string
  b_start :: nat
  b_rows :: "numbered list"
  b_closed :: bool
  b_notes :: nat

definition rows_of :: "numbered list \<Rightarrow> numbered list" where
  "rows_of rows = map (\<lambda>(n, row). (n, rstrip_blanks row)) (filter (\<lambda>(n, row). \<not> is_blank row) rows)"

definition is_note_line :: "string \<Rightarrow> bool" where
  "is_note_line l \<longleftrightarrow> prefix ''note:'' (lower (lstrip l))"

definition block_of :: "fenced \<Rightarrow> block" where
  "block_of f =
     \<lparr>b_title = (case split_words 1 (f_info f) of [_, rest] \<Rightarrow> strip rest | _ \<Rightarrow> []),
      b_start = f_start f, b_rows = rows_of (f_body f), b_closed = f_closed f,
      b_notes = length (takeWhile (\<lambda>(n, l). is_note_line l) (after_blanks (f_next f) (f_after f)))\<rparr>"

definition find_blocks :: "string \<Rightarrow> string \<Rightarrow> block list" where
  "find_blocks content kind =
     map block_of (filter (\<lambda>f. case split_words 1 (f_info f) of w # _ \<Rightarrow> w = kind | [] \<Rightarrow> False) (fences_in content))"

subsection \<open>Code blocks\<close>

definition OTHER_BLOCKS :: "string list" where
  "OTHER_BLOCKS = [''calls'', ''code'', ''states'', ''screen'', ''mermaid'']"

definition MAX_DIGITS :: nat where
  "MAX_DIGITS = 7"

text \<open>\<open>_LANGUAGE\<close>, on a lowered word.\<close>

definition is_language :: "string \<Rightarrow> bool" where
  "is_language w =
     (let alnum = (\<lambda>c. c \<in> set ''abcdefghijklmnopqrstuvwxyz0123456789'')
      in w \<noteq> [] \<and> alnum (hd w) \<and> length w \<le> 32 \<and> list_all (\<lambda>c. alnum c \<or> c \<in> set ''_+#.-'') (tl w))"

text \<open>\<open>_CITE\<close>: a path, a colon, and two numbers joined by a hyphen.\<close>

definition cite_of :: "string \<Rightarrow> (string \<times> string \<times> string) option" where
  "cite_of w =
     (let r = rev w;
          b = takeWhile is_decimal r; r1 = drop (length b) r;
          a = takeWhile is_decimal (tl r1); r2 = drop (length a) (tl r1)
      in if b \<noteq> [] \<and> prefix ''-'' r1 \<and> a \<noteq> [] \<and> prefix '':'' r2 \<and> tl r2 \<noteq> []
         then Some (rev (tl r2), rev a, rev b) else None)"

text \<open>One part of \<open>hl=\<close>: a number or a range of at most seven digits each.\<close>

definition hl_part :: "string \<Rightarrow> (nat \<times> nat) option" where
  "hl_part s =
     (let ok = (\<lambda>d. d \<noteq> [] \<and> length d \<le> 7 \<and> list_all is_decimal d);
          a = takeWhile is_decimal s; r = drop (length a) s
      in if \<not> ok a then None
         else if r = [] then Some (digits_value a, digits_value a)
         else if hd r = CHR ''-'' \<and> ok (tl r) then Some (digits_value a, digits_value (tl r))
         else None)"

definition parse_hl :: "string \<Rightarrow> (nat \<times> nat) list option" where
  "parse_hl s =
     traverse (\<lambda>part. case hl_part part of
        Some (low, high) \<Rightarrow> if low \<le> high then Some (low, high) else None
      | None \<Rightarrow> None) (split_on (CHR '','') s)"

definition outside_repo :: "string \<Rightarrow> bool" where
  "outside_repo path \<longleftrightarrow>
     (path \<noteq> [] \<and> hd path \<in> set [CHR ''/'', CHR 0x5C]) \<or>
     (2 \<le> length path \<and> lower_char (hd path) \<in> set ''abcdefghijklmnopqrstuvwxyz'' \<and> path ! 1 = CHR '':'') \<or>
     ''..'' \<in> set (split_on (CHR ''/'') (map (\<lambda>c. if c = CHR 0x5C then CHR ''/'' else c) path))"

record code_info =
  c_kind :: string
  c_path :: string
  c_first :: nat
  c_last :: "nat option"
  c_hl :: "(nat \<times> nat) list"

datatype code_parse = NotCode | BadCode | Code code_info

text \<open>What is left to check once the kind, the path and the range are known.\<close>

definition finish_info :: "string \<Rightarrow> string \<Rightarrow> nat \<Rightarrow> nat option \<Rightarrow> string list \<Rightarrow> code_parse" where
  "finish_info kind path first until extra =
     (if 1 < length extra \<or> (extra \<noteq> [] \<and> \<not> prefix ''hl='' (hd extra)) then BadCode
      else case (if extra = [] then Some [] else parse_hl (drop 3 (hd extra))) of
          None \<Rightarrow> BadCode
        | Some hl \<Rightarrow>
            if outside_repo path then BadCode
            else if kind = ''cite'' \<and> (first < 1 \<or> (\<exists>l \<in> set_option until. l < first)) then BadCode
            else Code \<lparr>c_kind = kind, c_path = path, c_first = first, c_last = until, c_hl = hl\<rparr>)"

definition parse_code_info :: "string \<Rightarrow> code_parse" where
  "parse_code_info info =
     (case words_of info of
        lang # word # more_words \<Rightarrow>
          (if \<not> is_language (lower lang) \<or> lower lang \<in> set OTHER_BLOCKS then NotCode
           else if word = ''sketch''
           then (case more_words of
               [] \<Rightarrow> BadCode
             | path # extra \<Rightarrow>
                 if prefix ''hl='' path then BadCode else finish_info ''sketch'' path 1 None extra)
           else case cite_of word of
               None \<Rightarrow> NotCode
             | Some (path, a, b) \<Rightarrow>
                 if MAX_DIGITS < max (length a) (length b) then BadCode
                 else finish_info ''cite'' path (digits_value a) (Some (digits_value b)) more_words)
      | _ \<Rightarrow> NotCode)"

text \<open>\<open>_PIN\<close>: the line a pin names, of which only the first eight digits count, and its text.\<close>

definition pin_of :: "string \<Rightarrow> (nat \<times> string) option" where
  "pin_of l =
     (let s = lstrip l; r = drop 3 s; t = lstrip r; d = takeWhile is_decimal t; after = drop (length d) t
      in if lower (take 3 s) = ''pin'' \<and> r \<noteq> [] \<and> is_space (hd r) \<and> d \<noteq> [] \<and> prefix '':'' after
         then Some (digits_value (take (MAX_DIGITS + 1) d), strip (tl after)) else None)"

fun take_pins :: "numbered list \<Rightarrow> (nat \<times> nat \<times> string) list" where
  "take_pins [] = []"
| "take_pins ((n, l) # ls) =
     (case pin_of l of None \<Rightarrow> [] | Some (line, note) \<Rightarrow> (n, line, note) # take_pins ls)"

record code_block =
  k_info :: code_parse
  k_start :: nat
  k_body :: "numbered list"
  k_closed :: bool
  k_pins :: "(nat \<times> nat \<times> string) list"

definition code_block_of :: "fenced \<Rightarrow> code_block" where
  "code_block_of f =
     \<lparr>k_info = parse_code_info (f_info f), k_start = f_start f, k_body = f_body f, k_closed = f_closed f,
      k_pins = (if f_closed f then take_pins (after_blanks (f_next f) (f_after f)) else [])\<rparr>"

definition find_code_blocks :: "string \<Rightarrow> code_block list" where
  "find_code_blocks content =
     map code_block_of (filter (\<lambda>f. parse_code_info (f_info f) \<noteq> NotCode) (fences_in content))"

subsection \<open>Lines of a call path\<close>

record call =
  r_mark :: char
  r_depth :: nat
  r_name :: string
  r_path :: string
  r_line :: "nat option"
  r_new :: bool

text \<open>\<open>_LOCATION\<close> on a stripped text: a name, \<open>@\<close>, a path without spaces, and perhaps a line.\<close>

definition split_location :: "string \<Rightarrow> (string \<times> string \<times> nat option) option" where
  "split_location s =
     (let w = rev (takeWhile (\<lambda>c. \<not> is_space c) (rev s));
          before = rstrip (take (length s - length w) s);
          d = rev (takeWhile is_decimal (rev w));
          p = take (length w - length d) w
      in if w = [] \<or> length w = length s \<or> \<not> suffix ''@'' before
            \<or> butlast before = [] \<or> \<not> is_space (last (butlast before)) then None
         else if d \<noteq> [] \<and> suffix '':'' p \<and> butlast p \<noteq> []
         then Some (rstrip (butlast before), butlast p, Some (digits_value d))
         else Some (rstrip (butlast before), w, None))"

definition inside_project :: "string \<Rightarrow> bool" where
  "inside_project path \<longleftrightarrow> \<not> prefix ''/'' path \<and> ''..'' \<notin> set (split_on (CHR ''/'') path)"

text \<open>A trailing word of a stripped text, and the text without it and the space before it.\<close>

definition drop_suffix :: "string \<Rightarrow> string \<Rightarrow> string option" where
  "drop_suffix suf s = (if suffix suf s then Some (strip (take (length s - length suf) s)) else None)"

definition parse_row :: "string \<Rightarrow> call option" where
  "parse_row row =
     (if CHR 0x09 \<in> set row then None
      else case row of
          mark # sp # rest \<Rightarrow>
            (let indent = length (takeWhile (\<lambda>c. c = CHR '' '') rest) in
             if mark \<notin> set ''+~- '' \<or> sp \<noteq> CHR '' '' \<or> odd indent then None
             else case split_location (strip rest) of
                 None \<Rightarrow> None
               | Some (given, path, line) \<Rightarrow>
                   (let new = (drop_suffix ''**new**'' given \<noteq> None);
                        name = (case drop_suffix ''**new**'' given of Some n \<Rightarrow> n | None \<Rightarrow> given)
                    in if name = [] \<or> (new \<and> mark \<noteq> CHR ''+'') \<or> (new \<and> line \<noteq> None) \<or> \<not> inside_project path
                       then None
                       else Some \<lparr>r_mark = mark, r_depth = indent div 2, r_name = name, r_path = path,
                                  r_line = line, r_new = new\<rparr>))
        | _ \<Rightarrow> None)"

text \<open>\<open>_symbol\<close>: the last identifier before the first parenthesis.\<close>

definition ident_char :: "char \<Rightarrow> bool" where
  "ident_char c \<longleftrightarrow> is_word c \<or> c = CHR ''$''"

definition ident_start :: "char \<Rightarrow> bool" where
  "ident_start c \<longleftrightarrow> c \<in> set ''ABCDEFGHIJKLMNOPQRSTUVWXYZabcdefghijklmnopqrstuvwxyz_$''"

definition symbol_of :: "string \<Rightarrow> string option" where
  "symbol_of name =
     (let found = filter (\<lambda>w. w \<noteq> []) (map (dropWhile (\<lambda>c. \<not> ident_start c))
                    (runs ident_char [] (takeWhile (\<lambda>c. c \<noteq> CHR ''('') name)))
      in if found = [] then None else Some (last found))"

text \<open>Whether a symbol stands in a text, with no identifier character on either side of it.\<close>

fun mentions :: "string \<Rightarrow> bool \<Rightarrow> string \<Rightarrow> bool" where
  "mentions symbol inside [] = False"
| "mentions symbol inside (c # cs) =
     (\<not> inside \<and> prefix symbol (c # cs) \<and>
        (drop (length symbol) (c # cs) = [] \<or> \<not> ident_char (hd (drop (length symbol) (c # cs))))
      \<or> mentions symbol (ident_char c) cs)"

subsection \<open>Screens and their parts\<close>

record screen =
  n_name :: string
  n_title :: string
  n_start :: nat
  n_rows :: "numbered list"
  n_closed :: bool
  n_notes :: "(nat \<times> nat) list"

text \<open>\<open>_NOTE\<close>: one or two digits, a colon, whitespace, and something.\<close>

definition note_of :: "string \<Rightarrow> nat option" where
  "note_of l =
     (let d = takeWhile is_decimal l; r = drop (length d) l
      in if d \<noteq> [] \<and> length d \<le> 2 \<and> prefix '':'' r \<and> tl r \<noteq> [] \<and> is_space (hd (tl r)) \<and> lstrip (tl r) \<noteq> []
         then Some (digits_value d) else None)"

fun take_notes :: "numbered list \<Rightarrow> (nat \<times> nat) list" where
  "take_notes [] = []"
| "take_notes ((n, l) # ls) = (case note_of l of None \<Rightarrow> [] | Some k \<Rightarrow> (n, k) # take_notes ls)"

definition screen_of :: "fenced \<Rightarrow> screen" where
  "screen_of f =
     (let ws = split_words 2 (f_info f)
      in \<lparr>n_name = (if 1 < length ws then ws ! 1 else []), n_title = (if 2 < length ws then strip (ws ! 2) else []),
          n_start = f_start f, n_rows = rows_of (f_body f), n_closed = f_closed f,
          n_notes = take_notes (after_blanks (f_next f) (f_after f))\<rparr>)"

definition find_screens :: "string \<Rightarrow> screen list" where
  "find_screens content =
     map screen_of (filter (\<lambda>f. case split_words 2 (f_info f) of w # _ \<Rightarrow> w = ''screen'' | [] \<Rightarrow> False) (fences_in content))"

definition PART_KINDS :: "string list" where
  "PART_KINDS = [''title'', ''row'', ''text'', ''chip'', ''button'', ''field'', ''list'']"

text \<open>\<open>_TRAILER\<close>: a last word in parentheses, and what is left of the line before it.\<close>

definition is_dot :: "string \<Rightarrow> bool" where
  "is_dot w \<longleftrightarrow> w \<noteq> [] \<and> length w \<le> 2 \<and> list_all is_decimal w"

definition trailer :: "string \<Rightarrow> (string \<times> string) option" where
  "trailer s =
     (let r = rev s; w = rev (takeWhile (\<lambda>c. c \<noteq> CHR ''('') (tl r)); before = take (length s - (length w + 2)) s
      in if prefix '')'' r \<and> length w + 2 \<le> length s \<and> (w \<in> {''new'', ''changed''} \<or> is_dot w)
            \<and> (before = [] \<or> is_space (last before) \<or> last before = CHR '':'')
         then Some (w, rstrip before) else None)"

lemma length_rstrip: "length (rstrip s) \<le> length s"
  by (simp add: rstrip_def) (metis length_dropWhile_le length_rev)

lemma trailer_shorter: "trailer s = Some (w, t) \<Longrightarrow> length t < length s"
  using length_rstrip [of "take (length s - (length w + 2)) s"]
  by (auto simp: trailer_def Let_def split: if_splits)

function peel :: "string \<Rightarrow> string option \<Rightarrow> nat option \<Rightarrow> (string \<times> string option \<times> nat option) option" where
  "peel s mark dot =
     (case trailer s of
        None \<Rightarrow> Some (s, mark, dot)
      | Some (w, t) \<Rightarrow>
          (if is_dot w then (if dot = None then peel t mark (Some (digits_value w)) else None)
           else (if mark = None then peel t (Some w) dot else None)))"
  by pat_completeness auto
termination
  by (relation "measure (length \<circ> fst)") (auto dest: trailer_shorter)

declare peel.simps [simp del]

datatype part = BadPart string | Part nat string "string option" "nat option"

definition part_head :: "string \<Rightarrow> (string \<times> string) option" where
  "part_head s =
     (let kind = takeWhile (\<lambda>c. c \<in> set ''abcdefghijklmnopqrstuvwxyz'') s; r = drop (length kind) s
      in if kind \<noteq> [] \<and> prefix '':'' r \<and> (tl r = [] \<or> is_space (hd (tl r))) then Some (kind, strip (tl r)) else None)"

definition parse_part :: "string \<Rightarrow> part" where
  "parse_part row =
     (let indent = length (takeWhile (\<lambda>c. c = CHR '' '') row) in
      if CHR 0x09 \<in> set row \<or> odd indent then BadPart ''bad-indent''
      else case peel (strip row) None None of
          None \<Rightarrow> BadPart ''malformed''
        | Some (s, mark, dot) \<Rightarrow>
            (case part_head s of
               None \<Rightarrow> BadPart ''malformed''
             | Some (kind, inner) \<Rightarrow>
                 if kind \<notin> set PART_KINDS then BadPart ''unknown-part''
                 else if (kind = ''row'') = (inner \<noteq> []) then BadPart ''malformed''
                 else if kind = ''list'' \<and> list_ex is_blank (split_on (CHR ''|'') inner) then BadPart ''malformed''
                 else if dot = Some 0 then BadPart ''malformed''
                 else Part (indent div 2) kind mark dot))"

section \<open>Facts about the reader\<close>

subsection \<open>Where a fence lies\<close>

text \<open>
  A numbered row of a document that starts at line \<open>n\<close>: it is a line of the document, at its place.
\<close>

definition row_of :: "nat \<Rightarrow> string list \<Rightarrow> numbered \<Rightarrow> bool" where
  "row_of n ls r \<longleftrightarrow> n \<le> fst r \<and> fst r < n + length ls \<and> ls ! (fst r - n) = snd r"

lemma row_of_Cons [simp]: "row_of (Suc n) ls r \<Longrightarrow> row_of n (l # ls) r"
  by (auto simp: row_of_def nth_Cons')

lemma row_of_hd [simp]: "row_of n (l # ls) (n, l)"
  by (simp add: row_of_def)

lemma row_of_drop: "row_of (n + k) (drop k ls) r \<Longrightarrow> k \<le> length ls \<Longrightarrow> row_of n ls r"
  by (auto simp: row_of_def)

lemma drop_past: "Suc n \<le> m \<Longrightarrow> drop (m - n) (l # ls) = drop (m - Suc n) ls"
  by (simp add: drop_Cons')

lemma take_body_rows:
  "take_body fence n ls = (rows, closed, m, after) \<Longrightarrow>
     n \<le> m \<and> m \<le> n + length ls \<and> after = drop (m - n) ls \<and>
     list_all (row_of n ls) rows"
proof (induction fence n ls arbitrary: rows closed m after rule: take_body.induct)
  case (2 fence n l ls)
  show ?case
  proof (cases "closes_fence fence l")
    case False
    obtain rows' closed' m' after' where t: "take_body fence (Suc n) ls = (rows', closed', m', after')"
      by (metis prod_cases4)
    have rows: "rows = (n, l) # rows'" "m = m'" "after = after'" using 2(2) False t by simp_all
    have IH: "Suc n \<le> m' \<and> m' \<le> Suc n + length ls \<and> after' = drop (m' - Suc n) ls \<and>
        list_all (row_of (Suc n) ls) rows'"
      by (rule 2(1) [OF False t])
    have "drop (m' - n) (l # ls) = drop (m' - Suc n) ls" using drop_past [of n m' l ls] IH by simp
    moreover have "list_all (row_of n (l # ls)) rows" using IH by (auto simp: rows list_all_iff)
    ultimately show ?thesis using IH unfolding rows(2,3) by (auto simp: rows(1))
  qed (use 2(2) in auto)
qed simp

text \<open>
  The fences of a document lie in it one after another: each starts at a line of the document, its
  rows are the lines that follow it, and what comes after it is the rest of the document.
\<close>

definition fence_in :: "nat \<Rightarrow> string list \<Rightarrow> fenced \<Rightarrow> bool" where
  "fence_in n ls f \<longleftrightarrow>
     n \<le> f_start f \<and> f_start f < n + length ls \<and> f_start f < f_next f \<and> f_next f \<le> n + length ls \<and>
     f_after f = drop (f_next f - n) ls \<and>
     list_all (row_of n ls) (f_body f)"

lemma fence_in_drop:
  assumes "fence_in (n + k) (drop k ls) f" and "k \<le> length ls"
  shows "fence_in n ls f"
proof -
  have "f_next f - (n + k) + k = f_next f - n"
    using assms(1) by (auto simp: fence_in_def)
  then show ?thesis
    using assms row_of_drop [OF _ assms(2)] by (auto simp: fence_in_def list_all_iff)
qed

lemma fences_from_in: "f \<in> set (fences_from n ls) \<Longrightarrow> fence_in n ls f"
proof (induction n ls rule: fences_from.induct)
  case (2 n l ls)
  show ?case
  proof (cases "plan_fence l")
    case None
    then have "fence_in (n + 1) (drop 1 (l # ls)) f" using 2 by simp
    then show ?thesis by (rule fence_in_drop) simp
  next
    case (Some p)
    obtain marks info where p: "p = (marks, info)" by fastforce
    obtain rows closed m after where t: "take_body marks (Suc n) ls = (rows, closed, m, after)"
      by (metis prod_cases4)
    note body = take_body_rows [OF t]
    from 2(3) consider
        "f = \<lparr>f_info = strip info, f_start = n, f_body = rows, f_closed = closed, f_next = m, f_after = after\<rparr>"
      | "f \<in> set (fences_from m after)"
      by (auto simp: Some p t)
    then show ?thesis
    proof cases
      case 1
      have "drop (m - n) (l # ls) = after" using body by (simp add: drop_past)
      then show ?thesis using body 1 by (auto simp: fence_in_def list_all_iff)
    next
      case 2
      then have "fence_in m after f" using "2.IH"(2) [OF Some p [symmetric] t [symmetric] refl refl refl] by simp
      moreover have "drop (m - n) (l # ls) = after" "n + (m - n) = m"
        using body by (simp_all add: drop_past)
      ultimately have "fence_in (n + (m - n)) (drop (m - n) (l # ls)) f" by (simp only:)
      then show ?thesis by (rule fence_in_drop) (use body in auto)
    qed
  qed
qed simp

lemma fences_in_document: "f \<in> set (fences_in s) \<Longrightarrow> fence_in 1 (lines_of s) f"
  by (auto simp: fences_in_def intro: fences_from_in)

lemma after_blanks_rows: "r \<in> set (after_blanks n ls) \<Longrightarrow> row_of n ls r"
proof (induction n ls rule: after_blanks.induct)
  case (2 n l ls)
  show ?case
  proof (cases "is_blank l")
    case False
    then have "r \<in> set (enumerate n (l # ls))" using 2 by simp
    then show ?thesis by (auto simp only: row_of_def in_set_enumerate_eq)
  qed (use 2 in simp)
qed simp

lemma rows_after:
  assumes "fence_in n ls f" and "r \<in> set (after_blanks (f_next f) (f_after f))"
  shows "row_of n ls r"
proof -
  have "row_of (n + (f_next f - n)) (drop (f_next f - n) ls) r"
    using assms after_blanks_rows by (auto simp: fence_in_def)
  then show ?thesis using assms(1) row_of_drop [of n "f_next f - n" ls r] by (auto simp: fence_in_def)
qed

end
