(* ===== verification/PlanStates.thy ===== *)
theory PlanStates
  imports PlanText
begin

text \<open>
  \<open>check_plan.py\<close>, the state blocks: the grammar of a \<open>states\<close> fence and \<open>check_states\<close>, with its walk
  over the arrows from the start state.  A finding is its level, its rule and its line.
\<close>

datatype level = ERROR | WARNING

type_synonym plan_finding = "level \<times> string \<times> nat"

definition MAX_NOTE_LINES :: nat where "MAX_NOTE_LINES = 1"
definition MAX_STATES :: nat where "MAX_STATES = 8"
definition MAX_ARROWS :: nat where "MAX_ARROWS = 10"
definition MAX_COLUMNS :: nat where "MAX_COLUMNS = 4"
definition MAX_ROWS :: nat where "MAX_ROWS = 3"

subsection \<open>The lines of a block\<close>

text \<open>
  \<open>_STATE_TRAILER\<close> on a stripped sentence: a last flag in parentheses, or \<open>shows\<close> and the name of a
  screen; what is left of the sentence is stripped again.
\<close>

definition state_trailer :: "string \<Rightarrow> (string \<times> string option \<times> string) option" where
  "state_trailer s =
     (let w = rev (takeWhile (\<lambda>c. \<not> is_space c) (rev s));
          before = rstrip (take (length s - length w) s)
      in case List.map_filter (\<lambda>flag. map_option (Pair flag) (drop_suffix (''('' @ flag @ '')'') s))
                [''start'', ''final'', ''proposed''] of
           (flag, rest) # _ \<Rightarrow> Some (flag, None, rest)
         | [] \<Rightarrow>
             if w \<noteq> [] \<and> length w < length s \<and> list_all (\<lambda>c. is_word c \<or> c \<in> set ''.-'') w
             then map_option (\<lambda>rest. (''shows'', Some w, rest)) (drop_suffix ''shows'' before)
             else None)"

record state_info =
  i_flags :: "string list"
  i_shows :: "string option"
  i_line :: nat

lemma length_strip: "length (strip s) \<le> length s"
  using length_rstrip [of "lstrip s"] length_dropWhile_le [of is_space s] by (simp add: strip_def lstrip_def)

lemma drop_suffix_shorter: "drop_suffix suf s = Some t \<Longrightarrow> suf \<noteq> [] \<Longrightarrow> length t < length s"
  using length_strip [of "take (length s - length suf) s"]
  by (auto simp: drop_suffix_def split: if_splits dest: suffix_length_le) (metis diff_less length_greater_0_conv le_less_trans suffix_bot.extremum_uniqueI)

lemma state_trailer_shorter:
  assumes "state_trailer s = Some (flag, shown, t)"
  shows "length t < length s"
proof -
  define w where "w = rev (takeWhile (\<lambda>c. \<not> is_space c) (rev s))"
  have "length (rstrip (take (length s - length w) s)) \<le> length s"
    using length_rstrip [of "take (length s - length w) s"] by simp
  then show ?thesis
    using assms drop_suffix_shorter
    by (fastforce simp: state_trailer_def Let_def w_def [symmetric] List.map_filter_simps split: option.splits if_splits)
qed

function peel_state :: "string \<Rightarrow> string list \<Rightarrow> string option \<Rightarrow> string \<times> string list \<times> string option" where
  "peel_state s flags shown =
     (case state_trailer s of
        None \<Rightarrow> (s, flags, shown)
      | Some (flag, screen, t) \<Rightarrow>
          peel_state t (flag # flags) (case screen of None \<Rightarrow> shown | Some n \<Rightarrow> Some n))"
  by pat_completeness auto
termination
  by (relation "measure (length \<circ> fst)") (auto dest: state_trailer_shorter)

declare peel_state.simps [simp del]

type_synonym states = "(string \<times> state_info) list"

definition state_line :: "nat \<Rightarrow> string \<Rightarrow> states \<Rightarrow> (string \<times> state_info) option" where
  "state_line n row known =
     (case cut_at '':'' row of
        None \<Rightarrow> None
      | Some (a, b) \<Rightarrow>
          (let name = strip a in
           if name = [] \<or> name \<in> fst ` set known then None
           else case peel_state (strip b) [] None of
               (rest, flags, shown) \<Rightarrow>
                 if rest = [] then None
                 else Some (name, \<lparr>i_flags = flags, i_shows = shown, i_line = n\<rparr>)))"

text \<open>\<open>^[^:]*->\<close>, and \<open>_ARROW\<close> on a stripped line: the first arrow that has a target.\<close>

definition is_arrow_line :: "string \<Rightarrow> bool" where
  "is_arrow_line row \<longleftrightarrow> (case cut_at ''->'' row of Some (a, _) \<Rightarrow> CHR '':'' \<notin> set a | None \<Rightarrow> False)"

fun arrow_from :: "string \<Rightarrow> string \<Rightarrow> (string \<times> string) option" where
  "arrow_from seen [] = None"
| "arrow_from seen (c # cs) =
     (let target = takeWhile (\<lambda>x. x \<noteq> CHR '':'') (drop 2 (c # cs))
      in if prefix ''->'' (c # cs) \<and> seen \<noteq> [] \<and> target \<noteq> []
         then Some (strip (rev seen), strip target)
         else arrow_from (c # seen) cs)"

definition arrow_of :: "string \<Rightarrow> (string \<times> string) option" where
  "arrow_of row =
     map_option (\<lambda>(a, b). (a, case drop_suffix ''(proposed)'' b of Some t \<Rightarrow> t | None \<Rightarrow> b)) (arrow_from [] row)"

text \<open>\<open>_grid_cells\<close>.\<close>

definition grid_cells :: "string \<Rightarrow> string list" where
  "grid_cells row =
     (if CHR ''|'' \<in> set row
      then let s = strip row; t = (if prefix ''|'' s then tl s else s); u = (if suffix ''|'' t then butlast t else t)
           in map strip (split_on (CHR ''|'') u)
      else words_of row)"

type_synonym arrows = "(nat \<times> string \<times> string) list"

record state_block =
  s_states :: states
  s_arrows :: arrows
  s_grid :: "numbered list"
  s_in_grid :: bool
  s_found :: "plan_finding list"

definition add_row :: "numbered \<Rightarrow> state_block \<Rightarrow> state_block" where
  "add_row r b =
     (let n = fst r; row = strip (snd r); bad = b\<lparr>s_found := s_found b @ [(ERROR, ''malformed'', n)]\<rparr> in
      if lower row = ''grid:'' then (if s_in_grid b then bad else b)\<lparr>s_in_grid := True\<rparr>
      else if s_in_grid b then b\<lparr>s_grid := s_grid b @ [(n, row)]\<rparr>
      else if is_arrow_line row
      then (case arrow_of row of
              None \<Rightarrow> bad
            | Some (x, y) \<Rightarrow> b\<lparr>s_arrows := s_arrows b @ [(n, x, y)]\<rparr>)
      else (case state_line n row (s_states b) of
              None \<Rightarrow> bad
            | Some st \<Rightarrow> b\<lparr>s_states := s_states b @ [st]\<rparr>))"

definition read_states :: "numbered list \<Rightarrow> state_block" where
  "read_states rows =
     fold add_row rows \<lparr>s_states = [], s_arrows = [], s_grid = [], s_in_grid = False, s_found = []\<rparr>"

subsection \<open>The walk\<close>

text \<open>The arrows that leave \<open>here\<close>: every new listed state is reached and waits for its own turn.\<close>

definition visit :: "string list \<Rightarrow> string \<Rightarrow> arrows \<Rightarrow> string list \<times> string list \<Rightarrow> string list \<times> string list" where
  "visit names here arrows = fold (\<lambda>(n, a, b) (reached, queue).
     if a = here \<and> b \<in> set names \<and> b \<notin> set reached then (reached @ [b], queue @ [b]) else (reached, queue)) arrows"

definition unreached :: "string list \<Rightarrow> string list \<Rightarrow> nat" where
  "unreached names reached = length (filter (\<lambda>n. n \<notin> set reached) names)"

lemma visit_Cons:
  "visit names here ((n, a, b) # arrows) (reached, queue) =
     visit names here arrows
       (if a = here \<and> b \<in> set names \<and> b \<notin> set reached then (reached @ [b], queue @ [b]) else (reached, queue))"
  by (simp add: visit_def)

lemma visit_adds:
  "visit names here arrows (reached, queue) = (reached', queue') \<Longrightarrow>
     \<exists>new. reached' = reached @ new \<and> queue' = queue @ new \<and> set new \<subseteq> set names - set reached"
proof (induction arrows arbitrary: reached queue)
  case (Cons x arrows)
  obtain n a b where x: "x = (n, a, b)" by (cases x)
  show ?case
  proof (cases "a = here \<and> b \<in> set names \<and> b \<notin> set reached")
    case True
    then have "visit names here arrows (reached @ [b], queue @ [b]) = (reached', queue')"
      using Cons.prems by (simp add: x visit_Cons)
    from Cons.IH [OF this] True show ?thesis by auto
  qed (use Cons in \<open>auto simp: x visit_Cons\<close>)
qed (simp add: visit_def)

lemma unreached_less:
  assumes "b \<in> set names" and "b \<notin> set reached"
  shows "unreached names (reached @ b # later) < unreached names reached"
proof -
  have "length (filter (\<lambda>n. n \<notin> set (reached @ b # later)) names) < length (filter (\<lambda>n. n \<notin> set reached) names)"
    using assms
  proof (induction names)
    case (Cons x names)
    have "length (filter (\<lambda>n. n \<notin> set (reached @ b # later)) names) \<le> length (filter (\<lambda>n. n \<notin> set reached) names)"
      by (induction names) auto
    then show ?case using Cons by auto
  qed simp
  then show ?thesis by (simp add: unreached_def)
qed

function walk_arrows :: "string list \<Rightarrow> arrows \<Rightarrow> string list \<Rightarrow> string list \<Rightarrow> string list" where
  "walk_arrows names arrows reached queue =
     (if queue = [] then reached
      else let (reached', queue') = visit names (last queue) arrows (reached, butlast queue)
           in walk_arrows names arrows reached' queue')"
  by pat_completeness auto
termination
proof (relation "measures [\<lambda>(names, arrows, reached, queue). unreached names reached,
    \<lambda>(names, arrows, reached, queue). length queue]", goal_cases)
  case (2 names arrows reached queue p reached' queue')
  then have "visit names (last queue) arrows (reached, butlast queue) = (reached', queue')" by simp
  from visit_adds [OF this] obtain new where new: "reached' = reached @ new" "queue' = butlast queue @ new"
      "set new \<subseteq> set names - set reached" by blast
  show ?case
  proof (cases new)
    case Nil
    then show ?thesis using new 2(1) by simp
  next
    case (Cons b later)
    then have "unreached names reached' < unreached names reached"
      using new unreached_less [of b names reached later] by simp
    then show ?thesis by simp
  qed
qed simp

declare walk_arrows.simps [simp del]

subsection \<open>The check\<close>

definition count_block :: "block \<Rightarrow> plan_finding list" where
  "count_block b =
     (if b_closed b then [] else [(ERROR, ''malformed'', b_start b)])
     @ (if b_title b = [] then [(WARNING, ''no-title'', b_start b)] else [])
     @ (if MAX_NOTE_LINES < b_notes b then [(WARNING, ''long-note'', b_start b)] else [])"

definition arrow_findings :: "states \<Rightarrow> arrows \<Rightarrow> plan_finding list" where
  "arrow_findings states arrows =
     concat (map (\<lambda>(n, a, b).
       map (\<lambda>_. (ERROR, ''unknown-state'', n)) (filter (\<lambda>x. x \<notin> fst ` set states) [a, b])) arrows)"

text \<open>The cells of the grid that name a state, each with its line.\<close>

definition placed_cells :: "numbered list \<Rightarrow> numbered list" where
  "placed_cells grid = concat (map (\<lambda>(n, row). map (Pair n) (filter (\<lambda>c. c \<noteq> ''.'' \<and> c \<noteq> []) (grid_cells row))) grid)"

fun cell_findings :: "states \<Rightarrow> string list \<Rightarrow> numbered list \<Rightarrow> plan_finding list" where
  "cell_findings states placed [] = []"
| "cell_findings states placed ((n, c) # cells) =
     (if c \<notin> fst ` set states then [(ERROR, ''unknown-state'', n)]
      else if c \<in> set placed then [(ERROR, ''malformed'', n)] else [])
     @ cell_findings states (c # placed) cells"

definition grid_findings :: "nat \<Rightarrow> states \<Rightarrow> numbered list \<Rightarrow> plan_finding list" where
  "grid_findings start states grid =
     (let cells = placed_cells grid; columns = fold (\<lambda>r m. max m (length (grid_cells (snd r)))) grid 0
      in cell_findings states [] cells
         @ (if states \<noteq> [] \<and> grid = [] then [(ERROR, ''not-in-grid'', start)]
            else if grid \<noteq> []
            then map (\<lambda>(name, i). (ERROR, ''not-in-grid'', i_line i)) (filter (\<lambda>(name, i). name \<notin> snd ` set cells) states)
            else [])
         @ (if MAX_ROWS < length grid \<or> MAX_COLUMNS < columns then [(ERROR, ''over-budget'', start)] else []))"

definition screen_findings :: "string list \<Rightarrow> states \<Rightarrow> plan_finding list" where
  "screen_findings screens states =
     concat (map (\<lambda>(name, i). case i_shows i of
        Some sh \<Rightarrow> if sh \<notin> set screens then [(ERROR, ''unknown-screen'', i_line i)] else []
      | None \<Rightarrow> []) states)"

definition start_states :: "states \<Rightarrow> states" where
  "start_states states = filter (\<lambda>(name, i). ''start'' \<in> set (i_flags i)) states"

text \<open>The states a walk begins with: the first one marked as the start, else the first one listed.\<close>

definition first_state :: "states \<Rightarrow> string list" where
  "first_state states = take 1 (map fst (if start_states states \<noteq> [] then start_states states else states))"

definition reached_states :: "states \<Rightarrow> arrows \<Rightarrow> string list" where
  "reached_states states arrows =
     walk_arrows (map fst states) arrows (first_state states) (first_state states)"

definition graph_findings :: "states \<Rightarrow> arrows \<Rightarrow> plan_finding list" where
  "graph_findings states arrows =
     (case start_states states of _ # (name, i) # _ \<Rightarrow> [(ERROR, ''malformed'', i_line i)] | _ \<Rightarrow> [])
     @ map (\<lambda>(name, i). (ERROR, ''unreachable'', i_line i))
         (filter (\<lambda>(name, i). name \<notin> set (reached_states states arrows)) states)
     @ map (\<lambda>(name, i). (ERROR, ''dead-end'', i_line i))
         (filter (\<lambda>(name, i). name \<notin> (\<lambda>(n, a, b). a) ` set arrows \<and> ''final'' \<notin> set (i_flags i)) states)"

definition check_states :: "block \<Rightarrow> string list \<Rightarrow> plan_finding list" where
  "check_states b screens =
     (let start = b_start b in
      count_block b @
      (if b_rows b = [] then [(ERROR, ''malformed'', start)]
       else let r = read_states (b_rows b); states = s_states r; arrows = s_arrows r; grid = s_grid r
            in s_found r
               @ (if MAX_STATES < length states then [(ERROR, ''over-budget'', start)] else [])
               @ (if MAX_ARROWS < length arrows then [(WARNING, ''over-budget'', start)] else [])
               @ arrow_findings states arrows
               @ grid_findings start states grid
               @ screen_findings screens states
               @ graph_findings states arrows))"

text \<open>What a block adds to the screens shown, and the number of its states.\<close>

definition block_states :: "block \<Rightarrow> states" where
  "block_states b = (if b_rows b = [] then [] else s_states (read_states (b_rows b)))"

definition shown_screens :: "block \<Rightarrow> string list" where
  "shown_screens b = List.map_filter (i_shows \<circ> snd) (block_states b)"

section \<open>Facts\<close>

subsection \<open>The walk reaches what can be reached\<close>

definition arrow_step :: "string list \<Rightarrow> arrows \<Rightarrow> (string \<times> string) set" where
  "arrow_step names arrows = {(a, b). b \<in> set names \<and> (\<exists>n. (n, a, b) \<in> set arrows)}"

text \<open>What the walk keeps: everything reached is reachable, and only the queue has arrows left to follow.\<close>

definition walk_inv :: "string list \<Rightarrow> arrows \<Rightarrow> string set \<Rightarrow> string list \<Rightarrow> string list \<Rightarrow> bool" where
  "walk_inv names arrows start reached queue \<longleftrightarrow>
     start \<subseteq> set reached \<and> set queue \<subseteq> set reached \<and>
     set reached \<subseteq> (arrow_step names arrows)\<^sup>* `` start \<and>
     (\<forall>a \<in> set reached - set queue. \<forall>b. (a, b) \<in> arrow_step names arrows \<longrightarrow> b \<in> set reached)"

lemma visit_set:
  "visit names here arrows (reached, queue) = (reached', queue') \<Longrightarrow>
     set reached' = set reached \<union> {b. (here, b) \<in> arrow_step names arrows}"
proof (induction arrows arbitrary: reached queue)
  case (Cons x arrows)
  obtain n a b where x: "x = (n, a, b)" by (cases x)
  show ?case
  proof (cases "a = here \<and> b \<in> set names \<and> b \<notin> set reached")
    case True
    then have "visit names here arrows (reached @ [b], queue @ [b]) = (reached', queue')"
      using Cons.prems by (simp add: x visit_Cons)
    from Cons.IH [OF this] True show ?thesis by (auto simp: arrow_step_def x)
  next
    case False
    then have "visit names here arrows (reached, queue) = (reached', queue')"
      using Cons.prems by (auto simp: x visit_Cons)
    from Cons.IH [OF this] False show ?thesis by (auto simp: arrow_step_def x)
  qed
qed (simp add: visit_def arrow_step_def)

lemma walk_inv_visit:
  assumes "walk_inv names arrows start reached queue" and "queue \<noteq> []"
    and v: "visit names (last queue) arrows (reached, butlast queue) = (reached', queue')"
  shows "walk_inv names arrows start reached' queue'"
proof -
  obtain new where new: "reached' = reached @ new" "queue' = butlast queue @ new"
    using visit_adds [OF v] by blast
  have here: "last queue \<in> set reached" using assms(1,2) by (auto simp: walk_inv_def)
  have queue: "set queue = insert (last queue) (set (butlast queue))"
    using assms(2) by (cases queue rule: rev_cases) auto
  have "{b. (last queue, b) \<in> arrow_step names arrows} \<subseteq> (arrow_step names arrows)\<^sup>* `` start"
  proof -
    have "last queue \<in> (arrow_step names arrows)\<^sup>* `` start"
      using here assms(1) unfolding walk_inv_def by blast
    then obtain s where "s \<in> start" "(s, last queue) \<in> (arrow_step names arrows)\<^sup>*" by blast
    then show ?thesis using rtrancl_into_rtrancl by (metis (no_types, lifting) ImageI mem_Collect_eq subsetI)
  qed
  then have "set reached' \<subseteq> (arrow_step names arrows)\<^sup>* `` start"
    using visit_set [OF v] assms(1) by (auto simp: walk_inv_def)
  moreover have "b \<in> set reached'" if "a \<in> set reached' - set queue'" "(a, b) \<in> arrow_step names arrows" for a b
  proof -
    have "a \<in> set reached" "a = last queue \<or> a \<notin> set queue" using that(1) new queue by auto
    then have "b \<in> set reached \<or> a = last queue" using assms(1) that(2) by (auto simp: walk_inv_def)
    then show ?thesis using visit_set [OF v] that(2) by blast
  qed
  moreover have "start \<subseteq> set reached'" "set queue' \<subseteq> set reached'"
    using assms(1) new queue by (auto simp: walk_inv_def)
  ultimately show ?thesis by (simp add: walk_inv_def)
qed

lemma walk_arrows_reach:
  "walk_inv names arrows start reached queue \<Longrightarrow>
     set (walk_arrows names arrows reached queue) = (arrow_step names arrows)\<^sup>* `` start"
proof (induction names arrows reached queue rule: walk_arrows.induct)
  case (1 names arrows reached queue)
  show ?case
  proof (cases "queue = []")
    case True
    have "b \<in> set reached" if "a \<in> start" "(a, b) \<in> (arrow_step names arrows)\<^sup>*" for a b
      using that(2,1)
    proof (induction rule: rtrancl_induct)
      case base
      then show ?case using 1(2) by (auto simp: walk_inv_def)
    next
      case (step y z)
      then show ?case using 1(2) True by (simp add: walk_inv_def)
    qed
    then have "(arrow_step names arrows)\<^sup>* `` start \<subseteq> set reached" by blast
    moreover have "walk_arrows names arrows reached queue = reached" using True by (simp add: walk_arrows.simps)
    ultimately show ?thesis using 1(2) unfolding walk_inv_def by (metis subset_antisym)
  next
    case False
    obtain reached' queue' where v: "visit names (last queue) arrows (reached, butlast queue) = (reached', queue')"
      by fastforce
    then have "set (walk_arrows names arrows reached' queue') = (arrow_step names arrows)\<^sup>* `` start"
      using 1(1) [OF False v [symmetric] refl] walk_inv_visit [OF 1(2) False v] by simp
    then show ?thesis using False v by (simp add: walk_arrows.simps)
  qed
qed

lemma reached_states_reach:
  "set (reached_states states arrows) = (arrow_step (map fst states) arrows)\<^sup>* `` set (first_state states)"
  unfolding reached_states_def by (rule walk_arrows_reach) (auto simp: walk_inv_def)

subsection \<open>When a block has no error\<close>

definition no_error :: "plan_finding list \<Rightarrow> bool" where
  "no_error fs \<longleftrightarrow> list_all (\<lambda>f. fst f \<noteq> ERROR) fs"

lemma no_error_simps [simp]:
  "no_error []" "no_error (f # fs) \<longleftrightarrow> fst f \<noteq> ERROR \<and> no_error fs"
  "no_error (xs @ ys) \<longleftrightarrow> no_error xs \<and> no_error ys"
  by (simp_all add: no_error_def)

lemma no_error_map: "(\<And>x. fst (g x) = ERROR) \<Longrightarrow> no_error (map g xs) \<longleftrightarrow> xs = []"
  by (cases xs) simp_all

lemma no_error_concat: "no_error (concat fss) \<longleftrightarrow> list_all no_error fss"
  by (induction fss) auto

lemma read_states_found: "list_all (\<lambda>f. fst f = ERROR) (s_found (read_states rows))"
proof -
  have "list_all (\<lambda>f. fst f = ERROR) (s_found (fold add_row rows b))" if "list_all (\<lambda>f. fst f = ERROR) (s_found b)" for b
    using that
    by (induction rows arbitrary: b) (auto simp: add_row_def Let_def split: option.split)
  then show ?thesis by (simp add: read_states_def)
qed

lemma no_error_all: "list_all (\<lambda>f. fst f = ERROR) fs \<Longrightarrow> no_error fs \<longleftrightarrow> fs = []"
  by (cases fs) simp_all

lemma no_error_arrows:
  "no_error (arrow_findings states arrows) \<longleftrightarrow>
     list_all (\<lambda>(n, a, b). a \<in> fst ` set states \<and> b \<in> fst ` set states) arrows"
  by (auto simp: arrow_findings_def no_error_concat list_all_iff no_error_map split: if_splits)

lemma no_error_cells:
  "no_error (cell_findings states placed cells) \<longleftrightarrow>
     snd ` set cells \<subseteq> fst ` set states \<and> distinct (map snd cells) \<and> snd ` set cells \<inter> set placed = {}"
  by (induction states placed cells rule: cell_findings.induct) auto

definition grid_width :: "numbered list \<Rightarrow> nat" where
  "grid_width grid = fold (\<lambda>r m. max m (length (grid_cells (snd r)))) grid 0"

lemma filter_names_empty: "filter (\<lambda>(name, i). name \<notin> R) xs = [] \<longleftrightarrow> fst ` set xs \<subseteq> R"
  by (auto simp: filter_empty_conv)

lemma no_error_grid:
  "no_error (grid_findings start states grid) \<longleftrightarrow>
     distinct (map snd (placed_cells grid)) \<and> snd ` set (placed_cells grid) = fst ` set states \<and>
     length grid \<le> MAX_ROWS \<and> grid_width grid \<le> MAX_COLUMNS"
proof -
  have "no_error (if states \<noteq> [] \<and> grid = [] then [(ERROR, ''not-in-grid'', start)]
      else if grid \<noteq> []
      then map (\<lambda>(name, i). (ERROR, ''not-in-grid'', i_line i))
             (filter (\<lambda>(name, i). name \<notin> snd ` set (placed_cells grid)) states) else [])
    \<longleftrightarrow> fst ` set states \<subseteq> snd ` set (placed_cells grid)"
  proof (cases "grid = []")
    case False
    have "no_error (map (\<lambda>(name, i). (ERROR, ''not-in-grid'', i_line i)) xs) \<longleftrightarrow> xs = []" for xs :: states
      by (rule no_error_map) (simp split: prod.split)
    then show ?thesis using False filter_names_empty [of "snd ` set (placed_cells grid)" states] by simp
  qed (simp add: placed_cells_def)
  then show ?thesis
    by (auto simp: grid_findings_def Let_def no_error_cells grid_width_def not_less)
qed

lemma no_error_screens:
  "no_error (screen_findings screens states) \<longleftrightarrow>
     list_all (\<lambda>(name, i). \<forall>sh \<in> set_option (i_shows i). sh \<in> set screens) states"
proof -
  have "no_error (case i_shows i of Some sh \<Rightarrow> if sh \<notin> set screens then [(ERROR, ''unknown-screen'', i_line i)] else []
      | None \<Rightarrow> []) \<longleftrightarrow> (\<forall>sh \<in> set_option (i_shows i). sh \<in> set screens)" for i
    by (simp split: option.split)
  then show ?thesis
    by (auto simp: screen_findings_def no_error_concat list_all_iff split: prod.splits)
qed

lemma no_error_graph:
  "no_error (graph_findings states arrows) \<longleftrightarrow>
     length (start_states states) \<le> 1 \<and>
     fst ` set states \<subseteq> (arrow_step (map fst states) arrows)\<^sup>* `` set (first_state states) \<and>
     list_all (\<lambda>(name, i). ''final'' \<in> set (i_flags i) \<or> name \<in> (\<lambda>(n, a, b). a) ` set arrows) states"
proof -
  have 1: "no_error (case start_states states of _ # (name, i) # _ \<Rightarrow> [(ERROR, ''malformed'', i_line i)] | _ \<Rightarrow> [])
      \<longleftrightarrow> length (start_states states) \<le> 1"
    by (auto split: list.splits)
  have 2: "no_error (map (\<lambda>(name, i). (ERROR, rule, i_line i)) xs) \<longleftrightarrow> xs = []" for rule and xs :: states
    by (rule no_error_map) (simp split: prod.split)
  show ?thesis
    unfolding graph_findings_def no_error_simps(3) 1 2 reached_states_reach filter_names_empty
    by (auto simp: filter_empty_conv list_all_iff)
qed

text \<open>
  A well-formed lifecycle: every line of the block is read, at most eight states with at most one
  start, all of them reachable from the start and either final or left by an arrow; arrows between
  listed states; a grid of at most three rows and four columns that places each state exactly once;
  and only screens that the plan defines.
\<close>

definition sound_lifecycle :: "block \<Rightarrow> string list \<Rightarrow> bool" where
  "sound_lifecycle b screens \<longleftrightarrow>
     (let r = read_states (b_rows b); states = s_states r; arrows = s_arrows r; names = map fst states;
          cells = map snd (placed_cells (s_grid r))
      in b_closed b \<and> b_rows b \<noteq> [] \<and> s_found r = [] \<and>
         length states \<le> 8 \<and> length (start_states states) \<le> 1 \<and>
         set names \<subseteq> (arrow_step names arrows)\<^sup>* `` set (first_state states) \<and>
         list_all (\<lambda>(name, i). ''final'' \<in> set (i_flags i) \<or> (\<exists>n c. (n, name, c) \<in> set arrows)) states \<and>
         list_all (\<lambda>(n, a, c). a \<in> set names \<and> c \<in> set names) arrows \<and>
         distinct cells \<and> set cells = set names \<and> length (s_grid r) \<le> 3 \<and> grid_width (s_grid r) \<le> 4 \<and>
         list_all (\<lambda>(name, i). \<forall>sh \<in> set_option (i_shows i). sh \<in> set screens) states)"

lemma leaves_iff: "name \<in> (\<lambda>(n, a, b). a) ` set arrows \<longleftrightarrow> (\<exists>n c. (n, name, c) \<in> set arrows)"
  by force

section \<open>Properties\<close>

text \<open>C23: The check of a state block finds an error exactly when the block is not a well-formed lifecycle;
  in particular the walk over the arrows reports a state as unreachable exactly when no chain of
  arrows between listed states leads to it from the start.\<close>

theorem states_errors_exactly: "no_error (check_states b screens) = sound_lifecycle b screens"
proof -
  have found: "no_error (s_found (read_states (b_rows b))) \<longleftrightarrow> s_found (read_states (b_rows b)) = []"
    by (rule no_error_all [OF read_states_found])
  show ?thesis
    unfolding check_states_def sound_lifecycle_def Let_def
    by (auto simp: count_block_def found no_error_arrows no_error_grid no_error_screens no_error_graph
        leaves_iff MAX_STATES_def MAX_ROWS_def MAX_COLUMNS_def not_less)
qed

text \<open>A block that passes, and the same block without its arrow.\<close>

definition example_block :: "string \<Rightarrow> block" where
  "example_block arrow =
     \<lparr>b_title = ''t'', b_start = 1,
      b_rows = [(2, ''a: one (start)''), (3, ''b: two (final)''), (4, arrow), (5, ''grid:''), (6, ''a | b'')],
      b_closed = True, b_notes = 0\<rparr>"

lemma example_block_passes: "check_states (example_block ''a -> b: go'') [] = []"
  by code_simp

lemma example_block_unreachable:
  "check_states (example_block ''b -> a'') [] = [(ERROR, ''unreachable'', 3), (ERROR, ''dead-end'', 2)]"
  by code_simp

end
