(* ===== verification/PlanCheck.thy ===== *)
theory PlanCheck
  imports PlanStates Store
begin

text \<open>
  \<open>check_plan.py\<close>, the check of a plan: screens, call paths and code blocks against the source tree, and
  the report over the files of a feature.  The tree is a function from the paths the plan cites to what
  is there.  An unreadable file raises when a call path cites a line of it, and is a warning in a code
  block, as in the code.
\<close>

definition MAX_BLOCKS :: nat where "MAX_BLOCKS = 3"
definition MAX_LINES :: nat where "MAX_LINES = 12"
definition NEAR :: nat where "NEAR = 8"
definition MAX_SCREENS :: nat where "MAX_SCREENS = 2"
definition MAX_PARTS :: nat where "MAX_PARTS = 14"
definition MAX_DOTS :: nat where "MAX_DOTS = 5"
definition MAX_SKETCH_LINES :: nat where "MAX_SKETCH_LINES = 12"
definition MAX_PINS :: nat where "MAX_PINS = 3"
definition MAX_STATE_BLOCKS :: nat where "MAX_STATE_BLOCKS = 2"

datatype file_state = Absent | Directory | Unreadable | Readable string

type_synonym tree = "string \<Rightarrow> file_state"

definition source_lines :: "string \<Rightarrow> string list" where
  "source_lines content =
     (let ls = lines_of content in if ls \<noteq> [] \<and> last ls = [] then butlast ls else ls)"

subsection \<open>Screens\<close>

text \<open>\<open>_SCREEN_NAME\<close>.\<close>

definition is_screen_name :: "string \<Rightarrow> bool" where
  "is_screen_name w \<longleftrightarrow>
     w \<noteq> [] \<and> hd w \<in> set ''ABCDEFGHIJKLMNOPQRSTUVWXYZabcdefghijklmnopqrstuvwxyz'' \<and> length w \<le> 32 \<and>
     list_all (\<lambda>c. is_word c \<or> c = CHR ''-'') (tl w)"

record drawn =
  d_kinds :: "string list"
  d_dots :: "nat list"
  d_count :: nat
  d_found :: "plan_finding list"

definition draw_part :: "numbered \<Rightarrow> drawn \<Rightarrow> drawn" where
  "draw_part r d =
     (let n = fst r in
      case parse_part (snd r) of
        BadPart rule \<Rightarrow> d\<lparr>d_found := d_found d @ [(ERROR, rule, n)]\<rparr>
      | Part depth kind mark dot \<Rightarrow>
          (let deep = (length (d_kinds d) < depth \<or> 0 < depth \<and> d_kinds d ! (depth - 1) \<noteq> ''row'');
               twice = (case dot of Some k \<Rightarrow> k \<in> set (d_dots d) | None \<Rightarrow> False)
           in \<lparr>d_kinds = take depth (d_kinds d) @ [kind],
               d_dots = d_dots d @ (case dot of Some k \<Rightarrow> [k] | None \<Rightarrow> []),
               d_count = Suc (d_count d),
               d_found = d_found d @ (if deep then [(ERROR, ''bad-indent'', n)] else [])
                           @ (if twice then [(ERROR, ''malformed'', n)] else [])\<rparr>))"

definition draw_screen :: "numbered list \<Rightarrow> drawn" where
  "draw_screen rows = fold draw_part rows \<lparr>d_kinds = [], d_dots = [], d_count = 0, d_found = []\<rparr>"

fun note_findings :: "nat list \<Rightarrow> nat list \<Rightarrow> (nat \<times> nat) list \<Rightarrow> plan_finding list" where
  "note_findings dots seen [] = []"
| "note_findings dots seen ((n, k) # notes) =
     (if k \<in> set seen then [(ERROR, ''malformed'', n)] else [])
     @ (if k \<notin> set dots then [(ERROR, ''note-without-dot'', n)] else [])
     @ note_findings dots (k # seen) notes"

definition check_screen :: "string list \<Rightarrow> screen \<Rightarrow> plan_finding list" where
  "check_screen seen s =
     (let start = n_start s; name = n_name s; d = draw_screen (n_rows s); dots = remdups (d_dots d);
          noted = map snd (n_notes s)
      in (if n_closed s then [] else [(ERROR, ''malformed'', start)])
         @ (if name = [] \<or> \<not> is_screen_name name then [(ERROR, ''malformed'', start)]
            else if name \<in> set seen then [(ERROR, ''duplicate-screen'', start)] else [])
         @ (if name \<noteq> [] \<and> n_title s = [] then [(WARNING, ''no-title'', start)] else [])
         @ (if n_rows s = [] then [(ERROR, ''malformed'', start)] else [])
         @ d_found d
         @ (if MAX_PARTS < d_count d then [(ERROR, ''over-budget'', start)] else [])
         @ (if MAX_DOTS < length dots then [(ERROR, ''over-budget'', start)] else [])
         @ map (\<lambda>_. (ERROR, ''dot-without-note'', start)) (filter (\<lambda>k. k \<notin> set noted) dots)
         @ note_findings (d_dots d) [] (n_notes s))"

fun check_each_screen :: "string list \<Rightarrow> screen list \<Rightarrow> plan_finding list" where
  "check_each_screen seen [] = []"
| "check_each_screen seen (s # ss) = check_screen seen s @ check_each_screen (n_name s # seen) ss"

definition is_simple :: "json \<Rightarrow> bool" where
  "is_simple sz \<longleftrightarrow> sz = JStr ''simple''"

definition check_screens :: "json \<Rightarrow> screen list \<Rightarrow> plan_finding list" where
  "check_screens sz ss =
     (case ss of s # _ \<Rightarrow> if is_simple sz then [(WARNING, ''simple-size'', n_start s)] else [] | [] \<Rightarrow> [])
     @ (if MAX_SCREENS < length ss then [(WARNING, ''over-budget'', n_start (ss ! MAX_SCREENS))] else [])
     @ check_each_screen [] ss"

definition parts_drawn :: "screen list \<Rightarrow> nat" where
  "parts_drawn ss = sum_list (map (\<lambda>s. d_count (draw_screen (n_rows s))) ss)"

subsection \<open>Code blocks\<close>

definition pin_findings :: "nat \<Rightarrow> nat \<Rightarrow> (nat \<times> nat \<times> string) list \<Rightarrow> plan_finding list" where
  "pin_findings first len pins =
     concat (map (\<lambda>(n, line, note).
       (if note = [] then [(ERROR, ''malformed'', n)] else [])
       @ (if first \<le> line \<and> line < first + len then [] else [(ERROR, ''malformed'', n)])) pins)"

text \<open>The first row that does not read like its line of the source.\<close>

fun differs :: "string list \<Rightarrow> numbered list \<Rightarrow> plan_finding list" where
  "differs src [] = []"
| "differs src ((n, row) # rows) =
     (case src of
        [] \<Rightarrow> []
      | l # ls \<Rightarrow> if rstrip row \<noteq> rstrip l then [(WARNING, ''text-differs'', n)] else differs ls rows)"

definition check_cite :: "tree \<Rightarrow> code_info \<Rightarrow> nat \<Rightarrow> nat \<Rightarrow> numbered list \<Rightarrow> plan_finding list" where
  "check_cite fs i until start rows =
     (let want = until + 1 - c_first i
      in (if length rows \<noteq> want then [(ERROR, ''range-mismatch'', start)] else [])
         @ (case fs (c_path i) of
              Unreadable \<Rightarrow> [(WARNING, ''unreadable'', start)]
            | Readable content \<Rightarrow>
                (let src = source_lines content in
                 if length src < until then [(ERROR, ''line-out-of-range'', start)]
                 else if length rows \<noteq> want then []
                 else differs (drop (c_first i - 1) src) rows)
            | _ \<Rightarrow> [(ERROR, ''missing-file'', start)]))"

definition check_code :: "tree \<Rightarrow> code_block \<Rightarrow> plan_finding list" where
  "check_code fs b =
     (let start = k_start b; rows = k_body b in
      case k_info b of
        Code i \<Rightarrow>
          (if \<not> k_closed b \<or> list_all (\<lambda>(n, row). is_blank row) rows then [(ERROR, ''malformed'', start)]
           else (if list_ex (\<lambda>(low, high). low < c_first i \<or> c_first i + length rows - 1 < high) (c_hl i)
                 then [(ERROR, ''malformed'', start)] else [])
                @ pin_findings (c_first i) (length rows) (k_pins b)
                @ (if MAX_PINS < length (k_pins b) then [(WARNING, ''too-many-pins'', start)] else [])
                @ (case c_last i of
                     None \<Rightarrow>
                       if MAX_SKETCH_LINES < length rows then [(WARNING, ''sketch-too-long'', start)] else []
                   | Some until \<Rightarrow> check_cite fs i until start rows))
      | _ \<Rightarrow> [(ERROR, ''malformed'', start)])"

subsection \<open>Call paths\<close>

definition depth_findings :: "nat option \<Rightarrow> nat \<Rightarrow> nat \<Rightarrow> plan_finding list" where
  "depth_findings depth level n =
     (case depth of
        None \<Rightarrow> if level \<noteq> 0 then [(ERROR, ''malformed'', n)] else []
      | Some d \<Rightarrow> if level = 0 \<or> d + 1 < level then [(ERROR, ''malformed'', n)] else [])"

definition window_of :: "string list \<Rightarrow> nat \<Rightarrow> string" where
  "window_of src line = join nl (drop (line - 1 - NEAR) (take (line + NEAR) src))"

text \<open>A cited place against the tree; \<open>None\<close> when the file cannot be read.\<close>

definition check_call :: "tree \<Rightarrow> nat \<Rightarrow> call \<Rightarrow> plan_finding list option" where
  "check_call fs n c =
     (if r_new c then Some (if fs (r_path c) \<noteq> Absent then [(ERROR, ''new-exists'', n)] else [])
      else if fs (r_path c) = Absent \<or> fs (r_path c) = Directory then Some [(ERROR, ''missing-file'', n)]
      else case r_line c of
          None \<Rightarrow> Some [(WARNING, ''no-line'', n)]
        | Some line \<Rightarrow>
            (case fs (r_path c) of
               Readable content \<Rightarrow>
                 (let src = source_lines content in
                  Some (if line < 1 \<or> length src < line then [(ERROR, ''line-out-of-range'', n)]
                        else if r_mark c = CHR ''+'' then []
                        else case symbol_of (r_name c) of
                            Some symbol \<Rightarrow> if mentions symbol False (window_of src line) then []
                                           else [(WARNING, ''symbol-not-near'', n)]
                          | None \<Rightarrow> []))
             | _ \<Rightarrow> None))"

fun check_calls :: "tree \<Rightarrow> nat option \<Rightarrow> numbered list \<Rightarrow> (plan_finding list \<times> call list) option" where
  "check_calls fs depth [] = Some ([], [])"
| "check_calls fs depth ((n, row) # rows) =
     (case parse_row row of
        None \<Rightarrow> map_option (\<lambda>(found, calls). ((ERROR, ''malformed'', n) # found, calls)) (check_calls fs depth rows)
      | Some c \<Rightarrow>
          (case (check_call fs n c, check_calls fs (Some (r_depth c)) rows) of
             (Some found, Some (later, calls)) \<Rightarrow>
               Some (depth_findings depth (r_depth c) n @ found @ later, c # calls)
           | _ \<Rightarrow> None))"

definition check_block :: "tree \<Rightarrow> block \<Rightarrow> (plan_finding list \<times> call list) option" where
  "check_block fs b =
     (let start = b_start b in
      map_option (\<lambda>(found, calls).
        ((if b_closed b then [] else [(ERROR, ''malformed'', start)])
         @ (if b_title b = [] then [(WARNING, ''no-title'', start)] else [])
         @ (if b_rows b = [] then [(ERROR, ''malformed'', start)] else [])
         @ (if MAX_LINES < length (b_rows b) then [(WARNING, ''too-long'', start)] else [])
         @ (if MAX_NOTE_LINES < b_notes b then [(WARNING, ''long-note'', start)] else [])
         @ found, calls)) (check_calls fs None (b_rows b)))"

subsection \<open>A document\<close>

record plan_report =
  p_blocks :: nat
  p_lines :: nat
  p_screens :: nat
  p_parts :: nat
  p_code :: nat
  p_state_blocks :: nat
  p_states :: nat
  p_errors :: nat
  p_warnings :: nat
  p_findings :: "plan_finding list"
  p_declared :: "call list"

definition budget_findings :: "json \<Rightarrow> nat \<Rightarrow> block list \<Rightarrow> plan_finding list" where
  "budget_findings sz most bs =
     (case bs of b # _ \<Rightarrow> if is_simple sz then [(WARNING, ''simple-size'', b_start b)] else [] | [] \<Rightarrow> [])
     @ (if most < length bs then [(WARNING, ''too-many-blocks'', b_start (bs ! most))] else [])"

definition state_findings :: "json \<Rightarrow> screen list \<Rightarrow> block list \<Rightarrow> plan_finding list" where
  "state_findings sz ss bs =
     (let names = filter (\<lambda>n. n \<noteq> []) (map n_name ss); shown = concat (map shown_screens bs)
      in budget_findings sz MAX_STATE_BLOCKS bs
         @ concat (map (\<lambda>b. check_states b names) bs)
         @ (if bs = [] then []
            else map (\<lambda>s. (WARNING, ''screen-not-shown'', n_start s))
                   (filter (\<lambda>s. n_name s \<noteq> [] \<and> n_name s \<notin> set shown) ss)))"

definition blocks_in :: "bool \<Rightarrow> string \<Rightarrow> string \<Rightarrow> block list" where
  "blocks_in calls content kind = (if calls then find_blocks content kind else [])"

definition screens_in :: "bool \<Rightarrow> string \<Rightarrow> screen list" where
  "screens_in calls content = (if calls then find_screens content else [])"

definition text_findings ::
  "tree \<Rightarrow> json \<Rightarrow> bool \<Rightarrow> string \<Rightarrow> (plan_finding list \<times> call list) list \<Rightarrow> plan_finding list" where
  "text_findings fs sz calls content checked =
     budget_findings sz MAX_BLOCKS (blocks_in calls content ''calls'')
     @ concat (map fst checked)
     @ check_screens sz (screens_in calls content)
     @ state_findings sz (screens_in calls content) (blocks_in calls content ''states'')
     @ concat (map (check_code fs) (find_code_blocks content))"

definition text_report ::
  "tree \<Rightarrow> json \<Rightarrow> bool \<Rightarrow> string \<Rightarrow> (plan_finding list \<times> call list) list \<Rightarrow> plan_report" where
  "text_report fs sz calls content checked =
     (let findings = text_findings fs sz calls content checked;
          blocks = blocks_in calls content ''calls'';
          state_blocks = blocks_in calls content ''states'';
          errors = length (filter (\<lambda>f. fst f = ERROR) findings)
      in \<lparr>p_blocks = length blocks, p_lines = sum_list (map (length \<circ> b_rows) blocks),
          p_screens = length (screens_in calls content), p_parts = parts_drawn (screens_in calls content),
          p_code = length (find_code_blocks content), p_state_blocks = length state_blocks,
          p_states = sum_list (map (length \<circ> block_states) state_blocks),
          p_errors = errors, p_warnings = length findings - errors, p_findings = findings,
          p_declared = concat (map snd checked)\<rparr>)"

definition check_text :: "tree \<Rightarrow> json \<Rightarrow> bool \<Rightarrow> string \<Rightarrow> plan_report option" where
  "check_text fs sz calls content =
     map_option (text_report fs sz calls content)
       (traverse (check_block fs) (blocks_in calls content ''calls''))"

subsection \<open>The files of a feature\<close>

definition plan_size :: "ctx_file \<Rightarrow> json" where
  "plan_size f = (case f of DocFile (JDict d) \<Rightarrow> jget d ''size'' | _ \<Rightarrow> JNull)"

definition merge_two :: "plan_report \<Rightarrow> plan_report \<Rightarrow> plan_report" where
  "merge_two r q =
     \<lparr>p_blocks = p_blocks r + p_blocks q, p_lines = p_lines r + p_lines q,
      p_screens = p_screens r + p_screens q, p_parts = p_parts r + p_parts q, p_code = p_code r + p_code q,
      p_state_blocks = p_state_blocks r + p_state_blocks q, p_states = p_states r + p_states q,
      p_errors = p_errors r + p_errors q, p_warnings = p_warnings r + p_warnings q,
      p_findings = p_findings r @ p_findings q, p_declared = p_declared r @ p_declared q\<rparr>"

definition empty_report :: plan_report where
  "empty_report =
     \<lparr>p_blocks = 0, p_lines = 0, p_screens = 0, p_parts = 0, p_code = 0, p_state_blocks = 0, p_states = 0,
      p_errors = 0, p_warnings = 0, p_findings = [], p_declared = []\<rparr>"

definition merge_reports :: "plan_report list \<Rightarrow> plan_report" where
  "merge_reports rs = foldl merge_two empty_report rs"

text \<open>
  \<open>_check_files\<close>: the plan and its side files that can be read, then the code blocks of \<open>tasks.md\<close>
  when a feature is given; \<open>feature\<close> holds the record and the text of \<open>tasks.md\<close>.
\<close>

definition check_files :: "tree \<Rightarrow> string option list \<Rightarrow> (ctx_file \<times> string option) option \<Rightarrow> plan_report option" where
  "check_files fs files feature =
     (let sz = (case feature of Some (f, _) \<Rightarrow> plan_size f | None \<Rightarrow> JNull);
          plans = traverse (check_text fs sz True) (List.map_filter (\<lambda>x. x) files);
          tasks = (case feature of
                     Some (_, Some content) \<Rightarrow> map_option (\<lambda>r. if 0 < p_code r then [r] else [])
                                               (check_text fs JNull False content)
                   | _ \<Rightarrow> Some [])
      in case (plans, tasks) of (Some rs, Some ts) \<Rightarrow> Some (merge_reports (rs @ ts)) | _ \<Rightarrow> None)"

definition has_blocks :: "plan_report \<Rightarrow> bool" where
  "has_blocks r \<longleftrightarrow> 0 < p_blocks r \<or> 0 < p_screens r \<or> 0 < p_code r \<or> 0 < p_state_blocks r"

definition exit_code :: "bool \<Rightarrow> plan_report \<Rightarrow> nat" where
  "exit_code strict r = (if strict \<and> 0 < p_errors r then 1 else 0)"

section \<open>Facts\<close>

subsection \<open>Where findings point\<close>

definition lines_ok :: "(nat \<Rightarrow> bool) \<Rightarrow> plan_finding list \<Rightarrow> bool" where
  "lines_ok P fs \<longleftrightarrow> list_all (\<lambda>f. P (snd (snd f))) fs"

lemma lines_ok_simps [simp]:
  "lines_ok P []" "lines_ok P (f # fs) \<longleftrightarrow> P (snd (snd f)) \<and> lines_ok P fs"
  "lines_ok P (xs @ ys) \<longleftrightarrow> lines_ok P xs \<and> lines_ok P ys"
  by (simp_all add: lines_ok_def)

lemma lines_ok_concat [simp]: "lines_ok P (concat fss) \<longleftrightarrow> (\<forall>fs \<in> set fss. lines_ok P fs)"
  by (induction fss) auto

lemma lines_ok_map [simp]: "lines_ok P (map g xs) \<longleftrightarrow> (\<forall>x \<in> set xs. P (snd (snd (g x))))"
  by (auto simp: lines_ok_def list_all_iff)

definition states_ok :: "(nat \<Rightarrow> bool) \<Rightarrow> state_block \<Rightarrow> bool" where
  "states_ok P r \<longleftrightarrow> lines_ok P (s_found r) \<and> (\<forall>(n, x) \<in> set (s_arrows r). P n) \<and>
     (\<forall>(n, x) \<in> set (s_grid r). P n) \<and> (\<forall>(n, i) \<in> set (s_states r). P (i_line i))"

lemma state_line_line: "state_line n row known = Some (name, i) \<Longrightarrow> i_line i = n"
  by (auto simp: state_line_def Let_def split: option.splits prod.splits if_splits)

lemma add_row_ok: "states_ok P b \<Longrightarrow> P (fst r) \<Longrightarrow> states_ok P (add_row r b)"
proof -
  assume ok: "states_ok P b" and n: "P (fst r)"
  show ?thesis
  proof (cases "state_line (fst r) (strip (snd r)) (s_states b)")
    case None
    then show ?thesis using ok n by (simp add: states_ok_def add_row_def Let_def split: option.split)
  next
    case (Some st)
    obtain name i where st: "st = (name, i)" by fastforce
    then have "i_line i = fst r" using Some state_line_line by blast
    then show ?thesis using ok n Some st
      by (simp add: states_ok_def add_row_def Let_def split: option.split)
  qed
qed

lemma add_rows_ok: "states_ok P b \<Longrightarrow> \<forall>r \<in> set rows. P (fst r) \<Longrightarrow> states_ok P (fold add_row rows b)"
  by (induction rows arbitrary: b) (simp_all add: add_row_ok)

lemma read_states_ok: "\<forall>r \<in> set rows. P (fst r) \<Longrightarrow> states_ok P (read_states rows)"
  unfolding read_states_def by (rule add_rows_ok) (simp_all add: states_ok_def)

lemma cell_findings_ok: "\<forall>(n, c) \<in> set cells. P n \<Longrightarrow> lines_ok P (cell_findings states placed cells)"
  by (induction states placed cells rule: cell_findings.induct) auto

lemma check_states_ok:
  assumes "P (b_start b)" and "\<forall>r \<in> set (b_rows b). P (fst r)"
  shows "lines_ok P (check_states b screens)"
proof -
  let ?r = "read_states (b_rows b)"
  have r: "states_ok P ?r" using assms(2) by (rule read_states_ok)
  then have "\<forall>(n, c) \<in> set (placed_cells (s_grid ?r)). P n"
    by (auto simp: placed_cells_def states_ok_def)
  then have "lines_ok P (grid_findings (b_start b) (s_states ?r) (s_grid ?r))"
    using r assms(1) cell_findings_ok by (auto simp: grid_findings_def Let_def states_ok_def)
  moreover have "lines_ok P (arrow_findings (s_states ?r) (s_arrows ?r))"
    using r by (auto simp: arrow_findings_def states_ok_def)
  moreover have "lines_ok P (screen_findings screens (s_states ?r))"
    using r by (auto simp: screen_findings_def states_ok_def split: option.splits)
  moreover have "lines_ok P (graph_findings (s_states ?r) (s_arrows ?r))"
  proof -
    have "set (start_states (s_states ?r)) \<subseteq> set (s_states ?r)" by (auto simp: start_states_def)
    then show ?thesis
      using r by (auto simp: graph_findings_def states_ok_def split: list.splits)
  qed
  ultimately show ?thesis
    using assms(1) r by (simp add: check_states_def Let_def count_block_def states_ok_def)
qed

lemma draw_part_ok: "lines_ok P (d_found d) \<Longrightarrow> P (fst r) \<Longrightarrow> lines_ok P (d_found (draw_part r d))"
  by (simp add: draw_part_def Let_def split: part.split)

lemma draw_parts_ok:
  "lines_ok P (d_found d) \<Longrightarrow> \<forall>r \<in> set rows. P (fst r) \<Longrightarrow> lines_ok P (d_found (fold draw_part rows d))"
  by (induction rows arbitrary: d) (simp_all add: draw_part_ok)

lemma draw_screen_ok: "\<forall>r \<in> set rows. P (fst r) \<Longrightarrow> lines_ok P (d_found (draw_screen rows))"
  unfolding draw_screen_def by (rule draw_parts_ok) simp_all

lemma note_findings_ok: "\<forall>(n, k) \<in> set notes. P n \<Longrightarrow> lines_ok P (note_findings dots seen notes)"
  by (induction dots seen "notes" rule: note_findings.induct) auto

definition screen_ok :: "(nat \<Rightarrow> bool) \<Rightarrow> screen \<Rightarrow> bool" where
  "screen_ok P s \<longleftrightarrow> P (n_start s) \<and> (\<forall>r \<in> set (n_rows s). P (fst r)) \<and> (\<forall>(n, k) \<in> set (n_notes s). P n)"

lemma check_screen_ok: "screen_ok P s \<Longrightarrow> lines_ok P (check_screen seen s)"
  by (simp add: check_screen_def Let_def screen_ok_def draw_screen_ok note_findings_ok)

lemma check_screens_ok:
  assumes "\<forall>s \<in> set ss. screen_ok P s"
  shows "lines_ok P (check_screens sz ss)"
proof -
  have "lines_ok P (check_each_screen seen ss)" for seen
    using assms by (induction ss arbitrary: seen) (auto simp: check_screen_ok)
  moreover have "P (n_start (ss ! MAX_SCREENS))" if "MAX_SCREENS < length ss"
    using that assms by (auto simp: screen_ok_def)
  ultimately show ?thesis
    using assms by (auto simp: check_screens_def screen_ok_def split: list.split)
qed

lemma differs_ok: "\<forall>r \<in> set rows. P (fst r) \<Longrightarrow> lines_ok P (differs src rows)"
  by (induction src rows rule: differs.induct) (auto split: list.split)

lemma check_code_ok:
  assumes "P (k_start b)" and "\<forall>r \<in> set (k_body b). P (fst r)" and "\<forall>(n, x) \<in> set (k_pins b). P n"
  shows "lines_ok P (check_code fs b)"
proof -
  have "lines_ok P (pin_findings first len (k_pins b))" for first len
    using assms(3) by (auto simp: pin_findings_def)
  moreover have "lines_ok P (check_cite fs i until (k_start b) (k_body b))" for i until
    using assms(1) differs_ok [OF assms(2)] by (auto simp: check_cite_def Let_def split: file_state.split)
  ultimately show ?thesis
    using assms(1) by (simp add: check_code_def Let_def split: code_parse.split option.split)
qed

lemma check_call_ok: "check_call fs n c = Some found \<Longrightarrow> P n \<Longrightarrow> lines_ok P found"
  by (auto simp: check_call_def Let_def split: if_splits option.splits file_state.splits)

lemma check_calls_ok:
  "check_calls fs depth rows = Some (found, calls) \<Longrightarrow> \<forall>r \<in> set rows. P (fst r) \<Longrightarrow> lines_ok P found"
proof (induction fs depth rows arbitrary: found calls rule: check_calls.induct)
  case (2 fs depth n row rows)
  show ?case
  proof (cases "parse_row row")
    case None
    then show ?thesis using 2 by auto
  next
    case (Some c)
    then obtain f1 f2 calls2 where "check_call fs n c = Some f1" "check_calls fs (Some (r_depth c)) rows = Some (f2, calls2)"
        "found = depth_findings depth (r_depth c) n @ f1 @ f2"
      using 2(3) by (auto split: option.splits)
    moreover have "lines_ok P (depth_findings depth (r_depth c) n)"
      using 2(4) by (auto simp: depth_findings_def split: option.split)
    ultimately show ?thesis using 2(2) [OF Some] 2(4) check_call_ok [of fs n c f1 P] by simp
  qed
qed simp

text \<open>The blocks of a document lie in it, so their findings do.\<close>

definition in_lines :: "string \<Rightarrow> nat \<Rightarrow> bool" where
  "in_lines content n \<longleftrightarrow> 1 \<le> n \<and> n \<le> length (lines_of content)"

lemma row_in_lines: "row_of 1 (lines_of content) r \<Longrightarrow> in_lines content (fst r)"
  by (auto simp: row_of_def in_lines_def)

lemma fence_rows:
  assumes "f \<in> set (fences_in content)"
  shows "in_lines content (f_start f)" and "r \<in> set (f_body f) \<Longrightarrow> in_lines content (fst r)"
    and "r \<in> set (after_blanks (f_next f) (f_after f)) \<Longrightarrow> in_lines content (fst r)"
    and "r \<in> set (rows_of (f_body f)) \<Longrightarrow> in_lines content (fst r)"
proof -
  have f: "fence_in 1 (lines_of content) f" using assms by (rule fences_in_document)
  then show "in_lines content (f_start f)" by (auto simp: fence_in_def in_lines_def)
  show body: "r \<in> set (f_body f) \<Longrightarrow> in_lines content (fst r)" for r
    using f row_in_lines by (simp add: fence_in_def list_all_iff)
  show "r \<in> set (after_blanks (f_next f) (f_after f)) \<Longrightarrow> in_lines content (fst r)"
    using rows_after [OF f] row_in_lines by blast
  show "r \<in> set (rows_of (f_body f)) \<Longrightarrow> in_lines content (fst r)"
    using body by (auto simp: rows_of_def)
qed

lemma take_pins_rows: "fst ` set (take_pins rows) \<subseteq> fst ` set rows"
proof (induction rows rule: take_pins.induct)
  case (2 n l ls)
  show ?case
  proof (cases "pin_of l")
    case (Some p)
    obtain line pin where p: "p = (line, pin)" by fastforce
    then have "fst ` set (take_pins ls) \<subseteq> fst ` set ls" using 2 Some by blast
    then show ?thesis by (simp add: Some p) blast
  qed simp
qed simp

lemma take_notes_rows: "fst ` set (take_notes rows) \<subseteq> fst ` set rows"
proof (induction rows rule: take_notes.induct)
  case (2 n l ls)
  then show ?case by (cases "note_of l") auto
qed simp

lemma find_blocks_ok:
  assumes "b \<in> set (find_blocks content kind)"
  shows "in_lines content (b_start b)" and "\<forall>r \<in> set (b_rows b). in_lines content (fst r)"
proof -
  obtain f where "f \<in> set (fences_in content)" "b = block_of f" using assms by (auto simp: find_blocks_def)
  then show "in_lines content (b_start b)" "\<forall>r \<in> set (b_rows b). in_lines content (fst r)"
    using fence_rows by (auto simp: block_of_def)
qed

lemma find_screens_ok:
  assumes "s \<in> set (find_screens content)"
  shows "screen_ok (in_lines content) s"
proof -
  obtain f where f: "f \<in> set (fences_in content)" "s = screen_of f" using assms by (auto simp: find_screens_def)
  have "in_lines content (fst x)" if "x \<in> set (take_notes (after_blanks (f_next f) (f_after f)))" for x
    using subsetD [OF take_notes_rows imageI [OF that]] fence_rows(3) [OF f(1)] by fastforce
  then have "\<forall>(n, k) \<in> set (n_notes s). in_lines content n" by (auto simp: f(2) screen_of_def Let_def)
  moreover have "n_start s = f_start f" "n_rows s = rows_of (f_body f)" by (simp_all add: f(2) screen_of_def Let_def)
  ultimately show ?thesis using fence_rows(1,4) [OF f(1)] by (simp add: screen_ok_def)
qed

lemma find_code_ok:
  assumes "b \<in> set (find_code_blocks content)"
  shows "lines_ok (in_lines content) (check_code fs b)"
proof -
  obtain f where f: "f \<in> set (fences_in content)" "b = code_block_of f" using assms by (auto simp: find_code_blocks_def)
  have "in_lines content (fst x)" if "x \<in> set (take_pins (after_blanks (f_next f) (f_after f)))" for x
    using subsetD [OF take_pins_rows imageI [OF that]] fence_rows(3) [OF f(1)] by fastforce
  then have "\<forall>(n, k) \<in> set (k_pins b). in_lines content n" by (auto simp: f(2) code_block_of_def)
  moreover have "k_start b = f_start f" "k_body b = f_body f" by (simp_all add: f(2) code_block_of_def)
  ultimately show ?thesis using fence_rows(1,2) [OF f(1)] by (intro check_code_ok) simp_all
qed

lemma check_block_ok:
  assumes "check_block fs b = Some (found, calls)" and "b \<in> set (find_blocks content kind)"
  shows "lines_ok (in_lines content) found"
proof -
  obtain later where c: "check_calls fs None (b_rows b) = Some (later, calls)"
    using assms(1) by (auto simp: check_block_def Let_def)
  have "lines_ok (in_lines content) later"
    using check_calls_ok [OF c] find_blocks_ok(2) [OF assms(2)] by blast
  then show ?thesis
    using assms(1) find_blocks_ok(1) [OF assms(2)] c by (auto simp: check_block_def Let_def)
qed

lemma budget_ok:
  "\<forall>b \<in> set bs. P (b_start b) \<Longrightarrow> lines_ok P (budget_findings sz most bs)"
proof -
  assume P: "\<forall>b \<in> set bs. P (b_start b)"
  then have "P (b_start (bs ! most))" if "most < length bs" using that by simp
  then show ?thesis using P by (cases bs) (simp_all add: budget_findings_def)
qed

lemma traverse_member:
  "traverse f xs = Some ys \<Longrightarrow> y \<in> set ys \<Longrightarrow> \<exists>x \<in> set xs. f x = Some y"
  by (induction xs arbitrary: ys) (auto split: option.splits)

lemma check_text_cases:
  assumes "check_text fs sz calls content = Some r"
  obtains checked where "traverse (check_block fs) (blocks_in calls content ''calls'') = Some checked"
    "p_findings r = text_findings fs sz calls content checked"
    "p_declared r = concat (map snd checked)" "p_errors r = length (filter (\<lambda>f. fst f = ERROR) (p_findings r))"
    "p_warnings r = length (p_findings r) - p_errors r"
  using assms by (auto simp: check_text_def text_report_def Let_def)

lemma blocks_in_ok:
  assumes "b \<in> set (blocks_in calls content kind)"
  shows "in_lines content (b_start b)" and "\<forall>r \<in> set (b_rows b). in_lines content (fst r)"
  using assms find_blocks_ok [of b content kind] by (simp_all add: blocks_in_def split: if_splits)

lemma screens_in_ok: "s \<in> set (screens_in calls content) \<Longrightarrow> screen_ok (in_lines content) s"
  by (simp add: screens_in_def find_screens_ok split: if_splits)

lemma check_text_lines:
  assumes "check_text fs sz calls content = Some r"
  shows "lines_ok (in_lines content) (p_findings r)"
  using assms
proof (cases rule: check_text_cases)
  case (1 checked)
  let ?P = "in_lines content"
  have "lines_ok ?P (fst x)" if x: "x \<in> set checked" for x
  proof -
    obtain b where "b \<in> set (blocks_in calls content ''calls'')" "check_block fs b = Some (fst x, snd x)"
      using traverse_member [OF 1(1) x] by auto
    then show ?thesis using check_block_ok [of fs b "fst x" "snd x"] by (auto simp: blocks_in_def split: if_splits)
  qed
  moreover have "lines_ok ?P (state_findings sz (screens_in calls content) (blocks_in calls content ''states''))"
  proof -
    have "lines_ok ?P (check_states b names)" if "b \<in> set (blocks_in calls content ''states'')" for b names
      using blocks_in_ok [OF that] by (rule check_states_ok)
    moreover have "lines_ok ?P (budget_findings sz MAX_STATE_BLOCKS (blocks_in calls content ''states''))"
      using blocks_in_ok(1) by (intro budget_ok) blast
    moreover have "?P (n_start s)" if "s \<in> set (screens_in calls content)" for s
      using screens_in_ok [OF that] by (simp add: screen_ok_def)
    ultimately show ?thesis by (simp add: state_findings_def Let_def)
  qed
  moreover have "lines_ok ?P (budget_findings sz MAX_BLOCKS (blocks_in calls content ''calls''))"
    using blocks_in_ok(1) by (intro budget_ok) blast
  moreover have "lines_ok ?P (check_screens sz (screens_in calls content))"
    using screens_in_ok by (intro check_screens_ok) blast
  ultimately show ?thesis
    using find_code_ok by (simp add: 1(2) text_findings_def)
qed

subsection \<open>What a plan without errors says\<close>

text \<open>A cited place that is there, and one that is still to come.\<close>

definition call_holds :: "tree \<Rightarrow> call \<Rightarrow> bool" where
  "call_holds fs c \<longleftrightarrow>
     (if r_new c then fs (r_path c) = Absent
      else case (fs (r_path c), r_line c) of
          (Readable content, Some line) \<Rightarrow> 1 \<le> line \<and> line \<le> length (source_lines content)
        | (Readable _, None) \<Rightarrow> True
        | (Unreadable, None) \<Rightarrow> True
        | _ \<Rightarrow> False)"

text \<open>
  A code block whose highlights and pins lie in it; a cited range that has as many lines as the block
  shows and lies in its file, when the file can be read.
\<close>

definition code_holds :: "tree \<Rightarrow> code_block \<Rightarrow> bool" where
  "code_holds fs b \<longleftrightarrow>
     k_closed b \<and>
     (case k_info b of
        Code i \<Rightarrow>
          (let inside = (\<lambda>n. c_first i \<le> n \<and> n < c_first i + length (k_body b))
           in list_all (\<lambda>(low, high). c_first i \<le> low \<and> high < c_first i + length (k_body b)) (c_hl i) \<and>
              list_all (\<lambda>(n, line, note). inside line \<and> note \<noteq> []) (k_pins b) \<and>
              (case c_last i of
                 None \<Rightarrow> True
               | Some until \<Rightarrow>
                   length (k_body b) = until + 1 - c_first i \<and>
                   (case fs (c_path i) of
                      Readable content \<Rightarrow> until \<le> length (source_lines content)
                    | Unreadable \<Rightarrow> True
                    | _ \<Rightarrow> False)))
      | _ \<Rightarrow> False)"

lemma no_error_call: "check_call fs n c = Some found \<Longrightarrow> no_error found \<Longrightarrow> call_holds fs c"
  by (auto simp: check_call_def call_holds_def Let_def not_less_eq_eq split: if_splits option.splits file_state.splits)

lemma no_error_calls:
  "check_calls fs depth rows = Some (found, calls) \<Longrightarrow> no_error found \<Longrightarrow>
     list_all (call_holds fs) calls \<and> length calls = length rows"
proof (induction fs depth rows arbitrary: found calls rule: check_calls.induct)
  case (2 fs depth n row rows)
  show ?case
  proof (cases "parse_row row")
    case None
    then show ?thesis using 2(3,4) by auto
  next
    case (Some c)
    then obtain f1 f2 calls2 where s: "check_call fs n c = Some f1" "check_calls fs (Some (r_depth c)) rows = Some (f2, calls2)"
        "found = depth_findings depth (r_depth c) n @ f1 @ f2" "calls = c # calls2"
      using 2(3) by (auto split: option.splits)
    then show ?thesis using 2(2) [OF Some] 2(4) no_error_call [of fs n c f1] by simp
  qed
qed simp

lemma no_error_block:
  assumes "check_block fs b = Some (found, calls)" and "no_error found"
  shows "list_all (call_holds fs) calls \<and> length calls = length (b_rows b)"
proof -
  obtain later where c: "check_calls fs None (b_rows b) = Some (later, calls)" "no_error later"
    using assms by (auto simp: check_block_def Let_def)
  then show ?thesis using no_error_calls by blast
qed

lemma no_error_pins:
  "no_error (pin_findings first len pins) \<Longrightarrow> (n, line, t) \<in> set pins \<Longrightarrow> first \<le> line \<and> line < first + len \<and> t \<noteq> []"
  by (auto simp: pin_findings_def no_error_concat list_all_iff split: if_splits)

lemma no_error_cite:
  "no_error (check_cite fs i until start rows) \<Longrightarrow>
     length rows = until + 1 - c_first i \<and>
     (case fs (c_path i) of Readable content \<Rightarrow> until \<le> length (source_lines content) | Unreadable \<Rightarrow> True | _ \<Rightarrow> False)"
  by (auto simp: check_cite_def Let_def split: if_splits file_state.splits)

lemma no_error_code:
  assumes "no_error (check_code fs b)"
  shows "code_holds fs b"
proof -
  obtain i where i: "k_info b = Code i" "k_closed b" "\<not> list_all (\<lambda>(n, row). is_blank row) (k_body b)"
    using assms by (auto simp: check_code_def Let_def split: code_parse.splits if_splits)
  then have "k_body b \<noteq> []" by auto
  have hl: "\<not> list_ex (\<lambda>(low, high). low < c_first i \<or> c_first i + length (k_body b) - 1 < high) (c_hl i)"
    and pins: "no_error (pin_findings (c_first i) (length (k_body b)) (k_pins b))"
    and cite: "c_last i = Some until \<Longrightarrow> no_error (check_cite fs i until (k_start b) (k_body b))" for until
    using assms i by (auto simp: check_code_def Let_def split: if_splits)
  have "list_all (\<lambda>(low, high). c_first i \<le> low \<and> high < c_first i + length (k_body b)) (c_hl i)"
  proof -
    obtain m where m: "length (k_body b) = Suc m" using \<open>k_body b \<noteq> []\<close> by (cases "k_body b") auto
    have "c_first i \<le> low \<and> high < c_first i + length (k_body b)" if "(low, high) \<in> set (c_hl i)" for low high
      using hl that by (auto simp: m list_ex_iff not_less dest!: bspec [where x = "(low, high)"])
    then show ?thesis by (auto simp: list_all_iff)
  qed
  moreover have "list_all (\<lambda>(n, line, note). (c_first i \<le> line \<and> line < c_first i + length (k_body b)) \<and> note \<noteq> []) (k_pins b)"
    using no_error_pins [OF pins] by (auto simp: list_all_iff)
  ultimately show ?thesis
    using i no_error_cite [OF cite] by (auto simp: code_holds_def Let_def split: option.split)
qed

lemma check_calls_total: "\<forall>p. fs p \<noteq> Unreadable \<Longrightarrow> check_calls fs depth rows \<noteq> None"
proof (induction fs depth rows rule: check_calls.induct)
  case (2 fs depth n row rows)
  have "check_call fs n c \<noteq> None" for c
    using 2(3) by (simp add: check_call_def Let_def split: option.split file_state.split)
  then show ?case using 2 by (cases "parse_row row") (auto split: option.split)
qed simp

text \<open>Only a cited file that cannot be read makes the check raise.\<close>

lemma check_text_total: "\<forall>p. fs p \<noteq> Unreadable \<Longrightarrow> check_text fs sz calls content \<noteq> None"
proof -
  assume fs: "\<forall>p. fs p \<noteq> Unreadable"
  have "check_block fs b \<noteq> None" for b
    using check_calls_total [OF fs, of None "b_rows b"] by (simp add: check_block_def Let_def)
  then have "traverse (check_block fs) bs \<noteq> None" for bs
    by (induction bs) (auto split: option.split)
  then show ?thesis by (simp add: check_text_def)
qed

section \<open>Properties\<close>


text \<open>A tree with one file of two lines, and a plan that cites its second one and one file to come.\<close>

definition example_tree :: tree where
  "example_tree p = (if p = ''a.py'' then Readable (''x'' @ nl @ ''def go():'' @ nl) else Absent)"

definition example_plan :: string where
  "example_plan = join nl [''```calls t'', ''~ go @ a.py:2'', ''+   new **new** @ b.py'', ''```'',
     ''```py a.py:2-2'', ''def go():'', ''```'']"


text \<open>Every finding about a plan points into the plan: its line is one of the document's.\<close>

theorem plan_findings_in_document:
  assumes "check_text fs sz calls content = Some r"
  shows "list_all (\<lambda>(level, rule, n). 1 \<le> n \<and> n \<le> length (lines_of content)) (p_findings r)"
  using check_text_lines [OF assms] by (auto simp: lines_ok_def in_lines_def list_all_iff)

theorem plan_findings_in_document_witness:
  "\<exists>r. check_text example_tree JNull True (''```calls'' @ nl @ ''x'') = Some r \<and> p_findings r \<noteq> [] \<and>
     list_all (\<lambda>(level, rule, n). 1 \<le> n \<and> n \<le> 2) (p_findings r)"
proof -
  let ?d = "''```calls'' @ nl @ ''x''"
  have "map_option (\<lambda>r. p_findings r \<noteq> []) (check_text example_tree JNull True ?d) = Some True" by code_simp
  then obtain r where r: "check_text example_tree JNull True ?d = Some r" "p_findings r \<noteq> []" by auto
  have "length (lines_of ?d) = 2" by code_simp
  then show ?thesis using plan_findings_in_document [OF r(1)] r by simp
qed

end
