(* ===== verification/Doctor.thy ===== *)
theory Doctor
  imports Store "HOL-Library.Product_Lexorder" "HOL-Library.Multiset"
begin

text \<open>
  The frame of the doctor (\<open>doctor.py\<close>): findings and their order, the ledger of the checks, the
  isolation of a check that raises, the report, its summary and its rendering, and the readings of
  time and git the checks share.

  A finding's title is one of the constructors of \<open>topic\<close> and its evidence is the dictionary of the
  code; the sentences are not modelled.  The three constructor checks of the code that a check, a
  severity and a state are known names hold by type, and a skip always carries its reason.
\<close>

subsection \<open>Checks and severities\<close>

datatype check = RecordCheck | TriageCheck | BleedCheck | DriftCheck | CompletionCheck | VerificationCheck
  | ArtifactCheck | TemplateCheck | BriefedCheck | DispatchCheck | TraceCheck | ChatCheck

definition CHECKS :: "check list" where
  "CHECKS = [RecordCheck, TriageCheck, BleedCheck, DriftCheck, CompletionCheck, VerificationCheck,
     ArtifactCheck, TemplateCheck, BriefedCheck, DispatchCheck, TraceCheck, ChatCheck]"

datatype severity = Problem | Warning | Remark

definition SEVERITIES :: "severity list" where
  "SEVERITIES = [Problem, Warning, Remark]"

text \<open>The place of a value in its tuple; both types are ordered by it.\<close>

definition place_in :: "'a list \<Rightarrow> 'a \<Rightarrow> nat" where
  "place_in xs x = length (takeWhile (\<lambda>y. y \<noteq> x) xs)"

lemma place_in_inject: "x \<in> set xs \<Longrightarrow> place_in xs x = place_in xs y \<Longrightarrow> x = y"
  by (induction xs) (auto simp: place_in_def split: if_splits)

lemma all_checks: "c \<in> set CHECKS"
  by (cases c) (simp_all add: CHECKS_def)

lemma all_severities: "s \<in> set SEVERITIES"
  by (cases s) (simp_all add: SEVERITIES_def)

lemma distinct_CHECKS: "distinct CHECKS"
  by (simp add: CHECKS_def)

instantiation check :: linorder
begin

definition less_eq_check :: "check \<Rightarrow> check \<Rightarrow> bool" where
  "less_eq_check a b \<longleftrightarrow> place_in CHECKS a \<le> place_in CHECKS b"

definition less_check :: "check \<Rightarrow> check \<Rightarrow> bool" where
  "less_check a b \<longleftrightarrow> place_in CHECKS a < place_in CHECKS b"

instance
  by standard (auto simp: less_eq_check_def less_check_def intro: place_in_inject [OF all_checks])

end

instantiation severity :: linorder
begin

definition less_eq_severity :: "severity \<Rightarrow> severity \<Rightarrow> bool" where
  "less_eq_severity a b \<longleftrightarrow> place_in SEVERITIES a \<le> place_in SEVERITIES b"

definition less_severity :: "severity \<Rightarrow> severity \<Rightarrow> bool" where
  "less_severity a b \<longleftrightarrow> place_in SEVERITIES a < place_in SEVERITIES b"

instance
  by standard (auto simp: less_eq_severity_def less_severity_def intro: place_in_inject [OF all_severities])

end

subsection \<open>Findings\<close>

datatype topic =
    StepNeverFinished | StepThinlyRecorded | TasksNotJournaled | FinishesBatched | StepClosedByOther
  | RecordsAgree | RecordsDisagree
  | CompletionNeverTried | CompletionRefused | CompletionNeverArrived
  | NothingVerified | NeverBriefed
  | PlanInline | WavesInline | DeltasUnreviewed
  | ArtifactMissing
  | PhasesReplaced | WavesAdded | NoStoryPhases | JoinsRemoved | CheckpointsRemoved
  | CallsLost | WritesDeclined | CallsFailed | FilesRewritten | CallsCounted | CallsUnattributed | OtherRunsFailed
  | CapabilityDrift | FalseClaim
  | StepBled | TaskListTwice | TookLonger | TimeUnattributed
  | ChatFinding

record finding =
  f_check :: check
  f_severity :: severity
  f_topic :: topic
  f_evidence :: jdict

definition rank :: "finding \<Rightarrow> severity \<times> check" where
  "rank f = (f_severity f, f_check f)"

subsection \<open>The ledger\<close>

datatype skip_reason =
    NothingRecorded | RecordUnreadable | HistoryEmpty | CheckRaised
  | ImplementOpen | NoRegistry | SpecsOff | NoCapabilities | NothingDispatched
  | NoManifest | NothingDeclared | TasksUnreadable | NoTrace | NoDriftResult | NoTranscript

datatype state = Ran | Skipped skip_reason | NotApplicable

record status =
  s_check :: check
  s_state :: state
  s_findings :: nat

definition check_status :: "check \<Rightarrow> state \<Rightarrow> status" where
  "check_status c st = \<lparr>s_check = c, s_state = st, s_findings = 0\<rparr>"

record report =
  r_spec :: string
  r_statuses :: "(check \<times> status) list"
  r_findings :: "finding list"
  r_drift :: "jdict list"
  r_bleed :: "jdict list"
  r_completion :: jdict
  r_chat :: jdict

definition new_report :: "string \<Rightarrow> report" where
  "new_report spec = \<lparr>r_spec = spec, r_statuses = [], r_findings = [], r_drift = [], r_bleed = [],
     r_completion = [], r_chat = []\<rparr>"

definition record_status :: "status \<Rightarrow> finding list \<Rightarrow> report \<Rightarrow> report" where
  "record_status s fs r =
     r\<lparr>r_statuses := AList.update (s_check s) (s\<lparr>s_findings := length fs\<rparr>) (r_statuses r),
       r_findings := r_findings r @ fs\<rparr>"

definition ordered :: "report \<Rightarrow> finding list" where
  "ordered r = sort_key rank (r_findings r)"

definition with_severity :: "severity \<Rightarrow> finding list \<Rightarrow> nat" where
  "with_severity s fs = length (filter (\<lambda>f. f_severity f = s) fs)"

definition with_state :: "(state \<Rightarrow> bool) \<Rightarrow> report \<Rightarrow> nat" where
  "with_state p r = length (filter (\<lambda>(c, s). p (s_state s)) (r_statuses r))"

fun is_skipped :: "state \<Rightarrow> bool" where
  "is_skipped (Skipped _) = True"
| "is_skipped _ = False"

record counts =
  n_problem :: nat
  n_warning :: nat
  n_note :: nat
  n_ran :: nat
  n_skipped :: nat
  n_not_applicable :: nat

definition count_report :: "report \<Rightarrow> counts" where
  "count_report r =
     \<lparr>n_problem = with_severity Problem (r_findings r), n_warning = with_severity Warning (r_findings r),
      n_note = with_severity Remark (r_findings r),
      n_ran = with_state (\<lambda>s. s = Ran) r, n_skipped = with_state is_skipped r,
      n_not_applicable = with_state (\<lambda>s. s = NotApplicable) r\<rparr>"

subsection \<open>Running the checks\<close>

text \<open>
  What a check returns: its status and findings, or \<open>None\<close> when it raises.  It may have published
  something on the report before.
\<close>

type_synonym check_result = "(status \<times> finding list) option"
type_synonym check_fun = "report \<Rightarrow> report \<times> check_result"

definition run_check :: "check \<Rightarrow> check_fun \<Rightarrow> report \<Rightarrow> report" where
  "run_check c fn r =
     (case fn r of
        (r', None) \<Rightarrow> record_status (check_status c (Skipped CheckRaised)) [] r'
      | (r', Some (s, fs)) \<Rightarrow> record_status s fs r')"

text \<open>The checks \<open>examine\<close> runs, in its order; the transcript audit only on request.\<close>

definition EXAMINED :: "check list" where
  "EXAMINED = [RecordCheck, TriageCheck, BleedCheck, DriftCheck, CompletionCheck, VerificationCheck,
     ArtifactCheck, TemplateCheck, BriefedCheck, DispatchCheck, TraceCheck]"

definition examine :: "(check \<Rightarrow> check_fun) \<Rightarrow> bool \<Rightarrow> string \<Rightarrow> report" where
  "examine via chat spec =
     (let r = fold (\<lambda>c. run_check c (via c)) EXAMINED (new_report spec)
      in if chat then run_check ChatCheck (via ChatCheck) r else r)"

text \<open>\<open>main\<close>: nothing to examine is success; only \<open>--strict\<close> turns a problem into a failure.\<close>

definition exit_code :: "bool \<Rightarrow> report list \<Rightarrow> nat" where
  "exit_code strict reports =
     (if strict \<and> 0 < sum_list (map (\<lambda>r. with_severity Problem (r_findings r)) reports) then 1 else 0)"

subsection \<open>Rendering\<close>

datatype line =
    NotRunLine check
  | SkippedLine check skip_reason
  | NotApplicableLine check
  | CleanLine check
  | CountLine check "(severity \<times> nat) list"
  | FindingLine finding
  | BlankLine
  | SummaryLine counts nat

definition grouped :: "report \<Rightarrow> check \<Rightarrow> finding list" where
  "grouped r c = filter (\<lambda>f. f_check f = c) (ordered r)"

definition severity_counts :: "finding list \<Rightarrow> (severity \<times> nat) list" where
  "severity_counts fs = [(s, with_severity s fs). s \<leftarrow> SEVERITIES, with_severity s fs \<noteq> 0]"

definition check_lines :: "report \<Rightarrow> check \<Rightarrow> line list" where
  "check_lines r c =
     (case map_of (r_statuses r) c of
        None \<Rightarrow> [NotRunLine c]
      | Some s \<Rightarrow>
          (case s_state s of
             Skipped why \<Rightarrow> [SkippedLine c why]
           | NotApplicable \<Rightarrow> [NotApplicableLine c]
           | Ran \<Rightarrow>
               (if grouped r c = [] then [CleanLine c]
                else CountLine c (severity_counts (grouped r c)) # map FindingLine (grouped r c) @ [BlankLine])))"

definition render_lines :: "report \<Rightarrow> line list" where
  "render_lines r = concat (map (check_lines r) CHECKS) @
     [SummaryLine (count_report r) (length CHECKS - length (r_statuses r))]"

text \<open>The parts of the JSON document that are computed: the ledger in order and the ordered findings.\<close>

definition json_checks :: "report \<Rightarrow> status list" where
  "json_checks r = List.map_filter (map_of (r_statuses r)) CHECKS"

subsection \<open>Time\<close>

text \<open>
  \<open>parse_time\<close>: the microseconds since the epoch of an ISO-8601 stamp.  The formats are those of
  \<open>datetime.fromisoformat\<close> in every Python version: a date, then after any one character the hours,
  minutes, seconds and a fraction of three or six digits, then an offset.  A stamp without an offset
  is local time: \<open>zone\<close> takes the microseconds of a local time to those in UTC.  The overflow of a
  stamp within a day of the first or last year is not modelled.
\<close>

definition days_before_month :: "int \<Rightarrow> int \<Rightarrow> int" where
  "days_before_month y m =
     [0, 31, 59, 90, 120, 151, 181, 212, 243, 273, 304, 334] ! nat (m - 1) +
     (if 2 < m \<and> (y mod 4 = 0 \<and> (y mod 100 \<noteq> 0 \<or> y mod 400 = 0)) then 1 else 0)"

definition days_in_month :: "int \<Rightarrow> int \<Rightarrow> int" where
  "days_in_month y m =
     (if m = 2 then (if y mod 4 = 0 \<and> (y mod 100 \<noteq> 0 \<or> y mod 400 = 0) then 29 else 28)
      else [31, 0, 31, 30, 31, 30, 31, 31, 30, 31, 30, 31] ! nat (m - 1))"

definition epoch_days :: "int \<Rightarrow> int \<Rightarrow> int \<Rightarrow> int" where
  "epoch_days y m d =
     (let p = y - 1 in p * 365 + p div 4 - p div 100 + p div 400 + days_before_month y m + d - 719163)"

definition number_at :: "nat \<Rightarrow> nat \<Rightarrow> string \<Rightarrow> int option" where
  "number_at i n s =
     (let ds = take n (drop i s)
      in if length ds = n \<and> list_all is_decimal ds then Some (decimal_value ds) else None)"

definition parse_date :: "string \<Rightarrow> int option" where
  "parse_date s =
     (case (number_at 0 4 s, number_at 5 2 s, number_at 8 2 s) of
        (Some y, Some m, Some d) \<Rightarrow>
          (if s ! 4 = CHR ''-'' \<and> s ! 7 = CHR ''-'' \<and> 1 \<le> y \<and> 1 \<le> m \<and> m \<le> 12 \<and> 1 \<le> d \<and> d \<le> days_in_month y m
           then Some (epoch_days y m d) else None)
      | _ \<Rightarrow> None)"

text \<open>\<open>HH[:MM[:SS[.fff[fff]]]]\<close> in microseconds, with the largest value each part may take.\<close>

definition parse_clock :: "int \<Rightarrow> int \<Rightarrow> int \<Rightarrow> string \<Rightarrow> int option" where
  "parse_clock max_h max_m max_s s =
     (let part = (\<lambda>i top. if length s \<le> i then Some 0
                    else if i = 0 \<or> s ! (i - 1) = CHR '':'' then
                      (case number_at i 2 s of Some n \<Rightarrow> if n \<le> top then Some n else None | None \<Rightarrow> None)
                    else None);
          frac = (if length s \<le> 8 then Some 0
                  else if s ! 8 \<noteq> CHR ''.'' then None
                  else if length s = 12 then map_option (\<lambda>n. n * 1000) (number_at 9 3 s)
                  else if length s = 15 then number_at 9 6 s
                  else None)
      in if length s < 2 \<or> length s \<in> {3, 4, 6, 7} then None
         else case (part 0 max_h, part 3 max_m, part 6 max_s, frac) of
             (Some h, Some m, Some sec, Some f) \<Rightarrow> Some (((h * 60 + m) * 60 + sec) * 1000000 + f)
           | _ \<Rightarrow> None)"

definition parse_offset :: "string \<Rightarrow> int option" where
  "parse_offset s =
     (if length s \<in> {6, 9, 16} then
        (case parse_clock 99 99 99 (tl s) of
           Some n \<Rightarrow> (if n < 24 * 60 * 60 * 1000000 then Some (if hd s = CHR ''-'' then - n else n) else None)
         | None \<Rightarrow> None)
      else None)"

definition from_isoformat :: "(int \<Rightarrow> int) \<Rightarrow> string \<Rightarrow> int option" where
  "from_isoformat zone s =
     (case parse_date (take 10 s) of
        None \<Rightarrow> None
      | Some days \<Rightarrow>
          (let midnight = days * 24 * 60 * 60 * 1000000; t = drop 11 s;
               clock = takeWhile (\<lambda>c. c \<noteq> CHR ''+'' \<and> c \<noteq> CHR ''-'') t;
               off = drop (length clock) t
           in if length s = 10 then Some (zone midnight)
              else case parse_clock 23 59 59 clock of
                  None \<Rightarrow> None
                | Some us \<Rightarrow>
                    (if off = [] then Some (zone (midnight + us))
                     else map_option (\<lambda>d. midnight + us - d) (parse_offset off))))"

definition parse_time :: "(int \<Rightarrow> int) \<Rightarrow> json \<Rightarrow> int option" where
  "parse_time zone at =
     (case at of
        JStr s \<Rightarrow> if s = [] then None else from_isoformat zone (replace_char (CHR ''Z'') ''+00:00'' s)
      | _ \<Rightarrow> None)"

definition log_entries :: "jdict \<Rightarrow> jdict list" where
  "log_entries ctx = List.map_filter (\<lambda>j. case j of JDict e \<Rightarrow> Some e | _ \<Rightarrow> None) (canonical_log ctx)"

definition run_window :: "(int \<Rightarrow> int) \<Rightarrow> jdict \<Rightarrow> int \<Rightarrow> (int \<times> int) option" where
  "run_window zone ctx pad =
     (case List.map_filter (\<lambda>e. parse_time zone (jget e ''at'')) (log_entries ctx) of
        [] \<Rightarrow> None
      | t # ts \<Rightarrow> Some (fold min ts t - pad, fold max ts t + pad))"

subsection \<open>The log of commits\<close>

record commit =
  k_sha :: string
  k_subject :: string
  k_files :: "string list"

fun commits_from :: "(string \<times> string) option \<Rightarrow> string list \<Rightarrow> string list \<Rightarrow> commit list" where
  "commits_from open touched [] =
     (case open of
        Some (sha, subject) \<Rightarrow>
          if sha = [] then [] else [\<lparr>k_sha = take 8 sha, k_subject = subject, k_files = touched\<rparr>]
      | None \<Rightarrow> [])"
| "commits_from open touched (l # ls) =
     (case cut_at [CHR 0x1F] l of
        Some (sha, subject) \<Rightarrow> commits_from open touched [] @ commits_from (Some (sha, subject)) [] ls
      | None \<Rightarrow> commits_from open (if strip l = [] then touched else touched @ [strip l]) ls)"

definition parse_commit_log :: "string \<Rightarrow> commit list" where
  "parse_commit_log out = commits_from None [] (splitlines out)"

section \<open>Facts about the report\<close>

subsection \<open>Order and counts\<close>

lemma mset_ordered: "mset (ordered r) = mset (r_findings r)"
  by (simp add: ordered_def)

lemma set_ordered [simp]: "set (ordered r) = set (r_findings r)"
  by (simp add: ordered_def)

lemma ordered_ranked: "sorted (map rank (ordered r))"
  by (simp add: ordered_def)

lemma ordered_stable: "filter (\<lambda>f. rank f = k) (ordered r) = filter (\<lambda>f. rank f = k) (r_findings r)"
  unfolding ordered_def by (induction "r_findings r" arbitrary: r) (simp_all add: sort_key_stable)

lemma severities_split:
  "with_severity Problem fs + with_severity Warning fs + with_severity Remark fs = length fs"
proof (induction fs)
  case (Cons f fs)
  then show ?case by (cases "f_severity f") (simp_all add: with_severity_def)
qed (simp add: with_severity_def)

lemma states_split:
  "with_state (\<lambda>s. s = Ran) r + with_state is_skipped r + with_state (\<lambda>s. s = NotApplicable) r = length (r_statuses r)"
proof -
  have "length (filter (\<lambda>(c, s). s_state s = Ran) xs) + length (filter (\<lambda>(c, s). is_skipped (s_state s)) xs) +
      length (filter (\<lambda>(c, s). s_state s = NotApplicable) xs) = length xs" for xs :: "(check \<times> status) list"
  proof (induction xs)
    case (Cons x xs)
    then show ?case by (cases "s_state (snd x)") (simp_all add: case_prod_beta)
  qed simp
  then show ?thesis by (simp add: with_state_def)
qed

subsection \<open>The contract of a check\<close>

text \<open>The ledger agrees with the findings.\<close>

definition balanced :: "report \<Rightarrow> bool" where
  "balanced r \<longleftrightarrow> distinct (map fst (r_statuses r)) \<and>
     (\<forall>(c, s) \<in> set (r_statuses r). s_check s = c \<and> s_findings s = length (filter (\<lambda>f. f_check f = c) (r_findings r))
        \<and> (s_findings s \<noteq> 0 \<longrightarrow> s_state s = Ran)) \<and>
     (\<forall>f \<in> set (r_findings r). f_check f \<in> fst ` set (r_statuses r))"

text \<open>
  What the frame relies on: a check answers for itself, publishes only beside the ledger and the
  findings, and has findings only when it ran.
\<close>

locale check_module =
  fixes via :: "check \<Rightarrow> check_fun"
  assumes keeps_ledger: "r_statuses (fst (via c r)) = r_statuses r"
    and keeps_findings: "r_findings (fst (via c r)) = r_findings r"
    and own_status: "snd (via c r) = Some (s, fs) \<Longrightarrow> s_check s = c"
    and own_findings: "snd (via c r) = Some (s, fs) \<Longrightarrow> f \<in> set fs \<Longrightarrow> f_check f = c"
    and ran_if_found: "snd (via c r) = Some (s, fs) \<Longrightarrow> fs \<noteq> [] \<Longrightarrow> s_state s = Ran"
begin

lemma run_check_cases:
  obtains s fs where "r_statuses (run_check c (via c) r) = AList.update c (s\<lparr>s_findings := length fs\<rparr>) (r_statuses r)"
    and "r_findings (run_check c (via c) r) = r_findings r @ fs" and "s_check s = c"
    and "\<forall>f \<in> set fs. f_check f = c" and "fs \<noteq> [] \<longrightarrow> s_state s = Ran"
    and "snd (via c r) = None \<longrightarrow> fs = [] \<and> s_state s = Skipped CheckRaised"
    and "\<forall>s' fs'. snd (via c r) = Some (s', fs') \<longrightarrow> s = s' \<and> fs = fs'"
proof (cases "snd (via c r)")
  case None
  show ?thesis
    by (rule that [where s = "check_status c (Skipped CheckRaised)" and fs = "[]"])
       (use None keeps_ledger [of c r] keeps_findings [of c r] in
        \<open>auto simp: run_check_def record_status_def check_status_def case_prod_beta\<close>)
next
  case (Some x)
  obtain s fs where x: "x = (s, fs)" by (cases x)
  show ?thesis
    by (rule that [where s = s and fs = fs])
       (use Some x keeps_ledger [of c r] keeps_findings [of c r] own_status own_findings ran_if_found in
        \<open>auto simp: run_check_def record_status_def case_prod_beta\<close>)
qed

lemma update_fresh: "c \<notin> fst ` set xs \<Longrightarrow> AList.update c v xs = xs @ [(c, v)]"
  by (induction xs) auto

lemma run_check_balanced:
  assumes "balanced r" "c \<notin> fst ` set (r_statuses r)"
  shows "balanced (run_check c (via c) r) \<and> map fst (r_statuses (run_check c (via c) r)) = map fst (r_statuses r) @ [c]"
proof -
  obtain s fs where run: "r_statuses (run_check c (via c) r) = AList.update c (s\<lparr>s_findings := length fs\<rparr>) (r_statuses r)"
      "r_findings (run_check c (via c) r) = r_findings r @ fs" "s_check s = c"
      "\<forall>f \<in> set fs. f_check f = c" "fs \<noteq> [] \<longrightarrow> s_state s = Ran"
    by (rule run_check_cases [of c r]) blast
  have own: "filter (\<lambda>f. f_check f = c) fs = fs" using run(4) by (simp add: filter_id_conv)
  have none: "filter (\<lambda>f. f_check f = c) (r_findings r) = []"
    using assms by (auto simp: balanced_def filter_empty_conv)
  have other: "filter (\<lambda>f. f_check f = d) fs = []" if "d \<noteq> c" for d
    using run(4) that by (auto simp: filter_empty_conv)
  have old: "s_check t = d \<and> s_findings t = length (filter (\<lambda>f. f_check f = d) (r_findings r @ fs)) \<and>
      (s_findings t \<noteq> 0 \<longrightarrow> s_state t = Ran)" if "(d, t) \<in> set (r_statuses r)" for d t
  proof -
    have "d \<noteq> c" using that assms(2) by force
    then show ?thesis using that assms(1) other by (auto simp: balanced_def)
  qed
  have ledger: "r_statuses (run_check c (via c) r) = r_statuses r @ [(c, s\<lparr>s_findings := length fs\<rparr>)]"
    using run(1) update_fresh [OF assms(2)] by simp
  have known: "f_check f \<in> insert c (fst ` set (r_statuses r))" if "f \<in> set (r_findings r @ fs)" for f
    using that assms(1) run(4) by (auto simp: balanced_def)
  have "balanced (run_check c (via c) r)"
    unfolding balanced_def ledger run(2)
  proof (intro conjI)
    show "distinct (map fst (r_statuses r @ [(c, s\<lparr>s_findings := length fs\<rparr>)]))"
      using assms by (auto simp: balanced_def)
    show "\<forall>(d, t) \<in> set (r_statuses r @ [(c, s\<lparr>s_findings := length fs\<rparr>)]).
        s_check t = d \<and> s_findings t = length (filter (\<lambda>f. f_check f = d) (r_findings r @ fs)) \<and>
        (s_findings t \<noteq> 0 \<longrightarrow> s_state t = Ran)"
      using old run(3,5) own none by auto
    show "\<forall>f \<in> set (r_findings r @ fs). f_check f \<in> fst ` set (r_statuses r @ [(c, s\<lparr>s_findings := length fs\<rparr>)])"
      using known by simp
  qed
  then show ?thesis by (simp add: ledger)
qed

lemma fold_balanced:
  "balanced r \<Longrightarrow> distinct cs \<Longrightarrow> set cs \<inter> fst ` set (r_statuses r) = {} \<Longrightarrow>
   balanced (fold (\<lambda>c. run_check c (via c)) cs r) \<and>
   map fst (r_statuses (fold (\<lambda>c. run_check c (via c)) cs r)) = map fst (r_statuses r) @ cs"
proof (induction cs arbitrary: r)
  case (Cons c cs)
  have one: "balanced (run_check c (via c) r)"
      "map fst (r_statuses (run_check c (via c) r)) = map fst (r_statuses r) @ [c]"
    using run_check_balanced [of r c] Cons.prems by auto
  have "fst ` set (r_statuses (run_check c (via c) r)) = insert c (fst ` set (r_statuses r))"
    using arg_cong [OF one(2), of set] by simp
  then have "set cs \<inter> fst ` set (r_statuses (run_check c (via c) r)) = {}" using Cons.prems by auto
  moreover have "distinct cs" using Cons.prems by simp
  ultimately show ?case using Cons.IH [OF one(1)] by (simp add: one(2))
qed simp

lemma examine_fold:
  "examine via chat spec = fold (\<lambda>c. run_check c (via c)) (EXAMINED @ (if chat then [ChatCheck] else [])) (new_report spec)"
  by (simp add: examine_def Let_def)

lemma examine_balanced:
  "balanced (examine via chat spec) \<and>
   map fst (r_statuses (examine via chat spec)) = EXAMINED @ (if chat then [ChatCheck] else [])"
  unfolding examine_fold
  using fold_balanced [of "new_report spec" "EXAMINED @ (if chat then [ChatCheck] else [])"]
  by (simp add: balanced_def new_report_def EXAMINED_def)

lemma examine_counts:
  "n_ran (count_report (examine via chat spec)) + n_skipped (count_report (examine via chat spec)) +
     n_not_applicable (count_report (examine via chat spec)) = (if chat then 12 else 11) \<and>
   n_problem (count_report (examine via chat spec)) + n_warning (count_report (examine via chat spec)) +
     n_note (count_report (examine via chat spec)) = length (r_findings (examine via chat spec))"
proof -
  have "length (r_statuses (examine via chat spec)) = (if chat then 12 else 11)"
    using arg_cong [OF conjunct2 [OF examine_balanced [of chat spec]], of length] by (simp add: EXAMINED_def)
  then show ?thesis by (simp add: count_report_def states_split severities_split)
qed

text \<open>The rendering hides no finding, and prints clean only for a check that looked and found nothing.\<close>

lemma grouped_count:
  assumes "balanced r" "map_of (r_statuses r) c = Some s"
  shows "s_findings s = length (grouped r c)"
proof -
  have "mset (grouped r c) = mset (filter (\<lambda>f. f_check f = c) (r_findings r))"
    by (simp add: grouped_def mset_ordered)
  then have "length (grouped r c) = length (filter (\<lambda>f. f_check f = c) (r_findings r))"
    by (rule mset_eq_length)
  then show ?thesis using assms(1) map_of_SomeD [OF assms(2)] by (auto simp: balanced_def)
qed

lemma clean_line_iff:
  assumes "balanced r"
  shows "CleanLine c \<in> set (render_lines r) \<longleftrightarrow>
    (\<exists>s. map_of (r_statuses r) c = Some s \<and> s_state s = Ran \<and> s_findings s = 0)"
proof -
  have "CleanLine c \<in> set (check_lines r d) \<longleftrightarrow>
      d = c \<and> (\<exists>s. map_of (r_statuses r) c = Some s \<and> s_state s = Ran \<and> s_findings s = 0)" for d
    using grouped_count [OF assms] by (auto simp: check_lines_def split: option.splits state.splits)
  then show ?thesis using all_checks [of c] by (auto simp: render_lines_def)
qed

lemma finding_line_iff:
  assumes "balanced r"
  shows "FindingLine f \<in> set (render_lines r) \<longleftrightarrow> f \<in> set (r_findings r)"
proof -
  have line: "FindingLine f \<in> set (check_lines r d) \<longleftrightarrow>
      f \<in> set (grouped r d) \<and> (\<exists>s. map_of (r_statuses r) d = Some s \<and> s_state s = Ran)" for d
    by (auto simp: check_lines_def split: option.splits state.splits)
  have "\<exists>s. map_of (r_statuses r) (f_check f) = Some s \<and> s_state s = Ran" if f: "f \<in> set (r_findings r)"
  proof -
    obtain s where s: "map_of (r_statuses r) (f_check f) = Some s"
      using assms f by (metis balanced_def map_of_eq_None_iff option.exhaust)
    have "f \<in> set (grouped r (f_check f))" using f by (simp add: grouped_def)
    then have "s_findings s \<noteq> 0" using grouped_count [OF assms s] by auto
    then show ?thesis using assms map_of_SomeD [OF s] s by (auto simp: balanced_def)
  qed
  then show ?thesis using all_checks [of "f_check f"] by (auto simp: render_lines_def line grouped_def)
qed

end

end
