(* ===== verification/JsonRound.thy ===== *)
theory JsonRound
  imports Json
begin

text \<open>
  \<open>json.dumps(value, ensure_ascii=False, separators=(",", ":"))\<close>, the form in which the run trace
  writes a line, and the proof that \<open>json.loads\<close> reads the value back.
\<close>

fun json_compact :: "json \<Rightarrow> string"
  and compact_list :: "json list \<Rightarrow> string list"
  and compact_dict :: "jdict \<Rightarrow> string list" where
  "json_compact JNull = ''null''"
| "json_compact (JBool b) = (if b then ''true'' else ''false'')"
| "json_compact (JInt i) = int_text i"
| "json_compact (JFloat s) = s"
| "json_compact (JStr s) = json_quote False s"
| "json_compact (JList xs) = ''['' @ join '','' (compact_list xs) @ '']''"
| "json_compact (JDict d) = ''{'' @ join '','' (compact_dict d) @ ''}''"
| "compact_list [] = []"
| "compact_list (x # xs) = json_compact x # compact_list xs"
| "compact_dict [] = []"
| "compact_dict ((k, v) # d) = (json_quote False k @ '':'' @ json_compact v) # compact_dict d"

subsection \<open>Strings\<close>

lemma takeWhile_until_nth:
  "distinct xs \<Longrightarrow> k < length xs \<Longrightarrow> length (takeWhile (\<lambda>d. d \<noteq> xs ! k) xs) = k"
proof (induction xs arbitrary: k)
  case (Cons x xs)
  then show ?case by (cases k) auto
qed simp

lemma hex_digit_text: "k < 16 \<Longrightarrow> hex_digit (''0123456789abcdef'' ! k) = Some k"
  using takeWhile_until_nth [of "''0123456789abcdef''" k]
  by (simp only: hex_digit.simps Let_def) simp

lemma hex_text_char: "char_of (16 * ((of_char c :: nat) div 16 mod 16) + (of_char c :: nat) mod 16) = c"
proof -
  have "(of_char c :: nat) div 16 < 16" using nat_of_char_less_256 [of c] by linarith
  then have "16 * ((of_char c :: nat) div 16 mod 16) + (of_char c :: nat) mod 16 = of_char c" by simp
  then show ?thesis by (simp only: char_of_char)
qed

lemma map_of_escape_None:
  assumes "map_of [(CHR 0x22, CHR 0x22), (CHR 0x5C, CHR 0x5C), (CHR 0x08, CHR ''b''), (CHR 0x0C, CHR ''f''),
         (CHR 0x0A, CHR ''n''), (CHR 0x0D, CHR ''r''), (CHR 0x09, CHR ''t'')] c = None"
  shows "c \<noteq> CHR 0x22" "c \<noteq> CHR 0x5C"
  using assms by auto

lemma json_chars_escape:
  "json_chars (json_escape a c @ s) = map_option (\<lambda>(v, r). (c # v, r)) (json_chars s)"
proof (cases "c \<in> set [CHR 0x22, CHR 0x5C, CHR 0x08, CHR 0x0C, CHR 0x0A, CHR 0x0D, CHR 0x09]")
  case True
  then show ?thesis by (auto simp: json_escape_def)
next
  case False
  have hex: "hex_digit (''0123456789abcdef'' ! ((of_char c :: nat) div 16 mod 16)) = Some (of_char c div 16 mod 16)"
    "hex_digit (''0123456789abcdef'' ! ((of_char c :: nat) mod 16)) = Some (of_char c mod 16)"
    by (simp_all add: hex_digit_text del: hex_digit.simps)
  have zero: "hex_digit (CHR ''0'') = Some 0" by (simp add: Let_def)
  show ?thesis
  proof (cases "(of_char c :: nat) < 32 \<or> a \<and> 126 < (of_char c :: nat)")
    case True
    then have "json_escape a c = [CHR 0x5C, CHR ''u'', CHR ''0'', CHR ''0''] @ hex_text (of_char c)"
      using False by (simp add: json_escape_def)
    then show ?thesis
      using hex zero by (simp add: hex_text_def hex_text_char del: hex_digit.simps)
  next
    case no: False
    then have "json_escape a c = [c]" using False by (auto simp: json_escape_def)
    then show ?thesis using no False by simp
  qed
qed

lemma json_chars_quote: "json_chars (concat (map (json_escape a) s) @ CHR 0x22 # r) = Some (s, r)"
  by (induction s) (simp_all add: json_chars_escape del: json_chars.simps, simp)

lemma json_quote_read: "json_quote a s @ r = CHR 0x22 # concat (map (json_escape a) s) @ CHR 0x22 # r"
  by (simp add: json_quote_def)

subsection \<open>Numbers\<close>

text \<open>What may follow a value inside a compact text.\<close>

definition stops :: "string \<Rightarrow> bool" where
  "stops r \<longleftrightarrow> r = [] \<or> hd r \<in> set (CHR 0x0A # '',]}'')"

lemma nat_text_zero_head: "0 < n \<Longrightarrow> hd (nat_text n) \<noteq> CHR ''0''"
proof (induction n rule: nat_text.induct)
  case (1 n)
  show ?case
  proof (cases "n < 10")
    case True
    then have "n \<in> set [1, 2, 3, 4, 5, 6, 7, 8, 9]" using 1(2) by auto
    then show ?thesis by (subst nat_text.simps) (auto simp: digit_text_def)
  next
    case False
    then show ?thesis using 1(1) by (subst nat_text.simps) (simp add: hd_append)
  qed
qed

lemma takeWhile_nat_text:
  "r = [] \<or> \<not> is_decimal (hd r) \<Longrightarrow> takeWhile is_decimal (nat_text n @ r) = nat_text n"
  by (cases r) (auto simp: nat_text_decimal)

lemma stops_tail:
  assumes "stops r"
  shows "r = [] \<or> \<not> is_decimal (hd r)" "json_fraction r = ([], r)" "json_exponent r = ([], r)"
  using assms by (auto simp: stops_def is_decimal_def json_fraction_def json_exponent_def split: list.splits)

lemma nat_text_0: "nat_text 0 = ''0''"
  by (subst nat_text.simps) (simp add: digit_text_def)

lemma number_digits:
  assumes "stops r"
  shows "(if nat_text n @ r \<noteq> [] \<and> hd (nat_text n @ r) = CHR ''0'' then ''0''
          else takeWhile is_decimal (nat_text n @ r)) = nat_text n"
proof (cases "n = 0")
  case True
  then show ?thesis by (simp add: nat_text_0)
next
  case False
  then show ?thesis
    using nat_text_zero_head [of n] takeWhile_nat_text [OF stops_tail(1) [OF assms], of n]
    by (simp add: hd_append)
qed

lemma hd_nat_text: "hd (nat_text n @ r) \<noteq> CHR ''-''"
  using nat_text_decimal [of "hd (nat_text n)" n] by (auto simp: hd_append is_decimal_def)

lemma json_number_int:
  assumes "stops r"
  shows "json_number (int_text i @ r) = Some (JInt i, r)"
proof (cases "i < 0")
  case True
  show ?thesis
    by (simp only: json_number_def Let_def int_text_def True if_True append_Cons list.sel list.distinct
          simp_thms number_digits [OF assms])
       (simp add: stops_tail(2,3) [OF assms] nat_text_value True less_imp_le)
next
  case False
  have no: "(nat_text (nat i) @ r \<noteq> [] \<and> hd (nat_text (nat i) @ r) = CHR ''-'') = False"
    using hd_nat_text [of "nat i" r] by simp
  show ?thesis
    by (simp only: json_number_def Let_def int_text_def False if_False no number_digits [OF assms])
       (simp add: stops_tail(2,3) [OF assms] nat_text_value False [unfolded not_less])
qed

lemma int_text_head:
  obtains c t where "int_text i = c # t" and "is_decimal c \<or> c = CHR ''-'' \<and> t \<noteq> [] \<and> is_decimal (hd t)"
proof (cases "i < 0")
  case True
  then show ?thesis
    using that nat_text_decimal [of "hd (nat_text (nat (- i)))" "nat (- i)"] by (simp add: int_text_def)
next
  case False
  then show ?thesis
    using that [of "hd (nat_text (nat i))" "tl (nat_text (nat i))"]
      nat_text_decimal [of "hd (nat_text (nat i))" "nat i"] by (simp add: int_text_def)
qed

lemma not_decimal:
  "\<not> is_decimal (CHR ''n'')" "\<not> is_decimal (CHR ''t'')" "\<not> is_decimal (CHR ''f'')" "\<not> is_decimal (CHR ''N'')"
  "\<not> is_decimal (CHR ''I'')" "\<not> is_decimal (CHR 0x22)" "\<not> is_decimal (CHR ''['')" "\<not> is_decimal (CHR ''{'')"
  "\<not> is_decimal (CHR ''-'')"
  by (simp_all add: is_decimal_def)

lemma json_value_int:
  assumes "stops r"
  shows "json_value (Suc n) (int_text i @ r) = Some (JInt i, r)"
proof -
  obtain c t where ct: "int_text i = c # t"
    and c: "is_decimal c \<or> c = CHR ''-'' \<and> t \<noteq> [] \<and> is_decimal (hd t)" by (rule int_text_head)
  have "List.find (\<lambda>(w, v). prefix w (c # t @ r)) json_words = None"
    using c not_decimal by (cases t) (auto simp: json_words_def)
  moreover have "c \<noteq> CHR 0x22" "c \<noteq> CHR ''[''" "c \<noteq> CHR ''{''" using c not_decimal by auto
  ultimately show ?thesis using json_number_int [OF assms, of i] by (simp add: ct)
qed

subsection \<open>Values\<close>

text \<open>The values the tracer writes: no float, and dictionaries have every key once.\<close>

fun plain :: "json \<Rightarrow> bool" and plain_list :: "json list \<Rightarrow> bool" and plain_dict :: "jdict \<Rightarrow> bool" where
  "plain (JFloat s) = False"
| "plain (JList xs) = plain_list xs"
| "plain (JDict d) = (distinct (map fst d) \<and> plain_dict d)"
| "plain _ = True"
| "plain_list [] = True"
| "plain_list (x # xs) = (plain x \<and> plain_list xs)"
| "plain_dict [] = True"
| "plain_dict ((k, v) # d) = (plain v \<and> plain_dict d)"

lemma compact_head:
  assumes "plain v"
  obtains c t where "json_compact v = c # t" "\<not> json_space c" "c \<notin> set ''],}''"
proof -
  have "\<exists>c t. json_compact v = c # t \<and> \<not> json_space c \<and> c \<notin> set ''],}''"
  proof (cases v)
    case (JInt i)
    then show ?thesis
      by (rule_tac int_text_head [of i]) (auto simp: json_space_def is_decimal_def)
  qed (use assms in \<open>auto simp: json_space_def json_quote_def\<close>)
  then show thesis using that by blast
qed

lemma skip_ws_compact: "plain v \<Longrightarrow> skip_ws (json_compact v @ r) = json_compact v @ r"
  by (rule compact_head [of v]) simp_all

lemma foldl_jput:
  "distinct (map fst (e @ d)) \<Longrightarrow> foldl (\<lambda>d (k, w). jput k w d) e d = e @ d"
proof (induction d arbitrary: e)
  case (Cons x d)
  obtain k w where x: "x = (k, w)" by (cases x)
  have "jput k w e = e @ [(k, w)]"
    using Cons.prems by (intro jput_new) (auto simp: x has_key_def map_of_eq_None_iff)
  then show ?case using Cons.IH [of "e @ [(k, w)]"] Cons.prems by (simp add: x)
qed simp

lemma compact_list_Nil [simp]: "compact_list xs = [] \<longleftrightarrow> xs = []"
  by (cases xs) auto

lemma compact_dict_Nil [simp]: "compact_dict d = [] \<longleftrightarrow> d = []"
  by (cases d) auto

lemma join_front: "xs \<noteq> [] \<Longrightarrow> join sep (x # xs) = x @ sep @ join sep xs"
  by (cases xs) auto

lemma compact_list_head:
  assumes "plain_list xs" "xs \<noteq> []"
  obtains c t where "join '','' (compact_list xs) = c # t" "\<not> json_space c" "c \<notin> set ''],}''"
proof -
  obtain x ys where xs: "xs = x # ys" using assms(2) by (cases xs) auto
  then have "plain x" using assms(1) by simp
  then obtain c t where "json_compact x = c # t" "\<not> json_space c" "c \<notin> set ''],}''" by (rule compact_head)
  then show thesis using that by (cases ys) (auto simp: xs join_front)
qed

lemma compact_dict_head:
  assumes "d \<noteq> []"
  obtains t where "join '','' (compact_dict d) = CHR 0x22 # t"
  using that assms by (cases d rule: compact_dict.cases; cases "tl d") (auto simp: json_quote_def join_front)

lemma json_value_compact:
  "plain v \<Longrightarrow> stops r \<Longrightarrow> length (json_compact v) \<le> n \<Longrightarrow> json_value n (json_compact v @ r) = Some (v, r)"
  and json_items_compact:
  "plain_list xs \<Longrightarrow> xs \<noteq> [] \<Longrightarrow> length (join '','' (compact_list xs)) < n \<Longrightarrow>
   json_items n (join '','' (compact_list xs) @ CHR '']'' # r) = Some (xs, r)"
  and json_members_compact:
  "plain_dict d \<Longrightarrow> d \<noteq> [] \<Longrightarrow> length (join '','' (compact_dict d)) < n \<Longrightarrow>
   json_members n (join '','' (compact_dict d) @ CHR ''}'' # r) = Some (d, r)"
proof (induction v and xs and d arbitrary: n r and n r and n r rule: json_compact_compact_list_compact_dict.induct)
  case 1
  then show ?case by (cases n) (auto simp: json_words_def)
next
  case (2 b)
  then show ?case by (cases n; cases b) (auto simp: json_words_def)
next
  case (3 i)
  moreover obtain m where "n = Suc m"
    using 3 int_text_head [of i] by (cases n) auto
  ultimately show ?case by (simp add: json_value_int del: json_value.simps)
next
  case (4 s)
  then show ?case by simp
next
  case (5 s)
  then show ?case by (cases n) (auto simp: json_quote_read json_chars_quote simp: json_quote_def)
next
  case (6 xs)
  obtain m where n: "n = Suc m" using 6(4) by (cases n) auto
  show ?case
  proof (cases "xs = []")
    case True
    then show ?thesis by (simp add: n json_space_def)
  next
    case False
    then obtain c t where ct: "join '','' (compact_list xs) = c # t" "\<not> json_space c" "c \<notin> set ''],}''"
      using 6(2) compact_list_head by (metis plain.simps(2))
    have "json_items m ((c # t) @ CHR '']'' # r) = Some (xs, r)"
      using 6(1) [of m r] 6(2,4) False by (simp add: n flip: ct(1))
    then show ?thesis using ct(2,3) by (auto simp: n ct(1))
  qed
next
  case (7 d)
  obtain m where n: "n = Suc m" using 7(4) by (cases n) auto
  show ?case
  proof (cases "d = []")
    case True
    then show ?thesis by (simp add: n json_space_def)
  next
    case False
    then obtain t where t: "join '','' (compact_dict d) = CHR 0x22 # t" by (rule compact_dict_head)
    have "json_members m ((CHR 0x22 # t) @ CHR ''}'' # r) = Some (d, r)"
      using 7(1) [of m r] 7(2,4) False by (simp add: n flip: t)
    moreover have "\<not> json_space (CHR 0x22)" by (simp add: json_space_def)
    ultimately show ?thesis using 7(2) foldl_jput [of "[]" d] by (simp add: n t)
  qed
next
  case 8
  then show ?case by simp
next
  case (9 x xs)
  obtain m where n: "n = Suc m" using 9(5) by (cases n) auto
  show ?case
  proof (cases "xs = []")
    case True
    then show ?thesis
      using 9(1) [of "CHR '']'' # r" m] 9(3,5) by (simp add: n stops_def json_space_def)
  next
    case False
    have x: "json_value m (json_compact x @ CHR '','' # join '','' (compact_list xs) @ CHR '']'' # r) =
        Some (x, CHR '','' # join '','' (compact_list xs) @ CHR '']'' # r)"
      using 9(3,5) False by (intro 9(1)) (simp_all add: n stops_def join_front)
    obtain c t where ct: "join '','' (compact_list xs) = c # t" "\<not> json_space c" "c \<notin> set ''],}''"
      using False 9(3) compact_list_head by (metis plain_list.simps(2))
    have "json_items m (join '','' (compact_list xs) @ CHR '']'' # r) = Some (xs, r)"
      using 9(3,5) False by (intro 9(2)) (simp_all add: n join_front)
    then show ?thesis using x ct by (simp add: n join_front False json_space_def)
  qed
next
  case 10
  then show ?case by simp
next
  case (11 k v d)
  obtain m where n: "n = Suc m" using 11(5) by (cases n) auto
  have ws: "\<not> json_space (CHR '':'')" "\<not> json_space (CHR '','')" "\<not> json_space (CHR ''}'')"
    by (simp_all add: json_space_def)
  show ?case
  proof (cases "d = []")
    case True
    have "json_value m (json_compact v @ CHR ''}'' # r) = Some (v, CHR ''}'' # r)"
      using 11(3,5) True by (intro 11(1)) (simp_all add: n stops_def)
    then show ?thesis using 11(3) True ws
      by (simp add: n json_quote_read json_chars_quote skip_ws_compact)
  next
    case False
    have x: "json_value m (json_compact v @ CHR '','' # join '','' (compact_dict d) @ CHR ''}'' # r) =
        Some (v, CHR '','' # join '','' (compact_dict d) @ CHR ''}'' # r)"
      using 11(3,5) False by (intro 11(1)) (simp_all add: n stops_def join_front)
    obtain t where t: "join '','' (compact_dict d) = CHR 0x22 # t" using False by (rule compact_dict_head)
    have "json_members m (join '','' (compact_dict d) @ CHR ''}'' # r) = Some (d, r)"
      using 11(3,5) False by (intro 11(2)) (simp_all add: n join_front)
    moreover have "\<not> json_space (CHR 0x22)" by (simp add: json_space_def)
    ultimately show ?thesis using x t 11(3) ws False
      by (simp add: n join_front json_quote_read json_chars_quote skip_ws_compact)
  qed
qed

text \<open>\<open>json.loads\<close> reads back what was written, alone or as a line with its newline.\<close>

lemma json_loads_compact:
  assumes "plain v" "stops r" "skip_ws r = []"
  shows "json_loads (json_compact v @ r) = Some v"
  using json_value_compact [OF assms(1,2), of "length (json_compact v @ r) + 1"] assms
  by (simp add: json_loads_def skip_ws_compact)

text \<open>A compact text is one line, unless a string holds the one break that is not escaped.\<close>

definition one_line :: "string \<Rightarrow> bool" where
  "one_line s \<longleftrightarrow> CHR 0x85 \<notin> set s"

fun one_line_json :: "json \<Rightarrow> bool" and one_line_list :: "json list \<Rightarrow> bool" and one_line_dict :: "jdict \<Rightarrow> bool" where
  "one_line_json (JFloat s) = clean_line s"
| "one_line_json (JStr s) = one_line s"
| "one_line_json (JList xs) = one_line_list xs"
| "one_line_json (JDict d) = one_line_dict d"
| "one_line_json _ = True"
| "one_line_list [] = True"
| "one_line_list (x # xs) = (one_line_json x \<and> one_line_list xs)"
| "one_line_dict [] = True"
| "one_line_dict ((k, v) # d) = (one_line k \<and> one_line_json v \<and> one_line_dict d)"

lemma clean_append [simp]: "clean_line (s @ t) \<longleftrightarrow> clean_line s \<and> clean_line t"
  by (auto simp: clean_line_def)

lemma clean_Cons [simp]: "clean_line (c # t) \<longleftrightarrow> \<not> is_line_break c \<and> clean_line t"
  by (auto simp: clean_line_def)

lemma clean_Nil [simp]: "clean_line []"
  by (simp add: clean_line_def)

lemma clean_concat: "(\<And>x. x \<in> set xs \<Longrightarrow> clean_line x) \<Longrightarrow> clean_line (concat xs)"
  by (auto simp: clean_line_def)

lemma clean_join: "clean_line sep \<Longrightarrow> (\<And>x. x \<in> set xs \<Longrightarrow> clean_line x) \<Longrightarrow> clean_line (join sep xs)"
  by (induction sep xs rule: join.induct) auto

lemma break_small: "is_line_break c \<Longrightarrow> c \<noteq> CHR 0x85 \<Longrightarrow> (of_char c :: nat) < 32"
  by (auto simp: is_line_break_def)

lemma hex_no_break: "k < 16 \<Longrightarrow> \<not> is_line_break (''0123456789abcdef'' ! k)"
proof
  assume k: "k < 16" and b: "is_line_break (''0123456789abcdef'' ! k)"
  have "''0123456789abcdef'' ! k \<in> set ''0123456789abcdef''" using k by (intro nth_mem) simp
  then show False using b by (auto simp: is_line_break_def)
qed

lemma clean_escape:
  assumes "c \<noteq> CHR 0x85"
  shows "clean_line (json_escape False c)"
proof (cases "c \<in> set [CHR 0x22, CHR 0x5C, CHR 0x08, CHR 0x0C, CHR 0x0A, CHR 0x0D, CHR 0x09]")
  case True
  then show ?thesis by (auto simp: json_escape_def is_line_break_def)
next
  case False
  then have "json_escape False c = (if (of_char c :: nat) < 32
      then [CHR 0x5C, CHR ''u'', CHR ''0'', CHR ''0''] @ hex_text (of_char c) else [c])"
    by (auto simp: json_escape_def)
  moreover have "clean_line (hex_text (of_char c))"
    by (simp add: hex_text_def hex_no_break del: nth_Cons_numeral nth_Cons')
  moreover have "\<not> is_line_break c" if "\<not> (of_char c :: nat) < 32"
    using break_small [OF _ assms] that by blast
  moreover have "clean_line [CHR 0x5C, CHR ''u'', CHR ''0'', CHR ''0'']"
    by (simp add: is_line_break_def)
  ultimately show ?thesis by simp
qed

lemma clean_quote: "one_line s \<Longrightarrow> clean_line (json_quote False s)"
  by (auto simp: json_quote_def one_line_def is_line_break_def intro!: clean_concat clean_escape)

lemma clean_digits: "(\<And>c. c \<in> set s \<Longrightarrow> is_decimal c) \<Longrightarrow> clean_line s"
  by (force simp: clean_line_def is_line_break_def is_decimal_def)

lemma clean_int_text: "clean_line (int_text i)"
  by (auto simp: int_text_def is_line_break_def intro!: clean_digits nat_text_decimal)

lemma no_breaks:
  "\<not> is_line_break (CHR ''n'')" "\<not> is_line_break (CHR ''u'')" "\<not> is_line_break (CHR ''l'')"
  "\<not> is_line_break (CHR ''t'')" "\<not> is_line_break (CHR ''r'')" "\<not> is_line_break (CHR ''e'')"
  "\<not> is_line_break (CHR ''f'')" "\<not> is_line_break (CHR ''a'')" "\<not> is_line_break (CHR ''s'')"
  "\<not> is_line_break (CHR ''['')" "\<not> is_line_break (CHR '']'')" "\<not> is_line_break (CHR ''{'')"
  "\<not> is_line_break (CHR ''}'')" "\<not> is_line_break (CHR '','')" "\<not> is_line_break (CHR '':'')"
  by (simp_all add: is_line_break_def)

lemma clean_compact:
  "one_line_json v \<Longrightarrow> clean_line (json_compact v)"
  "one_line_list xs \<Longrightarrow> \<forall>y \<in> set (compact_list xs). clean_line y"
  "one_line_dict d \<Longrightarrow> \<forall>y \<in> set (compact_dict d). clean_line y"
  by (induction v and xs and d rule: json_compact_compact_list_compact_dict.induct)
     (simp_all add: clean_int_text clean_quote no_breaks clean_join)

end
