(* ===== verification/RunTrace.thy ===== *)
theory RunTrace
  imports JsonRound Store
begin

text \<open>
  The run self-trace (\<open>run_trace.py\<close>): one line per handled call in \<open>.trace.jsonl\<close> of the spec's
  directory, rolled off at its old end once it passes a size, with a marker beside it for a call
  that could not be recorded, and the reader that counts what it could not read.

  The file system is a map from paths to texts and the set of paths that refuse a write.  The clock
  is an argument.  The warning on standard error is not modelled.
\<close>

subsection \<open>Events\<close>

definition TRACE_NAME :: string where "TRACE_NAME = ''.trace.jsonl''"
definition LOST_NAME :: string where "LOST_NAME = ''.trace-lost''"
definition IGNORE_NAME :: string where "IGNORE_NAME = ''.gitignore''"
definition UNATTRIBUTED_DIR :: string where "UNATTRIBUTED_DIR = ''specs''"
definition MAX_BYTES :: nat where "MAX_BYTES = 256 * 1024"

definition OPS :: "string list" where
  "OPS = [''lifecycle'', ''capture'', ''set'', ''finish'', ''advance'', ''task-append'', ''task-journal'',
     ''task-close'', ''tasks-sync'', ''materialize'', ''mark-complete'', ''fold-living-spec'',
     ''drift-compute'', ''dispatch-checkin'', ''dispatch-offer'', ''unknown'']"

record trace_event =
  ev_at :: string
  ev_tool :: string
  ev_op :: string
  ev_ok :: bool
  ev_reason :: "string option"
  ev_spec :: "string option"
  ev_files :: "string list"
  ev_bytes :: int
  ev_in_bytes :: int
  ev_ms :: int

text \<open>What a caller hands to \<open>record\<close>; the event is made of it.\<close>

record call =
  c_tool :: string
  c_op :: string
  c_ok :: bool
  c_reason :: "string option"
  c_spec :: "string option"
  c_files :: "string list"
  c_written :: int
  c_read :: int
  c_ms :: int

definition trace_event_of :: "string \<Rightarrow> call \<Rightarrow> trace_event" where
  "trace_event_of now c =
     \<lparr>ev_at = now, ev_tool = c_tool c, ev_op = (if c_op c \<in> set OPS then c_op c else ''unknown''),
      ev_ok = c_ok c,
      ev_reason = (if c_ok c \<or> c_reason c = Some [] then None else c_reason c),
      ev_spec = c_spec c, ev_files = c_files c, ev_bytes = c_written c, ev_in_bytes = c_read c,
      ev_ms = c_ms c\<rparr>"

definition as_dict :: "trace_event \<Rightarrow> jdict" where
  "as_dict e =
     [(''at'', JStr (ev_at e)), (''tool'', JStr (ev_tool e)), (''op'', JStr (ev_op e)),
      (''ok'', JBool (ev_ok e)), (''reason'', opt_json (ev_reason e)), (''spec'', opt_json (ev_spec e)),
      (''files'', JList (map JStr (ev_files e))), (''bytes'', JInt (ev_bytes e)),
      (''in_bytes'', JInt (ev_in_bytes e)), (''ms'', JInt (ev_ms e))]"

definition event_line :: "trace_event \<Rightarrow> string" where
  "event_line e = json_compact (JDict (as_dict e)) @ nl"

subsection \<open>Sizes and numbers\<close>

text \<open>The bytes a text takes in UTF-8.\<close>

definition byte_size :: "string \<Rightarrow> nat" where
  "byte_size s = sum_list (map (\<lambda>c. if (of_char c :: nat) < 128 then 1 else 2) s)"

text \<open>
  \<open>int(value)\<close> of a JSON value: a number, a \<open>ValueError\<close> or \<open>TypeError\<close>, or the \<open>OverflowError\<close>
  of an infinite float.  A float is truncated towards zero; one with more digits than a double holds
  is read exactly.
\<close>

datatype int_result = IntOk int | NotInt | TooLarge

definition float_trunc :: "string \<Rightarrow> int_result" where
  "float_trunc s =
     (if s = ''NaN'' then NotInt
      else if s = ''Infinity'' \<or> s = ''-Infinity'' then TooLarge
      else let neg = prefix ''-'' s;
               t = (if neg then tl s else s);
               whole = takeWhile is_decimal t;
               r = drop (length whole) t;
               frac = (if prefix ''.'' r then takeWhile is_decimal (tl r) else []);
               ex = (if prefix ''.'' r then drop (length frac) (tl r) else r);
               e = (if ex = [] then 0 else the (py_int (tl ex))) - int (length frac);
               m = decimal_value (whole @ frac);
               v = (if 0 \<le> e then m * 10 ^ nat e else m div 10 ^ nat (- e))
           in if 2 ^ 1024 - 2 ^ 970 \<le> v then TooLarge else IntOk (if neg then - v else v))"

fun int_of_json :: "json \<Rightarrow> int_result" where
  "int_of_json (JInt i) = IntOk i"
| "int_of_json (JBool b) = IntOk (of_bool b)"
| "int_of_json (JStr s) = (case py_int s of None \<Rightarrow> NotInt | Some i \<Rightarrow> IntOk i)"
| "int_of_json (JFloat s) = float_trunc s"
| "int_of_json _ = NotInt"

subsection \<open>The cap\<close>

text \<open>The lines that fit into half the cap, counted from the newest.\<close>

fun newest_fitting :: "nat \<Rightarrow> nat \<Rightarrow> string list \<Rightarrow> string list" where
  "newest_fitting limit used [] = []"
| "newest_fitting limit used (line # older) =
     (if limit < used + byte_size line then []
      else line # newest_fitting limit (used + byte_size line) older)"

definition is_header :: "string \<Rightarrow> bool" where
  "is_header line \<longleftrightarrow> prefix (CHR ''{'' # CHR 0x22 # ''truncated'' @ [CHR 0x22]) (lstrip line)"

definition header :: "int \<Rightarrow> string" where
  "header n = json_compact (JDict [(''truncated'', JInt n)]) @ nl"

text \<open>What an earlier header says was dropped; \<open>None\<close> is an exception that leaves the function.\<close>

definition dropped_before :: "string \<Rightarrow> int option" where
  "dropped_before line =
     (case json_loads line of
        Some (JDict d) \<Rightarrow>
          (case int_of_json (jget d ''truncated'') of IntOk n \<Rightarrow> Some n | NotInt \<Rightarrow> Some 0 | TooLarge \<Rightarrow> None)
      | _ \<Rightarrow> Some 0)"

definition capped_text :: "int \<Rightarrow> string list \<Rightarrow> string" where
  "capped_text before lines =
     (let keep = rev (newest_fitting (MAX_BYTES div 2) 0 (rev lines))
      in header (before + int (length lines - length keep)) @ concat keep)"

definition enforce_cap :: "string \<Rightarrow> string option" where
  "enforce_cap text =
     (if byte_size text \<le> MAX_BYTES then Some text
      else case splitlines_keep (unix_newlines text) of
          line # lines \<Rightarrow>
            if is_header line then map_option (\<lambda>n. capped_text n lines) (dropped_before line)
            else Some (capped_text 0 (line # lines))
        | [] \<Rightarrow> Some (capped_text 0 []))"

subsection \<open>Recording a call\<close>

record files =
  text_of :: "string \<Rightarrow> string option"
  refuses :: "string \<Rightarrow> bool"

text \<open>A spec directory is the path of its parent and its own name.\<close>

type_synonym place = "string \<times> string"

definition under :: "string \<Rightarrow> string \<Rightarrow> string" where
  "under dir name = dir @ ''/'' @ name"

definition dir_of :: "place \<Rightarrow> string" where
  "dir_of p = under (fst p) (snd p)"

definition put :: "string \<Rightarrow> string \<Rightarrow> files \<Rightarrow> files" where
  "put path content fs = (if refuses fs path then fs else fs\<lparr>text_of := (text_of fs)(path \<mapsto> content)\<rparr>)"

definition old_text :: "files \<Rightarrow> string \<Rightarrow> string" where
  "old_text fs path = (case text_of fs path of None \<Rightarrow> [] | Some s \<Rightarrow> s)"

text \<open>The comment's dash, outside the characters of the model, is written as two hyphens.\<close>

definition ignore_text :: string where
  "ignore_text = ''# Run self-trace -- local diagnostic, read only by the doctor.'' @ nl @ TRACE_NAME @ nl"

definition ensure_ignored :: "string \<Rightarrow> files \<Rightarrow> files" where
  "ensure_ignored dir fs =
     (let path = under dir IGNORE_NAME in
      case text_of fs path of
        None \<Rightarrow> put path ignore_text fs
      | Some s \<Rightarrow> if TRACE_NAME \<in> strip ` set (splitlines (unix_newlines s)) then fs else put path (s @ TRACE_NAME @ nl) fs)"

definition lost_line :: "string \<Rightarrow> string \<Rightarrow> string \<Rightarrow> string" where
  "lost_line stamp tag err = stamp @ tag @ '' '' @ err @ nl"

definition note_trace_failure :: "string \<Rightarrow> place \<Rightarrow> string \<Rightarrow> files \<Rightarrow> files" where
  "note_trace_failure stamp p err fs =
     (let own = under (dir_of p) LOST_NAME; shared = under (fst p) LOST_NAME in
      if \<not> refuses fs own then put own (old_text fs own @ lost_line stamp [] err) fs
      else put shared (old_text fs shared @ lost_line stamp ('' spec='' @ snd p) err) fs)"

text \<open>
  One call.  Appending to a path that refuses raises, and so does a header whose count is infinite;
  a capped text that cannot be written back is given up silently.
\<close>

definition trace_call :: "string \<Rightarrow> string \<Rightarrow> place \<Rightarrow> call \<Rightarrow> files \<Rightarrow> files" where
  "trace_call now err p c fs =
     (let path = under (dir_of p) TRACE_NAME; fs1 = ensure_ignored (dir_of p) fs in
      if refuses fs1 path then note_trace_failure now p err fs1
      else let grown = old_text fs1 path @ event_line (trace_event_of now c);
               fs2 = put path grown fs1
           in case enforce_cap grown of
                None \<Rightarrow> note_trace_failure now p err fs2
              | Some s \<Rightarrow> put path s fs2)"

text \<open>Without a spec directory the call goes to the unattributed log, if its directory is there.\<close>

definition record_call ::
  "string \<Rightarrow> (string \<Rightarrow> bool) \<Rightarrow> string \<Rightarrow> string \<Rightarrow> place option \<Rightarrow> call \<Rightarrow> files \<Rightarrow> files" where
  "record_call root is_dir now err dir c fs =
     (case dir of
        Some p \<Rightarrow> trace_call now err p c fs
      | None \<Rightarrow> if is_dir (under root UNATTRIBUTED_DIR)
               then trace_call now err (root, UNATTRIBUTED_DIR) c fs else fs)"

subsection \<open>Reading a trace\<close>

record trace_read =
  rd_events :: "jdict list"
  rd_verdicts :: "jdict list"
  rd_unparseable :: nat
  rd_truncated :: int

definition no_lines :: trace_read where
  "no_lines = \<lparr>rd_events = [], rd_verdicts = [], rd_unparseable = 0, rd_truncated = 0\<rparr>"

abbreviation unreadable_line :: "trace_read \<Rightarrow> trace_read" where
  "unreadable_line r \<equiv> r\<lparr>rd_unparseable := Suc (rd_unparseable r)\<rparr>"

definition read_line :: "string \<Rightarrow> trace_read \<Rightarrow> trace_read option" where
  "read_line raw r =
     (let line = strip raw in
      if line = [] then Some r
      else case json_loads line of
          Some (JDict d) \<Rightarrow>
            (if has_key d ''truncated'' then
               (case int_of_json (jget d ''truncated'') of
                  IntOk n \<Rightarrow> Some (r\<lparr>rd_truncated := rd_truncated r + n\<rparr>)
                | NotInt \<Rightarrow> Some (unreadable_line r)
                | TooLarge \<Rightarrow> None)
             else if has_key d ''verdict'' then Some (r\<lparr>rd_verdicts := rd_verdicts r @ [d]\<rparr>)
             else if has_key d ''op'' then Some (r\<lparr>rd_events := rd_events r @ [d]\<rparr>)
             else Some (unreadable_line r))
        | _ \<Rightarrow> Some (unreadable_line r))"

text \<open>No trace reads as \<open>Some None\<close>; \<open>None\<close> is the exception of an infinite count.\<close>

definition read_trace :: "string option \<Rightarrow> trace_read option option" where
  "read_trace file =
     (case file of
        None \<Rightarrow> Some None
      | Some s \<Rightarrow> map_option Some (fold_opt read_line (splitlines (unix_newlines s)) no_lines))"

definition exact :: "trace_read \<Rightarrow> bool" where
  "exact r \<longleftrightarrow> rd_truncated r = 0 \<and> rd_unparseable r = 0"

definition failures :: "trace_read \<Rightarrow> jdict list" where
  "failures r = filter (\<lambda>e. \<not> truthy (jget e ''ok'')) (rd_events r)"

fun count_file :: "json \<Rightarrow> (json \<times> nat) list \<Rightarrow> (json \<times> nat) list option" where
  "count_file f counts =
     (if \<not> hashable f then None
      else Some (if list_ex (\<lambda>(g, n). py_eq g f) counts
                 then map (\<lambda>(g, n). (g, if py_eq g f then Suc n else n)) counts
                 else counts @ [(f, 1)]))"

definition rewrite_counts :: "trace_read \<Rightarrow> (json \<times> nat) list option" where
  "rewrite_counts r =
     (case traverse (\<lambda>e. py_iter_or_empty (jget e ''files'')) (rd_events r) of
        None \<Rightarrow> None
      | Some fss \<Rightarrow> fold_opt count_file (concat fss) [])"

definition sum_field :: "string \<Rightarrow> jdict list \<Rightarrow> int option" where
  "sum_field k es =
     map_option sum_list (traverse (\<lambda>e.
       (if truthy (jget e k) then (case int_of_json (jget e k) of IntOk n \<Rightarrow> Some n | _ \<Rightarrow> None)
        else Some 0)) es)"

definition bytes_written :: "trace_read \<Rightarrow> int option" where
  "bytes_written r = sum_field ''bytes'' (rd_events r)"

definition bytes_read :: "trace_read \<Rightarrow> int option" where
  "bytes_read r = sum_field ''in_bytes'' (rd_events r)"

section \<open>Facts about the trace\<close>

subsection \<open>Lines\<close>

text \<open>A text made of clean lines, each with its newline, is split into them.\<close>

lemma split_clean_lines:
  "list_all clean_line ls \<Longrightarrow> split_lines_aux [] (concat (map (\<lambda>l. l @ nl) ls)) = map (\<lambda>l. (l, nl)) ls"
  by (induction ls) (simp_all add: split_lines_aux_run clean_line_def)

lemma no_cr_clean: "clean_line l \<Longrightarrow> CHR 0x0D \<notin> set l"
  by (auto simp: clean_line_def is_line_break_def)

lemma unix_clean_lines:
  "list_all clean_line ls \<Longrightarrow> unix_newlines (concat (map (\<lambda>l. l @ nl) ls)) = concat (map (\<lambda>l. l @ nl) ls)"
  by (intro unix_newlines_id) (auto simp: list_all_iff no_cr_clean)

lemma splitlines_clean:
  "list_all clean_line ls \<Longrightarrow> splitlines (unix_newlines (concat (map (\<lambda>l. l @ nl) ls))) = ls"
  by (simp add: unix_clean_lines splitlines_def split_lines_ends_def split_clean_lines o_def)

lemma splitlines_keep_clean:
  "list_all clean_line ls \<Longrightarrow>
   splitlines_keep (unix_newlines (concat (map (\<lambda>l. l @ nl) ls))) = map (\<lambda>l. l @ nl) ls"
  by (simp add: unix_clean_lines splitlines_keep_def split_lines_ends_def split_clean_lines o_def)

subsection \<open>The lines the tracer writes\<close>

text \<open>An event is written as one line when none of its texts holds U+0085.\<close>

definition one_line_event :: "trace_event \<Rightarrow> bool" where
  "one_line_event e \<longleftrightarrow> one_line (ev_at e) \<and> one_line (ev_tool e) \<and> one_line (ev_op e) \<and>
     one_line_json (opt_json (ev_reason e)) \<and> one_line_json (opt_json (ev_spec e)) \<and>
     list_all one_line (ev_files e)"

abbreviation event_json :: "trace_event \<Rightarrow> string" where
  "event_json e \<equiv> json_compact (JDict (as_dict e))"

abbreviation header_json :: "int \<Rightarrow> string" where
  "header_json n \<equiv> json_compact (JDict [(''truncated'', JInt n)])"

lemma plain_strings: "plain_list (map JStr xs)"
  by (induction xs) auto

lemma one_line_strings: "one_line_list (map JStr xs) = list_all one_line xs"
  by (induction xs) auto

lemma plain_opt [simp]: "plain (opt_json x)"
  by (cases x) auto

lemma plain_event: "plain (JDict (as_dict e))"
  by (simp add: as_dict_def plain_strings)

lemma one_line_keys:
  "one_line ''at''" "one_line ''tool''" "one_line ''op''" "one_line ''ok''" "one_line ''reason''"
  "one_line ''spec''" "one_line ''files''" "one_line ''bytes''" "one_line ''in_bytes''" "one_line ''ms''"
  "one_line ''truncated''"
  by (simp_all add: one_line_def)

lemma clean_header: "clean_line (header_json n)"
  by (intro clean_compact(1)) (simp add: one_line_keys)

text \<open>A dictionary starts and ends with its braces, so stripping leaves it alone.\<close>

lemma strip_dict: "strip (json_compact (JDict d)) = json_compact (JDict d)"
  by (simp add: strip_def lstrip_def rstrip_def rstrip_chars_def is_space_def space_chars_def)

lemma dict_not_empty: "json_compact (JDict d) \<noteq> []"
  by simp

lemma read_dict_line:
  assumes "plain (JDict d)"
  shows "read_line (json_compact (JDict d)) r =
    (if has_key d ''truncated'' then
       (case int_of_json (jget d ''truncated'') of
          IntOk n \<Rightarrow> Some (r\<lparr>rd_truncated := rd_truncated r + n\<rparr>)
        | NotInt \<Rightarrow> Some (unreadable_line r)
        | TooLarge \<Rightarrow> None)
     else if has_key d ''verdict'' then Some (r\<lparr>rd_verdicts := rd_verdicts r @ [d]\<rparr>)
     else if has_key d ''op'' then Some (r\<lparr>rd_events := rd_events r @ [d]\<rparr>)
     else Some (unreadable_line r))"
proof -
  have loads: "json_loads (json_compact (JDict d)) = Some (JDict d)"
    using json_loads_compact [OF assms, of "[]"] by (simp add: stops_def)
  show ?thesis
    by (simp only: read_line_def Let_def strip_dict dict_not_empty if_False loads option.case json.case)
qed

lemma read_header_line: "read_line (header_json n) r = Some (r\<lparr>rd_truncated := rd_truncated r + n\<rparr>)"
  by (subst read_dict_line) (simp_all add: has_key_def jget_def)

subsection \<open>The text of a trace\<close>

text \<open>An entry of a trace: an event, or a verdict of the drift report; each is one line and opens with its time.\<close>

definition sound_entry :: "jdict \<Rightarrow> bool" where
  "sound_entry d \<longleftrightarrow> plain (JDict d) \<and> one_line_json (JDict d) \<and> \<not> has_key d ''truncated'' \<and>
     (has_key d ''verdict'' \<or> has_key d ''op'') \<and> (\<exists>v r. d = (''at'', v) # r \<and> r \<noteq> [])"

abbreviation entry_line :: "jdict \<Rightarrow> string" where
  "entry_line d \<equiv> json_compact (JDict d) @ nl"

definition log_lines :: "int option \<Rightarrow> jdict list \<Rightarrow> string list" where
  "log_lines h ds = (case h of None \<Rightarrow> [] | Some n \<Rightarrow> [header_json n]) @ map (\<lambda>d. json_compact (JDict d)) ds"

definition log_text :: "int option \<Rightarrow> jdict list \<Rightarrow> string" where
  "log_text h ds = concat (map (\<lambda>l. l @ nl) (log_lines h ds))"

lemma log_text_entries:
  "log_text h ds = (case h of None \<Rightarrow> [] | Some n \<Rightarrow> header n) @ concat (map entry_line ds)"
  by (cases h) (simp_all add: log_text_def log_lines_def header_def o_def del: json_compact.simps)

lemma log_text_snoc: "log_text h ds @ entry_line d = log_text h (ds @ [d])"
  by (simp add: log_text_def log_lines_def del: json_compact.simps)

lemma clean_log_lines: "list_all sound_entry ds \<Longrightarrow> list_all clean_line (log_lines h ds)"
  by (cases h) (auto simp: log_lines_def list_all_iff sound_entry_def clean_header intro!: clean_compact(1)
      simp del: json_compact.simps one_line_json.simps)

definition verdict_entries :: "jdict list \<Rightarrow> jdict list" where
  "verdict_entries ds = filter (\<lambda>d. has_key d ''verdict'') ds"

definition event_entries :: "jdict list \<Rightarrow> jdict list" where
  "event_entries ds = filter (\<lambda>d. \<not> has_key d ''verdict'') ds"

lemma read_entries:
  "list_all sound_entry ds \<Longrightarrow>
   fold_opt read_line (map (\<lambda>d. json_compact (JDict d)) ds) r =
   Some (r\<lparr>rd_events := rd_events r @ event_entries ds, rd_verdicts := rd_verdicts r @ verdict_entries ds\<rparr>)"
proof (induction ds arbitrary: r)
  case (Cons d ds)
  have d: "plain (JDict d)" "\<not> has_key d ''truncated''" "has_key d ''verdict'' \<or> has_key d ''op''"
    using Cons.prems by (auto simp: sound_entry_def)
  have "read_line (json_compact (JDict d)) r =
      Some (if has_key d ''verdict'' then r\<lparr>rd_verdicts := rd_verdicts r @ [d]\<rparr> else r\<lparr>rd_events := rd_events r @ [d]\<rparr>)"
    using d(2,3) by (subst read_dict_line [OF d(1)]) auto
  then show ?case
    using Cons by (simp add: verdict_entries_def event_entries_def del: json_compact.simps)
qed (simp add: verdict_entries_def event_entries_def)

lemma read_log_text:
  assumes "list_all sound_entry ds"
  shows "read_trace (Some (log_text h ds)) = Some (Some
    \<lparr>rd_events = event_entries ds, rd_verdicts = verdict_entries ds, rd_unparseable = 0,
     rd_truncated = (case h of None \<Rightarrow> 0 | Some n \<Rightarrow> n)\<rparr>)"
  unfolding read_trace_def log_text_def option.case splitlines_clean [OF clean_log_lines [OF assms]]
  by (cases h) (simp_all add: log_lines_def no_lines_def read_entries [OF assms] read_header_line del: json_compact.simps)

text \<open>What the tracer keeps on disk: a header once entries were dropped, then the newest events.\<close>

definition trace_text :: "int option \<Rightarrow> trace_event list \<Rightarrow> string" where
  "trace_text h es = (case h of None \<Rightarrow> [] | Some n \<Rightarrow> header n) @ concat (map event_line es)"

lemma trace_text_log: "trace_text h es = log_text h (map as_dict es)"
proof -
  have "event_line = (\<lambda>e. entry_line (as_dict e))" by (rule ext) (simp only: event_line_def)
  then show ?thesis by (simp add: trace_text_def log_text_entries o_def del: json_compact.simps)
qed

lemma sound_event: "one_line_json (JDict (as_dict e)) \<Longrightarrow> sound_entry (as_dict e)"
  by (simp add: sound_entry_def plain_event del: one_line_json.simps) (simp add: as_dict_def has_key_def plain_strings)

lemma sound_events: "list_all one_line_event es \<Longrightarrow> list_all sound_entry (map as_dict es)"
proof -
  have "sound_entry (as_dict e)" if "one_line_event e" for e
    by (rule sound_event) (use that in \<open>simp add: as_dict_def one_line_event_def one_line_strings one_line_keys\<close>)
  then show "list_all one_line_event es \<Longrightarrow> list_all sound_entry (map as_dict es)" by (auto simp: list_all_iff)
qed

lemma entries_of_events: "event_entries (map as_dict es) = map as_dict es" "verdict_entries (map as_dict es) = []"
  by (induction es) (simp_all add: event_entries_def verdict_entries_def, simp_all add: as_dict_def has_key_def)

lemma read_trace_text:
  assumes "list_all one_line_event es"
  shows "read_trace (Some (trace_text h es)) = Some (Some
    \<lparr>rd_events = map as_dict es, rd_verdicts = [], rd_unparseable = 0,
     rd_truncated = (case h of None \<Rightarrow> 0 | Some n \<Rightarrow> n)\<rparr>)"
  by (simp add: trace_text_log read_log_text [OF sound_events [OF assms]] entries_of_events)

subsection \<open>The cap\<close>

lemma newest_fitting_take: "\<exists>j \<le> length xs. newest_fitting limit used xs = take j xs"
proof (induction xs arbitrary: used)
  case (Cons x xs)
  obtain j where "j \<le> length xs" "newest_fitting limit (used + byte_size x) xs = take j xs"
    using Cons by blast
  then show ?case
    by (intro exI [of _ "if limit < used + byte_size x then 0 else Suc j"]) simp
qed simp

lemma capped_text_drop: "\<exists>k \<le> length xs. capped_text n xs = header (n + int k) @ concat (drop k xs)"
proof -
  obtain j where j: "j \<le> length xs" "newest_fitting (MAX_BYTES div 2) 0 (rev xs) = take j (rev xs)"
    using newest_fitting_take [of "rev xs"] by auto
  have "rev (take j (rev xs)) = drop (length xs - j) xs" by (simp add: take_rev)
  then show ?thesis
    using j by (intro exI [of _ "length xs - j"]) (simp add: capped_text_def Let_def)
qed

lemma is_header_header: "is_header (header n)"
  by (simp add: is_header_def header_def lstrip_def is_space_def space_chars_def json_quote_def json_escape_def Let_def)

lemma dropped_before_header: "dropped_before (header n) = Some n"
proof -
  have "json_loads (header n) = Some (JDict [(''truncated'', JInt n)])"
    using json_loads_compact [of "JDict [(''truncated'', JInt n)]" nl]
    by (simp add: stops_def json_space_def header_def)
  then show ?thesis by (simp add: dropped_before_def jget_def)
qed

lemma not_header: "sound_entry d \<Longrightarrow> \<not> is_header (entry_line d)"
  by (auto simp: sound_entry_def is_header_def lstrip_def is_space_def space_chars_def json_quote_def
      json_escape_def Let_def join_front)

lemma enforce_cap_log:
  assumes "list_all sound_entry ds"
  shows "\<exists>h' k. k \<le> length ds \<and> enforce_cap (log_text h ds) = Some (log_text h' (drop k ds)) \<and>
    (case h' of None \<Rightarrow> 0 | Some n \<Rightarrow> n) = (case h of None \<Rightarrow> 0 | Some n \<Rightarrow> n) + int k"
proof (cases "byte_size (log_text h ds) \<le> MAX_BYTES")
  case True
  then show ?thesis by (intro exI [of _ h] exI [of _ 0]) (simp add: enforce_cap_def)
next
  case False
  have nonempty: "log_text h ds \<noteq> []" using False by (auto simp: byte_size_def)
  have lines: "splitlines_keep (unix_newlines (log_text h ds)) =
      (case h of None \<Rightarrow> [] | Some n \<Rightarrow> [header n]) @ map entry_line ds"
    unfolding log_text_def splitlines_keep_clean [OF clean_log_lines [OF assms]]
    by (cases h) (simp_all add: log_lines_def header_def del: json_compact.simps)
  obtain k where k: "k \<le> length ds"
      "capped_text (case h of None \<Rightarrow> 0 | Some n \<Rightarrow> n) (map entry_line ds) =
       header ((case h of None \<Rightarrow> 0 | Some n \<Rightarrow> n) + int k) @ concat (drop k (map entry_line ds))"
    using capped_text_drop [of "map entry_line ds"] by auto
  have "enforce_cap (log_text h ds) = Some (capped_text (case h of None \<Rightarrow> 0 | Some n \<Rightarrow> n) (map entry_line ds))"
    using False lines is_header_header not_header dropped_before_header assms nonempty
    by (cases h; cases ds) (simp_all add: enforce_cap_def log_text_entries del: json_compact.simps)
  then show ?thesis
    using k by (intro exI [of _ "Some ((case h of None \<Rightarrow> 0 | Some n \<Rightarrow> n) + int k)"] exI [of _ k])
      (simp add: log_text_entries drop_map del: json_compact.simps)
qed

lemma enforce_cap_trace:
  assumes "list_all one_line_event es"
  shows "\<exists>h' k. k \<le> length es \<and> enforce_cap (trace_text h es) = Some (trace_text h' (drop k es)) \<and>
    (case h' of None \<Rightarrow> 0 | Some n \<Rightarrow> n) = (case h of None \<Rightarrow> 0 | Some n \<Rightarrow> n) + int k"
  using enforce_cap_log [OF sound_events [OF assms], of h] by (simp add: trace_text_log drop_map)

subsection \<open>Recording calls\<close>

lemma under_inject [simp]: "under d a = under d b \<longleftrightarrow> a = b"
  by (simp add: under_def)

lemma refuses_put [simp]: "refuses (put path s fs) = refuses fs"
  by (simp add: put_def)

lemma text_of_put: "text_of (put path s fs) q = (if q = path \<and> \<not> refuses fs path then Some s else text_of fs q)"
  by (auto simp: put_def)

lemma refuses_ensure_ignored [simp]: "refuses (ensure_ignored dir fs) = refuses fs"
  by (simp add: ensure_ignored_def Let_def split: option.splits)

lemma text_ensure_ignored: "q \<noteq> under dir IGNORE_NAME \<Longrightarrow> text_of (ensure_ignored dir fs) q = text_of fs q"
  by (simp add: ensure_ignored_def Let_def text_of_put split: option.splits)

lemma refuses_note [simp]: "refuses (note_trace_failure now p err fs) = refuses fs"
  by (simp add: note_trace_failure_def Let_def)

lemma refuses_trace_call [simp]: "refuses (trace_call now err p c fs) = refuses fs"
  by (simp add: trace_call_def Let_def split: option.splits)

lemma old_text_trace: "old_text (ensure_ignored dir fs) (under dir TRACE_NAME) = old_text fs (under dir TRACE_NAME)"
  by (simp add: old_text_def text_ensure_ignored IGNORE_NAME_def TRACE_NAME_def)

abbreviation trace_path :: "place \<Rightarrow> string" where
  "trace_path p \<equiv> under (dir_of p) TRACE_NAME"

lemma trace_call_text:
  assumes "\<not> refuses fs (trace_path p)"
    and "enforce_cap (old_text fs (trace_path p) @ event_line (trace_event_of now c)) = Some s"
  shows "text_of (trace_call now err p c fs) (trace_path p) = Some s"
  using assms by (simp add: trace_call_def Let_def old_text_trace text_of_put)

text \<open>The calls of a run, each with its moment.\<close>

definition record_run :: "string \<Rightarrow> place \<Rightarrow> (string \<times> call) list \<Rightarrow> files \<Rightarrow> files" where
  "record_run err p calls fs = fold (\<lambda>(now, c). trace_call now err p c) calls fs"

definition run_events :: "(string \<times> call) list \<Rightarrow> trace_event list" where
  "run_events calls = map (\<lambda>(now, c). trace_event_of now c) calls"

lemma record_run_text:
  assumes "list_all one_line_event (es @ run_events calls)" "\<not> refuses fs (trace_path p)"
    and "old_text fs (trace_path p) = trace_text h es" "calls \<noteq> []"
  shows "\<exists>h' k. k \<le> length (es @ run_events calls) \<and>
    text_of (record_run err p calls fs) (trace_path p) = Some (trace_text h' (drop k (es @ run_events calls))) \<and>
    (case h' of None \<Rightarrow> 0 | Some n \<Rightarrow> n) = (case h of None \<Rightarrow> 0 | Some n \<Rightarrow> n) + int k"
  using assms
proof (induction calls arbitrary: es h fs)
  case (Cons x calls)
  obtain now c where x: "x = (now, c)" by (cases x)
  define e where "e = trace_event_of now c"
  define fs' where "fs' = trace_call now err p c fs"
  have grown: "old_text fs (trace_path p) @ event_line e = trace_text h (es @ [e])"
    using Cons.prems(3) by (simp add: trace_text_def)
  have clean: "list_all one_line_event (es @ [e])"
    using Cons.prems(1) by (simp add: run_events_def x e_def)
  obtain h1 k1 where cap: "k1 \<le> length (es @ [e])"
      "enforce_cap (trace_text h (es @ [e])) = Some (trace_text h1 (drop k1 (es @ [e])))"
      "(case h1 of None \<Rightarrow> 0 | Some n \<Rightarrow> n) = (case h of None \<Rightarrow> 0 | Some n \<Rightarrow> n) + int k1"
    using enforce_cap_trace [OF clean, of h] by blast
  have text': "text_of fs' (trace_path p) = Some (trace_text h1 (drop k1 (es @ [e])))"
    unfolding fs'_def by (rule trace_call_text) (use Cons.prems(2) cap(2) grown e_def in simp_all)
  have all: "es @ run_events (x # calls) = (es @ [e]) @ run_events calls"
    by (simp add: run_events_def x e_def)
  have tail: "drop k1 (es @ [e]) @ run_events calls = drop k1 (es @ run_events (x # calls))"
    using cap(1) by (simp only: all drop_append [of k1 "es @ [e]"] diff_is_0_eq' drop_0)
  show ?case
  proof (cases "calls = []")
    case True
    then show ?thesis
      using text' cap(1,3) by (intro exI [of _ h1] exI [of _ k1])
        (simp add: record_run_def x fs'_def run_events_def e_def)
  next
    case False
    have kept: "list_all one_line_event (drop k1 (es @ [e]) @ run_events calls)"
      using Cons.prems(1) unfolding tail by (auto simp: list_all_iff dest: in_set_dropD)
    obtain h' k where k: "k \<le> length (drop k1 (es @ [e]) @ run_events calls)"
        "text_of (record_run err p calls fs') (trace_path p) =
           Some (trace_text h' (drop k (drop k1 (es @ [e]) @ run_events calls)))"
        "(case h' of None \<Rightarrow> 0 | Some n \<Rightarrow> n) = (case h1 of None \<Rightarrow> 0 | Some n \<Rightarrow> n) + int k"
      using Cons.IH [OF kept, of fs' h1] Cons.prems(2) text' False
      by (auto simp: old_text_def fs'_def)
    define every where "every = es @ run_events (x # calls)"
    have within: "k1 \<le> length every" using cap(1) by (simp add: every_def run_events_def)
    have "record_run err p (x # calls) fs = record_run err p calls fs'"
      by (simp add: record_run_def x fs'_def)
    moreover have "k1 + k \<le> length every"
      using k(1) within by (simp only: tail every_def [symmetric] length_drop)
    moreover have "drop k (drop k1 every) = drop (k1 + k) every" by (simp add: add.commute)
    ultimately show ?thesis
      using k(2,3) cap(3) unfolding tail every_def [symmetric]
      by (intro exI [of _ h'] exI [of _ "k1 + k"]) simp
  qed
qed simp

text \<open>C31: On a directory without a trace, after any run of recorded calls whose texts stay on one line
  the reader returns the newest of them in order, as they were recorded, and the number it calls
  truncated is exactly the number of those it does not return; nothing is unparseable.  So the
  roll-off of the cap loses no call from the count and never breaks a line.
\<close>

theorem trace_accounts_for_calls:
  assumes "list_all one_line_event (run_events calls)" "calls \<noteq> []"
    and "\<not> refuses fs (trace_path p)" "text_of fs (trace_path p) = None"
  shows "\<exists>k \<le> length calls.
    read_trace (text_of (record_run err p calls fs) (trace_path p)) = Some (Some
      \<lparr>rd_events = map as_dict (drop k (run_events calls)), rd_verdicts = [], rd_unparseable = 0,
       rd_truncated = int k\<rparr>)"
proof -
  have start: "old_text fs (trace_path p) = trace_text None []"
    using assms(4) by (simp add: old_text_def trace_text_def)
  obtain h k where k: "k \<le> length (run_events calls)"
      "text_of (record_run err p calls fs) (trace_path p) = Some (trace_text h (drop k (run_events calls)))"
      "(case h of None \<Rightarrow> 0 | Some n \<Rightarrow> n) = int k"
    using record_run_text [OF _ assms(3) start, of calls err] assms(1,2) by auto
  have "list_all one_line_event (drop k (run_events calls))"
    using assms(1) by (auto simp: list_all_iff dest: in_set_dropD)
  then show ?thesis
    using k by (intro exI [of _ k]) (simp add: read_trace_text run_events_def)
qed

definition example_call :: call where
  "example_call = \<lparr>c_tool = ''t'', c_op = ''set'', c_ok = False, c_reason = Some ''no'', c_spec = None,
     c_files = [''f''], c_written = 3, c_read = 0, c_ms = 1\<rparr>"

definition no_files :: files where
  "no_files = \<lparr>text_of = (\<lambda>_. None), refuses = (\<lambda>_. False)\<rparr>"

theorem trace_accounts_for_calls_witness:
  "\<exists>k \<le> length [(''1'', example_call), (''2'', example_call)].
    read_trace (text_of (record_run ''x'' (''specs'', ''a'') [(''1'', example_call), (''2'', example_call)] no_files)
        (trace_path (''specs'', ''a''))) = Some (Some
      \<lparr>rd_events = map as_dict (drop k (run_events [(''1'', example_call), (''2'', example_call)])),
       rd_verdicts = [], rd_unparseable = 0, rd_truncated = int k\<rparr>)"
  by (rule trace_accounts_for_calls)
     (simp_all add: run_events_def one_line_event_def trace_event_of_def example_call_def one_line_def
       OPS_def no_files_def)

lemma text_note:
  "text_of (note_trace_failure now p err fs) q =
     (if q = under (dir_of p) LOST_NAME \<and> \<not> refuses fs q
      then Some (old_text fs q @ lost_line now [] err)
      else if q = under (fst p) LOST_NAME \<and> \<not> refuses fs q \<and> refuses fs (under (dir_of p) LOST_NAME)
      then Some (old_text fs q @ lost_line now ('' spec='' @ snd p) err)
      else text_of fs q)"
  by (auto simp: note_trace_failure_def Let_def text_of_put)

definition trace_files :: "place \<Rightarrow> string set" where
  "trace_files p = {trace_path p, under (dir_of p) IGNORE_NAME, under (dir_of p) LOST_NAME, under (fst p) LOST_NAME}"

text \<open>A call writes to no file but the trace, its ignore file and the two markers.\<close>

theorem trace_call_touches_only_its_files:
  "text_of (trace_call now err p c fs) = override_on (text_of fs) (text_of (trace_call now err p c fs)) (trace_files p)"
  by (rule ext) (auto simp: override_on_def trace_files_def trace_call_def Let_def text_note text_of_put
      text_ensure_ignored split: option.splits)

definition marker_gains :: "string \<Rightarrow> string \<Rightarrow> string \<Rightarrow> string \<Rightarrow> files \<Rightarrow> files \<Rightarrow> bool" where
  "marker_gains now err path tag fs fs' \<longleftrightarrow>
     text_of fs' path = Some (old_text fs path @ lost_line now tag err)"

text \<open>Where the traces of one directory are, none of its other paths is.\<close>

lemma lost_not_ignored: "under (dir_of p) LOST_NAME \<noteq> under (dir_of p) IGNORE_NAME"
  "under (fst p) LOST_NAME \<noteq> under (dir_of p) IGNORE_NAME" "under (fst p) LOST_NAME \<noteq> trace_path p"
  "under (dir_of p) LOST_NAME \<noteq> trace_path p"
proof -
  have last: "last (under d n) = last n" if "n \<noteq> []" for d n using that by (simp add: under_def)
  show "under (fst p) LOST_NAME \<noteq> under (dir_of p) IGNORE_NAME" "under (fst p) LOST_NAME \<noteq> trace_path p"
    using last [of LOST_NAME "fst p"] last [of IGNORE_NAME "dir_of p"] last [of TRACE_NAME "dir_of p"]
    by (auto simp: LOST_NAME_def IGNORE_NAME_def TRACE_NAME_def)
qed (simp_all add: LOST_NAME_def IGNORE_NAME_def TRACE_NAME_def)

lemma note_gains:
  assumes "old_text fs1 (under (dir_of p) LOST_NAME) = old_text fs (under (dir_of p) LOST_NAME)"
    and "old_text fs1 (under (fst p) LOST_NAME) = old_text fs (under (fst p) LOST_NAME)"
    and "refuses fs1 = refuses fs"
  shows "marker_gains now err (under (dir_of p) LOST_NAME) [] fs (note_trace_failure now p err fs1) \<or>
    marker_gains now err (under (fst p) LOST_NAME) ('' spec='' @ snd p) fs (note_trace_failure now p err fs1) \<or>
    refuses fs (under (dir_of p) LOST_NAME) \<and> refuses fs (under (fst p) LOST_NAME)"
proof (cases "refuses fs (under (dir_of p) LOST_NAME)")
  case True
  then show ?thesis using assms by (auto simp: marker_gains_def text_note)
next
  case False
  then show ?thesis using assms(1,3) by (simp add: marker_gains_def text_note)
qed

text \<open>
  No call vanishes.  Its event is in the trace, behind everything that was there or behind what
  the cap kept of it; or the marker of its directory gained a line; or the marker shared by all
  directories gained a line that names its spec; or the trace and both markers refuse every write.
\<close>

theorem trace_call_leaves_evidence:
  "text_of (trace_call now err p c fs) (trace_path p) =
     enforce_cap (old_text fs (trace_path p) @ event_line (trace_event_of now c)) \<or>
   marker_gains now err (under (dir_of p) LOST_NAME) [] fs (trace_call now err p c fs) \<or>
   marker_gains now err (under (fst p) LOST_NAME) ('' spec='' @ snd p) fs (trace_call now err p c fs) \<or>
   refuses fs (under (dir_of p) LOST_NAME) \<and> refuses fs (under (fst p) LOST_NAME)"
proof (cases "refuses fs (trace_path p)")
  case True
  have "trace_call now err p c fs = note_trace_failure now p err (ensure_ignored (dir_of p) fs)"
    using True by (simp add: trace_call_def Let_def)
  then show ?thesis
    using note_gains [of "ensure_ignored (dir_of p) fs" p fs now err] lost_not_ignored [of p]
    by (simp add: old_text_def text_ensure_ignored)
next
  case False
  define grown where "grown = old_text fs (trace_path p) @ event_line (trace_event_of now c)"
  show ?thesis
  proof (cases "enforce_cap grown")
    case None
    have "trace_call now err p c fs =
        note_trace_failure now p err (put (trace_path p) grown (ensure_ignored (dir_of p) fs))"
      using False None by (simp add: trace_call_def Let_def old_text_trace grown_def)
    then show ?thesis
      using note_gains [of "put (trace_path p) grown (ensure_ignored (dir_of p) fs)" p fs now err]
        lost_not_ignored [of p]
      by (simp add: old_text_def text_ensure_ignored text_of_put)
  next
    case (Some s)
    then show ?thesis using trace_call_text [OF False] by (simp add: grown_def)
  qed
qed

subsection \<open>The ignore file\<close>

text \<open>
  After a call the directory's ignore file holds the trace's name as a line of its own when the
  file was missing or ended its last line.  A file that does not gets the name glued to its last
  rule, which is then no longer the user's rule: the append checks no newline.
\<close>

lemma ignore_glued_to_last_rule:
  "text_of (ensure_ignored ''a'' (no_files\<lparr>text_of := [under ''a'' IGNORE_NAME \<mapsto> ''*.log'']\<rparr>)) (under ''a'' IGNORE_NAME)
   = Some (''*.log.trace.jsonl'' @ nl)"
  by (simp add: ensure_ignored_def put_def no_files_def TRACE_NAME_def splitlines_def split_lines_ends_def
      split_lines_char is_line_break_def strip_def lstrip_def rstrip_def rstrip_chars_def is_space_def space_chars_def)

subsection \<open>A line that is not one line\<close>

text \<open>
  The reader breaks the file at every separator Python knows, the writer ends an event with a newline
  only and does not escape U+0085: an event whose reason holds that character is read as two lines
  that are no events.
\<close>

lemma next_line_breaks_an_event:
  "map_option (map_option (\<lambda>r. (rd_events r, rd_unparseable r)))
     (read_trace (Some (event_line (trace_event_of ''1'' (example_call\<lparr>c_reason := Some [CHR 0x85]\<rparr>)))))
   = Some (Some ([], 2))"
  by code_simp

end
