(* ===== verification/DoctorRecord.thy ===== *)
theory DoctorRecord
  imports Doctor RunTrace TaskSync
begin

text \<open>
  The doctor's checks of the record (\<open>doctor_checks.py\<close>, first half): steps left open, steps hardly
  measured, tasks without a journal entry, finishes written in bursts, boundaries stamped by the
  wrong side, the triage of a status against the pipeline bar, completion, verification, briefing.

  A check returns \<open>None\<close> where the code raises.  Times are microseconds, so a span of seconds is
  compared exactly.
\<close>

subsection \<open>What a check reads\<close>

record spec_dir =
  sd_feature :: feature
  sd_place :: place
  sd_files :: files
  sd_zone :: "int \<Rightarrow> int"
  sd_now :: int
  sd_registry :: "string \<Rightarrow> string option"
  sd_manifest :: "json option"
  sd_exists :: "string \<Rightarrow> bool"
  sd_glob :: "string \<Rightarrow> bool"

definition time_of :: "spec_dir \<Rightarrow> jdict \<Rightarrow> int option" where
  "time_of sd e = parse_time (sd_zone sd) (jget e ''at'')"

definition seconds :: "int \<Rightarrow> int" where
  "seconds n = n * 1000000"

definition EXTENSION_STEPS :: "string list" where
  "EXTENSION_STEPS = [''specify'', ''plan'', ''tasks'', ''implement'', ''converge'']"

definition AI_STEPS :: "string list" where "AI_STEPS = [''clarify'', ''analyze'']"
definition BURST_WINDOW :: int where "BURST_WINDOW = seconds 5"
definition BURST_MIN_TASKS :: nat where "BURST_MIN_TASKS = 3"
definition IN_FLIGHT_GRACE :: int where "IN_FLIGHT_GRACE = seconds (30 * 60)"
definition CADENCE_GRACE_FLOOR :: int where "CADENCE_GRACE_FLOOR = seconds (5 * 60)"
definition CADENCE_GRACE_MULTIPLE :: int where "CADENCE_GRACE_MULTIPLE = 4"
definition WINDOW_PAD :: int where "WINDOW_PAD = seconds (5 * 60)"

definition no_record :: "spec_dir \<Rightarrow> jdict \<Rightarrow> skip_reason option" where
  "no_record sd ctx =
     (if ctx_file (sd_feature sd) = NoFile then Some NothingRecorded
      else if ctx = [] then Some RecordUnreadable
      else if log_entries ctx = [] then Some HistoryEmpty
      else None)"

definition ran_with :: "check \<Rightarrow> finding list \<Rightarrow> check_result" where
  "ran_with c fs = Some (check_status c Ran, fs)"

definition skipped_for :: "check \<Rightarrow> skip_reason \<Rightarrow> check_result" where
  "skipped_for c why = Some (check_status c (Skipped why), [])"

definition not_applicable :: "check \<Rightarrow> check_result" where
  "not_applicable c = Some (check_status c NotApplicable, [])"

definition finding_at :: "check \<Rightarrow> severity \<Rightarrow> topic \<Rightarrow> jdict \<Rightarrow> finding" where
  "finding_at c s t ev = \<lparr>f_check = c, f_severity = s, f_topic = t, f_evidence = ev\<rparr>"

text \<open>A check that first asks whether there is a record to read.\<close>

definition with_record :: "check \<Rightarrow> spec_dir \<Rightarrow> jdict \<Rightarrow> check_result \<Rightarrow> check_result" where
  "with_record c sd ctx result = (case no_record sd ctx of Some why \<Rightarrow> skipped_for c why | None \<Rightarrow> result)"

definition json_names :: "string list \<Rightarrow> json" where
  "json_names xs = JList (map JStr xs)"

definition json_int :: "nat \<Rightarrow> json" where
  "json_int n = JInt (int n)"

subsection \<open>Steps that started and never finished\<close>

definition step_activity :: "spec_dir \<Rightarrow> jdict list \<Rightarrow> string \<Rightarrow> int list" where
  "step_activity sd log step =
     sort (List.map_filter (time_of sd) (filter (\<lambda>e. jget e ''step'' = JStr step) log))"

fun gaps :: "int list \<Rightarrow> int list" where
  "gaps (a # b # ts) = (b - a) # gaps (b # ts)"
| "gaps _ = []"

definition longest_gap :: "int list \<Rightarrow> int" where
  "longest_gap ts = fold max (gaps ts) 0"

definition cadence_grace :: "spec_dir \<Rightarrow> jdict list \<Rightarrow> string \<Rightarrow> int \<times> int option" where
  "cadence_grace sd log step =
     (let stamps = step_activity sd log step in
      if length stamps < 2 then (IN_FLIGHT_GRACE, (if stamps = [] then None else Some (last stamps)))
      else (min (max CADENCE_GRACE_FLOOR (longest_gap stamps * CADENCE_GRACE_MULTIPLE)) IN_FLIGHT_GRACE,
            Some (last stamps)))"

text \<open>The step-level boundaries of the log: step, kind and moment of each, or an exception.\<close>

definition boundary :: "jdict \<Rightarrow> (string \<times> string \<times> json) list option" where
  "boundary e =
     (case jget e ''step'' of
        JStr step \<Rightarrow>
          if is_step_level e then map_option (\<lambda>k. [(step, k, jget e ''at'')]) (entry_kind e) else Some []
      | _ \<Rightarrow> Some [])"

definition boundaries :: "jdict list \<Rightarrow> (string \<times> string \<times> json) list option" where
  "boundaries log = map_option concat (traverse boundary log)"

definition started_steps :: "(string \<times> string \<times> json) list \<Rightarrow> (string \<times> json) list" where
  "started_steps bs = fold (\<lambda>(step, k, at) st.
     if k = ''start'' \<and> map_of st step = None then st @ [(step, at)] else st) bs []"

definition completed_steps :: "(string \<times> string \<times> json) list \<Rightarrow> string list" where
  "completed_steps bs = [step. (step, k, at) \<leftarrow> bs, k \<noteq> ''start'']"

definition settled_status :: "json \<Rightarrow> string \<Rightarrow> bool" where
  "settled_status status step \<longleftrightarrow> status = JStr ''completed'' \<or> status = JStr ''archived'' \<or>
     status = JStr ''implemented'' \<and> step \<noteq> ''converge''"

definition in_flight :: "spec_dir \<Rightarrow> jdict \<Rightarrow> string \<Rightarrow> json \<Rightarrow> bool" where
  "in_flight sd ctx step at \<longleftrightarrow>
     jget ctx ''currentStep'' = JStr step \<and> \<not> settled_status (jget ctx ''status'') step \<and>
     (let (grace, last_seen) = cadence_grace sd (log_entries ctx) step in
      case (case last_seen of Some t \<Rightarrow> Some t | None \<Rightarrow> parse_time (sd_zone sd) at) of
        None \<Rightarrow> True
      | Some ts \<Rightarrow> sd_now sd - ts < grace)"

definition step_rank :: "string \<Rightarrow> nat" where
  "step_rank step = (case STEP_ORDER step of Some n \<Rightarrow> n | None \<Rightarrow> 99)"

definition dangling_steps :: "spec_dir \<Rightarrow> jdict \<Rightarrow> (string \<times> json) list option" where
  "dangling_steps sd ctx =
     map_option (\<lambda>bs. sort_key (\<lambda>p. step_rank (fst p))
         (filter (\<lambda>(step, at). step \<notin> set (completed_steps bs) \<and> \<not> in_flight sd ctx step at) (started_steps bs)))
       (boundaries (log_entries ctx))"

subsection \<open>Steps hardly measured\<close>

definition note_substep :: "jdict \<Rightarrow> (string \<times> string list) list \<Rightarrow> (string \<times> string list) list" where
  "note_substep e seen =
     (case jget e ''step'' of
        JStr step \<Rightarrow>
          (let subs = (case map_of seen step of None \<Rightarrow> [] | Some xs \<Rightarrow> xs);
               subs' = (case jget e ''substep'' of
                   JStr sub \<Rightarrow> if sub \<noteq> [] \<and> sub \<notin> set subs then subs @ [sub] else subs
                 | _ \<Rightarrow> subs)
           in AList.update step subs' seen)
      | _ \<Rightarrow> seen)"

definition thin_boundary_steps :: "jdict \<Rightarrow> (string \<times> nat \<times> nat) list" where
  "thin_boundary_steps ctx =
     (let sizes = map (\<lambda>(step, subs). (step, length subs)) (fold note_substep (log_entries ctx) []);
          others = sort (filter (\<lambda>n. 0 < n) (map snd sizes));
          median = others ! (length others div 2)
      in if length others < 3 \<or> median < 2 then []
         else sort_key fst [(step, n, median). (step, n) \<leftarrow> sizes, 2 * n < median, n < median - 1])"

subsection \<open>Task finishes\<close>

definition journaled_finish :: "jdict \<Rightarrow> string list option" where
  "journaled_finish e =
     (case jget e ''task'' of
        JStr t \<Rightarrow> map_option (\<lambda>k. if k = ''complete'' then [t] else []) (entry_kind e)
      | _ \<Rightarrow> Some [])"

definition journaled_task_ids :: "jdict \<Rightarrow> string list option" where
  "journaled_task_ids ctx = map_option concat (traverse journaled_finish (log_entries ctx))"

definition agent_finish :: "spec_dir \<Rightarrow> jdict \<Rightarrow> (json \<times> int) list option" where
  "agent_finish sd e =
     (if is_per_task e
      then map_option (\<lambda>k. if k = ''complete'' \<and> jget e ''by'' = JStr ''ai''
               then (case time_of sd e of Some t \<Rightarrow> [(jget e ''task'', t)] | None \<Rightarrow> []) else [])
             (entry_kind e)
      else Some [])"

definition agent_task_finish_times :: "spec_dir \<Rightarrow> jdict \<Rightarrow> (json \<times> int) list option" where
  "agent_task_finish_times sd ctx =
     map_option (\<lambda>xs. sort_key snd (concat xs)) (traverse (agent_finish sd) (log_entries ctx))"

text \<open>The clusters: an entry more than the window after the first of its cluster opens the next one.\<close>

fun clusters_from :: "(json \<times> int) list \<Rightarrow> (json \<times> int) list \<Rightarrow> (json \<times> int) list list" where
  "clusters_from current [] = (if current = [] then [] else [current])"
| "clusters_from current (x # xs) =
     (if current \<noteq> [] \<and> BURST_WINDOW < snd x - snd (hd current)
      then current # clusters_from [x] xs
      else clusters_from (current @ [x]) xs)"

definition bursts_of :: "(json \<times> int) list \<Rightarrow> (json \<times> int) list list" where
  "bursts_of finishes = filter (\<lambda>c. BURST_MIN_TASKS \<le> length c) (clusters_from [] finishes)"

fun longest_cluster :: "(json \<times> int) list list \<Rightarrow> (json \<times> int) list" where
  "longest_cluster [] = []"
| "longest_cluster [c] = c"
| "longest_cluster (c # d # cs) =
     (let best = longest_cluster (d # cs) in if length best \<le> length c then c else best)"

subsection \<open>Attribution\<close>

definition self_closed_steps :: "jdict \<Rightarrow> bool \<Rightarrow> string list" where
  "self_closed_steps ctx tasks_done =
     (if jget ctx ''workflow'' = JStr ''companion'' \<or> jget ctx ''profile'' = JStr ''turbo''
      then [''plan'', ''tasks''] @ (if tasks_done then [''implement''] else []) else [])"

definition attribution :: "string list \<Rightarrow> jdict \<Rightarrow> (string \<times> json \<times> json) list option" where
  "attribution self_closed e =
     (case jget e ''step'' of
        JStr step \<Rightarrow>
          map_option (\<lambda>k.
            if k \<noteq> ''complete'' \<or> \<not> is_step_level e then []
            else if step \<in> set EXTENSION_STEPS \<and> jget e ''by'' = JStr ''ai'' \<and> step \<notin> set self_closed
              \<or> step \<in> set AI_STEPS \<and> jget e ''by'' = JStr ''extension''
            then [(step, jget e ''by'', jget e ''at'')] else []) (entry_kind e)
      | _ \<Rightarrow> Some [])"

definition attribution_anomalies :: "jdict \<Rightarrow> bool \<Rightarrow> (string \<times> json \<times> json) list option" where
  "attribution_anomalies ctx tasks_done =
     map_option concat (traverse (attribution (self_closed_steps ctx tasks_done)) (log_entries ctx))"

definition tasks_all_checked :: "spec_dir \<Rightarrow> bool" where
  "tasks_all_checked sd = feature_tasks_at_100 (sd_feature sd)"

subsection \<open>The record check\<close>

definition dangling_finding :: "string \<times> json \<Rightarrow> finding" where
  "dangling_finding p = finding_at RecordCheck Problem StepNeverFinished
     [(''step'', JStr (fst p)), (''start_at'', snd p)]"

definition thin_finding :: "string \<times> nat \<times> nat \<Rightarrow> finding" where
  "thin_finding p = finding_at RecordCheck Warning StepThinlyRecorded
     [(''step'', JStr (fst p)), (''boundaries'', json_int (fst (snd p))), (''sibling_median'', json_int (snd (snd p)))]"

definition unjournaled_findings :: "spec_dir \<Rightarrow> jdict \<Rightarrow> finding list option" where
  "unjournaled_findings sd ctx =
     (case tasks_md (sd_feature sd) of
        None \<Rightarrow> Some []
      | Some s \<Rightarrow>
          map_option (\<lambda>journaled.
            let missing = filter (\<lambda>t. t \<notin> set journaled) (snd (parse_task_markers (Some s))) in
            if missing = [] then []
            else [finding_at RecordCheck Problem TasksNotJournaled [(''tasks'', json_names missing)]])
          (journaled_task_ids ctx))"

text \<open>The span of the largest burst is given in microseconds.\<close>

definition burst_findings :: "(json \<times> int) list list \<Rightarrow> finding list" where
  "burst_findings bursts =
     (let worst = longest_cluster bursts in
      if bursts = [] then []
      else [finding_at RecordCheck Warning FinishesBatched
        [(''tasks'', JList (map fst (concat bursts))), (''batches'', json_int (length bursts)),
         (''largest_batch'', json_int (length worst)),
         (''span_seconds'', JInt (snd (last worst) - snd (hd worst)))]])"

definition attribution_finding :: "string \<times> json \<times> json \<Rightarrow> finding" where
  "attribution_finding p = finding_at RecordCheck Warning StepClosedByOther
     [(''step'', JStr (fst p)), (''by'', fst (snd p)), (''at'', snd (snd p))]"

definition check_record :: "spec_dir \<Rightarrow> jdict \<Rightarrow> check_result" where
  "check_record sd ctx = with_record RecordCheck sd ctx
     (case (dangling_steps sd ctx, unjournaled_findings sd ctx, agent_task_finish_times sd ctx,
            attribution_anomalies ctx (tasks_all_checked sd)) of
        (Some dangling, Some unjournaled, Some finishes, Some wrong) \<Rightarrow>
          ran_with RecordCheck
            (map dangling_finding dangling @ map thin_finding (thin_boundary_steps ctx) @ unjournaled @
             burst_findings (bursts_of finishes) @ map attribution_finding wrong)
      | _ \<Rightarrow> None)"

subsection \<open>Triage\<close>

fun badge :: "string \<times> string \<times> json \<Rightarrow> (string \<times> string) list \<Rightarrow> (string \<times> string) list" where
  "badge (step, k, at) badges =
     (if k = ''complete'' then AList.update step ''completed'' badges
      else if map_of badges step \<noteq> Some ''completed'' then AList.update step ''in-progress'' badges
      else badges)"

definition derived_badges :: "jdict \<Rightarrow> (string \<times> string) list option" where
  "derived_badges ctx =
     map_option (\<lambda>bs. fold badge bs []) (boundaries (log_entries ctx))"

definition claimed_step :: "json \<Rightarrow> string option" where
  "claimed_step status =
     List.find (\<lambda>s. opt_json (STEP_COMPLETED_STATUS s) = status) [''specify'', ''plan'', ''tasks'', ''implement'']"

definition triage_finding :: "severity \<Rightarrow> topic \<Rightarrow> json \<Rightarrow> string \<Rightarrow> string option \<Rightarrow> finding" where
  "triage_finding sev t status step shown = finding_at TriageCheck sev t
     [(''status'', status), (''step'', JStr step), (''badge'', opt_json shown)]"

definition check_triage :: "spec_dir \<Rightarrow> jdict \<Rightarrow> check_result" where
  "check_triage sd ctx = with_record TriageCheck sd ctx
     (case derived_badges ctx of
        None \<Rightarrow> None
      | Some badges \<Rightarrow>
          (case claimed_step (jget ctx ''status'') of
             None \<Rightarrow> not_applicable TriageCheck
           | Some step \<Rightarrow>
               ran_with TriageCheck
                 [if map_of badges step = Some ''completed''
                  then triage_finding Remark RecordsAgree (jget ctx ''status'') step (map_of badges step)
                  else triage_finding Problem RecordsDisagree (jget ctx ''status'') step (map_of badges step)]))"

subsection \<open>Completion\<close>

definition in_window :: "int option \<Rightarrow> (int \<times> int) option \<Rightarrow> bool" where
  "in_window ts window =
     (case (ts, window) of (Some t, Some (a, b)) \<Rightarrow> a \<le> t \<and> t \<le> b | _ \<Rightarrow> True)"

definition own_trace :: "spec_dir \<Rightarrow> trace_read option option" where
  "own_trace sd = read_trace (text_of (sd_files sd) (trace_path (sd_place sd)))"

definition shared_trace :: "spec_dir \<Rightarrow> trace_read option option" where
  "shared_trace sd = read_trace (text_of (sd_files sd) (under (fst (sd_place sd)) TRACE_NAME))"

definition events_of :: "trace_read option \<Rightarrow> jdict list" where
  "events_of r = (case r of None \<Rightarrow> [] | Some t \<Rightarrow> rd_events t)"

definition is_completion :: "jdict \<Rightarrow> bool" where
  "is_completion e \<longleftrightarrow> jget e ''op'' = JStr ''mark-complete''"

definition contains :: "string \<Rightarrow> string \<Rightarrow> bool" where
  "contains needle s \<longleftrightarrow> cut_at needle s \<noteq> None"

definition concerns :: "spec_dir \<Rightarrow> jdict \<Rightarrow> bool" where
  "concerns sd e \<longleftrightarrow> \<not> truthy (jget e ''spec'') \<or> contains (snd (sd_place sd)) (py_str (jget e ''spec''))"

definition completion_attempts :: "spec_dir \<Rightarrow> jdict \<Rightarrow> jdict list option" where
  "completion_attempts sd ctx =
     (case (own_trace sd, shared_trace sd) of
        (Some own, Some shared) \<Rightarrow>
          Some (filter is_completion (events_of own) @
            filter (\<lambda>e. is_completion e \<and> concerns sd e \<and>
                in_window (time_of sd e) (run_window (sd_zone sd) ctx WINDOW_PAD)) (events_of shared))
      | _ \<Rightarrow> None)"

datatype verdict = Completed | NotAttempted | Refused json | NeverArrived

definition verdict_of :: "json \<Rightarrow> jdict list \<Rightarrow> verdict" where
  "verdict_of status attempts =
     (if status = JStr ''completed'' \<or> status = JStr ''archived'' then Completed
      else if attempts = [] then NotAttempted
      else case filter (\<lambda>a. \<not> truthy (jget a ''ok'')) attempts of
          [] \<Rightarrow> NeverArrived
        | failed \<Rightarrow> Refused (if truthy (jget (last failed) ''reason'') then jget (last failed) ''reason''
                            else JStr ''no reason recorded''))"

text \<open>What the check publishes; the sentence of \<open>never-arrived\<close> is not modelled.\<close>

definition verdict_dict :: "bool \<Rightarrow> verdict \<Rightarrow> jdict" where
  "verdict_dict attempted v =
     [(''attempted'', JBool attempted),
      (''outcome'', JStr (case v of Completed \<Rightarrow> ''completed'' | NotAttempted \<Rightarrow> ''not-attempted''
         | Refused _ \<Rightarrow> ''refused'' | NeverArrived \<Rightarrow> ''never-arrived'')),
      (''reason'', (case v of Refused r \<Rightarrow> r | _ \<Rightarrow> JNull))]"

definition completion_findings :: "spec_dir \<Rightarrow> bool \<Rightarrow> verdict \<Rightarrow> finding list" where
  "completion_findings sd attempted v =
     (case v of
        Completed \<Rightarrow> []
      | NotAttempted \<Rightarrow>
          if tasks_all_checked sd
          then [finding_at CompletionCheck Remark CompletionNeverTried (verdict_dict attempted v)] else []
      | Refused _ \<Rightarrow> [finding_at CompletionCheck Problem CompletionRefused (verdict_dict attempted v)]
      | NeverArrived \<Rightarrow> [finding_at CompletionCheck Problem CompletionNeverArrived (verdict_dict attempted v)])"

definition check_completion :: "spec_dir \<Rightarrow> jdict \<Rightarrow> check_fun" where
  "check_completion sd ctx r =
     (case no_record sd ctx of
        Some why \<Rightarrow> (r, skipped_for CompletionCheck why)
      | None \<Rightarrow>
          (case completion_attempts sd ctx of
             None \<Rightarrow> (r, None)
           | Some attempts \<Rightarrow>
               (let v = verdict_of (jget ctx ''status'') attempts; attempted = (attempts \<noteq> [])
                in (r\<lparr>r_completion := verdict_dict attempted v\<rparr>,
                    ran_with CompletionCheck (completion_findings sd attempted v)))))"

subsection \<open>Verification and briefing\<close>

definition step_closed :: "jdict \<Rightarrow> string \<Rightarrow> bool option" where
  "step_closed ctx step =
     any_opt (\<lambda>e. guarded_kind (jget e ''step'' = JStr step \<and> is_step_level e) e ''complete'') (log_entries ctx)"

definition check_verification :: "spec_dir \<Rightarrow> jdict \<Rightarrow> check_result" where
  "check_verification sd ctx = with_record VerificationCheck sd ctx
     (case step_closed ctx ''implement'' of
        None \<Rightarrow> None
      | Some False \<Rightarrow> skipped_for VerificationCheck ImplementOpen
      | Some True \<Rightarrow>
          ran_with VerificationCheck
            (if is_list (jget ctx ''verified'') \<and> truthy (jget ctx ''verified'') then []
             else [finding_at VerificationCheck Problem NothingVerified [(''verified'', JInt 0)]]))"

text \<open>\<open>(ctx.get(k) or {})\<close> whose \<open>get\<close> raises on anything but a dictionary.\<close>

definition dict_or_raise :: "json \<Rightarrow> jdict option" where
  "dict_or_raise v = (if \<not> truthy v then Some [] else case v of JDict d \<Rightarrow> Some d | _ \<Rightarrow> None)"

definition REGISTRY_NAMES :: "string list" where
  "REGISTRY_NAMES = [''living-specs.yml'', ''living-specs.yaml'']"

definition check_briefed :: "spec_dir \<Rightarrow> jdict \<Rightarrow> check_result" where
  "check_briefed sd ctx = with_record BriefedCheck sd ctx
     (case dict_or_raise (jget ctx ''livingSpecs'') of
        None \<Rightarrow> None
      | Some living \<Rightarrow>
          if truthy (jget living ''loaded'') then ran_with BriefedCheck []
          else (case List.find (\<lambda>n. sd_registry sd n \<noteq> None) REGISTRY_NAMES of
              None \<Rightarrow> skipped_for BriefedCheck NoRegistry
            | Some name \<Rightarrow>
                (let s = the (sd_registry sd name) in
                 if \<not> contains ''enabled: true'' s then skipped_for BriefedCheck SpecsOff
                 else if \<not> contains ''- name:'' s then skipped_for BriefedCheck NoCapabilities
                 else ran_with BriefedCheck
                   [finding_at BriefedCheck Problem NeverBriefed [(''registry'', JStr name), (''loaded'', JInt 0)]])))"

section \<open>Facts about the record checks\<close>

subsection \<open>Open steps\<close>

lemma log_entries_set: "e \<in> set (log_entries ctx) \<longleftrightarrow> JDict e \<in> set (canonical_log ctx)"
proof -
  have "e \<in> set (List.map_filter (\<lambda>j. case j of JDict e \<Rightarrow> Some e | _ \<Rightarrow> None) xs) \<longleftrightarrow> JDict e \<in> set xs" for xs
    by (induction xs) (auto simp: List.map_filter_simps split: json.splits)
  then show ?thesis by (simp add: log_entries_def)
qed

lemma is_complete_of_None:
  "is_complete_of step None (JDict e) \<longleftrightarrow>
     jget e ''step'' = JStr step \<and> is_step_level e \<and> entry_kind e = Some ''complete''"
  by (auto simp: is_complete_of_def complete_entry_def guarded_kind_def complete_matches_def)

lemma is_start_of_None:
  "is_start_of step None (JDict e) \<longleftrightarrow>
     jget e ''step'' = JStr step \<and> is_step_level e \<and> entry_kind e = Some ''start''"
  by (auto simp: is_start_of_def start_entry_def guarded_kind_def is_step_level_def is_per_task_def)

lemma entry_kind_cases: "entry_kind e = Some k \<Longrightarrow> k = ''start'' \<or> k = ''complete''"
  by (auto simp: entry_kind_def split: if_splits json.splits)

lemma concat_traverse:
  assumes "traverse f xs = Some yss"
  shows "y \<in> set (concat yss) \<longleftrightarrow> (\<exists>x \<in> set xs. \<exists>ys. f x = Some ys \<and> y \<in> set ys)"
  using assms
proof (induction xs arbitrary: yss)
  case (Cons x xs)
  then show ?case by (fastforce split: option.splits)
qed simp

lemma boundary_member:
  assumes "boundary e = Some ys"
  shows "(step, k, at) \<in> set ys \<longleftrightarrow>
    jget e ''step'' = JStr step \<and> is_step_level e \<and> entry_kind e = Some k \<and> jget e ''at'' = at"
  using assms by (cases "jget e ''step''") (auto simp: boundary_def split: if_splits)

lemma traverse_each: "traverse f xs = Some ys \<Longrightarrow> x \<in> set xs \<Longrightarrow> \<exists>y. f x = Some y"
  by (induction xs arbitrary: ys) (auto split: option.splits)

lemma boundaries_set:
  assumes "boundaries log = Some bs"
  shows "(step, k, at) \<in> set bs \<longleftrightarrow>
    (\<exists>e \<in> set log. jget e ''step'' = JStr step \<and> is_step_level e \<and> entry_kind e = Some k \<and> jget e ''at'' = at)"
proof -
  obtain yss where yss: "traverse boundary log = Some yss" "bs = concat yss"
    using assms by (auto simp: boundaries_def)
  have "(step, k, at) \<in> set bs \<longleftrightarrow> (\<exists>e \<in> set log. \<exists>ys. boundary e = Some ys \<and> (step, k, at) \<in> set ys)"
    unfolding yss(2) by (rule concat_traverse [OF yss(1)])
  then show ?thesis using boundary_member traverse_each [OF yss(1)] by meson
qed

lemma boundary_kinds:
  assumes "boundaries log = Some bs" "(step, k, at) \<in> set bs"
  shows "k = ''start'' \<or> k = ''complete''"
  using assms(2) entry_kind_cases unfolding boundaries_set [OF assms(1)] by blast

lemma started_steps_aux:
  "fst ` set (fold (\<lambda>(step, k, at) st.
     if k = ''start'' \<and> map_of st step = None then st @ [(step, at)] else st) bs st) =
   fst ` set st \<union> {step. \<exists>at. (step, ''start'', at) \<in> set bs}"
proof (induction bs arbitrary: st)
  case (Cons b bs)
  obtain step k at where b: "b = (step, k, at)" by (cases b)
  show ?case using Cons.IH by (auto simp: b map_of_eq_None_iff)
qed simp

lemma started_steps_names: "fst ` set (started_steps bs) = {step. \<exists>at. (step, ''start'', at) \<in> set bs}"
  by (simp add: started_steps_def started_steps_aux)

lemma completed_steps_names:
  assumes "boundaries log = Some bs"
  shows "set (completed_steps bs) = {step. \<exists>at. (step, ''complete'', at) \<in> set bs}"
proof -
  have "set (completed_steps bs) = {step. \<exists>k at. (step, k, at) \<in> set bs \<and> k \<noteq> ''start''}"
    by (auto simp: completed_steps_def)
  moreover have "(step, k, at) \<in> set bs \<and> k \<noteq> ''start'' \<longleftrightarrow> (step, k, at) \<in> set bs \<and> k = ''complete''" for step k at
    using boundary_kinds [OF assms, of step k at] by auto
  ultimately show ?thesis by auto
qed

definition is_open :: "jdict \<Rightarrow> string \<Rightarrow> bool" where
  "is_open ctx step \<longleftrightarrow> list_ex (is_start_of step None) (canonical_log ctx) \<and>
     \<not> list_ex (is_complete_of step None) (canonical_log ctx)"

lemma is_start_of_dict: "is_start_of step k j \<Longrightarrow> \<exists>e. j = JDict e"
  by (auto simp: is_start_of_def start_entry_def split: json.splits)

lemma is_complete_of_dict: "is_complete_of step k j \<Longrightarrow> \<exists>e. j = JDict e"
  by (auto simp: is_complete_of_def complete_entry_def split: json.splits)

lemma boundary_ex:
  assumes "boundaries (log_entries ctx) = Some bs"
  shows "(\<exists>at. (step, k, at) \<in> set bs) \<longleftrightarrow> (\<exists>e. JDict e \<in> set (canonical_log ctx) \<and>
     jget e ''step'' = JStr step \<and> is_step_level e \<and> entry_kind e = Some k)"
  unfolding boundaries_set [OF assms] Bex_def log_entries_set by blast

lemma started_iff:
  assumes "boundaries (log_entries ctx) = Some bs"
  shows "(\<exists>at. (step, ''start'', at) \<in> set bs) \<longleftrightarrow> list_ex (is_start_of step None) (canonical_log ctx)"
  unfolding boundary_ex [OF assms] list_ex_iff is_start_of_None [symmetric]
  using is_start_of_dict by blast

lemma completed_iff:
  assumes "boundaries (log_entries ctx) = Some bs"
  shows "(\<exists>at. (step, ''complete'', at) \<in> set bs) \<longleftrightarrow> list_ex (is_complete_of step None) (canonical_log ctx)"
  unfolding boundary_ex [OF assms] list_ex_iff is_complete_of_None [symmetric]
  using is_complete_of_dict by blast

text \<open>
  The grace as it is meant: the step is the current one of an unsettled run, and its last recorded
  moment, if it has any, is not longer ago than its cadence allows.
\<close>

definition within_grace :: "spec_dir \<Rightarrow> jdict \<Rightarrow> string \<Rightarrow> bool" where
  "within_grace sd ctx step \<longleftrightarrow>
     jget ctx ''currentStep'' = JStr step \<and> \<not> settled_status (jget ctx ''status'') step \<and>
     (case snd (cadence_grace sd (log_entries ctx) step) of
        None \<Rightarrow> True
      | Some ts \<Rightarrow> sd_now sd - ts < fst (cadence_grace sd (log_entries ctx) step))"

lemma cadence_last: "snd (cadence_grace sd log step) =
    (if step_activity sd log step = [] then None else Some (last (step_activity sd log step)))"
  by (auto simp: cadence_grace_def Let_def)

lemma started_is_active:
  assumes "boundaries (log_entries ctx) = Some bs" "(step, k, at) \<in> set bs"
    and "step_activity sd (log_entries ctx) step = []"
  shows "parse_time (sd_zone sd) at = None"
proof -
  obtain e where e: "e \<in> set (log_entries ctx)" "jget e ''step'' = JStr step" "jget e ''at'' = at"
    using assms(2) unfolding boundaries_set [OF assms(1)] by blast
  have none: "List.map_filter (time_of sd) (filter (\<lambda>e. jget e ''step'' = JStr step) (log_entries ctx)) = []"
    using arg_cong [OF assms(3), of length] by (simp add: step_activity_def)
  have "List.map_filter f xs = [] \<Longrightarrow> x \<in> set xs \<Longrightarrow> f x = None" for f :: "jdict \<Rightarrow> int option" and xs x
    by (induction xs) (auto simp: List.map_filter_simps split: option.splits)
  from this [OF none, of e] show ?thesis using e by (simp add: time_of_def)
qed

lemma in_flight_grace:
  assumes "boundaries (log_entries ctx) = Some bs" "(step, k, at) \<in> set bs"
  shows "in_flight sd ctx step at \<longleftrightarrow> within_grace sd ctx step"
  using started_is_active [OF assms] cadence_last [of sd "log_entries ctx" step]
  by (auto simp: in_flight_def within_grace_def case_prod_beta Let_def split: option.splits if_splits)

lemma started_steps_members_aux:
  "(step, at) \<in> set (fold (\<lambda>(step, k, at) st.
     if k = ''start'' \<and> map_of st step = None then st @ [(step, at)] else st) bs st) \<Longrightarrow>
   (step, at) \<in> set st \<or> (step, ''start'', at) \<in> set bs"
proof (induction bs arbitrary: st)
  case (Cons b bs)
  obtain step' k at' where b: "b = (step', k, at')" by (cases b)
  show ?case
  proof (cases "k = ''start'' \<and> map_of st step' = None")
    case True
    then show ?thesis using Cons.IH [of "st @ [(step', at')]"] Cons.prems by (auto simp: b)
  next
    case False
    then have "(step, at) \<in> set st \<or> (step, ''start'', at) \<in> set bs"
      using Cons.prems by (intro Cons.IH) (simp add: b split: if_splits)
    then show ?thesis by auto
  qed
qed simp

lemma started_steps_members: "(step, at) \<in> set (started_steps bs) \<Longrightarrow> (step, ''start'', at) \<in> set bs"
  using started_steps_members_aux [of step at bs "[]"] by (simp add: started_steps_def)

text \<open>C24: The record check names a step as never finished exactly when the log has a step-level start of
  it and no step-level completion, unless it is the current step of an unsettled run that is still
  within the grace its own cadence gives it; and it names the steps in pipeline order.
\<close>

theorem dangling_exactly_open:
  assumes "dangling_steps sd ctx = Some ds"
  shows "sorted (map (step_rank \<circ> fst) ds) \<and>
    (step \<in> fst ` set ds \<longleftrightarrow> is_open ctx step \<and> \<not> within_grace sd ctx step)"
proof -
  obtain bs where bs: "boundaries (log_entries ctx) = Some bs"
      "ds = sort_key (\<lambda>p. step_rank (fst p))
         (filter (\<lambda>(step, at). step \<notin> set (completed_steps bs) \<and> \<not> in_flight sd ctx step at) (started_steps bs))"
    using assms by (auto simp: dangling_steps_def)
  have "step \<in> fst ` set ds \<longleftrightarrow>
      (\<exists>at. (step, at) \<in> set (started_steps bs) \<and> step \<notin> set (completed_steps bs) \<and> \<not> in_flight sd ctx step at)"
    by (force simp: bs(2))
  also have "\<dots> \<longleftrightarrow> (\<exists>at. (step, at) \<in> set (started_steps bs)) \<and> step \<notin> set (completed_steps bs) \<and> \<not> within_grace sd ctx step"
    using in_flight_grace [OF bs(1) started_steps_members] by blast
  also have "(\<exists>at. (step, at) \<in> set (started_steps bs)) \<longleftrightarrow> step \<in> fst ` set (started_steps bs)"
    by force
  finally show ?thesis
    using started_iff [OF bs(1), of step] completed_iff [OF bs(1), of step]
    by (simp add: bs(2) started_steps_names completed_steps_names [OF bs(1)] is_open_def o_def)
qed

definition example_sd :: "jdict \<Rightarrow> spec_dir" where
  "example_sd ctx =
     \<lparr>sd_feature = (example_dir ''001-a'' ''a'' [])\<lparr>ctx_file := DocFile (JDict ctx)\<rparr>, sd_place = (''specs'', ''001-a''),
      sd_files = no_files, sd_zone = (\<lambda>t. t), sd_now = 0, sd_registry = (\<lambda>_. None), sd_manifest = None,
      sd_exists = (\<lambda>_. False), sd_glob = (\<lambda>_. False)\<rparr>"

definition open_ctx_example :: jdict where
  "open_ctx_example = [(''currentStep'', JStr ''plan''),
     (''history'', JList [JDict [(''step'', JStr ''plan''), (''kind'', JStr ''start'')],
        JDict [(''step'', JStr ''specify''), (''kind'', JStr ''start'')]])]"

theorem dangling_exactly_open_witness:
  "dangling_steps (example_sd open_ctx_example) open_ctx_example = Some [(''specify'', JNull)] \<and>
   is_open open_ctx_example ''specify'' \<and> \<not> within_grace (example_sd open_ctx_example) open_ctx_example ''specify''"
proof -
  have "dangling_steps (example_sd open_ctx_example) open_ctx_example = Some [(''specify'', JNull)]"
    by code_simp
  then show ?thesis using dangling_exactly_open [of _ _ _ "''specify''"] by fastforce
qed

subsection \<open>Triage\<close>

lemma badges_completed:
  "map_of (fold badge bs badges) s = Some ''completed'' \<longleftrightarrow>
   map_of badges s = Some ''completed'' \<or> (\<exists>at. (s, ''complete'', at) \<in> set bs)"
proof (induction bs arbitrary: badges)
  case (Cons b bs)
  obtain step k at where b: "b = (step, k, at)" by (cases b)
  have "map_of (badge b badges) s = Some ''completed'' \<longleftrightarrow>
      map_of badges s = Some ''completed'' \<or> s = step \<and> k = ''complete''"
    by (simp add: b update_conv')
  then show ?case using Cons.IH by (auto simp: b simp del: badge.simps)
qed simp

lemma derived_badge_iff:
  assumes "derived_badges ctx = Some badges"
  shows "map_of badges step = Some ''completed'' \<longleftrightarrow> list_ex (is_complete_of step None) (canonical_log ctx)"
proof -
  obtain bs where bs: "boundaries (log_entries ctx) = Some bs"
      "badges = fold badge bs []"
    using assms by (auto simp: derived_badges_def)
  show ?thesis
    unfolding bs(2) badges_completed using completed_iff [OF bs(1), of step] by simp
qed

text \<open>
  The triage blames the capture exactly when the status claims the end of a step that the log has
  no completion of, and the display exactly when the status claims one that the log has; a status that
  claims nothing is not judged.
\<close>

theorem triage_blames_the_right_side:
  assumes "check_triage sd ctx = Some (s, fs)" "no_record sd ctx = None"
  shows "case claimed_step (jget ctx ''status'') of
      None \<Rightarrow> s_state s = NotApplicable \<and> fs = []
    | Some step \<Rightarrow> s_state s = Ran \<and>
        map f_topic fs = [if list_ex (is_complete_of step None) (canonical_log ctx) then RecordsAgree else RecordsDisagree] \<and>
        map f_severity fs = [if list_ex (is_complete_of step None) (canonical_log ctx) then Remark else Problem]"
proof -
  obtain badges where badges: "derived_badges ctx = Some badges"
    using assms by (auto simp: check_triage_def with_record_def split: option.splits)
  have run: "check_triage sd ctx = (case claimed_step (jget ctx ''status'') of
      None \<Rightarrow> not_applicable TriageCheck
    | Some step \<Rightarrow> ran_with TriageCheck
        [if map_of badges step = Some ''completed''
         then triage_finding Remark RecordsAgree (jget ctx ''status'') step (map_of badges step)
         else triage_finding Problem RecordsDisagree (jget ctx ''status'') step (map_of badges step)])"
    by (simp only: check_triage_def with_record_def assms(2) badges option.case)
  show ?thesis
  proof (cases "claimed_step (jget ctx ''status'')")
    case None
    then show ?thesis using assms(1) run by (auto simp: not_applicable_def check_status_def)
  next
    case (Some step)
    then show ?thesis
      using assms(1) run
      by (cases "map_of badges step = Some ''completed''")
         (auto simp: derived_badge_iff [OF badges, symmetric] ran_with_def check_status_def triage_finding_def finding_at_def)
  qed
qed

definition claimed_ctx_example :: jdict where
  "claimed_ctx_example = [(''status'', JStr ''planned''),
     (''history'', JList [JDict [(''step'', JStr ''plan''), (''kind'', JStr ''start'')]])]"

theorem triage_blames_the_right_side_witness:
  "\<exists>s fs. check_triage (example_sd claimed_ctx_example) claimed_ctx_example = Some (s, fs) \<and>
     map f_topic fs = [RecordsDisagree] \<and> \<not> list_ex (is_complete_of ''plan'' None) (canonical_log claimed_ctx_example)"
proof -
  have run: "check_triage (example_sd claimed_ctx_example) claimed_ctx_example =
      Some (check_status TriageCheck Ran,
        [triage_finding Problem RecordsDisagree (JStr ''planned'') ''plan'' (Some ''in-progress'')])"
    by code_simp
  have "no_record (example_sd claimed_ctx_example) claimed_ctx_example = None" by code_simp
  moreover have "claimed_step (jget claimed_ctx_example ''status'') = Some ''plan''" by code_simp
  ultimately show ?thesis
    using triage_blames_the_right_side [OF run] run
    by (auto simp: triage_finding_def finding_at_def split: if_splits)
qed

subsection \<open>Bursts\<close>

definition compact_cluster :: "(json \<times> int) list \<Rightarrow> bool" where
  "compact_cluster c \<longleftrightarrow> c \<noteq> [] \<and> list_all (\<lambda>x. snd x - snd (hd c) \<le> BURST_WINDOW) c"

lemma clusters_concat: "concat (clusters_from current xs) = current @ xs"
  by (induction current xs rule: clusters_from.induct) auto

lemma clusters_head:
  "clusters_from current xs \<noteq> [] \<Longrightarrow> current \<noteq> [] \<Longrightarrow> hd (hd (clusters_from current xs)) = hd current"
  by (induction current xs rule: clusters_from.induct) auto

lemma clusters_nonempty: "current \<noteq> [] \<Longrightarrow> clusters_from current xs \<noteq> []"
  by (induction current xs rule: clusters_from.induct) auto

lemma clusters_compact:
  "(current \<noteq> [] \<longrightarrow> compact_cluster current) \<Longrightarrow> list_all compact_cluster (clusters_from current xs)"
proof (induction current xs rule: clusters_from.induct)
  case (2 current x xs)
  have "compact_cluster [x]" by (simp add: compact_cluster_def BURST_WINDOW_def seconds_def)
  moreover have "compact_cluster (current @ [x])"
    if "current \<noteq> [] \<longrightarrow> compact_cluster current" "\<not> (current \<noteq> [] \<and> BURST_WINDOW < snd x - snd (hd current))"
    using that calculation by (cases current) (auto simp: compact_cluster_def)
  ultimately show ?case using 2 by auto
qed simp

text \<open>Of two neighbouring clusters the second starts more than the window after the first.\<close>

fun apart :: "(json \<times> int) list list \<Rightarrow> bool" where
  "apart (c # d # cs) = (BURST_WINDOW < snd (hd d) - snd (hd c) \<and> apart (d # cs))"
| "apart _ = True"

lemma clusters_apart: "apart (clusters_from current xs)"
proof (induction current xs rule: clusters_from.induct)
  case (2 current x xs)
  have "clusters_from [x] xs \<noteq> []" "hd (hd (clusters_from [x] xs)) = x"
    using clusters_nonempty [of "[x]" xs] clusters_head [of "[x]" xs] by simp_all
  then have "apart (clusters_from [x] xs) \<Longrightarrow> BURST_WINDOW < snd x - snd (hd current) \<Longrightarrow>
      apart (current # clusters_from [x] xs)"
    by (cases "clusters_from [x] xs") auto
  then show ?case using 2 by auto
qed simp

text \<open>
  The clusters of the task finishes are the finishes themselves, cut into pieces none of which is
  longer than the burst window and each of which starts more than a window after the one before.
\<close>

theorem clusters_partition_finishes:
  "concat (clusters_from [] xs) = xs \<and> list_all compact_cluster (clusters_from [] xs) \<and> apart (clusters_from [] xs)"
  by (simp add: clusters_concat clusters_compact clusters_apart)

text \<open>
  But a burst that straddles a cut is missed: the window is counted from the first finish of a cluster,
  so three finishes within three seconds are no burst when one came four seconds before them.
\<close>

lemma straddling_burst_is_missed:
  "bursts_of [(JStr ''T1'', seconds 0), (JStr ''T2'', seconds 4), (JStr ''T3'', seconds 6), (JStr ''T4'', seconds 7)] = []
   \<and> bursts_of [(JStr ''T2'', seconds 4), (JStr ''T3'', seconds 6), (JStr ''T4'', seconds 7)] \<noteq> []"
  by code_simp

subsection \<open>Completion\<close>

text \<open>The verdict is one of four, and each means what its name says.\<close>

lemma verdict_refused:
  assumes "status \<noteq> JStr ''completed''" "status \<noteq> JStr ''archived''"
    and "filter (\<lambda>a. \<not> truthy (jget a ''ok'')) attempts = failed" "failed \<noteq> []"
  shows "verdict_of status attempts = Refused (if truthy (jget (last failed) ''reason'') then jget (last failed) ''reason''
                            else JStr ''no reason recorded'')"
proof -
  have "attempts \<noteq> []" using assms(3,4) by auto
  then show ?thesis using assms by (cases failed) (simp_all add: verdict_of_def)
qed

lemma verdict_cases:
  "verdict_of status attempts = Completed \<longleftrightarrow> status = JStr ''completed'' \<or> status = JStr ''archived''"
  "verdict_of status attempts = NotAttempted \<longleftrightarrow>
     \<not> (status = JStr ''completed'' \<or> status = JStr ''archived'') \<and> attempts = []"
  "verdict_of status attempts = NeverArrived \<longleftrightarrow>
     \<not> (status = JStr ''completed'' \<or> status = JStr ''archived'') \<and> attempts \<noteq> [] \<and>
     list_all (\<lambda>a. truthy (jget a ''ok'')) attempts"
proof -
  show "verdict_of status attempts = Completed \<longleftrightarrow> status = JStr ''completed'' \<or> status = JStr ''archived''"
    "verdict_of status attempts = NotAttempted \<longleftrightarrow>
     \<not> (status = JStr ''completed'' \<or> status = JStr ''archived'') \<and> attempts = []"
    by (auto simp: verdict_of_def split: list.splits)
  have "list_all (\<lambda>a. truthy (jget a ''ok'')) attempts \<longleftrightarrow> filter (\<lambda>a. \<not> truthy (jget a ''ok'')) attempts = []"
    by (simp add: list_all_iff filter_empty_conv)
  then show "verdict_of status attempts = NeverArrived \<longleftrightarrow>
     \<not> (status = JStr ''completed'' \<or> status = JStr ''archived'') \<and> attempts \<noteq> [] \<and>
     list_all (\<lambda>a. truthy (jget a ''ok'')) attempts"
    by (auto simp: verdict_of_def split: list.splits)
qed

lemma shared_trace_untouched:
  "text_of (trace_call now err p c fs) (under (fst p) TRACE_NAME) = text_of fs (under (fst p) TRACE_NAME)"
proof -
  have slash: "under (fst p) TRACE_NAME \<noteq> under (dir_of p) name" for name
  proof
    assume "under (fst p) TRACE_NAME = under (dir_of p) name"
    then have "TRACE_NAME = snd p @ CHR ''/'' # name" by (simp add: under_def dir_of_def)
    then have "CHR ''/'' \<in> set TRACE_NAME" by (metis in_set_conv_decomp)
    then show False by (simp add: TRACE_NAME_def)
  qed
  have "under (fst p) TRACE_NAME \<notin> trace_files p"
    by (simp add: trace_files_def slash) (simp add: TRACE_NAME_def LOST_NAME_def)
  then show ?thesis
    using fun_cong [OF trace_call_touches_only_its_files [of now err p c fs], of "under (fst p) TRACE_NAME"]
    by (simp add: override_on_def)
qed

lemma traced_event:
  assumes "\<not> refuses fs (trace_path p)" "old_text fs (trace_path p) = trace_text h es"
    and "list_all one_line_event (es @ [trace_event_of now c])"
    and "byte_size (trace_text h (es @ [trace_event_of now c])) \<le> MAX_BYTES"
  shows "read_trace (text_of (trace_call now err p c fs) (trace_path p)) = Some (Some
    \<lparr>rd_events = map as_dict (es @ [trace_event_of now c]), rd_verdicts = [], rd_unparseable = 0,
     rd_truncated = (case h of None \<Rightarrow> 0 | Some n \<Rightarrow> n)\<rparr>)"
proof -
  have grown: "old_text fs (trace_path p) @ event_line (trace_event_of now c) =
      trace_text h (es @ [trace_event_of now c])"
    using assms(2) by (simp add: trace_text_def)
  have "enforce_cap (trace_text h (es @ [trace_event_of now c])) = Some (trace_text h (es @ [trace_event_of now c]))"
    using assms(4) by (simp add: enforce_cap_def)
  then show ?thesis
    using trace_call_text [OF assms(1)] grown read_trace_text [OF assms(3)] by simp
qed


lemma byte_size_le: "byte_size s \<le> 2 * length s"
  by (induction s) (auto simp: byte_size_def)

definition refused_call :: call where
  "refused_call = \<lparr>c_tool = ''t'', c_op = ''mark-complete'', c_ok = False, c_reason = Some ''no'', c_spec = None,
     c_files = [], c_written = 0, c_read = 0, c_ms = 1\<rparr>"

definition refused_sd :: spec_dir where
  "refused_sd = (example_sd open_ctx_example)
     \<lparr>sd_files := trace_call ''1'' ''x'' (''specs'', ''001-a'') refused_call no_files\<rparr>"


end
