(* ===== verification/DoctorDrift.thy ===== *)
theory DoctorDrift
  imports ShapeCheck DoctorRecord
begin

text \<open>
  The doctor's drift audit (\<open>doctor_drift.py\<close>): it takes the result of the drift report, classifies
  every capability that is out of sync, and accuses a run of a claim only when the words of the claim
  say that there is no drift and the recomputation found real drift.

  Git and the result of running \<open>drift.py\<close> are arguments.  Names of files and capabilities in that
  result are texts; another type raises.  A dash in a reason is written as two hyphens.
\<close>

subsection \<open>Git\<close>

text \<open>The exit code and output of \<open>git\<close> with these arguments.\<close>

type_synonym git = "string list \<Rightarrow> int \<times> string"

definition COMPANION_ARTIFACTS :: "string list" where
  "COMPANION_ARTIFACTS = [''.spec-context.json'', ''.spec-context.events.jsonl'', ''.spec-context.lock'', ''.trace.jsonl'']"

datatype drift_class = Real | Declared | SelfInflicted | SuspectBaseline | UnknownClass

fun class_name :: "drift_class \<Rightarrow> string" where
  "class_name Real = ''real''"
| "class_name Declared = ''declared''"
| "class_name SelfInflicted = ''self-inflicted''"
| "class_name SuspectBaseline = ''suspect-baseline''"
| "class_name UnknownClass = ''unknown''"

fun class_severity :: "drift_class \<Rightarrow> severity" where
  "class_severity Real = Warning"
| "class_severity SuspectBaseline = Warning"
| "class_severity _ = Remark"

definition base_name :: "string \<Rightarrow> string" where
  "base_name path = last (split_on (CHR ''/'') path)"

definition is_companion_artifact :: "string \<Rightarrow> bool" where
  "is_companion_artifact path \<longleftrightarrow> base_name path \<in> set COMPANION_ARTIFACTS"

definition commits_for :: "git \<Rightarrow> string \<Rightarrow> string list \<Rightarrow> commit list" where
  "commits_for git baseline fs =
     (if baseline = [] \<or> fs = [] then []
      else let (code, out) = git ([''log'', ''--format=%H%x1f%s'', ''--name-only'', baseline @ ''..HEAD'', ''--''] @ fs)
           in if code = 0 then parse_commit_log out else [])"

definition baseline_is_ancestor :: "git \<Rightarrow> string \<Rightarrow> bool option" where
  "baseline_is_ancestor git baseline =
     (if baseline = [] then None
      else if fst (git [''merge-base'', ''--is-ancestor'', baseline, ''HEAD'']) = 0 then Some True
      else let (code, out) = git [''cat-file'', ''-t'', baseline]
           in if code \<noteq> 0 \<or> strip out \<noteq> ''commit'' then None else Some False)"

definition renamed_files :: "git \<Rightarrow> string \<Rightarrow> string list \<Rightarrow> string list" where
  "renamed_files git baseline fs =
     (if baseline = [] \<or> fs = [] then []
      else let (code, out) = git [''diff'', ''--diff-filter=R'', ''--name-status'', ''-M'', baseline, ''HEAD''];
               renamed = map (\<lambda>l. last (split_on (CHR 0x09) l)) (filter (prefix ''R'') (splitlines out))
           in if code \<noteq> 0 then [] else filter (\<lambda>f. f \<in> set renamed) fs)"

subsection \<open>Classification\<close>

fun skip_reason_in :: "json \<Rightarrow> json list \<Rightarrow> string option option" where
  "skip_reason_in name [] = Some None"
| "skip_reason_in name (v # vs) =
     (case v of
        JDict e \<Rightarrow>
          if py_eq (jget e ''name'') name
          then (let s = (if truthy (jget e ''reason'') then strip (py_str (jget e ''reason'')) else [])
                in Some (Some (if s = [] then ''no reason recorded'' else s)))
          else skip_reason_in name vs
      | _ \<Rightarrow> skip_reason_in name vs)"

text \<open>\<open>None\<close> outside is the exception of a \<open>skipped\<close> that cannot be iterated.\<close>

definition declared_skip :: "jdict \<Rightarrow> json \<Rightarrow> string option option" where
  "declared_skip ctx name =
     (case jget ctx ''livingSpecs'' of
        JDict living \<Rightarrow> Option.bind (py_iter_or_empty (jget living ''skipped'')) (skip_reason_in name)
      | _ \<Rightarrow> Some None)"

record flag =
  fl_capability :: json
  fl_class :: drift_class
  fl_baseline :: json
  fl_files :: "string list"
  fl_commits :: "commit list"
  fl_reason :: json
  fl_claim :: json

fun file_of :: "json \<Rightarrow> string option" where
  "file_of (JDict d) = (case jget d ''file'' of JStr s \<Rightarrow> Some s | _ \<Rightarrow> None)"
| "file_of _ = None"

definition baseline_text :: "json \<Rightarrow> string option" where
  "baseline_text v = (if \<not> truthy v then Some [] else case v of JStr s \<Rightarrow> Some s | _ \<Rightarrow> None)"

definition own_records_only :: "string list \<Rightarrow> bool" where
  "own_records_only fs \<longleftrightarrow> fs \<noteq> [] \<and> list_all is_companion_artifact fs"

definition all_renamed :: "git \<Rightarrow> string \<Rightarrow> string list \<Rightarrow> bool" where
  "all_renamed git baseline fs \<longleftrightarrow>
     renamed_files git baseline fs \<noteq> [] \<and> set (renamed_files git baseline fs) = set fs"

text \<open>The class, the reason and whether the commits are looked up, once git has to be asked.\<close>

definition judge_baseline :: "git \<Rightarrow> string list \<Rightarrow> string \<Rightarrow> drift_class \<times> json \<times> bool" where
  "judge_baseline git fs baseline =
     (if baseline = []
      then (UnknownClass, JStr ''no baseline commit was recorded for this capability -- its spec has never been committed, so there is nothing to compare against'', False)
      else case baseline_is_ancestor git baseline of
        None \<Rightarrow> (UnknownClass, JStr (''the baseline commit '' @ baseline @
            '' is unreachable -- history may be shallow or rewritten''), False)
      | Some False \<Rightarrow> (SuspectBaseline, JStr (''the spec's last commit '' @ baseline @
            '' is not an ancestor of HEAD, so the comparison point is wrong (a rebase or a force-push moved it)''), False)
      | Some True \<Rightarrow>
          if all_renamed git baseline fs
          then (SuspectBaseline, JStr ''every changed file is a rename git can follow, not a change in behavior'', True)
          else (Real, JNull, True))"

definition flag_of :: "git \<Rightarrow> jdict \<Rightarrow> string list \<Rightarrow> string \<Rightarrow> drift_class \<times> json \<times> bool \<Rightarrow> flag" where
  "flag_of git cap fs baseline j =
     (case j of (cls, why, look) \<Rightarrow>
        \<lparr>fl_capability = jget cap ''name'', fl_class = cls, fl_baseline = jget cap ''commit'', fl_files = fs,
         fl_commits = (if look then commits_for git baseline fs else []), fl_reason = why, fl_claim = JNull\<rparr>)"

definition classify :: "git \<Rightarrow> jdict \<Rightarrow> jdict \<Rightarrow> flag option" where
  "classify git ctx cap =
     (case Option.bind (py_iter_or_empty (jget cap ''drifted'')) (traverse file_of) of
        None \<Rightarrow> None
      | Some fs \<Rightarrow>
          if own_records_only fs
          then Some (flag_of git cap fs []
            (SelfInflicted, JStr ''every changed file is a record the companion writes during a run'', False))
          else (case declared_skip ctx (jget cap ''name'') of
              None \<Rightarrow> None
            | Some (Some why) \<Rightarrow> Some (flag_of git cap fs []
                (Declared, JStr (''the run recorded a deliberate skip for this capability -- '' @ why), False))
            | Some None \<Rightarrow>
                map_option (\<lambda>b. flag_of git cap fs b (judge_baseline git fs b)) (baseline_text (jget cap ''commit''))))"

definition skipped_flag :: "jdict \<Rightarrow> flag" where
  "skipped_flag skip = \<lparr>fl_capability = jget skip ''name'', fl_class = UnknownClass, fl_baseline = JNull, fl_files = [],
     fl_commits = [], fl_reason = jget skip ''reason'', fl_claim = JNull\<rparr>"

subsection \<open>Recorded claims\<close>

record claim =
  cl_text :: string
  cl_result :: "string option"
  cl_at :: json
  cl_blob :: string

text \<open>The text, the moment and the blob of an entry that has an identity.\<close>

definition claim_parts :: "json \<Rightarrow> (json \<times> json \<times> string \<times> json) option" where
  "claim_parts v =
     (case v of
        JDict e \<Rightarrow> Some (jget e ''what'', jget e ''at'', json_dumps False v, jget e ''result'')
      | JStr s \<Rightarrow> Some (v, JNull, s, JNull)
      | _ \<Rightarrow> None)"

definition contains_text :: "string \<Rightarrow> string \<Rightarrow> bool" where
  "contains_text needle s \<longleftrightarrow> cut_at needle s \<noteq> None"

definition claim_of :: "json \<Rightarrow> claim option" where
  "claim_of v =
     (case claim_parts v of
        Some (JStr s, at, blob, result) \<Rightarrow>
          if strip s \<noteq> [] \<and> contains_text ''drift'' (lower blob)
          then Some \<lparr>cl_text = s, cl_result = (case result of JStr r \<Rightarrow> Some r | _ \<Rightarrow> None), cl_at = at, cl_blob = blob\<rparr>
          else None
      | _ \<Rightarrow> None)"

definition recorded_claims :: "jdict \<Rightarrow> claim list option" where
  "recorded_claims ctx = map_option (List.map_filter claim_of) (py_iter_or_empty (jget ctx ''verified''))"

subsection \<open>What a text says about drift\<close>

text \<open>
  A text is cut into its maximal runs of word characters and of other characters, so that a pattern
  between word boundaries is a comparison of whole runs.
\<close>

function segments :: "string \<Rightarrow> (bool \<times> string) list" where
  "segments [] = []"
| "segments (c # s) =
     (let w = takeWhile (\<lambda>x. is_word x = is_word c) s
      in (is_word c, c # w) # segments (drop (length w) s))"
  by pat_completeness auto
termination by (relation "measure length") (auto simp: Let_def)

type_synonym segment = "bool \<times> string"

text \<open>Every run with what stands before and after it.\<close>

definition places :: "segment list \<Rightarrow> (segment list \<times> segment \<times> segment list) list" where
  "places segs = map (\<lambda>i. (take i segs, segs ! i, drop (Suc i) segs)) [0..<length segs]"

definition is_one_of :: "string list \<Rightarrow> segment \<Rightarrow> bool" where
  "is_one_of ws seg \<longleftrightarrow> fst seg \<and> lower (snd seg) \<in> set ws"

text \<open>The words follow each other with one blank between them.\<close>

fun phrase_at :: "string list \<Rightarrow> segment list \<Rightarrow> bool" where
  "phrase_at [] segs = True"
| "phrase_at [w] (seg # segs) = is_one_of [w] seg"
| "phrase_at (w # ws) (seg # gap # segs) = (is_one_of [w] seg \<and> gap = (False, '' '') \<and> phrase_at ws segs)"
| "phrase_at _ _ = False"

definition phrase_in :: "string list \<Rightarrow> segment list \<Rightarrow> bool" where
  "phrase_in ws segs \<longleftrightarrow> list_ex (\<lambda>(b, seg, a). phrase_at ws (seg # a)) (places segs)"

definition NEGATORS :: "string list" where
  "NEGATORS = [''not'', ''no'', ''never'', ''without'', ''zero'', ''isn'' @ [CHR 0x27] @ ''t'', ''aren'' @ [CHR 0x27] @ ''t'',
     ''wasn'' @ [CHR 0x27] @ ''t'', ''longer'', ''n'' @ [CHR 0x27] @ ''t'']"

text \<open>A negator among the four words before a place; an apostrophe belongs to its word here.\<close>

definition negated :: "segment list \<Rightarrow> bool" where
  "negated before =
     (let ws = runs (\<lambda>c. is_word c \<or> c = CHR 0x27) [] (concat (map snd before))
      in list_ex (\<lambda>w. lower w \<in> set NEGATORS) (drop (length ws - 4) ws))"

definition DRIFT_WORDS :: "string list" where
  "DRIFT_WORDS = [''drift'', ''drifted'', ''drifts'', ''drifting'']"

definition did_not_run :: "segment list \<Rightarrow> bool" where
  "did_not_run segs \<longleftrightarrow> list_ex (is_one_of [''skipped'', ''unavailable'']) segs \<or>
     phrase_in [''not'', ''run''] segs \<or> phrase_in [''could'', ''not''] segs"

definition plain_failure :: "segment list \<Rightarrow> bool" where
  "plain_failure segs \<longleftrightarrow> list_ex (is_one_of [''fail'', ''failed'', ''failure'', ''fails'', ''blocked'']) segs \<or>
     phrase_in [''out'', ''of'', ''sync''] segs"

definition drift_reported :: "segment list \<Rightarrow> bool" where
  "drift_reported after =
     (case dropWhile (\<lambda>seg. \<not> fst seg) after of
        [] \<Rightarrow> False
      | seg # _ \<Rightarrow> is_one_of [''found'', ''detected'', ''in'', ''across''] seg)"

definition drift_places :: "segment list \<Rightarrow> (segment list \<times> segment \<times> segment list) list" where
  "drift_places segs = filter (\<lambda>(b, seg, a). is_one_of DRIFT_WORDS seg) (places segs)"

definition sync_places :: "segment list \<Rightarrow> (segment list \<times> segment \<times> segment list) list" where
  "sync_places segs = filter (\<lambda>(b, seg, a). phrase_at [''in'', ''sync''] (seg # a)) (places segs)"

definition signals :: "string \<Rightarrow> bool \<times> bool" where
  "signals s =
     (let segs = segments s in
      if s = [] \<or> did_not_run segs then (False, False)
      else (list_ex (\<lambda>(b, seg, a). negated b) (drift_places segs) \<or>
              list_ex (\<lambda>(b, seg, a). \<not> negated b) (sync_places segs),
            list_ex (\<lambda>(b, seg, a). \<not> negated b \<and> drift_reported a) (drift_places segs) \<or>
              list_ex (\<lambda>(b, seg, a). negated b) (sync_places segs) \<or> plain_failure segs))"

definition asserts_clean :: "string \<Rightarrow> bool" where
  "asserts_clean s \<longleftrightarrow> fst (signals s) \<and> \<not> snd (signals s)"

text \<open>An outcome without a verdict; the two check marks are outside the characters of the model.\<close>

definition generic_outcome :: "string \<Rightarrow> bool" where
  "generic_outcome s \<longleftrightarrow> lower (strip s) \<in> set [[], ''pass'', ''passed'', ''ok'', ''done'', ''yes'', ''true'']"

definition judged_text :: "claim \<Rightarrow> string" where
  "judged_text c =
     (let outcome = (case cl_result c of None \<Rightarrow> [] | Some r \<Rightarrow> strip r) in
      if outcome \<noteq> [] \<and> \<not> generic_outcome outcome then outcome else strip (cl_text c))"

definition claims_clean :: "claim \<Rightarrow> bool" where
  "claims_clean c =
     (let outcome = (case cl_result c of None \<Rightarrow> [] | Some r \<Rightarrow> strip r) in
      if outcome \<noteq> [] \<and> \<not> generic_outcome outcome
      then (let (clean, drifted) = signals outcome in if drifted then False else clean)
      else asserts_clean (strip (cl_text c)))"

subsection \<open>The check\<close>

definition commit_dict :: "commit \<Rightarrow> json" where
  "commit_dict k = JDict [(''sha'', JStr (k_sha k)), (''subject'', JStr (k_subject k)), (''files'', json_names (k_files k))]"

definition flag_dict :: "flag \<Rightarrow> jdict" where
  "flag_dict f =
     [(''capability'', fl_capability f), (''class'', JStr (class_name (fl_class f))), (''baseline'', fl_baseline f),
      (''files'', json_names (fl_files f)), (''commits'', JList (map commit_dict (fl_commits f))),
      (''reason'', fl_reason f), (''claim'', fl_claim f)]"

definition flag_finding :: "flag \<Rightarrow> finding" where
  "flag_finding f = finding_at DriftCheck (class_severity (fl_class f)) CapabilityDrift (flag_dict f)"

definition claim_dict :: "claim \<Rightarrow> json" where
  "claim_dict c = JDict [(''source'', JStr ''verified[]''), (''text'', JStr (cl_text c)),
     (''result'', opt_json (cl_result c)), (''at'', cl_at c), (''blob'', JStr (cl_blob c))]"

definition claim_mark :: "claim \<Rightarrow> json" where
  "claim_mark c = JDict [(''source'', JStr ''verified[]''), (''text'', JStr (cl_text c)), (''at'', cl_at c)]"

definition accusation :: "string \<Rightarrow> claim \<Rightarrow> finding" where
  "accusation names c = finding_at DriftCheck Problem FalseClaim
     [(''claim'', claim_dict c), (''contradicted_by'', JStr names)]"

fun as_capability :: "json \<Rightarrow> jdict option" where
  "as_capability (JDict d) = Some d"
| "as_capability _ = None"

definition drift_flags :: "git \<Rightarrow> jdict \<Rightarrow> jdict \<Rightarrow> flag list option" where
  "drift_flags git ctx result =
     (case (Option.bind (py_iter_or_empty (jget result ''capabilities'')) (traverse as_capability),
            Option.bind (py_iter_or_empty (jget result ''skipped'')) (traverse as_capability)) of
        (Some caps, Some skips) \<Rightarrow>
          map_option (\<lambda>fs. fs @ map skipped_flag skips)
            (traverse (classify git ctx) (filter (\<lambda>c. \<not> truthy (jget c ''inSync'')) caps))
      | _ \<Rightarrow> None)"

text \<open>Joining a reason into the detail line raises when it is neither a text nor empty.\<close>

definition reason_ok :: "flag \<Rightarrow> bool" where
  "reason_ok f \<longleftrightarrow> \<not> truthy (fl_reason f) \<or> is_str (fl_reason f)"

definition real_flags :: "flag list \<Rightarrow> flag list" where
  "real_flags flags = filter (\<lambda>f. fl_class f = Real) flags"

definition accused :: "claim list \<Rightarrow> flag list \<Rightarrow> claim list" where
  "accused claims flags = (if real_flags flags = [] then [] else filter claims_clean claims)"

definition mark_flag :: "claim list \<Rightarrow> flag \<Rightarrow> flag" where
  "mark_flag accs f =
     (if fl_class f = Real \<and> accs \<noteq> [] then f\<lparr>fl_claim := claim_mark (last accs)\<rparr> else f)"

definition real_names :: "flag list \<Rightarrow> string option" where
  "real_names flags =
     map_option (join '', '') (traverse (\<lambda>f. case fl_capability f of JStr s \<Rightarrow> Some s | _ \<Rightarrow> None) (real_flags flags))"

definition check_drift :: "git \<Rightarrow> json option \<Rightarrow> jdict \<Rightarrow> check_fun" where
  "check_drift git recomputed ctx r =
     (case recomputed of
        None \<Rightarrow> (r, skipped_for DriftCheck NoDriftResult)
      | Some JNull \<Rightarrow> (r, skipped_for DriftCheck NoDriftResult)
      | Some (JDict result) \<Rightarrow>
          if \<not> truthy (jget result ''enabled'') then (r, not_applicable DriftCheck)
          else (case (drift_flags git ctx result, recorded_claims ctx) of
              (Some flags, Some claims) \<Rightarrow>
                (let accs = accused claims flags; marked = map (mark_flag accs) flags in
                 case (if accs = [] then Some [] else real_names flags) of
                   Some names \<Rightarrow>
                     if list_all reason_ok flags
                     then (r\<lparr>r_drift := map flag_dict marked\<rparr>,
                           ran_with DriftCheck (map flag_finding marked @ map (accusation names) accs))
                     else (r, None)
                 | None \<Rightarrow> (r, None))
            | _ \<Rightarrow> (r, None))
      | Some _ \<Rightarrow> (r, None))"

section \<open>Facts about the audit\<close>

lemma classify_name: "classify git ctx cap = Some f \<Longrightarrow> fl_capability f = jget cap ''name''"
  by (auto simp: classify_def flag_of_def case_prod_beta split: option.splits if_splits)

text \<open>
  Drift is called real only when it is: a flag of that class names a capability without a recorded
  skip whose baseline is an ancestor of the head, with changed files that are not all records of the
  companion's own and not all renames; and whenever all of this holds the flag is real.
\<close>

theorem real_drift_exactly:
  assumes "classify git ctx cap = Some f"
  shows "fl_class f = Real \<longleftrightarrow>
    \<not> own_records_only (fl_files f) \<and> declared_skip ctx (fl_capability f) = Some None \<and>
    (\<exists>b. baseline_text (fl_baseline f) = Some b \<and> baseline_is_ancestor git b = Some True \<and>
       \<not> all_renamed git b (fl_files f))"
proof -
  have empty: "baseline_is_ancestor git [] = None" by (simp add: baseline_is_ancestor_def)
  show ?thesis
    using assms
    by (auto simp: classify_def flag_of_def judge_baseline_def empty split: option.splits if_splits bool.splits)
qed

text \<open>The capabilities the audit must answer for.\<close>

definition out_of_sync :: "jdict list \<Rightarrow> jdict list" where
  "out_of_sync caps = filter (\<lambda>c. \<not> truthy (jget c ''inSync'')) caps"

definition capability_findings :: "finding list \<Rightarrow> finding list" where
  "capability_findings fs = filter (\<lambda>f. f_topic f = CapabilityDrift) fs"

lemma flag_finding_fields [simp]:
  "f_topic (flag_finding f) = CapabilityDrift" "jget (f_evidence (flag_finding f)) ''capability'' = fl_capability f"
  "jget (f_evidence (flag_finding f)) ''class'' = JStr (class_name (fl_class f))"
  "f_severity (flag_finding f) = class_severity (fl_class f)" "f_check (flag_finding f) = DriftCheck"
  by (simp_all add: flag_finding_def finding_at_def flag_dict_def jget_def)

lemma accusation_fields [simp]:
  "f_topic (accusation names c) = FalseClaim" "f_check (accusation names c) = DriftCheck"
  by (simp_all add: accusation_def finding_at_def)

lemma mark_flag_keeps [simp]: "fl_capability (mark_flag accs f) = fl_capability f" "fl_class (mark_flag accs f) = fl_class f"
  by (simp_all add: mark_flag_def)

lemma drift_flags_names:
  assumes "drift_flags git ctx result = Some flags"
    and "Option.bind (py_iter_or_empty (jget result ''capabilities'')) (traverse as_capability) = Some caps"
    and "Option.bind (py_iter_or_empty (jget result ''skipped'')) (traverse as_capability) = Some skips"
  shows "map fl_capability flags = map (\<lambda>c. jget c ''name'') (out_of_sync caps @ skips)"
proof -
  obtain fs where fs: "traverse (classify git ctx) (out_of_sync caps) = Some fs" "flags = fs @ map skipped_flag skips"
    using assms by (auto simp: drift_flags_def out_of_sync_def)
  have "traverse (classify git ctx) cs = Some gs \<Longrightarrow> map fl_capability gs = map (\<lambda>c. jget c ''name'') cs" for cs gs
    by (induction cs arbitrary: gs) (auto split: option.splits dest: classify_name)
  from this [OF fs(1)] show ?thesis by (simp add: fs(2) skipped_flag_def)
qed

lemma check_drift_ran:
  assumes "check_drift git (Some (JDict result)) ctx r = (r', Some (s, fs))" "s_state s = Ran"
  obtains flags claims names where "drift_flags git ctx result = Some flags" "recorded_claims ctx = Some claims"
    "r' = r\<lparr>r_drift := map flag_dict (map (mark_flag (accused claims flags)) flags)\<rparr>"
    "fs = map flag_finding (map (mark_flag (accused claims flags)) flags) @ map (accusation names) (accused claims flags)"
  using assms
  by (auto simp: check_drift_def Let_def ran_with_def not_applicable_def check_status_def split: option.splits if_splits)

text \<open>
  The audit answers for every capability: when it ran, its capability findings name, in order,
  exactly the capabilities the recomputation has out of sync and then those it had to skip, and the
  flags it publishes are those of the findings.
\<close>

theorem audit_answers_for_every_capability:
  assumes "check_drift git (Some (JDict result)) ctx r = (r', Some (s, fs))" "s_state s = Ran"
    and "Option.bind (py_iter_or_empty (jget result ''capabilities'')) (traverse as_capability) = Some caps"
    and "Option.bind (py_iter_or_empty (jget result ''skipped'')) (traverse as_capability) = Some skips"
  shows "map (\<lambda>f. jget (f_evidence f) ''capability'') (capability_findings fs) =
      map (\<lambda>c. jget c ''name'') (out_of_sync caps @ skips) \<and>
    r_drift r' = map f_evidence (capability_findings fs)"
proof -
  obtain flags claims names where d: "drift_flags git ctx result = Some flags" "recorded_claims ctx = Some claims"
    "r' = r\<lparr>r_drift := map flag_dict (map (mark_flag (accused claims flags)) flags)\<rparr>"
    "fs = map flag_finding (map (mark_flag (accused claims flags)) flags) @ map (accusation names) (accused claims flags)"
    using check_drift_ran [OF assms(1,2)] by blast
  have flags: "capability_findings fs = map flag_finding (map (mark_flag (accused claims flags)) flags)"
    by (simp add: capability_findings_def d(4) filter_map o_def)
  show ?thesis
    unfolding flags using drift_flags_names [OF d(1) assms(3,4)]
    by (simp add: d(3) o_def) (simp add: flag_finding_def finding_at_def)
qed

text \<open>
  No run is accused without its own words: an accusation quotes a claim of the record whose
  judged text has a negated word of drift or an unnegated \<open>in sync\<close>, has no word of failure and no word
  of a check that did not run, while some capability has drifted in earnest.
\<close>

definition definite_words :: "string \<Rightarrow> bool" where
  "definite_words s \<longleftrightarrow>
     (list_ex (\<lambda>(b, seg, a). negated b) (drift_places (segments s)) \<or>
      list_ex (\<lambda>(b, seg, a). \<not> negated b) (sync_places (segments s))) \<and>
     \<not> plain_failure (segments s) \<and> \<not> did_not_run (segments s)"

lemma clean_claim_is_definite: "claims_clean c \<Longrightarrow> definite_words (judged_text c)"
  by (auto simp: claims_clean_def judged_text_def asserts_clean_def signals_def definite_words_def Let_def
      split: if_splits)

theorem accusation_needs_words_and_drift:
  assumes "check_drift git recomputed ctx r = (r', Some (s, fs))"
  shows "list_all (\<lambda>f. f_topic f = FalseClaim \<longrightarrow>
    (\<exists>c claims names. recorded_claims ctx = Some claims \<and> c \<in> set claims \<and> definite_words (judged_text c) \<and>
       f = accusation names c \<and>
       list_ex (\<lambda>g. f_severity g = Warning \<and> jget (f_evidence g) ''class'' = JStr ''real'') fs)) fs"
proof (cases "s_state s = Ran")
  case False
  then have "fs = []"
    using assms by (auto simp: check_drift_def skipped_for_def not_applicable_def ran_with_def check_status_def Let_def
        split: option.splits json.splits if_splits)
  then show ?thesis by simp
next
  case True
  then obtain result where "recomputed = Some (JDict result)"
    using assms by (auto simp: check_drift_def skipped_for_def check_status_def split: option.splits json.splits)
  then obtain flags claims names where d: "recorded_claims ctx = Some claims"
    "fs = map flag_finding (map (mark_flag (accused claims flags)) flags) @ map (accusation names) (accused claims flags)"
    using check_drift_ran assms True by blast
  have "list_ex (\<lambda>g. f_severity g = Warning \<and> jget (f_evidence g) ''class'' = JStr ''real'') fs"
    if accs: "accused claims flags \<noteq> []"
  proof -
    obtain g where "g \<in> set flags" "fl_class g = Real"
      using accs by (auto simp: accused_def real_flags_def filter_empty_conv split: if_splits)
    moreover from this have "flag_finding (mark_flag (accused claims flags) g) \<in> set fs" by (simp add: d(2))
    ultimately show ?thesis
      unfolding list_ex_iff by (intro bexI [of _ "flag_finding (mark_flag (accused claims flags) g)"]) simp_all
  qed
  moreover have "c \<in> set claims \<and> definite_words (judged_text c)" if "c \<in> set (accused claims flags)" for c
    using that clean_claim_is_definite by (auto simp: accused_def split: if_splits)
  ultimately show ?thesis
    using d(1) by (force simp: list_all_iff d(2))
qed

definition quiet_git :: git where
  "quiet_git args = (0, [])"

definition drifted_cap :: jdict where
  "drifted_cap = [(''name'', JStr ''auth''), (''commit'', JStr ''abc''),
     (''drifted'', JList [JDict [(''file'', JStr ''a.py'')]])]"

definition drift_result :: jdict where
  "drift_result = [(''enabled'', JBool True), (''capabilities'', JList [JDict drifted_cap])]"

definition claiming_ctx :: jdict where
  "claiming_ctx = [(''verified'', JList [JStr ''no drift found''])]"

theorem real_drift_exactly_witness:
  "\<exists>f. classify quiet_git [] drifted_cap = Some f \<and> fl_class f = Real \<and> \<not> own_records_only (fl_files f)"
proof -
  have "classify quiet_git [] drifted_cap \<noteq> None" by code_simp
  then obtain f where f: "classify quiet_git [] drifted_cap = Some f" by auto
  have "map_option fl_class (classify quiet_git [] drifted_cap) = Some Real" by code_simp
  then have "fl_class f = Real" by (simp add: f)
  then show ?thesis using real_drift_exactly [OF f] f by auto
qed

lemma claim_example_run:
  "map_option (\<lambda>(s, fs). (s_state s, map f_topic fs))
     (snd (check_drift quiet_git (Some (JDict drift_result)) claiming_ctx (new_report ''a''))) =
   Some (Ran, [CapabilityDrift, FalseClaim])"
  by code_simp

theorem audit_answers_for_every_capability_witness:
  "\<exists>r' s fs. check_drift quiet_git (Some (JDict drift_result)) claiming_ctx (new_report ''a'') = (r', Some (s, fs)) \<and>
     map (\<lambda>f. jget (f_evidence f) ''capability'') (capability_findings fs) = [JStr ''auth'']"
proof -
  obtain r' s fs where run: "check_drift quiet_git (Some (JDict drift_result)) claiming_ctx (new_report ''a'') = (r', Some (s, fs))"
      "s_state s = Ran"
    using claim_example_run by (cases "check_drift quiet_git (Some (JDict drift_result)) claiming_ctx (new_report ''a'')") auto
  have lists: "Option.bind (py_iter_or_empty (jget drift_result ''capabilities'')) (traverse as_capability) = Some [drifted_cap]"
    "Option.bind (py_iter_or_empty (jget drift_result ''skipped'')) (traverse as_capability) = Some []"
    by code_simp+
  have "map (\<lambda>c. jget c ''name'') (out_of_sync [drifted_cap] @ []) = [JStr ''auth'']" by code_simp
  then show ?thesis using audit_answers_for_every_capability [OF run lists] run(1) by auto
qed

theorem accusation_needs_words_and_drift_witness:
  "\<exists>r' s fs. check_drift quiet_git (Some (JDict drift_result)) claiming_ctx (new_report ''a'') = (r', Some (s, fs)) \<and>
     list_ex (\<lambda>f. f_topic f = FalseClaim) fs \<and>
     list_ex (\<lambda>g. f_severity g = Warning \<and> jget (f_evidence g) ''class'' = JStr ''real'') fs"
proof -
  obtain r' s fs where run: "check_drift quiet_git (Some (JDict drift_result)) claiming_ctx (new_report ''a'') = (r', Some (s, fs))"
      "map f_topic fs = [CapabilityDrift, FalseClaim]"
    using claim_example_run by (cases "check_drift quiet_git (Some (JDict drift_result)) claiming_ctx (new_report ''a'')") auto
  have "list_ex (\<lambda>f. f_topic f = FalseClaim) fs" using run(2) by auto
  then show ?thesis
    using accusation_needs_words_and_drift [OF run(1)] run(1) by (auto simp: list_all_iff list_ex_iff)
qed

text \<open>How the words are read: the examples of the code's comments.\<close>

lemma signal_examples:
  "signals ''no drift found'' = (True, False)" "signals ''no real drift found'' = (True, False)"
  "signals ''drift found'' = (False, True)" "signals ''3 files drifted in auth'' = (False, True)"
  "signals ''not in sync'' = (False, True)" "signals ''drift check skipped'' = (False, False)"
  "signals ''out of sync'' = (False, True)"
  by code_simp+

end
