(* ===== verification/DoctorBleed.thy ===== *)
theory DoctorBleed
  imports ShapeCheck DoctorRecord
begin

text \<open>
  Step bleed (\<open>doctor_bleed.py\<close>): task lists, code and plans in the document of an earlier step, task
  ids in two documents, source files committed before implement, and where the time of the run went.

  The output of \<open>git log\<close> for a window of time is an argument.  Shares of time are exact fractions
  where the code has floats, and times in the evidence are microseconds.
\<close>

subsection \<open>Documents\<close>

definition CODE_BLOCK_LINES :: nat where "CODE_BLOCK_LINES = 12"

definition CODE_LANGS :: "string list" where
  "CODE_LANGS = [''py'', ''python'', ''ts'', ''typescript'', ''js'', ''javascript'', ''tsx'', ''jsx'', ''go'', ''rs'',
     ''java'', ''rb'', ''c'', ''cpp'', ''sh'', ''bash'', ''zsh'']"

definition NON_SOURCE_PREFIXES :: "string list" where
  "NON_SOURCE_PREFIXES = [''specs/'', ''capabilities/'', ''.specify/'', ''.claude/'', ''docs/'']"

definition NON_SOURCE_SUFFIXES :: "string list" where
  "NON_SOURCE_SUFFIXES = [''.md'', ''.json'', ''.yml'', ''.yaml'', ''.lock'', ''.txt'']"

definition STEPS_BEFORE_IMPLEMENT :: "string list" where
  "STEPS_BEFORE_IMPLEMENT = [''specify'', ''plan'', ''tasks'']"

text \<open>The three documents of a spec, by name and text.\<close>

definition core_docs :: "feature \<Rightarrow> (string \<times> string option) list" where
  "core_docs st =
     [(feature_spec_path st, map_of (md_files st) (feature_spec_path st)),
      (''plan.md'', map_of (md_files st) ''plan.md''), (''tasks.md'', tasks_md st)]"

definition text_or_empty :: "string option \<Rightarrow> string" where
  "text_or_empty s = (case s of None \<Rightarrow> [] | Some x \<Rightarrow> x)"

definition task_ids :: "string option \<Rightarrow> string list" where
  "task_ids s = (case s of None \<Rightarrow> [] | Some x \<Rightarrow> fst (parse_task_markers (Some x)))"

definition is_lang_char :: "char \<Rightarrow> bool" where
  "is_lang_char c =
     (let n = (of_char c :: nat)
      in (48 \<le> n \<and> n \<le> 57) \<or> (65 \<le> n \<and> n \<le> 90) \<or> (97 \<le> n \<and> n \<le> 122) \<or> c \<in> set ''_+-'')"

definition fence_lang :: "string \<Rightarrow> string option" where
  "fence_lang l =
     (let ticks = [CHR 0x60, CHR 0x60, CHR 0x60]; r = drop 3 l; lang = takeWhile is_lang_char r
      in if prefix ticks l \<and> strip (drop (length lang) r) = [] then Some (lower lang) else None)"

fun code_blocks_from :: "nat \<Rightarrow> (string \<times> nat) option \<Rightarrow> string list \<Rightarrow> (string \<times> nat) list" where
  "code_blocks_from i open [] = []"
| "code_blocks_from i open (l # ls) =
     (case fence_lang l of
        None \<Rightarrow> code_blocks_from (Suc i) open ls
      | Some lang \<Rightarrow>
          (case open of
             None \<Rightarrow> code_blocks_from (Suc i) (Some (lang, i)) ls
           | Some (opened, start) \<Rightarrow> (opened, i - start - 1) # code_blocks_from (Suc i) None ls))"

definition code_blocks_in :: "string \<Rightarrow> (string \<times> nat) list" where
  "code_blocks_in s = code_blocks_from 0 None (splitlines s)"

definition implementation_blocks :: "string \<Rightarrow> (string \<times> nat) list" where
  "implementation_blocks s = filter (\<lambda>(lang, n). lang \<in> set CODE_LANGS \<and> CODE_BLOCK_LINES \<le> n) (code_blocks_in s)"

subsection \<open>Signals\<close>

record signal =
  sg_step :: string
  sg_did :: string
  sg_what :: string
  sg_where :: string
  sg_evidence :: "string list"

definition signal_of :: "string \<Rightarrow> string \<Rightarrow> string \<Rightarrow> string \<Rightarrow> string list \<Rightarrow> signal" where
  "signal_of step did what at ev = \<lparr>sg_step = step, sg_did = did, sg_what = what, sg_where = at, sg_evidence = ev\<rparr>"

definition code_signals :: "string \<Rightarrow> string \<Rightarrow> string \<Rightarrow> signal list" where
  "code_signals step doc s =
     (let code = implementation_blocks s in
      if code = [] then []
      else [signal_of step ''implement'' (nat_text (length code) @ '' implementation code block(s) in '' @ doc) doc
        (map (\<lambda>(lang, n). lang @ '' x'' @ nat_text n @ '' lines'') (take 5 code))])"

text \<open>\<open>sorted(set(ids))[:10]\<close>.\<close>

definition some_ids :: "string list \<Rightarrow> string list" where
  "some_ids ids = take 10 (sort (remdups ids))"

definition task_signal :: "string \<Rightarrow> string \<Rightarrow> string list \<Rightarrow> signal list" where
  "task_signal step doc ids =
     (if ids = [] then []
      else [signal_of step ''tasks'' (nat_text (length ids) @ '' task checkbox(es) in '' @ doc) doc (some_ids ids)])"

text \<open>A heading of at least two hashes with one of the plan's words, at the start of a line.\<close>

fun lines_from :: "string \<Rightarrow> string list" where
  "lines_from [] = []"
| "lines_from (c # s) = (if c = CHR 0x0A then s # lines_from s else lines_from s)"

definition PLAN_HEADINGS :: "string list" where
  "PLAN_HEADINGS = [''Approach'', ''Project Structure'', ''Architecture'', ''Design'']"

definition plan_heading_at :: "string \<Rightarrow> bool" where
  "plan_heading_at s \<longleftrightarrow>
     (let r = dropWhile is_space (dropWhile (\<lambda>c. c = CHR ''#'') s) in
      prefix ''##'' s \<and>
      list_ex (\<lambda>h. prefix h r \<and> (drop (length h) r = [] \<or> \<not> is_word (hd (drop (length h) r)))) PLAN_HEADINGS)"

definition has_plan_heading :: "string \<Rightarrow> bool" where
  "has_plan_heading s = list_ex plan_heading_at (s # lines_from s)"

definition spec_signals :: "feature \<Rightarrow> bool \<Rightarrow> signal list" where
  "spec_signals st fast =
     (let doc = feature_spec_path st; file = map_of (md_files st) doc; s = text_or_empty file in
      if s = [] then []
      else task_signal ''specify'' doc (task_ids file) @
        (if fast then []
         else code_signals ''specify'' doc s @
           (if has_plan_heading s
            then [signal_of ''specify'' ''plan''
              (''a plan-shaped section in '' @ doc @ '' (approach, structure, or design)'') doc []] else [])))"

definition plan_signals :: "feature \<Rightarrow> bool \<Rightarrow> signal list" where
  "plan_signals st fast =
     (let file = map_of (md_files st) ''plan.md''; s = text_or_empty file in
      if s = [] then []
      else (if fast then [] else task_signal ''plan'' ''plan.md'' (task_ids file)) @ code_signals ''plan'' ''plan.md'' s)"

definition tasks_signals :: "feature \<Rightarrow> signal list" where
  "tasks_signals st =
     (let s = text_or_empty (tasks_md st) in if s = [] then [] else code_signals ''tasks'' ''tasks.md'' s)"

text \<open>A size that is set must be a text.\<close>

definition fast_path :: "jdict \<Rightarrow> bool option" where
  "fast_path ctx =
     (if \<not> truthy (jget ctx ''size'') then Some False
      else case jget ctx ''size'' of JStr s \<Rightarrow> Some (lower s = ''simple'') | _ \<Rightarrow> None)"

definition artifact_signals :: "feature \<Rightarrow> jdict \<Rightarrow> signal list option" where
  "artifact_signals st ctx =
     map_option (\<lambda>fast. spec_signals st fast @ plan_signals st fast @ tasks_signals st) (fast_path ctx)"

text \<open>The ids with the documents that hold them, each id once.\<close>

definition docs_with :: "feature \<Rightarrow> string \<Rightarrow> string list" where
  "docs_with st tid = map fst (filter (\<lambda>(doc, file). tid \<in> set (task_ids file)) (core_docs st))"

definition duplicated_ids :: "feature \<Rightarrow> string list" where
  "duplicated_ids st =
     filter (\<lambda>tid. 1 < length (docs_with st tid)) (remdups (concat (map (task_ids \<circ> snd) (core_docs st))))"

definition duplication_signals :: "feature \<Rightarrow> signal list" where
  "duplication_signals st =
     (let dupes = duplicated_ids st in
      if dupes = [] then []
      else [signal_of ''tasks'' ''tasks'' (nat_text (length dupes) @ '' task id(s) appear in more than one document'')
        (join '' and '' (sort (remdups (concat (map (docs_with st) dupes))))) (take 10 (sort dupes))])"

subsection \<open>Windows of the steps\<close>

definition step_moment :: "spec_dir \<Rightarrow> jdict \<Rightarrow> (string \<times> string \<times> int) list option" where
  "step_moment sd e =
     (case (jget e ''step'', time_of sd e) of
        (JStr step, Some t) \<Rightarrow>
          if is_step_level e then map_option (\<lambda>k. [(step, k, t)]) (entry_kind e) else Some []
      | _ \<Rightarrow> Some [])"

definition first_starts :: "(string \<times> string \<times> int) list \<Rightarrow> (string \<times> int) list" where
  "first_starts ms = fold (\<lambda>(step, k, t) st.
     if k = ''start'' \<and> map_of st step = None then st @ [(step, t)] else st) ms []"

definition last_end :: "(string \<times> string \<times> int) list \<Rightarrow> string \<Rightarrow> int option" where
  "last_end ms step =
     (case filter (\<lambda>(s, k, t). s = step \<and> k \<noteq> ''start'') ms of [] \<Rightarrow> None | es \<Rightarrow> Some (snd (snd (last es))))"

definition windows_of :: "(string \<times> string \<times> int) list \<Rightarrow> (string \<times> int \<times> int) list" where
  "windows_of ms =
     List.map_filter (\<lambda>(step, a). case last_end ms step of
        Some b \<Rightarrow> if a \<le> b then Some (step, a, b) else None
      | None \<Rightarrow> None) (first_starts ms)"

definition step_windows :: "spec_dir \<Rightarrow> jdict \<Rightarrow> (string \<times> int \<times> int) list option" where
  "step_windows sd ctx =
     map_option (\<lambda>xs. windows_of (concat xs)) (traverse (step_moment sd) (log_entries ctx))"

definition is_source :: "string \<Rightarrow> bool" where
  "is_source path =
     (let p = strip path in
      p \<noteq> [] \<and> \<not> list_ex (\<lambda>x. prefix x p) NON_SOURCE_PREFIXES \<and> \<not> list_ex (\<lambda>x. suffix x p) NON_SOURCE_SUFFIXES)"

definition early_hits :: "string \<Rightarrow> (string \<times> string \<times> string list) list" where
  "early_hits log =
     filter (\<lambda>(s, j, fs). fs \<noteq> [])
       (map (\<lambda>k. (k_sha k, k_subject k, filter is_source (k_files k))) (parse_commit_log log))"

definition early_signal :: "string \<Rightarrow> (string \<times> string \<times> string list) list \<Rightarrow> signal list" where
  "early_signal step hits =
     (let fs = sort (remdups (concat (map (\<lambda>(s, j, fs). fs) hits))) in
      if hits = [] then []
      else [signal_of step ''implement''
        (nat_text (length fs) @ '' source file(s) committed during the '' @ step @ '' step'')
        (join '', '' (map (\<lambda>(s, j, fs). s @ '' '' @ j) (take 3 hits))) (take 10 fs)])"

text \<open>\<open>log a b\<close>: exit code and output of \<open>git log\<close> without merges, from \<open>a\<close> to \<open>b\<close>.\<close>

definition early_source_signals ::
  "(int \<Rightarrow> int \<Rightarrow> int \<times> string) \<Rightarrow> (string \<times> int \<times> int) list \<Rightarrow> signal list" where
  "early_source_signals log ws =
     concat (map (\<lambda>step. case map_of ws step of
        None \<Rightarrow> []
      | Some (a, b) \<Rightarrow>
          (let (code, out) = log a b in
           if code \<noteq> 0 \<or> strip out = [] then [] else early_signal step (early_hits out)))
      STEPS_BEFORE_IMPLEMENT)"

subsection \<open>Shares of time\<close>

record share =
  sh_step :: string
  sh_seconds :: int
  sh_implement :: int
  sh_elapsed :: int
  sh_span :: int

definition window_length :: "string \<times> int \<times> int \<Rightarrow> int" where
  "window_length w = snd (snd w) - fst (snd w)"

definition span_total :: "(string \<times> int \<times> int) list \<Rightarrow> int" where
  "span_total ws = sum_list (map window_length ws)"

fun elapsed_of :: "(string \<times> int \<times> int) list \<Rightarrow> int" where
  "elapsed_of [] = 0"
| "elapsed_of (w # ws) =
     fold max (map (\<lambda>w. snd (snd w)) ws) (snd (snd w)) - fold min (map (\<lambda>w. fst (snd w)) ws) (fst (snd w))"

text \<open>The longest of the steps before implement that took longer than it; the first of equals.\<close>

fun longest_window :: "(string \<times> int \<times> int) list \<Rightarrow> (string \<times> int \<times> int) option" where
  "longest_window [] = None"
| "longest_window (w # ws) =
     (case longest_window ws of
        None \<Rightarrow> Some w
      | Some v \<Rightarrow> if window_length v \<le> window_length w then Some w else Some v)"

definition time_share :: "(string \<times> int \<times> int) list \<Rightarrow> share option" where
  "time_share ws =
     (case map_of ws ''implement'' of
        None \<Rightarrow> None
      | Some (a, b) \<Rightarrow>
          if span_total ws \<le> 0 then None
          else map_option (\<lambda>w. \<lparr>sh_step = fst w, sh_seconds = window_length w, sh_implement = b - a,
                 sh_elapsed = elapsed_of ws, sh_span = span_total ws\<rparr>)
            (longest_window (filter (\<lambda>w. fst w \<in> set STEPS_BEFORE_IMPLEMENT \<and> b - a < window_length w) ws)))"

text \<open>Elapsed time and the time of the steps; the share that belongs to none is \<open>(elapsed - span) / elapsed\<close>.\<close>

definition elapsed_gap :: "(string \<times> int \<times> int) list \<Rightarrow> (int \<times> int) option" where
  "elapsed_gap ws = (if ws = [] \<or> elapsed_of ws \<le> 0 then None else Some (elapsed_of ws, span_total ws))"

definition time_gap :: "(string \<times> int \<times> int) list \<Rightarrow> (int \<times> int) option" where
  "time_gap ws =
     (case time_share ws of Some s \<Rightarrow> Some (sh_elapsed s, sh_span s) | None \<Rightarrow> elapsed_gap ws)"

text \<open>At least a quarter of the elapsed time.\<close>

definition mostly_unattributed :: "int \<times> int \<Rightarrow> bool" where
  "mostly_unattributed g \<longleftrightarrow> 0 < fst g \<and> fst g \<le> 4 * (fst g - snd g)"

subsection \<open>The check\<close>

definition signal_dict :: "signal \<Rightarrow> jdict" where
  "signal_dict s = [(''step'', JStr (sg_step s)), (''did'', JStr (sg_did s)), (''what'', JStr (sg_what s)),
     (''where'', JStr (sg_where s)), (''evidence'', json_names (sg_evidence s))]"

definition bleed_finding :: "signal \<Rightarrow> finding" where
  "bleed_finding s = finding_at BleedCheck Warning (if sg_step s = sg_did s then TaskListTwice else StepBled) (signal_dict s)"

definition share_finding :: "share \<Rightarrow> finding" where
  "share_finding s = finding_at BleedCheck Remark TookLonger
     [(''step'', JStr (sh_step s)), (''seconds'', JInt (sh_seconds s)), (''implement_seconds'', JInt (sh_implement s)),
      (''elapsed_seconds'', JInt (sh_elapsed s)), (''step_span_seconds'', JInt (sh_span s))]"

definition gap_finding :: "int \<times> int \<Rightarrow> finding" where
  "gap_finding g = finding_at BleedCheck Warning TimeUnattributed
     [(''elapsed_seconds'', JInt (fst g)), (''step_span_seconds'', JInt (snd g))]"

definition bleed_signals ::
  "(int \<Rightarrow> int \<Rightarrow> int \<times> string) \<Rightarrow> feature \<Rightarrow> jdict \<Rightarrow> (string \<times> int \<times> int) list \<Rightarrow> signal list option" where
  "bleed_signals log st ctx ws =
     map_option (\<lambda>found. found @ duplication_signals st @ early_source_signals log ws) (artifact_signals st ctx)"

definition time_findings :: "(string \<times> int \<times> int) list \<Rightarrow> finding list" where
  "time_findings ws =
     (case time_share ws of None \<Rightarrow> [] | Some s \<Rightarrow> [share_finding s]) @
     (case time_gap ws of None \<Rightarrow> [] | Some g \<Rightarrow> if mostly_unattributed g then [gap_finding g] else [])"

definition check_bleed :: "(int \<Rightarrow> int \<Rightarrow> int \<times> string) \<Rightarrow> spec_dir \<Rightarrow> jdict \<Rightarrow> check_fun" where
  "check_bleed log sd ctx r =
     (if \<not> list_ex (\<lambda>(doc, file). file \<noteq> None) (core_docs (sd_feature sd)) then (r, not_applicable BleedCheck)
      else case step_windows sd ctx of
          None \<Rightarrow> (r, None)
        | Some ws \<Rightarrow>
            (case bleed_signals log (sd_feature sd) ctx ws of
               None \<Rightarrow> (r, None)
             | Some found \<Rightarrow>
                 (r\<lparr>r_bleed := map signal_dict found\<rparr>,
                  ran_with BleedCheck (map bleed_finding found @ time_findings ws))))"

section \<open>Facts about bleed\<close>

lemma duplicated_iff: "tid \<in> set (duplicated_ids st) \<longleftrightarrow> 1 < length (docs_with st tid)"
proof
  assume two: "1 < length (docs_with st tid)"
  then obtain d where "d \<in> set (docs_with st tid)" by (cases "docs_with st tid") auto
  then have "tid \<in> set (concat (map (task_ids \<circ> snd) (core_docs st)))" by (force simp: docs_with_def)
  then show "tid \<in> set (duplicated_ids st)" using two by (simp add: duplicated_ids_def)
qed (simp add: duplicated_ids_def)

lemma fold_max_upper: "x \<in> set (a # xs) \<Longrightarrow> (x::int) \<le> fold max xs a"
proof (induction xs arbitrary: a x)
  case (Cons b xs)
  have "max b a \<le> fold max xs (max b a)" by (rule Cons.IH) simp
  then show ?case using Cons.IH [of x "max b a"] Cons.prems by auto
qed simp

lemma fold_min_lower: "x \<in> set (a # xs) \<Longrightarrow> fold min xs a \<le> (x::int)"
proof (induction xs arbitrary: a x)
  case (Cons b xs)
  have "fold min xs (min b a) \<le> min b a" by (rule Cons.IH) simp
  then show ?case using Cons.IH [of x "min b a"] Cons.prems by auto
qed simp

text \<open>No window is longer than the run.\<close>

lemma window_within: "w \<in> set ws \<Longrightarrow> window_length w \<le> elapsed_of ws"
proof (cases ws)
  case (Cons v vs)
  assume w: "w \<in> set ws"
  have "snd (snd w) \<le> fold max (map (\<lambda>w. snd (snd w)) vs) (snd (snd v))"
    using w Cons by (intro fold_max_upper) auto
  moreover have "fold min (map (\<lambda>w. fst (snd w)) vs) (fst (snd v)) \<le> fst (snd w)"
    using w Cons by (intro fold_min_lower) auto
  ultimately show ?thesis by (simp add: Cons window_length_def)
qed simp

lemma longest_window_in: "longest_window ws = Some w \<Longrightarrow> w \<in> set ws \<and> list_all (\<lambda>v. window_length v \<le> window_length w) ws"
proof (induction ws arbitrary: w)
  case (Cons v vs)
  show ?case
  proof (cases "longest_window vs")
    case None
    then have "vs = []" by (cases vs) (auto split: option.splits if_splits)
    then show ?thesis using Cons.prems by simp
  next
    case (Some u)
    then show ?thesis using Cons.IH [OF Some] Cons.prems by (auto simp: list_all_iff split: if_splits)
  qed
qed simp

lemma windows_valid: "w \<in> set (windows_of ms) \<Longrightarrow> 0 \<le> window_length w"
proof -
  have "w \<in> set (List.map_filter f xs) \<Longrightarrow> \<exists>x \<in> set xs. f x = Some w"
    for f :: "string \<times> int \<Rightarrow> (string \<times> int \<times> int) option" and xs
    by (induction xs) (auto simp: List.map_filter_simps split: option.splits)
  then show "w \<in> set (windows_of ms) \<Longrightarrow> 0 \<le> window_length w"
    unfolding windows_of_def by (fastforce simp: window_length_def split: option.splits if_splits)
qed

text \<open>
  A step reported as longer than implement is a step before it with a window of its own that was
  longer than every other such step's and than implement's; its share of the run lies between zero and
  one, since no step is longer than the run.
\<close>

theorem longer_step_is_honest:
  assumes "step_windows sd ctx = Some ws" "time_share ws = Some s"
  shows "sh_step s \<in> set STEPS_BEFORE_IMPLEMENT \<and>
    (\<exists>w \<in> set ws. fst w = sh_step s \<and> window_length w = sh_seconds s) \<and>
    (\<exists>v \<in> set ws. fst v = ''implement'' \<and> window_length v = sh_implement s) \<and>
    list_all (\<lambda>v. fst v \<notin> set STEPS_BEFORE_IMPLEMENT \<or> window_length v \<le> sh_seconds s) ws \<and>
    0 \<le> sh_implement s \<and> sh_implement s < sh_seconds s \<and> sh_seconds s \<le> sh_elapsed s"
proof -
  obtain ms where ms: "ws = windows_of ms" using assms(1) by (auto simp: step_windows_def)
  obtain a b w where w: "map_of ws ''implement'' = Some (a, b)"
      "longest_window (filter (\<lambda>w. fst w \<in> set STEPS_BEFORE_IMPLEMENT \<and> b - a < window_length w) ws) = Some w"
      "s = \<lparr>sh_step = fst w, sh_seconds = window_length w, sh_implement = b - a, sh_elapsed = elapsed_of ws,
        sh_span = span_total ws\<rparr>"
    using assms(2) by (auto simp: time_share_def split: option.splits if_splits)
  have long: "w \<in> set ws" "fst w \<in> set STEPS_BEFORE_IMPLEMENT" "b - a < window_length w"
      "list_all (\<lambda>v. window_length v \<le> window_length w)
        (filter (\<lambda>w. fst w \<in> set STEPS_BEFORE_IMPLEMENT \<and> b - a < window_length w) ws)"
    using longest_window_in [OF w(2)] by auto
  have impl: "(''implement'', a, b) \<in> set ws" using map_of_SomeD [OF w(1)] .
  then have "0 \<le> b - a" using windows_valid ms by (fastforce simp: window_length_def)
  moreover have "list_all (\<lambda>v. fst v \<notin> set STEPS_BEFORE_IMPLEMENT \<or> window_length v \<le> window_length w) ws"
    using long(3,4) by (force simp: list_all_iff)
  moreover have "\<exists>v \<in> set ws. fst v = ''implement'' \<and> window_length v = b - a"
    using impl by (intro bexI [of _ "(''implement'', a, b)"]) (simp_all add: window_length_def)
  ultimately show ?thesis
    using long(1-3) window_within [OF long(1)] by (auto simp: w(3))
qed

definition long_plan_ctx :: jdict where
  "long_plan_ctx = [(''history'', JList
     [JDict [(''step'', JStr ''plan''), (''kind'', JStr ''start''), (''at'', JStr ''2026-01-01'')],
      JDict [(''step'', JStr ''plan''), (''kind'', JStr ''complete''), (''at'', JStr ''2026-01-04'')],
      JDict [(''step'', JStr ''implement''), (''kind'', JStr ''start''), (''at'', JStr ''2026-01-04'')],
      JDict [(''step'', JStr ''implement''), (''kind'', JStr ''complete''), (''at'', JStr ''2026-01-05'')]])]"

theorem longer_step_is_honest_witness:
  "\<exists>ws s. step_windows (example_sd long_plan_ctx) long_plan_ctx = Some ws \<and> time_share ws = Some s \<and>
     sh_step s = ''plan'' \<and> sh_implement s < sh_seconds s \<and> sh_seconds s \<le> sh_elapsed s"
proof -
  have run: "map_option (\<lambda>ws. map_option sh_step (time_share ws)) (step_windows (example_sd long_plan_ctx) long_plan_ctx)
      = Some (Some ''plan'')"
    by code_simp
  then obtain ws s where ws: "step_windows (example_sd long_plan_ctx) long_plan_ctx = Some ws" "time_share ws = Some s"
      "sh_step s = ''plan''"
    by auto
  then show ?thesis using longer_step_is_honest [OF ws(1,2)] by auto
qed

text \<open>The time parser on the stamps the scripts write: 1 January 2000 is day 10957 of the epoch.\<close>

lemma parse_time_examples:
  "parse_time (\<lambda>t. t) (JStr ''1970-01-01T00:00:01Z'') = Some (seconds 1)"
  "parse_time (\<lambda>t. t) (JStr ''2000-01-01T02:00:00.500+02:00'') = Some (10957 * 24 * 60 * 60 * 1000000 + 500000)"
  "parse_time (\<lambda>t. t) (JStr ''2026-02-29'') = None"
  by code_simp+

end
