(* ===== verification/DoctorTrace.thy ===== *)
theory DoctorTrace
  imports DoctorRecord
begin

text \<open>
  The doctor's checks of the documents and the trace (\<open>doctor_checks.py\<close>, second half): whether the
  workers offered were dispatched, whether each closed step left the files its pipeline declares,
  whether the task list kept its shape, and what the run trace holds.
\<close>

subsection \<open>Dispatch\<close>

text \<open>
  \<open>a >= b\<close> on the moments of entries and events.  Texts and whole numbers compare; a mixture raises.
  Two floats or two lists, which no script writes there, are not modelled and raise as well.
\<close>

fun json_number_value :: "json \<Rightarrow> int option" where
  "json_number_value (JInt i) = Some i"
| "json_number_value (JBool b) = Some (of_bool b)"
| "json_number_value _ = None"

definition json_ge :: "json \<Rightarrow> json \<Rightarrow> bool option" where
  "json_ge a b =
     (case (a, b) of
        (JStr s, JStr t) \<Rightarrow> Some (t \<le> s)
      | _ \<Rightarrow> (case (json_number_value a, json_number_value b) of
                (Some i, Some j) \<Rightarrow> Some (j \<le> i) | _ \<Rightarrow> None))"

definition or_empty :: "json \<Rightarrow> json" where
  "or_empty v = (if truthy v then v else JStr [])"

text \<open>\<open>max(xs, default="")\<close>: the first of the greatest.\<close>

definition json_max :: "json list \<Rightarrow> json option" where
  "json_max xs =
     (case xs of
        [] \<Rightarrow> Some (JStr [])
      | x # rest \<Rightarrow> fold_opt (\<lambda>y best. map_option (\<lambda>ge. if ge then best else y) (json_ge best y)) rest x)"

definition step_start_times :: "jdict \<Rightarrow> string \<Rightarrow> json list option" where
  "step_start_times ctx step =
     map_option concat (traverse (\<lambda>e.
       map_option (\<lambda>yes. if yes then [or_empty (jget e ''at'')] else [])
         (guarded_kind (jget e ''step'' = JStr step \<and> is_step_level e) e ''start'')) (log_entries ctx))"

definition files_with_op :: "string \<Rightarrow> jdict list \<Rightarrow> json list option" where
  "files_with_op op run =
     map_option concat (traverse (\<lambda>e. py_iter_or_empty (jget e ''files''))
       (filter (\<lambda>e. jget e ''op'' = JStr op) run))"

text \<open>
  The labels of the workers that checked in since the step's last start, and what was offered.  The
  code keeps the offers in a set; here they keep their order, each once.
\<close>

definition since_start :: "jdict \<Rightarrow> jdict list \<Rightarrow> string \<Rightarrow> (json list \<times> json list) option" where
  "since_start ctx evs step =
     (case Option.bind (step_start_times ctx step) json_max of
        None \<Rightarrow> None
      | Some from \<Rightarrow>
          (case traverse (\<lambda>e. map_option (\<lambda>ge. if ge then [e] else []) (json_ge (or_empty (jget e ''at'')) from)) evs of
             None \<Rightarrow> None
           | Some kept \<Rightarrow>
               (case (files_with_op ''dispatch-checkin'' (concat kept), files_with_op ''dispatch-offer'' (concat kept)) of
                  (Some labels, Some offered) \<Rightarrow>
                    if list_all hashable offered then Some (labels, remdups offered) else None
                | _ \<Rightarrow> None)))"

definition starts_with :: "string \<Rightarrow> json \<Rightarrow> bool option" where
  "starts_with p v = (case v of JStr s \<Rightarrow> Some (prefix p s) | _ \<Rightarrow> None)"

definition plan_finding :: "nat \<Rightarrow> finding" where
  "plan_finding want = finding_at DispatchCheck Warning PlanInline
     [(''expected'', json_int want), (''checked_in'', JInt 0)]"

definition plan_expectation :: "json list \<Rightarrow> json list \<Rightarrow> nat \<times> string \<times> string \<Rightarrow> finding list option" where
  "plan_expectation labels offered x =
     (case x of (want, pre, kind) \<Rightarrow>
        if want \<noteq> 0 \<and> JStr kind \<in> set offered
        then map_option (\<lambda>seen. if seen then [] else [plan_finding want]) (any_opt (starts_with pre) labels)
        else Some [])"

definition plan_areas :: "jdict \<Rightarrow> nat option" where
  "plan_areas ctx =
     map_option (\<lambda>cs. length (filter (\<lambda>c. case c of JStr s \<Rightarrow> prefix ''area:'' s | _ \<Rightarrow> False) cs))
       (py_iter_or_empty (jget ctx ''context''))"

definition plan_dispatch :: "jdict \<Rightarrow> jdict list \<Rightarrow> finding list option" where
  "plan_dispatch ctx evs =
     (case (since_start ctx evs ''plan'', plan_areas ctx) of
        (Some (labels, offered), Some areas) \<Rightarrow>
          map_option concat (traverse (plan_expectation labels offered)
            [(if 2 \<le> areas then min areas 4 else 0, ''reader:'', ''readers''), (2, ''doc:'', ''docs'')])
      | _ \<Rightarrow> None)"

text \<open>\<open>waves:<number>:<workers>\<close>; a digit that \<open>int\<close> refuses raises.\<close>

definition wave_offer :: "json \<Rightarrow> (nat \<times> nat) list option" where
  "wave_offer f =
     (case f of
        JStr s \<Rightarrow>
          (case split_on (CHR '':'') s of
             [a, b, c] \<Rightarrow>
               if a = ''waves'' \<and> b \<noteq> [] \<and> list_all is_digit_char b \<and> c \<noteq> [] \<and> list_all is_digit_char c
               then (case (py_int b, py_int c) of
                       (Some w, Some n) \<Rightarrow> Some [(nat w, nat n)] | _ \<Rightarrow> None)
               else Some []
           | _ \<Rightarrow> Some [])
      | _ \<Rightarrow> None)"

definition offered_waves :: "json list \<Rightarrow> (nat \<times> nat) list option" where
  "offered_waves offered =
     map_option (\<lambda>xs. fold (\<lambda>(w, n) m. AList.update w n m) (concat xs) []) (traverse wave_offer offered)"

definition wave_workers :: "json list \<Rightarrow> nat \<Rightarrow> nat option" where
  "wave_workers labels w =
     map_option (\<lambda>xs. length (remdups (concat xs)))
       (traverse (\<lambda>l. map_option (\<lambda>yes. if yes then [l] else [])
          (starts_with (''wave: '' @ nat_text w @ ''.'') l)) labels)"

definition skipped_waves :: "json list \<Rightarrow> (nat \<times> nat) list \<Rightarrow> nat list option" where
  "skipped_waves labels waves =
     map_option concat (traverse (\<lambda>(w, sent).
       map_option (\<lambda>n. if n < sent then [w] else []) (wave_workers labels w)) (sort_key fst waves))"

definition implement_dispatch :: "jdict \<Rightarrow> jdict list \<Rightarrow> bool \<Rightarrow> finding list option" where
  "implement_dispatch ctx evs closed =
     (case since_start ctx evs ''implement'' of
        None \<Rightarrow> None
      | Some (labels, offered) \<Rightarrow>
          (case offered_waves offered of
             None \<Rightarrow> None
           | Some waves \<Rightarrow>
               (case ((if closed \<and> waves \<noteq> [] then skipped_waves labels waves else Some []),
                      (if closed \<and> JStr ''living'' \<in> set offered
                       then map_option Not (any_opt (starts_with ''living:'') labels) else Some False)) of
                  (Some skipped, Some unreviewed) \<Rightarrow>
                    Some ((if skipped = [] then []
                           else [finding_at DispatchCheck Warning WavesInline
                                  [(''waves'', JList (map json_int skipped))]]) @
                          (if unreviewed
                           then [finding_at DispatchCheck Warning DeltasUnreviewed
                                  [(''expected'', JInt 1), (''checked_in'', JInt 0)]] else []))
                | _ \<Rightarrow> None)))"

definition check_dispatch :: "spec_dir \<Rightarrow> jdict \<Rightarrow> check_result" where
  "check_dispatch sd ctx = with_record DispatchCheck sd ctx
     (case (step_closed ctx ''plan'', step_closed ctx ''implement'') of
        (Some plan, Some implement) \<Rightarrow>
          (let folded = (jget ctx ''size'' = JStr ''simple'') in
           if \<not> (plan \<and> \<not> folded) \<and> \<not> implement then skipped_for DispatchCheck NothingDispatched
           else case own_trace sd of
               None \<Rightarrow> None
             | Some t \<Rightarrow>
                 (case (if plan \<and> \<not> folded then plan_dispatch ctx (events_of t) else Some [],
                        implement_dispatch ctx (events_of t) implement) of
                    (Some fs, Some gs) \<Rightarrow> ran_with DispatchCheck (fs @ gs)
                  | _ \<Rightarrow> None))
      | _ \<Rightarrow> None)"

subsection \<open>Artifacts\<close>

definition declared_artifacts :: "json option \<Rightarrow> jdict option" where
  "declared_artifacts m =
     (case m of
        Some (JDict d) \<Rightarrow> (case jget d ''commands'' of JDict c \<Rightarrow> Some c | _ \<Rightarrow> None)
      | _ \<Rightarrow> None)"

definition closed_step :: "jdict \<Rightarrow> string list option" where
  "closed_step e =
     (case jget e ''step'' of
        JStr s \<Rightarrow> map_option (\<lambda>yes. if yes then [s] else []) (guarded_kind (is_step_level e) e ''complete'')
      | _ \<Rightarrow> Some [])"

definition closed_steps :: "jdict \<Rightarrow> string list option" where
  "closed_steps ctx = map_option (\<lambda>xs. remdups (concat xs)) (traverse closed_step (log_entries ctx))"

text \<open>\<open>re.sub("<[^>]+>", "*", name)\<close>; an opening bracket without a closing one stays.\<close>

function star_placeholders :: "string \<Rightarrow> string" where
  "star_placeholders [] = []"
| "star_placeholders (c # s) =
     (let inner = takeWhile (\<lambda>x. x \<noteq> CHR ''>'') s in
      if c = CHR ''<'' \<and> inner \<noteq> [] \<and> length inner < length s
      then CHR ''*'' # star_placeholders (drop (Suc (length inner)) s)
      else c # star_placeholders s)"
  by pat_completeness auto
termination by (relation "measure length") (auto simp: Let_def)

definition artifact_exists :: "spec_dir \<Rightarrow> string \<Rightarrow> bool" where
  "artifact_exists sd name =
     (if CHR ''<'' \<in> set name then sd_glob sd (star_placeholders name) else sd_exists sd name)"

definition artifact_name :: "jdict \<Rightarrow> string" where
  "artifact_name e = (if truthy (jget e ''artifact'') then strip (py_str (jget e ''artifact'')) else [])"

definition dicts_in :: "json list \<Rightarrow> jdict list" where
  "dicts_in js = List.map_filter (\<lambda>j. case j of JDict d \<Rightarrow> Some d | _ \<Rightarrow> None) js"

definition judged_names :: "jdict list \<Rightarrow> string list" where
  "judged_names es =
     filter (\<lambda>n. n \<noteq> []) (map artifact_name (filter (\<lambda>e. \<not> truthy (jget e ''conditional'')) es))"

definition node_of :: "jdict list \<Rightarrow> string \<Rightarrow> json" where
  "node_of es name =
     (case filter (\<lambda>e. artifact_name e = name) es of [] \<Rightarrow> JNull | found \<Rightarrow> jget (last found) ''node'')"

definition artifact_finding :: "string \<Rightarrow> jdict list \<Rightarrow> string \<Rightarrow> finding" where
  "artifact_finding step es name = finding_at ArtifactCheck Warning ArtifactMissing
     [(''step'', JStr step), (''artifact'', JStr name), (''node'', node_of es name)]"

text \<open>The findings of a closed step, or \<open>None\<close> when the pipeline has no claim on it.\<close>

definition judge_step :: "spec_dir \<Rightarrow> jdict \<Rightarrow> string \<Rightarrow> finding list option" where
  "judge_step sd declared step =
     (case jget declared step of
        JList entries \<Rightarrow>
          (let es = dicts_in entries; names = judged_names es;
               missing = filter (\<lambda>n. \<not> artifact_exists sd n) names
           in if names = [] \<or> length missing = length names then None
              else Some (map (artifact_finding step es) missing))
      | _ \<Rightarrow> None)"

definition check_artifact :: "spec_dir \<Rightarrow> jdict \<Rightarrow> check_result" where
  "check_artifact sd ctx = with_record ArtifactCheck sd ctx
     (case declared_artifacts (sd_manifest sd) of
        None \<Rightarrow> skipped_for ArtifactCheck NoManifest
      | Some declared \<Rightarrow>
          (case closed_steps ctx of
             None \<Rightarrow> None
           | Some steps \<Rightarrow>
               (let judged = List.map_filter (judge_step sd declared) (sort steps)
                in if judged = [] then skipped_for ArtifactCheck NothingDeclared
                   else ran_with ArtifactCheck (concat judged))))"

subsection \<open>The shape of the task list\<close>

text \<open>
  The patterns of the check, each tried at the start of every line.  The arrow of a join line, outside
  the characters of the model, is written \<open>-->\<close>.
\<close>

fun line_starts :: "string \<Rightarrow> string list" where
  "line_starts [] = []"
| "line_starts (c # s) = (if c = CHR 0x0A then s # line_starts s else line_starts s)"

text \<open>At least \<open>k\<close> white space characters, then the rest.\<close>

definition after_spaces :: "nat \<Rightarrow> string \<Rightarrow> string option" where
  "after_spaces k s =
     (let ws = takeWhile is_space s in if k \<le> length ws then Some (drop (length ws) s) else None)"

definition after_digits :: "string \<Rightarrow> string option" where
  "after_digits s =
     (let ds = takeWhile is_decimal s in if ds = [] then None else Some (drop (length ds) s))"

definition after_word :: "string \<Rightarrow> string \<Rightarrow> string option" where
  "after_word w s = (if prefix w s then Some (drop (length w) s) else None)"

text \<open>A numbered heading \<open>## <word> <digits>\<close>: the text after it.\<close>

definition after_numbered :: "string \<Rightarrow> string \<Rightarrow> string \<Rightarrow> string option" where
  "after_numbered mark w s =
     Option.bind (after_word mark s) (\<lambda>a. Option.bind (after_spaces 1 a) (\<lambda>b.
       Option.bind (after_word w b) (\<lambda>c. Option.bind (after_spaces 1 c) after_digits)))"

definition any_phase :: "string \<Rightarrow> string option" where
  "any_phase s = Option.bind (after_numbered ''##'' ''Phase'' s) (after_word '':'')"

definition story_phase :: "string \<Rightarrow> string option" where
  "story_phase s =
     Option.bind (any_phase s) (\<lambda>a. Option.bind (after_spaces 0 a) (\<lambda>b.
       Option.bind (after_word ''User'' b) (\<lambda>c. Option.bind (after_spaces 1 c) (\<lambda>d.
         Option.bind (after_word ''Story'' d) (\<lambda>e. Option.bind (after_spaces 1 e) after_digits)))))"

definition top_wave :: "string \<Rightarrow> string option" where
  "top_wave s = after_numbered ''##'' ''Wave'' s"

definition wave_head :: "string \<Rightarrow> string option" where
  "wave_head s =
     Option.bind (after_word ''**Wave'' s) (\<lambda>a. Option.bind (after_spaces 1 a) after_digits)"

definition checkpoint :: "string \<Rightarrow> string option" where
  "checkpoint s = after_word ''**Checkpoint**'' s"

fun has_join :: "string \<Rightarrow> bool" where
  "has_join [] = False"
| "has_join (c # s) =
     (Option.bind (Option.bind (after_word ''-->'' (c # s)) (after_spaces 0)) (after_word ''Wait'') \<noteq> None \<or> has_join s)"

definition matches_in :: "(string \<Rightarrow> string option) \<Rightarrow> string \<Rightarrow> string list" where
  "matches_in pat s =
     List.map_filter (\<lambda>l. map_option (\<lambda>r. take (length l - length r) l) (pat l)) (s # line_starts s)"

definition template_finding :: "severity \<Rightarrow> topic \<Rightarrow> jdict \<Rightarrow> finding" where
  "template_finding sev t ev = finding_at TemplateCheck sev t ev"

definition heading_findings :: "string \<Rightarrow> finding list" where
  "heading_findings s =
     (let stories = matches_in story_phase s; tops = map strip (matches_in top_wave s);
          headings = [(''headings'', json_names (sort (remdups tops)))]
      in if tops \<noteq> [] \<and> stories = [] then [template_finding Problem PhasesReplaced headings]
         else if tops \<noteq> [] then [template_finding Problem WavesAdded headings]
         else if stories = [] \<and> matches_in any_phase s \<noteq> [] then [template_finding Warning NoStoryPhases []]
         else [])"

definition template_findings :: "string \<Rightarrow> finding list" where
  "template_findings s =
     heading_findings s @
     (if matches_in wave_head s \<noteq> [] \<and> \<not> has_join s then [template_finding Problem JoinsRemoved []] else []) @
     (if matches_in story_phase s \<noteq> [] \<and> matches_in checkpoint s = []
      then [template_finding Warning CheckpointsRemoved []] else [])"

definition check_template :: "spec_dir \<Rightarrow> check_result" where
  "check_template sd =
     (case tasks_md (sd_feature sd) of
        None \<Rightarrow> not_applicable TemplateCheck
      | Some s \<Rightarrow> ran_with TemplateCheck (template_findings s))"

subsection \<open>The run trace\<close>

definition stripped_lines :: "string \<Rightarrow> string list" where
  "stripped_lines s = filter (\<lambda>l. l \<noteq> []) (map strip (splitlines (unix_newlines s)))"

text \<open>The lines of its own marker, and those of the shared one that name this spec.\<close>

definition lost_entries :: "spec_dir \<Rightarrow> string list" where
  "lost_entries sd =
     (let own = text_of (sd_files sd) (under (dir_of (sd_place sd)) LOST_NAME);
          shared = text_of (sd_files sd) (under (fst (sd_place sd)) LOST_NAME)
      in (case own of None \<Rightarrow> [] | Some s \<Rightarrow> stripped_lines s) @
         (case shared of None \<Rightarrow> []
          | Some s \<Rightarrow> filter (\<lambda>l. contains ('' spec='' @ snd (sd_place sd) @ '' '') (l @ '' '')) (stripped_lines s)))"

definition trace_finding :: "severity \<Rightarrow> topic \<Rightarrow> jdict \<Rightarrow> finding" where
  "trace_finding sev t ev = finding_at TraceCheck sev t ev"

definition lost_finding :: "string list \<Rightarrow> finding" where
  "lost_finding lost = trace_finding Problem CallsLost [(''lost'', json_names (take 5 lost))]"

definition DECLINES :: "string list" where
  "DECLINES = [''not regressing'', ''already at currentstep'', ''already complete'', ''already completed'',
     ''left untouched'', ''nothing to do'', ''nothing to sync'']"

definition is_expected_decline :: "jdict \<Rightarrow> bool" where
  "is_expected_decline e =
     (let s = (if truthy (jget e ''reason'') then lower (py_str (jget e ''reason'')) else [])
      in list_ex (\<lambda>d. contains d s) DECLINES)"

definition NO_REASON :: json where "NO_REASON = JStr ''no reason recorded''"

definition reason_of :: "jdict \<Rightarrow> json" where
  "reason_of e = (if truthy (jget e ''reason'') then jget e ''reason'' else NO_REASON)"

text \<open>Failures by reason, in the order of their first occurrence; a reason that cannot be hashed raises.\<close>

definition group_failure :: "jdict \<Rightarrow> (json \<times> jdict list) list \<Rightarrow> (json \<times> jdict list) list option" where
  "group_failure e groups =
     (let r = reason_of e in
      if \<not> hashable r then None
      else Some (if list_ex (\<lambda>(q, g). py_eq q r) groups
                 then map (\<lambda>(q, g). (q, if py_eq q r then g @ [e] else g)) groups
                 else groups @ [(r, [e])]))"

definition failed_finding :: "json \<times> jdict list \<Rightarrow> finding" where
  "failed_finding g = trace_finding Problem CallsFailed
     [(''op'', jget (hd (snd g)) ''op''), (''count'', json_int (length (snd g))), (''reason'', fst g)]"

definition failure_findings :: "jdict list \<Rightarrow> finding list option" where
  "failure_findings failed =
     map_option (\<lambda>groups. map failed_finding (sort_key (\<lambda>g. - int (length (snd g))) groups))
       (fold_opt group_failure failed [])"

text \<open>The failed calls of the unattributed log inside this run's window, and how many lie outside.\<close>

definition outside_window :: "nat \<Rightarrow> jdict" where
  "outside_window n = [(''op'', JStr ''outside-window''), (''ok'', JBool False), (''spec'', JNull),
     (''reason'', JStr (nat_text n @ '' further failed capture call'' @ (if n = 1 then [] else ''s'') @
        '' in the repo-level log fell outside this run's window and were not attributed to it''))]"

definition unattributed_failures :: "spec_dir \<Rightarrow> jdict \<Rightarrow> jdict list option" where
  "unattributed_failures sd ctx =
     map_option (\<lambda>shared.
       let failed = filter (\<lambda>e. \<not> truthy (jget e ''ok'')) (events_of shared);
           inside = (\<lambda>e. in_window (time_of sd e) (run_window (sd_zone sd) ctx WINDOW_PAD));
           dropped = length (filter (\<lambda>e. \<not> inside e) failed)
       in filter inside failed @ (if dropped = 0 then [] else [outside_window dropped]))
     (shared_trace sd)"

text \<open>\<open>sorted({...})\<close> of the reasons: texts; a reason of another type cannot be ordered among texts
  and raises; so do two numbers in the model, which no script writes there.\<close>

definition sorted_reasons :: "jdict list \<Rightarrow> json list option" where
  "sorted_reasons es =
     (let rs = remdups (map reason_of es) in
      if \<not> list_all hashable rs then None
      else if length rs \<le> 1 then Some rs
      else map_option (\<lambda>ss. map JStr (sort ss))
        (traverse (\<lambda>r. case r of JStr s \<Rightarrow> Some s | _ \<Rightarrow> None) rs))"

definition unattributed_finding :: "jdict list \<Rightarrow> finding option" where
  "unattributed_finding es =
     map_option (\<lambda>reasons.
       let ours = filter (\<lambda>e. jget e ''op'' \<noteq> JStr ''outside-window'') es in
       if ours = [] then trace_finding Remark OtherRunsFailed [(''count'', JInt 0), (''reasons'', JList reasons)]
       else trace_finding Problem CallsUnattributed
         [(''count'', json_int (length ours)), (''reasons'', JList reasons)])
     (sorted_reasons es)"

definition unattributed_part :: "jdict list \<Rightarrow> finding list option" where
  "unattributed_part es = (if es = [] then Some [] else map_option (\<lambda>f. [f]) (unattributed_finding es))"

definition lost_part :: "string list \<Rightarrow> finding list" where
  "lost_part lost = (if lost = [] then [] else [lost_finding lost])"

text \<open>What the trace itself shows; the keys of the rewrite counts are written out as texts.\<close>

definition rewrite_part :: "(json \<times> nat) list \<Rightarrow> finding list" where
  "rewrite_part counts =
     (let churn = filter (\<lambda>(f, n). 1 < n) counts in
      if churn = [] then []
      else [trace_finding Remark FilesRewritten
        [(''rewrites'', JDict (map (\<lambda>(f, n). (py_str f, json_int n)) churn))]])"

definition counted_finding :: "trace_read \<Rightarrow> nat \<Rightarrow> int \<Rightarrow> int \<Rightarrow> finding" where
  "counted_finding t failed written read = trace_finding Remark CallsCounted
     [(''calls'', json_int (length (rd_events t))), (''failures'', json_int failed),
      (''bytes_written'', JInt written), (''bytes_read'', JInt read),
      (''unparseable'', json_int (rd_unparseable t)), (''truncated'', JInt (rd_truncated t))]"

definition trace_findings :: "trace_read \<Rightarrow> string list \<Rightarrow> jdict list \<Rightarrow> finding list option" where
  "trace_findings t lost unattributed =
     (let all_failures = failures t;
          declined = filter is_expected_decline all_failures;
          failed = filter (\<lambda>e. \<not> is_expected_decline e) all_failures
      in case (failure_findings failed, rewrite_counts t, bytes_written t, bytes_read t,
               unattributed_part unattributed) of
           (Some by_reason, Some counts, Some written, Some read, Some tail) \<Rightarrow>
             Some ((if declined = [] then []
                    else [trace_finding Remark WritesDeclined [(''count'', json_int (length declined))]]) @
                   by_reason @ rewrite_part counts @ lost_part lost @
                   [counted_finding t (length failed) written read] @ tail)
         | _ \<Rightarrow> None)"

definition check_trace :: "spec_dir \<Rightarrow> jdict \<Rightarrow> check_result" where
  "check_trace sd ctx =
     (case (own_trace sd, unattributed_failures sd ctx) of
        (Some own, Some unattributed) \<Rightarrow>
          (let lost = lost_entries sd in
           case own of
             None \<Rightarrow>
               if lost = [] \<and> unattributed = [] then skipped_for TraceCheck NoTrace
               else map_option (\<lambda>tail. (check_status TraceCheck Ran, lost_part lost @ tail))
                      (unattributed_part unattributed)
           | Some t \<Rightarrow>
               map_option (\<lambda>fs. (check_status TraceCheck Ran, fs)) (trace_findings t lost unattributed))
      | _ \<Rightarrow> None)"

section \<open>Facts about these checks\<close>

subsection \<open>Calls that were not traced\<close>

lemma contains_iff: "contains needle s \<longleftrightarrow> (\<exists>a b. s = a @ needle @ b)"
proof
  assume "contains needle s"
  then obtain a b where "cut_at needle s = Some (a, b)" by (auto simp: contains_def)
  then show "\<exists>a b. s = a @ needle @ b" using cut_at_join by blast
next
  assume "\<exists>a b. s = a @ needle @ b"
  then obtain a b where s: "s = a @ needle @ b" by blast
  have "cut_at needle (a @ needle @ b) \<noteq> None"
  proof (induction a)
    case Nil
    show ?case by (cases "needle @ b"; cases needle) auto
  next
    case (Cons x a)
    then show ?case by (auto split: option.splits)
  qed
  then show "contains needle s" by (simp add: contains_def s)
qed

lemma unix_newlines_keeps: "c \<in> set s \<Longrightarrow> c \<noteq> CHR 0x0D \<Longrightarrow> c \<in> set (unix_newlines s)"
  by (induction s rule: unix_newlines.induct) auto

lemma break_is_space: "is_line_break c \<Longrightarrow> is_space c"
  by (auto simp: is_line_break_def is_space_def space_chars_def)

lemma strip_nonempty: "c \<in> set l \<Longrightarrow> \<not> is_space c \<Longrightarrow> strip l \<noteq> []"
proof -
  assume c: "c \<in> set l" "\<not> is_space c"
  then have "c \<in> set (lstrip l)" unfolding lstrip_def by (induction l) auto
  then show "strip l \<noteq> []" using c(2) by (auto simp: strip_def rstrip_def dropWhile_eq_Nil_conv)
qed

lemma split_lines_aux_terminator:
  "(l, t) \<in> set (split_lines_aux cur s) \<Longrightarrow> \<forall>c \<in> set t. is_line_break c"
proof (induction cur s rule: split_lines_induct)
  case (Nil cur)
  then show ?case by (simp split: if_splits)
next
  case (crlf cur cs)
  then show ?case by (auto simp: split_lines_crlf is_line_break_def)
next
  case (break_char cur c cs)
  then show ?case by (auto simp: split_lines_break [OF break_char.hyps])
next
  case (char cur c cs)
  then show ?case by (simp add: split_lines_char [OF char.hyps])
qed

lemma stripped_lines_nonempty:
  assumes "c \<in> set s" "\<not> is_space c"
  shows "stripped_lines s \<noteq> []"
proof -
  have "c \<noteq> CHR 0x0D" using assms(2) by (auto simp: is_space_def space_chars_def)
  then have "c \<in> set (concat (splitlines_keep (unix_newlines s)))"
    using assms(1) unix_newlines_keeps by simp
  then obtain l t where lt: "(l, t) \<in> set (split_lines_ends (unix_newlines s))" "c \<in> set (l @ t)"
    by (auto simp: splitlines_keep_def)
  then have "c \<in> set l"
    using split_lines_aux_terminator [of l t] assms(2) break_is_space by (auto simp: split_lines_ends_def)
  moreover have "l \<in> set (splitlines (unix_newlines s))" using lt(1) by (force simp: splitlines_def)
  ultimately show ?thesis
    using strip_nonempty [OF _ assms(2)] by (auto simp: stripped_lines_def filter_empty_conv)
qed

lemma check_trace_reports_lost:
  assumes "check_trace sd ctx = Some (s, fs)" "lost_entries sd \<noteq> []"
  shows "s_state s = Ran \<and> lost_finding (lost_entries sd) \<in> set fs"
  using assms
  by (auto simp: check_trace_def Let_def lost_part_def trace_findings_def check_status_def
      split: option.splits)

lemma rstrip_keeps: "x \<noteq> [] \<Longrightarrow> \<not> is_space (hd x) \<Longrightarrow> \<exists>y. rstrip (a @ x) = a @ hd x # y"
proof -
  assume x: "x \<noteq> []" "\<not> is_space (hd x)"
  have "dropWhile is_space (rev (tl x) @ [hd x] @ rev a) = dropWhile is_space (rev (tl x)) @ [hd x] @ rev a"
    if "\<not> (\<forall>c \<in> set (tl x). is_space c)"
  proof -
    have "\<exists>z. z \<in> set (rev (tl x)) \<and> \<not> is_space z" using that by auto
    then obtain z where "z \<in> set (rev (tl x))" "\<not> is_space z" by blast
    then show ?thesis by (rule dropWhile_append1)
  qed
  moreover have "dropWhile is_space (rev (tl x) @ [hd x] @ rev a) = [hd x] @ rev a" if "\<forall>c \<in> set (tl x). is_space c"
    using that x(2) by (subst dropWhile_append2) auto
  moreover have "rev (a @ x) = rev (tl x) @ [hd x] @ rev a" using x(1) by (cases x) auto
  ultimately show "\<exists>y. rstrip (a @ x) = a @ hd x # y"
    unfolding rstrip_def by (cases "\<forall>c \<in> set (tl x). is_space c") auto
qed

lemma single_line: "clean_line l \<Longrightarrow> splitlines (unix_newlines (l @ nl)) = [l]"
  using splitlines_clean [of "[l]"] by simp

text \<open>A line of the shared marker that \<open>record\<close> wrote is found again by the spec it names.\<close>

lemma shared_line_found:
  assumes "clean_line (now @ name @ err)" "now \<noteq> []" "\<not> is_space (hd now)" "err \<noteq> []" "\<not> is_space (hd err)"
  shows "\<exists>l \<in> set (stripped_lines (lost_line now ('' spec='' @ name) err)). contains ('' spec='' @ name @ '' '') (l @ '' '')"
proof -
  define l where "l = now @ '' spec='' @ name @ '' '' @ err"
  have "clean_line l" using assms(1) by (simp add: l_def is_line_break_def)
  then have lines: "splitlines (unix_newlines (lost_line now ('' spec='' @ name) err)) = [l]"
    using single_line [of l] by (simp add: lost_line_def l_def)
  have "lstrip l = l" using assms(2,3) by (cases now) (auto simp: l_def lstrip_def)
  then obtain y where y: "strip l = (now @ '' spec='' @ name @ '' '') @ hd err # y"
    using rstrip_keeps [OF assms(4,5), of "now @ '' spec='' @ name @ '' ''"] by (auto simp: strip_def l_def)
  have "strip l \<in> set (stripped_lines (lost_line now ('' spec='' @ name) err))"
    unfolding stripped_lines_def lines using y by auto
  moreover have "contains ('' spec='' @ name @ '' '') (strip l @ '' '')"
    unfolding contains_iff y by (rule exI [of _ now], rule exI [of _ "hd err # y @ '' ''"]) simp
  ultimately show ?thesis by blast
qed


definition refusing :: files where
  "refusing = no_files\<lparr>refuses := (\<lambda>path. path \<in> set [trace_path (''specs'', ''001-a''), under ''specs/001-a'' LOST_NAME])\<rparr>"

definition untraced_sd :: spec_dir where
  "untraced_sd = (example_sd open_ctx_example)
     \<lparr>sd_files := trace_call ''1'' ''E: x'' (''specs'', ''001-a'') refused_call refusing\<rparr>"


subsection \<open>Every failure is counted\<close>

lemma py_eq_common:
  "hashable a \<Longrightarrow> hashable b \<Longrightarrow> hashable r \<Longrightarrow> py_eq a r \<Longrightarrow> py_eq b r \<Longrightarrow> py_eq a b"
  by (cases a; cases b; cases r) (auto simp: hashable_def)

definition group_keys_ok :: "(json \<times> jdict list) list \<Rightarrow> bool" where
  "group_keys_ok gs \<longleftrightarrow> list_all (\<lambda>g. hashable (fst g)) gs \<and> sorted_wrt (\<lambda>a b. \<not> py_eq (fst a) (fst b)) gs"

definition grouped_events :: "(json \<times> jdict list) list \<Rightarrow> nat" where
  "grouped_events gs = sum_list (map (\<lambda>g. length (snd g)) gs)"

lemma add_to_group:
  assumes "group_keys_ok gs" "hashable r"
  shows "grouped_events (map (\<lambda>(q, g). (q, if py_eq q r then g @ [e] else g)) gs) =
    grouped_events gs + of_bool (list_ex (\<lambda>(q, g). py_eq q r) gs)"
  using assms(1)
proof (induction gs)
  case (Cons x gs)
  obtain q g where x: "x = (q, g)" by (cases x)
  have rest: "group_keys_ok gs" using Cons.prems by (simp add: group_keys_ok_def)
  have only: "\<not> list_ex (\<lambda>(q, g). py_eq q r) gs" if q: "py_eq q r"
  proof
    assume "list_ex (\<lambda>(q, g). py_eq q r) gs"
    then obtain q' g' where g': "(q', g') \<in> set gs" "py_eq q' r" by (auto simp: list_ex_iff)
    then have "hashable q'" "hashable q" "\<not> py_eq q q'"
      using Cons.prems by (auto simp: group_keys_ok_def x list_all_iff)
    then show False using py_eq_common [of q q' r] assms(2) q g'(2) by blast
  qed
  show ?case
  proof (cases "py_eq q r")
    case True
    then show ?thesis using Cons.IH [OF rest] only [OF True] by (simp add: grouped_events_def x)
  next
    case False
    then show ?thesis using Cons.IH [OF rest] by (simp add: grouped_events_def x)
  qed
qed (simp add: grouped_events_def)

lemma group_failure_counts:
  assumes "group_failure e gs = Some gs'" "group_keys_ok gs"
  shows "group_keys_ok gs' \<and> grouped_events gs' = Suc (grouped_events gs)"
proof -
  let ?r = "reason_of e"
  have r: "hashable ?r" using assms(1) by (auto simp: group_failure_def Let_def split: if_splits)
  show ?thesis
  proof (cases "list_ex (\<lambda>(q, g). py_eq q ?r) gs")
    case True
    then have gs': "gs' = map (\<lambda>(q, g). (q, if py_eq q ?r then g @ [e] else g)) gs"
      using assms(1) r by (simp add: group_failure_def Let_def)
    have "group_keys_ok gs'"
      using assms(2) by (simp add: gs' group_keys_ok_def list_all_iff sorted_wrt_map case_prod_beta)
    then show ?thesis using add_to_group [OF assms(2) r, of e] True by (simp add: gs')
  next
    case False
    then have gs': "gs' = gs @ [(?r, [e])]" using assms(1) r by (simp add: group_failure_def Let_def)
    have "group_keys_ok gs'"
      using assms(2) False r
      by (auto simp: gs' group_keys_ok_def sorted_wrt_append list_ex_iff)
    then show ?thesis by (simp add: gs' grouped_events_def)
  qed
qed

lemma groups_count:
  "fold_opt group_failure es gs = Some gs' \<Longrightarrow> group_keys_ok gs \<Longrightarrow>
   group_keys_ok gs' \<and> grouped_events gs' = length es + grouped_events gs"
proof (induction es arbitrary: gs)
  case (Cons e es)
  then obtain gs1 where "group_failure e gs = Some gs1" "fold_opt group_failure es gs1 = Some gs'"
    by (auto split: option.splits)
  then show ?case using group_failure_counts [of e gs gs1] Cons.IH [of gs1] Cons.prems(2) by simp
qed simp

definition evidence_count :: "finding \<Rightarrow> int" where
  "evidence_count f = (case jget (f_evidence f) ''count'' of JInt n \<Rightarrow> n | _ \<Rightarrow> 0)"

definition failure_count :: "finding list \<Rightarrow> int" where
  "failure_count fs = sum_list (map evidence_count
     (filter (\<lambda>f. f_topic f = WritesDeclined \<or> f_topic f = CallsFailed) fs))"

lemma failed_finding_fields [simp]:
  "f_topic (failed_finding g) = CallsFailed" "evidence_count (failed_finding g) = int (length (snd g))"
  by (simp_all add: failed_finding_def trace_finding_def finding_at_def evidence_count_def jget_def json_int_def)

lemma failures_only:
  "filter (\<lambda>f. f_topic f = WritesDeclined \<or> f_topic f = CallsFailed) (map failed_finding gs) = map failed_finding gs"
  by (induction gs) simp_all

lemma failure_findings_count:
  assumes "failure_findings es = Some fs"
  shows "failure_count fs = int (length es)"
proof -
  obtain groups where g: "fold_opt group_failure es [] = Some groups"
      "fs = map failed_finding (sort_key (\<lambda>g. - int (length (snd g))) groups)"
    using assms by (auto simp: failure_findings_def)
  have "failure_count fs = sum_list (map (\<lambda>g. int (length (snd g))) (sort_key (\<lambda>g. - int (length (snd g))) groups))"
    by (simp only: failure_count_def g(2) failures_only) (simp add: o_def)
  also have "\<dots> = sum_list (map (\<lambda>g. int (length (snd g))) groups)"
    by (simp flip: sum_mset_sum_list)
  also have "\<dots> = int (grouped_events groups)"
    by (induction groups) (simp_all add: grouped_events_def)
  finally show ?thesis
    using groups_count [OF g(1)] by (simp add: group_keys_ok_def grouped_events_def)
qed

lemma filter_split: "length (filter P xs) + length (filter (\<lambda>x. \<not> P x) xs) = length xs"
  by (induction xs) auto

lemma failure_count_append [simp]: "failure_count (fs @ gs) = failure_count fs + failure_count gs"
  by (simp add: failure_count_def)

lemma unattributed_part_count: "unattributed_part es = Some fs \<Longrightarrow> failure_count fs = 0"
  by (auto simp: unattributed_part_def unattributed_finding_def failure_count_def trace_finding_def
      finding_at_def Let_def split: if_splits)

text \<open>
  The trace check counts every failed call of the spec's trace exactly once: the counts of the
  refusals it forgives and of the failures it reports, grouped by reason, add up to the failures the
  reader returns.
\<close>

theorem trace_counts_every_failure:
  assumes "trace_findings t lost unattributed = Some fs"
  shows "failure_count fs = int (length (failures t))"
proof -
  obtain by_reason counts written got rest where parts:
      "failure_findings (filter (\<lambda>e. \<not> is_expected_decline e) (failures t)) = Some by_reason"
      "unattributed_part unattributed = Some rest"
      "fs = (if filter is_expected_decline (failures t) = [] then []
             else [trace_finding Remark WritesDeclined
               [(''count'', json_int (length (filter is_expected_decline (failures t))))]]) @
            by_reason @ rewrite_part counts @ lost_part lost @
            [counted_finding t (length (filter (\<lambda>e. \<not> is_expected_decline e) (failures t))) written got] @ rest"
    using assms by (auto simp: trace_findings_def Let_def split: option.splits)
  have "failure_count (if filter is_expected_decline (failures t) = [] then []
      else [trace_finding Remark WritesDeclined
        [(''count'', json_int (length (filter is_expected_decline (failures t))))]]) =
      int (length (filter is_expected_decline (failures t)))"
    by (simp add: failure_count_def trace_finding_def finding_at_def evidence_count_def jget_def json_int_def)
  moreover have "failure_count (rewrite_part counts) = 0" "failure_count (lost_part lost) = 0"
      "failure_count (counted_finding t n written got # fs') = failure_count fs'" for n fs'
    by (simp_all add: failure_count_def rewrite_part_def lost_part_def lost_finding_def counted_finding_def
        trace_finding_def finding_at_def Let_def)
  ultimately show ?thesis
    using failure_findings_count [OF parts(1)] unattributed_part_count [OF parts(2)]
      filter_split [of is_expected_decline "failures t"]
    by (simp add: parts(3))
qed

subsection \<open>Artifacts\<close>

lemma judge_step_cases:
  assumes "judge_step sd declared step = Some fs" "f \<in> set fs"
  obtains entries name where "jget declared step = JList entries" "name \<in> set (judged_names (dicts_in entries))"
    "\<not> artifact_exists sd name" "f = artifact_finding step (dicts_in entries) name"
    "list_ex (artifact_exists sd) (judged_names (dicts_in entries))"
proof -
  obtain entries where e: "jget declared step = JList entries"
    using assms(1) by (auto simp: judge_step_def split: json.splits)
  let ?names = "judged_names (dicts_in entries)"
  have some: "length (filter (\<lambda>n. \<not> artifact_exists sd n) ?names) \<noteq> length ?names"
      "fs = map (artifact_finding step (dicts_in entries)) (filter (\<lambda>n. \<not> artifact_exists sd n) ?names)"
    using assms(1) by (auto simp: judge_step_def e Let_def split: if_splits)
  have "list_ex (artifact_exists sd) ?names"
  proof (rule ccontr)
    assume "\<not> list_ex (artifact_exists sd) ?names"
    then have "filter (\<lambda>n. \<not> artifact_exists sd n) ?names = ?names" by (simp add: filter_id_conv list_ex_iff)
    then show False using some(1) by simp
  qed
  then show thesis using that e assms(2) some(2) by auto
qed

text \<open>
  A missing artifact is reported only of a step the record closed, only of a file its pipeline
  declares without condition, only when that file is not there, and only when the step left another
  of its declared files behind; so a run of another pipeline is never faulted.
\<close>

theorem artifact_blames_only_dropped_files:
  assumes "check_artifact sd ctx = Some (s, fs)"
  shows "list_all (\<lambda>f. \<exists>step entries name declared.
      declared_artifacts (sd_manifest sd) = Some declared \<and>
      list_ex (is_complete_of step None) (canonical_log ctx) \<and>
      jget declared step = JList entries \<and> name \<in> set (judged_names (dicts_in entries)) \<and>
      \<not> artifact_exists sd name \<and> list_ex (artifact_exists sd) (judged_names (dicts_in entries)) \<and>
      f = artifact_finding step (dicts_in entries) name) fs"
proof (cases "fs = []")
  case False
  then obtain declared steps where d: "declared_artifacts (sd_manifest sd) = Some declared"
      "closed_steps ctx = Some steps"
      "fs = concat (List.map_filter (judge_step sd declared) (sort steps))"
    using assms by (auto simp: check_artifact_def with_record_def skipped_for_def ran_with_def Let_def
        split: option.splits if_splits)
  have closed: "list_ex (is_complete_of step None) (canonical_log ctx)" if step: "step \<in> set steps" for step
  proof -
    obtain yss where yss: "traverse closed_step (log_entries ctx) = Some yss" "steps = remdups (concat yss)"
      using d(2) by (auto simp: closed_steps_def)
    obtain e ys where e: "e \<in> set (log_entries ctx)" "closed_step e = Some ys" "step \<in> set ys"
      using step yss(2) concat_traverse [OF yss(1), of step] by auto
    then have "jget e ''step'' = JStr step \<and> is_step_level e \<and> entry_kind e = Some ''complete''"
      by (auto simp: closed_step_def guarded_kind_def split: json.splits if_splits)
    then show ?thesis
      using e(1) by (auto simp: list_ex_iff is_complete_of_None log_entries_set intro!: bexI [of _ "JDict e"])
  qed
  show ?thesis
    unfolding list_all_iff
  proof
    fix f assume "f \<in> set fs"
    then obtain step gs where g: "step \<in> set steps" "judge_step sd declared step = Some gs" "f \<in> set gs"
      by (force simp: d(3) List.map_filter_def split: if_splits)
    show "\<exists>step entries name declared. declared_artifacts (sd_manifest sd) = Some declared \<and>
      list_ex (is_complete_of step None) (canonical_log ctx) \<and>
      jget declared step = JList entries \<and> name \<in> set (judged_names (dicts_in entries)) \<and>
      \<not> artifact_exists sd name \<and> list_ex (artifact_exists sd) (judged_names (dicts_in entries)) \<and>
      f = artifact_finding step (dicts_in entries) name"
      using judge_step_cases [OF g(2,3)] closed [OF g(1)] d(1) by metis
  qed
qed simp

definition two_failures :: trace_read where
  "two_failures = no_lines\<lparr>rd_events :=
     [[(''op'', JStr ''set''), (''ok'', JBool False), (''reason'', JStr ''not regressing'')],
      [(''op'', JStr ''set''), (''ok'', JBool False), (''reason'', JStr ''x'')],
      [(''op'', JStr ''set''), (''ok'', JBool True)]]\<rparr>"

theorem trace_counts_every_failure_witness:
  "\<exists>fs. trace_findings two_failures [] [] = Some fs \<and> failure_count fs = 2"
proof -
  have "trace_findings two_failures [] [] \<noteq> None" by code_simp
  then obtain fs where "trace_findings two_failures [] [] = Some fs" by auto
  moreover have "length (failures two_failures) = 2" by code_simp
  ultimately show ?thesis using trace_counts_every_failure [of two_failures "[]" "[]" fs] by simp
qed

definition artifact_ctx :: jdict where
  "artifact_ctx = [(''history'', JList [JDict [(''step'', JStr ''plan''), (''kind'', JStr ''complete'')]])]"

definition artifact_sd :: spec_dir where
  "artifact_sd = (example_sd artifact_ctx)
     \<lparr>sd_exists := (\<lambda>n. n = ''plan.md''),
      sd_manifest := Some (JDict [(''commands'', JDict [(''plan'', JList
        [JDict [(''artifact'', JStr ''plan.md'')], JDict [(''artifact'', JStr ''research.md'')]])])])\<rparr>"

theorem artifact_blames_only_dropped_files_witness:
  "check_artifact artifact_sd artifact_ctx =
     ran_with ArtifactCheck [artifact_finding ''plan'' [[(''artifact'', JStr ''plan.md'')], [(''artifact'', JStr ''research.md'')]] ''research.md''] \<and>
   list_ex (is_complete_of ''plan'' None) (canonical_log artifact_ctx)"
proof -
  have run: "check_artifact artifact_sd artifact_ctx =
     Some (check_status ArtifactCheck Ran, [artifact_finding ''plan'' [[(''artifact'', JStr ''plan.md'')], [(''artifact'', JStr ''research.md'')]] ''research.md''])"
    by code_simp
  have "\<exists>step entries name. list_ex (is_complete_of step None) (canonical_log artifact_ctx) \<and>
      artifact_finding ''plan'' [[(''artifact'', JStr ''plan.md'')], [(''artifact'', JStr ''research.md'')]] ''research.md'' =
      artifact_finding step (dicts_in entries) name"
    using artifact_blames_only_dropped_files [OF run] by auto
  then have "list_ex (is_complete_of ''plan'' None) (canonical_log artifact_ctx)"
    by (auto simp: artifact_finding_def finding_at_def)
  then show ?thesis using run by (simp add: ran_with_def)
qed

subsection \<open>Dispatch and verification\<close>

lemma since_start_without_offer:
  assumes "since_start ctx evs step = Some (labels, offered)"
    and "list_all (\<lambda>e. jget e ''op'' \<noteq> JStr ''dispatch-offer'') evs"
  shows "offered = []"
proof -
  obtain since kept off where k:
      "traverse (\<lambda>e. map_option (\<lambda>ge. if ge then [e] else []) (json_ge (or_empty (jget e ''at'')) since)) evs = Some kept"
      "files_with_op ''dispatch-offer'' (concat kept) = Some off" "offered = remdups off"
    using assms(1) by (auto simp: since_start_def split: option.splits if_splits)
  have "set (concat kept) \<subseteq> set evs"
  proof
    fix y assume "y \<in> set (concat kept)"
    then obtain x ys where x: "x \<in> set evs"
        "map_option (\<lambda>ge. if ge then [x] else []) (json_ge (or_empty (jget x ''at'')) since) = Some ys" "y \<in> set ys"
      unfolding concat_traverse [OF k(1)] by blast
    then have "y = x" by (auto split: if_splits)
    then show "y \<in> set evs" using x(1) by simp
  qed
  then have "filter (\<lambda>e. jget e ''op'' = JStr ''dispatch-offer'') (concat kept) = []"
    using assms(2) by (auto simp: filter_empty_conv list_all_iff)
  then show ?thesis using k(2,3) by (simp add: files_with_op_def)
qed

text \<open>A step is judged only when workers were offered: a run from before the briefs is never faulted.\<close>

lemma dispatch_needs_offers:
  assumes "check_dispatch sd ctx = Some (s, fs)" "own_trace sd = Some t"
    and "list_all (\<lambda>e. jget e ''op'' \<noteq> JStr ''dispatch-offer'') (events_of t)"
  shows "fs = []"
proof -
  have plan: "gs = []" if g: "plan_dispatch ctx (events_of t) = Some gs" for gs
  proof -
    obtain labels offered areas where o: "since_start ctx (events_of t) ''plan'' = Some (labels, offered)"
        "map_option concat (traverse (plan_expectation labels offered)
            [(if 2 \<le> areas then min areas 4 else 0, ''reader:'', ''readers''), (2, ''doc:'', ''docs'')]) = Some gs"
      using g by (auto simp: plan_dispatch_def split: option.splits)
    have "offered = []" by (rule since_start_without_offer [OF o(1) assms(3)])
    then show ?thesis using o(2) by (simp add: plan_expectation_def)
  qed
  have impl: "gs = []" if g: "implement_dispatch ctx (events_of t) c = Some gs" for gs c
  proof -
    obtain labels offered where o: "since_start ctx (events_of t) ''implement'' = Some (labels, offered)"
      using g by (auto simp: implement_dispatch_def split: option.splits)
    have "offered = []" by (rule since_start_without_offer [OF o(1) assms(3)])
    then show ?thesis using g o by (simp add: implement_dispatch_def offered_waves_def split: if_splits)
  qed
  show ?thesis
    using assms(1,2) plan impl
    by (auto simp: check_dispatch_def with_record_def skipped_for_def ran_with_def Let_def
        split: option.splits if_splits)
qed

lemma any_opt_log:
  "any_opt (complete_entry step None) (canonical_log ctx) = step_closed ctx step"
proof -
  have "any_opt (complete_entry step None) xs =
    any_opt (\<lambda>e. guarded_kind (jget e ''step'' = JStr step \<and> is_step_level e) e ''complete'')
      (List.map_filter (\<lambda>j. case j of JDict e \<Rightarrow> Some e | _ \<Rightarrow> None) xs)" for xs
  proof (induction xs)
    case (Cons j xs)
    have "complete_entry step None j = (case j of
        JDict e \<Rightarrow> guarded_kind (jget e ''step'' = JStr step \<and> is_step_level e) e ''complete'' | _ \<Rightarrow> Some False)"
      by (cases j) (simp_all add: complete_entry_def complete_matches_def)
    then show ?case using Cons
      by (cases j) (simp_all add: List.map_filter_simps split: option.splits bool.splits)
  qed (simp add: List.map_filter_simps)
  then show ?thesis by (simp add: step_closed_def log_entries_def)
qed

text \<open>The check of verification asks the question the writers ask before they close a step.\<close>

lemma step_closed_has_complete: "step_closed ctx step = has_complete (canonical_log ctx) step None"
  by (simp add: has_complete_def any_opt_log)

end
