(* ===== verification/DoctorRun.thy ===== *)
theory DoctorRun
  imports ShapeCheck DoctorDrift DoctorBleed DoctorTrace
begin

text \<open>
  The transcript audit (\<open>doctor_chat.py\<close>) and the doctor as a whole: \<open>examine\<close> on the checks of the
  model, which meet the contract the frame states.

  The transcripts of the project, newest first, are an argument.
\<close>

subsection \<open>Entries of a transcript\<close>

definition CHURN_THRESHOLD :: nat where "CHURN_THRESHOLD = 3"

definition project_key :: "string \<Rightarrow> string" where
  "project_key root = map (\<lambda>c. if c = CHR ''/'' then CHR ''-'' else c) root"

definition chat_line :: "spec_dir \<Rightarrow> (int \<times> int) option \<Rightarrow> string \<Rightarrow> jdict list \<times> nat \<Rightarrow> jdict list \<times> nat" where
  "chat_line sd window raw acc =
     (let line = strip raw in
      if line = [] then acc
      else case json_loads line of
          Some (JDict d) \<Rightarrow>
            if in_window (parse_time (sd_zone sd) (jget d ''timestamp'')) window then (fst acc @ [d], snd acc) else acc
        | _ \<Rightarrow> (fst acc, Suc (snd acc)))"

definition chat_entries :: "spec_dir \<Rightarrow> (int \<times> int) option \<Rightarrow> string \<Rightarrow> jdict list \<times> nat" where
  "chat_entries sd window s = fold (chat_line sd window) (split_on (CHR 0x0A) (unix_newlines s)) ([], 0)"

text \<open>\<open>(entry.get("message") or {}).get("content")\<close>.\<close>

definition content_of :: "jdict \<Rightarrow> json option" where
  "content_of e = map_option (\<lambda>m. jget m ''content'') (dict_or_raise (jget e ''message''))"

definition blocks_of :: "string \<Rightarrow> jdict \<Rightarrow> jdict list option" where
  "blocks_of kind e =
     map_option (\<lambda>c. filter (\<lambda>b. jget b ''type'' = JStr kind) (dicts_in (list_or_empty c))) (content_of e)"

definition block_text :: "jdict \<Rightarrow> string option" where
  "block_text b =
     (if \<not> has_key b ''text'' then Some [] else case jget b ''text'' of JStr s \<Rightarrow> Some s | _ \<Rightarrow> None)"

definition entry_text :: "jdict \<Rightarrow> string option" where
  "entry_text e =
     (case content_of e of
        None \<Rightarrow> None
      | Some (JStr s) \<Rightarrow> Some s
      | Some (JList cs) \<Rightarrow>
          map_option (join nl) (traverse block_text (filter (\<lambda>b. jget b ''type'' = JStr ''text'') (dicts_in cs)))
      | Some _ \<Rightarrow> Some [])"

record chat_stats =
  st_calls :: nat
  st_failures :: nat
  st_retries :: nat
  st_turns :: nat
  st_chars :: nat
  st_files :: "(string \<times> nat) list"
  st_commands :: "(string \<times> nat) list"

definition no_stats :: chat_stats where
  "no_stats = \<lparr>st_calls = 0, st_failures = 0, st_retries = 0, st_turns = 0, st_chars = 0, st_files = [], st_commands = []\<rparr>"

definition count_in :: "string \<Rightarrow> (string \<times> nat) list \<Rightarrow> (string \<times> nat) list" where
  "count_in k counts = AList.update k (case map_of counts k of None \<Rightarrow> 1 | Some n \<Rightarrow> Suc n) counts"

definition tool_use :: "jdict \<Rightarrow> chat_stats \<Rightarrow> chat_stats option" where
  "tool_use b s =
     (case dict_or_raise (jget b ''input'') of
        None \<Rightarrow> None
      | Some params \<Rightarrow>
          (let path = (if truthy (jget params ''file_path'') then jget params ''file_path'' else jget params ''notebook_path'');
               s1 = s\<lparr>st_calls := Suc (st_calls s),
                      st_files := (if truthy path then count_in (py_str path) (st_files s) else st_files s)\<rparr>
           in case jget params ''command'' of
                JStr cmd \<Rightarrow>
                  (let key = take 120 (strip cmd)
                   in Some (s1\<lparr>st_commands := count_in key (st_commands s1),
                               st_retries := st_retries s1 + (if map_of (st_commands s1) key = None then 0 else 1)\<rparr>))
              | _ \<Rightarrow> Some s1))"

definition analyze_entry :: "jdict \<Rightarrow> chat_stats \<Rightarrow> chat_stats option" where
  "analyze_entry e s =
     (if jget e ''type'' = JStr ''assistant'' then
        (case (entry_text e, blocks_of ''tool_use'' e) of
           (Some t, Some bs) \<Rightarrow>
             fold_opt tool_use bs (s\<lparr>st_turns := Suc (st_turns s), st_chars := st_chars s + length t\<rparr>)
         | _ \<Rightarrow> None)
      else if jget e ''type'' = JStr ''user'' then
        map_option (\<lambda>bs. s\<lparr>st_failures := st_failures s + length (filter (\<lambda>b. truthy (jget b ''is_error'')) bs)\<rparr>)
          (blocks_of ''tool_result'' e)
      else Some s)"

definition analyze :: "jdict list \<Rightarrow> chat_stats option" where
  "analyze es = fold_opt analyze_entry es no_stats"

definition churn_of :: "chat_stats \<Rightarrow> (string \<times> nat) list" where
  "churn_of s = filter (\<lambda>(f, n). CHURN_THRESHOLD \<le> n) (st_files s)"

subsection \<open>Contradictions\<close>

definition drift_contradiction :: "jdict \<Rightarrow> jdict list option" where
  "drift_contradiction f =
     (if \<not> truthy (jget f ''claim'') then Some []
      else case jget f ''claim'' of
          JDict c \<Rightarrow> if has_key c ''text'' then Some [[(''claim'', jget c ''text''),
              (''recomputed'', JStr (py_str (jget f ''capability'') @ '' is '' @ py_str (jget f ''class'') @ '' drift''))]]
            else None
        | _ \<Rightarrow> None)"

definition contradictions :: "jdict \<Rightarrow> report \<Rightarrow> jdict list option" where
  "contradictions ctx r =
     map_option (\<lambda>xs. concat xs @
         (if jget (r_completion r) ''outcome'' = JStr ''never-arrived''
          then [[(''claim'', JStr ''a completion write was recorded as succeeding''),
                 (''recomputed'', JStr (''the spec is still at `'' @ py_str (jget ctx ''status'') @ ''`''))]] else []))
       (traverse drift_contradiction (r_drift r))"

subsection \<open>The audit\<close>

definition chat_finding :: "severity \<Rightarrow> jdict \<Rightarrow> finding" where
  "chat_finding sev ev = finding_at ChatCheck sev ChatFinding ev"

definition count_dict :: "(string \<times> nat) list \<Rightarrow> json" where
  "count_dict xs = JDict (map (\<lambda>(f, n). (f, json_int n)) xs)"

definition stats_dict :: "chat_stats \<Rightarrow> jdict" where
  "stats_dict s = [(''tool_calls'', json_int (st_calls s)), (''failures'', json_int (st_failures s)),
     (''retries'', json_int (st_retries s)), (''assistant_turns'', json_int (st_turns s)),
     (''narration_chars'', json_int (st_chars s)), (''churn'', count_dict (churn_of s))]"

definition stalled_finding :: "jdict list \<Rightarrow> string \<Rightarrow> finding option" where
  "stalled_finding es step =
     map_option (\<lambda>seen. chat_finding Warning [(''step'', JStr step), (''mentioned_in_transcript'', JBool seen)])
       (any_opt (\<lambda>e. map_option (contains step) (entry_text e)) es)"

definition failures_part :: "chat_stats \<Rightarrow> finding list" where
  "failures_part s =
     (if st_failures s = 0 then []
      else [chat_finding Warning [(''failures'', json_int (st_failures s)), (''tool_calls'', json_int (st_calls s)),
        (''retries'', json_int (st_retries s))]])"

definition churn_part :: "chat_stats \<Rightarrow> finding list" where
  "churn_part s = (if churn_of s = [] then [] else [chat_finding Remark [(''churn'', count_dict (churn_of s))]])"

definition NO_TRANSCRIPT :: string where
  "NO_TRANSCRIPT = ''no session transcript for this project -- the provider that ran it keeps none, or it has been cleared''"

definition OUTSIDE_TRANSCRIPT :: string where
  "OUTSIDE_TRANSCRIPT = ''a transcript exists but none of it falls inside this run's recorded time window''"

definition unavailable :: "string \<Rightarrow> report \<Rightarrow> report" where
  "unavailable why r = r\<lparr>r_chat := [(''available'', JBool False), (''reason'', JStr why)]\<rparr>"

text \<open>The first transcript that has an entry in the window of the run.\<close>

definition chosen_transcript ::
  "spec_dir \<Rightarrow> jdict \<Rightarrow> (string \<times> string) list \<Rightarrow> (string \<times> jdict list) option" where
  "chosen_transcript sd ctx transcripts =
     (let read = (\<lambda>(path, s). (path, fst (chat_entries sd (run_window (sd_zone sd) ctx WINDOW_PAD) s)))
      in List.find (\<lambda>(path, es). es \<noteq> []) (map read transcripts))"

definition check_chat :: "(string \<times> string) list \<Rightarrow> spec_dir \<Rightarrow> jdict \<Rightarrow> check_fun" where
  "check_chat transcripts sd ctx r =
     (if transcripts = [] then (unavailable NO_TRANSCRIPT r, skipped_for ChatCheck NoTranscript)
      else case chosen_transcript sd ctx transcripts of
          None \<Rightarrow> (unavailable OUTSIDE_TRANSCRIPT r, skipped_for ChatCheck NoTranscript)
        | Some (source, es) \<Rightarrow>
            (case (analyze es, contradictions ctx r, dangling_steps sd ctx) of
               (Some stats, Some contra, Some dangling) \<Rightarrow>
                 (let stalled = map fst dangling in
                  case traverse (stalled_finding es) stalled of
                    None \<Rightarrow> (r, None)
                  | Some stopped \<Rightarrow>
                      (r\<lparr>r_chat := [(''available'', JBool True), (''transcript'', JStr source)] @ stats_dict stats @
                           [(''contradictions'', JList (map JDict contra)), (''stalled_steps'', json_names stalled)]\<rparr>,
                       ran_with ChatCheck (failures_part stats @ stopped @ map (chat_finding Problem) contra @
                         churn_part stats @ [chat_finding Remark (stats_dict stats)])))
             | _ \<Rightarrow> (r, None)))"

subsection \<open>The doctor\<close>

text \<open>What the checks take from outside the scripts, beside the directory.\<close>

record surroundings =
  su_git :: git
  su_log :: "int \<Rightarrow> int \<Rightarrow> int \<times> string"
  su_drift :: "json option"
  su_transcripts :: "(string \<times> string) list"

text \<open>A check that publishes nothing.\<close>

definition only_result :: "check_result \<Rightarrow> check_fun" where
  "only_result res r = (r, res)"

fun doctor_via :: "surroundings \<Rightarrow> spec_dir \<Rightarrow> jdict \<Rightarrow> check \<Rightarrow> check_fun" where
  "doctor_via su sd ctx RecordCheck = only_result (check_record sd ctx)"
| "doctor_via su sd ctx TriageCheck = only_result (check_triage sd ctx)"
| "doctor_via su sd ctx BleedCheck = check_bleed (su_log su) sd ctx"
| "doctor_via su sd ctx DriftCheck = check_drift (su_git su) (su_drift su) ctx"
| "doctor_via su sd ctx CompletionCheck = check_completion sd ctx"
| "doctor_via su sd ctx VerificationCheck = only_result (check_verification sd ctx)"
| "doctor_via su sd ctx ArtifactCheck = only_result (check_artifact sd ctx)"
| "doctor_via su sd ctx TemplateCheck = only_result (check_template sd)"
| "doctor_via su sd ctx BriefedCheck = only_result (check_briefed sd ctx)"
| "doctor_via su sd ctx DispatchCheck = only_result (check_dispatch sd ctx)"
| "doctor_via su sd ctx TraceCheck = only_result (check_trace sd ctx)"
| "doctor_via su sd ctx ChatCheck = check_chat (su_transcripts su) sd ctx"

definition examine_dir :: "surroundings \<Rightarrow> spec_dir \<Rightarrow> bool \<Rightarrow> report" where
  "examine_dir su sd chat = examine (doctor_via su sd (read_ctx (sd_feature sd))) chat (dir_of (sd_place sd))"

section \<open>The checks meet the contract\<close>

text \<open>What a check returns is for itself, and it has findings only when it ran.\<close>

definition honest :: "check \<Rightarrow> check_result \<Rightarrow> bool" where
  "honest c res \<longleftrightarrow> (case res of
     None \<Rightarrow> True
   | Some (s, fs) \<Rightarrow> s_check s = c \<and> list_all (\<lambda>f. f_check f = c) fs \<and> (fs \<noteq> [] \<longrightarrow> s_state s = Ran))"

lemma honest_simps [simp]:
  "honest c None" "honest c (skipped_for c why)" "honest c (not_applicable c)"
  "honest c (ran_with c fs) \<longleftrightarrow> list_all (\<lambda>f. f_check f = c) fs"
  by (auto simp: honest_def skipped_for_def not_applicable_def ran_with_def check_status_def)

lemma honest_with_record [simp]: "honest c res \<Longrightarrow> honest c (with_record c sd ctx res)"
  by (auto simp: with_record_def split: option.split)

lemma finding_at_check [simp]: "f_check (finding_at c s t ev) = c"
  by (simp add: finding_at_def)

lemma honest_findings [simp]:
  "f_check (dangling_finding p) = RecordCheck" "f_check (thin_finding q) = RecordCheck"
  "f_check (attribution_finding x) = RecordCheck" "f_check (triage_finding sev t status step shown) = TriageCheck"
  "f_check (plan_finding n) = DispatchCheck" "f_check (artifact_finding step es name) = ArtifactCheck"
  "f_check (template_finding sev t ev) = TemplateCheck" "f_check (trace_finding sev t ev) = TraceCheck"
  "f_check (chat_finding sev ev) = ChatCheck" "f_check (lost_finding lost) = TraceCheck"
  "f_check (failed_finding g) = TraceCheck" "f_check (counted_finding rd n a b) = TraceCheck"
  "f_check (bleed_finding sg) = BleedCheck" "f_check (share_finding sh) = BleedCheck" "f_check (gap_finding g') = BleedCheck"
  by (simp_all add: dangling_finding_def thin_finding_def attribution_finding_def triage_finding_def plan_finding_def
      artifact_finding_def template_finding_def trace_finding_def chat_finding_def lost_finding_def failed_finding_def
      counted_finding_def bleed_finding_def share_finding_def gap_finding_def)

lemma all_True [simp]: "list_all (\<lambda>x. True) xs"
  by (simp add: list_all_iff)

lemma all_map [simp]: "list_all P (map f xs) \<longleftrightarrow> list_all (\<lambda>x. P (f x)) xs"
  by (simp add: list_all_iff)

lemma honest_record: "honest RecordCheck (check_record sd ctx)"
proof -
  have "list_all (\<lambda>f. f_check f = RecordCheck) fs" if "unjournaled_findings sd ctx = Some fs" for fs
    using that by (auto simp: unjournaled_findings_def Let_def split: option.splits)
  moreover have "list_all (\<lambda>f. f_check f = RecordCheck) (burst_findings bs)" for bs
    by (simp add: burst_findings_def Let_def)
  ultimately show ?thesis
    unfolding check_record_def by (intro honest_with_record) (auto simp: list_all_iff split: option.splits)
qed

lemma honest_triage: "honest TriageCheck (check_triage sd ctx)"
  unfolding check_triage_def by (intro honest_with_record) (auto split: option.splits)

lemma honest_verification: "honest VerificationCheck (check_verification sd ctx)"
  unfolding check_verification_def by (intro honest_with_record) (auto split: option.splits bool.splits)

lemma honest_briefed: "honest BriefedCheck (check_briefed sd ctx)"
  unfolding check_briefed_def by (intro honest_with_record) (auto simp: Let_def split: option.splits)

lemma honest_template: "honest TemplateCheck (check_template sd)"
  by (auto simp: check_template_def template_findings_def heading_findings_def Let_def split: option.splits)

lemma honest_artifact: "honest ArtifactCheck (check_artifact sd ctx)"
proof (cases "check_artifact sd ctx")
  case (Some x)
  obtain s fs where x: "x = (s, fs)" by (cases x)
  have own: "list_all (\<lambda>f. f_check f = ArtifactCheck) fs"
    using artifact_blames_only_dropped_files [of sd ctx s fs] by (fastforce simp: list_all_iff Some x)
  show ?thesis
    using Some own
    by (auto simp: x honest_def check_artifact_def with_record_def skipped_for_def ran_with_def check_status_def Let_def
        split: option.splits if_splits)
qed simp

lemma honest_dispatch: "honest DispatchCheck (check_dispatch sd ctx)"
proof -
  let ?own = "list_all (\<lambda>f. f_check f = DispatchCheck)"
  have one: "?own fs" if "plan_expectation labels offered x = Some fs" for labels offered x fs
    using that by (cases x) (auto simp: plan_expectation_def split: if_splits)
  have plan: "?own fs" if "plan_dispatch ctx evs = Some fs" for evs fs
    using that by (auto simp: plan_dispatch_def split: option.splits dest!: one)
  have impl: "?own fs" if "implement_dispatch ctx evs closed = Some fs" for evs closed fs
    using that by (auto simp: implement_dispatch_def split: option.splits if_splits)
  show ?thesis
    unfolding check_dispatch_def
    by (intro honest_with_record) (auto simp: Let_def plan impl split: option.splits)
qed

lemma honest_trace: "honest TraceCheck (check_trace sd ctx)"
proof -
  let ?own = "list_all (\<lambda>f. f_check f = TraceCheck)"
  have tail: "?own fs" if "unattributed_part es = Some fs" for es fs
    using that by (auto simp: unattributed_part_def unattributed_finding_def Let_def split: if_splits)
  have lost: "?own (lost_part xs)" for xs by (simp add: lost_part_def)
  have failed: "?own fs" if "failure_findings es = Some fs" for es fs
    using that by (auto simp: failure_findings_def list_all_iff)
  have counts: "?own (rewrite_part cs)" for cs by (simp add: rewrite_part_def Let_def)
  have all: "?own fs" if "trace_findings t xs un = Some fs" for t xs un fs
    using that lost counts
    by (auto simp: trace_findings_def Let_def split: option.splits dest!: tail failed)
  show ?thesis
    by (auto simp: check_trace_def Let_def honest_def skipped_for_def check_status_def lost
        split: option.splits dest!: tail all)
qed

lemma honest_completion:
  "honest CompletionCheck (snd (check_completion sd ctx r)) \<and>
   r_statuses (fst (check_completion sd ctx r)) = r_statuses r \<and> r_findings (fst (check_completion sd ctx r)) = r_findings r"
proof -
  have "list_all (\<lambda>f. f_check f = CompletionCheck) (completion_findings sd a v)" for a v
    by (cases v) (simp_all add: completion_findings_def)
  then show ?thesis by (auto simp: check_completion_def Let_def split: option.splits)
qed

lemma honest_drift:
  "honest DriftCheck (snd (check_drift git res ctx r)) \<and>
   r_statuses (fst (check_drift git res ctx r)) = r_statuses r \<and> r_findings (fst (check_drift git res ctx r)) = r_findings r"
  by (auto simp: check_drift_def Let_def list_all_iff split: option.splits json.splits)

lemma honest_bleed:
  "honest BleedCheck (snd (check_bleed log sd ctx r)) \<and>
   r_statuses (fst (check_bleed log sd ctx r)) = r_statuses r \<and> r_findings (fst (check_bleed log sd ctx r)) = r_findings r"
proof -
  have "list_all (\<lambda>f. f_check f = BleedCheck) (time_findings ws)" for ws
    by (auto simp: time_findings_def split: option.splits)
  then show ?thesis by (auto simp: check_bleed_def split: option.splits)
qed

lemma traverse_all: "traverse f xs = Some ys \<Longrightarrow> (\<And>x y. f x = Some y \<Longrightarrow> P y) \<Longrightarrow> list_all P ys"
  by (induction xs arbitrary: ys) (auto split: option.splits)

lemma honest_chat:
  "honest ChatCheck (snd (check_chat ts sd ctx r)) \<and>
   r_statuses (fst (check_chat ts sd ctx r)) = r_statuses r \<and> r_findings (fst (check_chat ts sd ctx r)) = r_findings r"
proof -
  have stopped: "list_all (\<lambda>f. f_check f = ChatCheck) fs" if "traverse (stalled_finding es) steps = Some fs" for es steps fs
    by (rule traverse_all [OF that]) (auto simp: stalled_finding_def)
  show ?thesis
    by (auto simp: check_chat_def unavailable_def Let_def failures_part_def churn_part_def stopped split: option.splits)
qed

lemma only_result_simps [simp]: "fst (only_result res r) = r" "snd (only_result res r) = res"
  by (simp_all add: only_result_def)

lemma doctor_via_honest:
  "honest c (snd (doctor_via su sd ctx c r)) \<and> r_statuses (fst (doctor_via su sd ctx c r)) = r_statuses r \<and>
   r_findings (fst (doctor_via su sd ctx c r)) = r_findings r"
  by (cases c) (simp_all add: honest_record honest_triage honest_verification honest_briefed honest_template
      honest_artifact honest_dispatch honest_trace honest_completion honest_drift honest_bleed honest_chat)

interpretation doctor: check_module "doctor_via su sd ctx" for su sd ctx
proof
  fix c r s fs f
  show "r_statuses (fst (doctor_via su sd ctx c r)) = r_statuses r"
    "r_findings (fst (doctor_via su sd ctx c r)) = r_findings r"
    using doctor_via_honest by blast+
  assume res: "snd (doctor_via su sd ctx c r) = Some (s, fs)"
  have h: "s_check s = c \<and> list_all (\<lambda>f. f_check f = c) fs \<and> (fs \<noteq> [] \<longrightarrow> s_state s = Ran)"
    using doctor_via_honest [of c su sd ctx r] by (simp add: res honest_def)
  show "s_check s = c" using h by simp
  show "f_check f = c" if "f \<in> set fs" using h that by (simp add: list_all_iff)
  show "s_state s = Ran" if "fs \<noteq> []" using h that by simp
qed

section \<open>The report as a whole\<close>

text \<open>C13: Whatever is on disk and whichever checks raise, an examination has one entry of the ledger for
  every check it was asked for, in order; each entry counts exactly the findings of its check, only a
  check that ran has any, and the totals of the summary add up to the checks and to the findings.
\<close>

theorem examination_accounts_for_every_check:
  "map fst (r_statuses (examine_dir su sd chat)) = EXAMINED @ (if chat then [ChatCheck] else []) \<and>
   balanced (examine_dir su sd chat) \<and>
   n_ran (count_report (examine_dir su sd chat)) + n_skipped (count_report (examine_dir su sd chat)) +
     n_not_applicable (count_report (examine_dir su sd chat)) = (if chat then 12 else 11) \<and>
   n_problem (count_report (examine_dir su sd chat)) + n_warning (count_report (examine_dir su sd chat)) +
     n_note (count_report (examine_dir su sd chat)) = length (r_findings (examine_dir su sd chat))"
  unfolding examine_dir_def using doctor.examine_balanced doctor.examine_counts by blast

text \<open>C28: Nothing found and could not look never print the same way: the report prints a check as clean
  exactly when it ran and found nothing, and it prints every finding there is and no other.
\<close>

theorem report_prints_honestly:
  "(CleanLine c \<in> set (render_lines (examine_dir su sd chat)) \<longleftrightarrow>
      (\<exists>s. map_of (r_statuses (examine_dir su sd chat)) c = Some s \<and> s_state s = Ran \<and> s_findings s = 0)) \<and>
   (FindingLine f \<in> set (render_lines (examine_dir su sd chat)) \<longleftrightarrow> f \<in> set (r_findings (examine_dir su sd chat)))"
proof -
  have "balanced (examine_dir su sd chat)"
    unfolding examine_dir_def using doctor.examine_balanced by blast
  then show ?thesis using doctor.clean_line_iff doctor.finding_line_iff by blast
qed

text \<open>The exit code, read off the findings: zero unless it was asked for and there is a problem.\<close>

lemma exit_code_strict:
  "exit_code strict reports = (if strict \<and> list_ex (\<lambda>r. list_ex (\<lambda>f. f_severity f = Problem) (r_findings r)) reports then 1 else 0)"
proof -
  have one: "0 < with_severity Problem fs \<longleftrightarrow> list_ex (\<lambda>f. f_severity f = Problem) fs" for fs
    by (induction fs) (auto simp: with_severity_def)
  have "0 < sum_list (map (\<lambda>r. with_severity Problem (r_findings r)) rs) \<longleftrightarrow>
      list_ex (\<lambda>r. list_ex (\<lambda>f. f_severity f = Problem) (r_findings r)) rs" for rs :: "report list"
    by (induction rs) (simp_all add: one)
  then show ?thesis by (simp only: exit_code_def)
qed

text \<open>A problem is a failure of the command when it was asked to be strict, whatever the comments say.\<close>

lemma strict_is_a_gate:
  "exit_code True [(new_report ''a'')\<lparr>r_findings := [dangling_finding (''plan'', JNull)]\<rparr>] = 1"
  by (simp add: exit_code_strict dangling_finding_def finding_at_def)

end
