(* ===== verification/Dispatch.thy ===== *)
theory Dispatch
  imports ShapeCheck DoctorRun
begin

text \<open>
  The briefs a step hands to its workers (\<open>dispatch-briefs.py\<close>): readers for the recorded areas,
  writers for the design documents, workers for a wave of Foundational tasks, a reviewer for the
  deltas.  A brief is the label its worker checks in under and the share of the work it gets; the
  wording is not modelled.  What is offered and who checked in goes into the run trace, and the last
  section shows that the doctor's dispatch check reads it back the way it was meant.
\<close>

subsection \<open>Sharing out work\<close>

definition MAX_READERS :: nat where "MAX_READERS = 4"
definition MIN_WAVE :: nat where "MIN_WAVE = 4"
definition DOCS :: "string list" where "DOCS = [''data-model.md'', ''contracts/'']"

text \<open>\<open>xs[::k]\<close>; \<open>xs[i::k]\<close> is the same of \<open>xs[i:]\<close>.\<close>

fun stride :: "nat \<Rightarrow> 'a list \<Rightarrow> 'a list" where
  "stride k [] = []"
| "stride k (x # xs) = x # stride k (drop (k - 1) xs)"

definition shares :: "'a list \<Rightarrow> 'a list list" where
  "shares xs = map (\<lambda>i. stride MAX_READERS (drop i xs)) [0..<min (length xs) MAX_READERS]"

type_synonym brief = "string \<times> string list"

definition area_of :: "json \<Rightarrow> string option" where
  "area_of c = (case c of JStr s \<Rightarrow> if prefix ''area:'' s then Some (strip (drop 5 s)) else None | _ \<Rightarrow> None)"

definition areas :: "jdict \<Rightarrow> string list option" where
  "areas ctx = map_option (List.map_filter area_of) (py_iter_or_empty (jget ctx ''context''))"

definition spec_file :: "feature \<Rightarrow> string option" where
  "spec_file st =
     (case sort (filter (\<lambda>n. ends_with n ''.spec.md'') (map fst (md_files st))) of
        n # _ \<Rightarrow> Some n
      | [] \<Rightarrow> if ''spec.md'' \<in> set (map fst (md_files st)) then Some ''spec.md'' else None)"

definition numbered :: "string \<Rightarrow> string list list \<Rightarrow> brief list" where
  "numbered label parts = map (\<lambda>(n, part). (label @ nat_text n, part)) (List.enumerate 1 parts)"

definition reader_briefs :: "jdict \<Rightarrow> brief list option" where
  "reader_briefs ctx = map_option (\<lambda>found. numbered ''reader: '' (shares found)) (areas ctx)"

definition doc_briefs :: "jdict \<Rightarrow> brief list" where
  "doc_briefs ctx =
     (if jget ctx ''size'' = JStr ''simple'' then [] else map (\<lambda>name. (''doc: '' @ name, [name])) DOCS)"

definition wave_label :: "nat \<Rightarrow> string" where
  "wave_label w = ''wave: '' @ nat_text w @ ''.''"

definition wave_briefs :: "nat \<Rightarrow> string list \<Rightarrow> brief list" where
  "wave_briefs w tasks = numbered (wave_label w) (shares tasks)"

subsection \<open>The reviewer of the deltas\<close>

record review =
  rv_capabilities :: "string list"
  rv_flagged :: "ShapeCheck.finding list"

definition living_brief :: "feature \<Rightarrow> review option" where
  "living_brief st =
     (case spec_file st of
        None \<Rightarrow> None
      | Some path \<Rightarrow>
          (case map_of (md_files st) path of
             None \<Rightarrow> None
           | Some text \<Rightarrow>
               (let blocks = delta_blocks text; ls = splitlines text
                in if blocks = [] then None
                   else Some
                     \<lparr>rv_capabilities = sort (remdups (filter (\<lambda>c. c \<noteq> []) (List.map_filter b_capability blocks))),
                      rv_flagged = concat (map (\<lambda>b.
                        if b_verb b \<in> {Added, Modified}
                        then check_living_spec (join nl (take (b_stop b - b_start b) (drop (b_start b) ls)))
                               path None None (b_start b)
                        else []) blocks)\<rparr>)))"

subsection \<open>The waves of the Foundational phase\<close>

text \<open>\<open>\s+\<close> at the front of a text.\<close>

definition after_spaces :: "string \<Rightarrow> string option" where
  "after_spaces s = (case s of c # _ \<Rightarrow> if is_space c then Some (lstrip s) else None | [] \<Rightarrow> None)"

definition after_word :: "string \<Rightarrow> string \<Rightarrow> string option" where
  "after_word w s = (if lower (take (length w) s) = w then Some (drop (length w) s) else None)"

definition after_digits :: "string \<Rightarrow> string option" where
  "after_digits s = (if takeWhile is_decimal s = [] then None else Some (dropWhile is_decimal s))"

definition is_foundational :: "string \<Rightarrow> bool" where
  "is_foundational line \<longleftrightarrow>
     Option.bind (Option.bind (Option.bind (Option.bind (Option.bind (Option.bind
       (after_word ''##'' line) after_spaces) (after_word ''phase'')) after_spaces) after_digits)
       (\<lambda>s. after_word '':'' (lstrip s))) (\<lambda>s. after_word ''foundational'' (lstrip s)) \<noteq> None"

definition ends_wave :: "string \<Rightarrow> bool" where
  "ends_wave line \<longleftrightarrow> (\<exists>p \<in> set [''**-->'', ''### '', ''**Wave'']. prefix p (strip line))"

definition marked_task :: "string \<Rightarrow> (string \<times> bool) option" where
  "marked_task line =
     (case pending_id line of
        Some tid \<Rightarrow> Some (tid, False)
      | None \<Rightarrow> map_option (\<lambda>tid. (tid, True)) (completed_id line))"

type_synonym wave = "(string \<times> bool) list"

fun waves_in :: "bool \<Rightarrow> wave \<Rightarrow> string list \<Rightarrow> wave list" where
  "waves_in inside current [] = [current]"
| "waves_in inside current (line # ls) =
     (if prefix ''## '' line
      then (if inside then [current] else waves_in (is_foundational line) current ls)
      else if inside \<and> ends_wave line then current # waves_in inside [] ls
      else case marked_task line of
          Some task \<Rightarrow> waves_in inside (if inside then current @ [task] else current) ls
        | None \<Rightarrow> waves_in inside current ls)"

definition waves_of :: "string \<Rightarrow> wave list" where
  "waves_of tasks = filter (\<lambda>w. w \<noteq> []) (waves_in False [] (prose_lines tasks))"

definition foundational_waves :: "string \<Rightarrow> string list list" where
  "foundational_waves tasks = map (map fst) (waves_of tasks)"

definition pending_of :: "wave \<Rightarrow> string list" where
  "pending_of w = map fst (filter (\<lambda>t. \<not> snd t) w)"

fun first_unfinished :: "nat \<Rightarrow> wave list \<Rightarrow> (nat \<times> string list) option" where
  "first_unfinished n [] = None"
| "first_unfinished n (w # ws) =
     (if pending_of w \<noteq> [] then Some (n, pending_of w) else first_unfinished (Suc n) ws)"

definition next_wave :: "feature \<Rightarrow> (nat \<times> string list) option" where
  "next_wave st =
     (case tasks_md st of None \<Rightarrow> None | Some tasks \<Rightarrow> first_unfinished 1 (waves_of tasks))"

definition has_phase :: "feature \<Rightarrow> bool" where
  "has_phase st =
     (case tasks_md st of None \<Rightarrow> False | Some tasks \<Rightarrow> list_ex is_foundational (splitlines tasks))"

subsection \<open>One run of the script\<close>

record request =
  rq_docs :: bool
  rq_waves :: bool
  rq_living :: bool
  rq_checkin :: "string option"

datatype answer =
    CheckedIn | NoDelta | Review review | NoPhase | PhaseDone | BuildYourself nat "string list"
  | SendWave nat "brief list" | WorkInline nat | SendAll "brief list"

definition dispatch_call :: "string \<Rightarrow> place \<Rightarrow> string \<Rightarrow> call" where
  "dispatch_call op p label =
     \<lparr>c_tool = ''dispatch-briefs'', c_op = op, c_ok = True, c_reason = None, c_spec = Some (snd p),
      c_files = [label], c_written = 0, c_read = 0, c_ms = 0\<rparr>"

definition offer :: "string \<Rightarrow> string \<Rightarrow> place \<Rightarrow> string \<Rightarrow> files \<Rightarrow> files" where
  "offer now err p kind = trace_call now err p (dispatch_call ''dispatch-offer'' p kind)"

definition wave_kind :: "nat \<Rightarrow> nat \<Rightarrow> string" where
  "wave_kind w workers = ''waves:'' @ nat_text w @ '':'' @ nat_text workers"

text \<open>The record as the script loads it: a file that is missing or unreadable is an empty one.\<close>

definition loaded :: "feature \<Rightarrow> json" where
  "loaded st = (case ctx_file st of DocFile j \<Rightarrow> j | _ \<Rightarrow> JDict [])"

text \<open>
  The answer is what the script prints; \<open>None\<close> is an exception, which the entry point turns into a
  note on the error stream and exit code 0.
\<close>

definition send_briefs :: "string \<Rightarrow> string \<Rightarrow> place \<Rightarrow> string \<Rightarrow> brief list \<Rightarrow> feature \<times> files \<Rightarrow> answer option \<times> feature \<times> files" where
  "send_briefs now err p kind briefs s =
     (if length briefs < 2 then (Some (WorkInline (length briefs)), s)
      else (Some (SendAll briefs), fst s, offer now err p kind (snd s)))"

definition send_wave :: "string \<Rightarrow> string \<Rightarrow> place \<Rightarrow> feature \<times> files \<Rightarrow> answer option \<times> feature \<times> files" where
  "send_wave now err p s =
     (case materialize_log ''ai'' (fst s) of
        (Raised, st) \<Rightarrow> (None, st, snd s)
      | (_, st) \<Rightarrow>
          if \<not> has_phase st then (Some NoPhase, st, snd s)
          else case next_wave st of
              None \<Rightarrow> (Some PhaseDone, st, snd s)
            | Some (w, tasks) \<Rightarrow>
                if length tasks < MIN_WAVE then (Some (BuildYourself w tasks), st, snd s)
                else (Some (SendWave w (wave_briefs w tasks)), st,
                      offer now err p (wave_kind w (min (length tasks) MAX_READERS)) (snd s)))"

definition dispatch_main :: "request \<Rightarrow> string \<Rightarrow> string \<Rightarrow> place \<Rightarrow> feature \<times> files \<Rightarrow> answer option \<times> feature \<times> files" where
  "dispatch_main rq now err p s =
     (case rq_checkin rq of
        Some (c # cs) \<Rightarrow>
          (Some CheckedIn, fst s, trace_call now err p (dispatch_call ''dispatch-checkin'' p (c # cs)) (snd s))
      | _ \<Rightarrow>
          if rq_living rq
          then (case living_brief (fst s) of
                  None \<Rightarrow> (Some NoDelta, s)
                | Some r \<Rightarrow> (Some (Review r), fst s, offer now err p ''living'' (snd s)))
          else if rq_waves rq then send_wave now err p s
          else case loaded (fst s) of
              JDict ctx \<Rightarrow>
                if rq_docs rq then send_briefs now err p ''docs'' (doc_briefs ctx) s
                else (case reader_briefs ctx of
                        None \<Rightarrow> (None, s)
                      | Some briefs \<Rightarrow> send_briefs now err p ''readers'' briefs s)
            | _ \<Rightarrow> (None, s))"

section \<open>Facts about the shares\<close>

lemma mset_take_sum: "(\<Sum>i<k. if i < length xs then {#xs ! i#} else {#}) = mset (take k xs)"
proof (induction k)
  case (Suc k)
  then show ?case by (cases "k < length xs") (simp_all add: take_Suc_conv_app_nth)
qed simp

lemma stride_step: "i < k \<Longrightarrow> 0 < k \<Longrightarrow>
   mset (stride k (drop i xs)) =
     (if i < length xs then {#xs ! i#} else {#}) + mset (stride k (drop i (drop k xs)))"
proof (cases "i < length xs")
  case True
  assume k: "i < k" "0 < k"
  have "drop i xs = xs ! i # drop (Suc i) xs" using True by (simp add: Cons_nth_drop_Suc)
  then have "stride k (drop i xs) = xs ! i # stride k (drop (k - 1 + Suc i) xs)" by simp
  moreover have "drop (k - 1 + Suc i) xs = drop i (drop k xs)" using k by (simp add: add.commute)
  ultimately show ?thesis using True by simp
qed simp

lemma mset_strides: "0 < k \<Longrightarrow> (\<Sum>i<k. mset (stride k (drop i xs))) = mset xs"
proof (induction xs rule: length_induct)
  case (1 xs)
  show ?case
  proof (cases "xs = []")
    case False
    then have "length (drop k xs) < length xs" using 1(2) by simp
    then have rest: "(\<Sum>i<k. mset (stride k (drop i (drop k xs)))) = mset (drop k xs)"
      using 1 by blast
    have "(\<Sum>i<k. mset (stride k (drop i xs))) =
      (\<Sum>i<k. (if i < length xs then {#xs ! i#} else {#}) + mset (stride k (drop i (drop k xs))))"
      using 1(2) by (intro sum.cong refl stride_step) simp_all
    also have "\<dots> = mset (take k xs) + mset (drop k xs)"
      by (simp only: sum.distrib mset_take_sum rest)
    also have "\<dots> = mset xs" by (metis append_take_drop_id mset_append)
    finally show ?thesis .
  qed simp
qed

lemma mset_concat_upt: "mset (concat (map f [0..<n])) = (\<Sum>i<n. mset (f i))"
  by (induction n) simp_all

lemma shares_partition: "mset (concat (shares xs)) = mset xs"
proof -
  have "mset (concat (shares xs)) = (\<Sum>i<min (length xs) MAX_READERS. mset (stride MAX_READERS (drop i xs)))"
    by (simp add: shares_def mset_concat_upt)
  also have "\<dots> = (\<Sum>i<MAX_READERS. mset (stride MAX_READERS (drop i xs)))"
    by (intro sum.mono_neutral_left) auto
  also have "\<dots> = mset xs" by (rule mset_strides) (simp add: MAX_READERS_def)
  finally show ?thesis .
qed

lemma length_shares: "length (shares xs) = min (length xs) MAX_READERS"
  by (simp add: shares_def)

lemma shares_nonempty: "[] \<notin> set (shares xs)"
proof
  assume "[] \<in> set (shares xs)"
  then obtain i where i: "i < length xs" "stride MAX_READERS (drop i xs) = []"
    by (auto simp: shares_def)
  then show False by (cases "drop i xs") auto
qed

lemma numbered_parts: "map snd (numbered label parts) = parts"
  by (simp add: numbered_def o_def case_prod_beta)

lemma numbered_labels: "map fst (numbered label parts) = map (\<lambda>n. label @ nat_text n) [1..<Suc (length parts)]"
  by (rule nth_equalityI) (simp_all add: numbered_def nth_enumerate_eq del: upt_Suc)

lemma length_numbered: "length (numbered label parts) = length parts"
  by (simp add: numbered_def)

lemma distinct_labels: "distinct (map fst (numbered label parts))"
  unfolding numbered_labels by (auto simp: distinct_map inj_on_def dest: nat_text_inject)

text \<open>
  The workers of a wave split its unfinished tasks among them: every task goes to exactly one worker
  as often as the wave lists it, no worker is idle, at most four are sent, and their labels differ.
\<close>

lemma wave_workers_partition:
  "mset (concat (map snd (wave_briefs w tasks))) = mset tasks \<and>
   [] \<notin> snd ` set (wave_briefs w tasks) \<and>
   length (wave_briefs w tasks) = min (length tasks) 4 \<and> distinct (map fst (wave_briefs w tasks))"
proof -
  have "snd ` set (wave_briefs w tasks) = set (shares tasks)"
    using numbered_parts [of "wave_label w" "shares tasks"]
    by (metis image_set wave_briefs_def)
  then show ?thesis
    using shares_partition [of tasks] shares_nonempty [of tasks] length_shares [of tasks]
    by (simp add: wave_briefs_def numbered_parts distinct_labels length_numbered MAX_READERS_def)
qed

subsection \<open>The next wave\<close>

lemma first_unfinished_sound:
  "first_unfinished n ws = Some (w, ids) \<Longrightarrow>
   n \<le> w \<and> w - n < length ws \<and> ids = pending_of (ws ! (w - n)) \<and> ids \<noteq> [] \<and>
   (\<forall>i < w - n. pending_of (ws ! i) = [])"
proof (induction n ws rule: first_unfinished.induct)
  case (2 n v vs)
  show ?case
  proof (cases "pending_of v = []")
    case True
    then have next_one: "first_unfinished (Suc n) vs = Some (w, ids)" using 2(2) by simp
    have ih: "Suc n \<le> w" "w - Suc n < length vs" "ids = pending_of (vs ! (w - Suc n))" "ids \<noteq> []"
        "\<forall>i < w - Suc n. pending_of (vs ! i) = []"
      using 2(1) [OF _ next_one] True by blast+
    have "w - n = Suc (w - Suc n)" using ih(1) by arith
    then show ?thesis using ih True by (auto simp: nth_Cons split: nat.splits)
  qed (use 2(2) in auto)
qed simp

lemma first_unfinished_None:
  "first_unfinished n ws = None \<longleftrightarrow> (\<forall>w \<in> set ws. pending_of w = [])"
  by (induction n ws rule: first_unfinished.induct) auto

text \<open>
  The doctor expects as many readers as the script prints: it counts the areas the same way, and asks
  for none when the script works inline.
\<close>

lemma plan_areas_count: "plan_areas ctx = map_option length (areas ctx)"
proof -
  have "length (filter (\<lambda>c. case c of JStr s \<Rightarrow> prefix ''area:'' s | _ \<Rightarrow> False) cs) =
      length (List.map_filter area_of cs)" for cs
  proof (induction cs)
    case (Cons c cs)
    then show ?case by (cases c) (simp_all add: List.map_filter_simps area_of_def)
  qed (simp add: List.map_filter_simps)
  then show ?thesis by (simp add: plan_areas_def areas_def option.map_comp o_def)
qed

lemma expected_readers:
  assumes "reader_briefs ctx = Some briefs" "plan_areas ctx = Some n"
  shows "(if 2 \<le> n then min n 4 else 0) = (if length briefs < 2 then 0 else length briefs)"
  using assms by (auto simp: reader_briefs_def plan_areas_count length_numbered length_shares MAX_READERS_def)

text \<open>
  The heading of the phase is looked for on every line, the waves only outside code fences: a phase
  shown inside a fence is announced as done.
\<close>

definition fenced_phase :: feature where
  "fenced_phase = (example_dir ''implementing'' ''implement'' [])
     \<lparr>tasks_md := Some (join nl [''```'', ''## Phase 2: Foundational'', ''```'', ''- [ ] T001 a''])\<rparr>"

lemma fenced_phase_reads_as_done:
  "fst (send_wave ''1'' ''x'' (''specs'', ''001-a'') (fenced_phase, no_files)) = Some PhaseDone \<and>
   \<not> feature_tasks_at_100 fenced_phase"
  by code_simp

section \<open>What the doctor reads back\<close>

subsection \<open>The events of a dispatch\<close>

abbreviation call_event :: "string \<Rightarrow> string \<Rightarrow> place \<Rightarrow> string \<Rightarrow> jdict" where
  "call_event now op p label \<equiv> as_dict (trace_event_of now (dispatch_call op p label))"

lemma call_event_get:
  assumes "op = ''dispatch-offer'' \<or> op = ''dispatch-checkin''"
  shows "jget (call_event now op p label) ''op'' = JStr op"
    "jget (call_event now op p label) ''at'' = JStr now"
    "jget (call_event now op p label) ''files'' = JList [JStr label]"
  using assms by (auto simp: as_dict_def trace_event_of_def dispatch_call_def OPS_def jget_def)

lemma or_empty_str [simp]: "or_empty (JStr s) = JStr s"
  by (cases s) (simp_all add: or_empty_def)

definition checkin_request :: "string \<Rightarrow> request" where
  "checkin_request label = \<lparr>rq_docs = False, rq_waves = False, rq_living = False, rq_checkin = Some label\<rparr>"

text \<open>The check-ins of workers, each at its moment.\<close>

definition check_ins ::
  "string \<Rightarrow> place \<Rightarrow> (string \<times> string) list \<Rightarrow> feature \<times> files \<Rightarrow> feature \<times> files" where
  "check_ins err p seen s =
     fold (\<lambda>(now, label) s. snd (dispatch_main (checkin_request label) now err p s)) seen s"

definition checkin_calls :: "place \<Rightarrow> (string \<times> string) list \<Rightarrow> (string \<times> call) list" where
  "checkin_calls p seen = map (\<lambda>(now, label). (now, dispatch_call ''dispatch-checkin'' p label)) seen"

lemma check_ins_calls:
  "\<forall>(now, label) \<in> set seen. label \<noteq> [] \<Longrightarrow>
   check_ins err p seen (st, fs) = (st, record_run err p (checkin_calls p seen) fs)"
proof (induction seen arbitrary: fs)
  case (Cons x seen)
  then show ?case
    by (cases x; cases "snd x") (simp_all add: check_ins_def checkin_request_def dispatch_main_def
        checkin_calls_def record_run_def)
qed (simp add: check_ins_def checkin_calls_def record_run_def)

definition wave_events :: "place \<Rightarrow> string \<Rightarrow> string \<Rightarrow> (string \<times> string) list \<Rightarrow> jdict list" where
  "wave_events p now kind seen =
     call_event now ''dispatch-offer'' p kind #
     map (\<lambda>(t, label). call_event t ''dispatch-checkin'' p label) seen"

lemma run_wave_events:
  "map as_dict (run_events ((now, dispatch_call ''dispatch-offer'' p kind) # checkin_calls p seen)) =
   wave_events p now kind seen"
  by (simp add: run_events_def checkin_calls_def wave_events_def o_def case_prod_beta)

lemma files_of_checkins:
  "files_with_op ''dispatch-checkin'' (wave_events p now kind seen) = Some (map (JStr \<circ> snd) seen)"
proof -
  have "traverse (\<lambda>e. py_iter_or_empty (jget e ''files''))
      (map (\<lambda>(t, label). call_event t ''dispatch-checkin'' p label) seen) = Some (map (\<lambda>x. [JStr (snd x)]) seen)"
    by (induction seen) (auto simp: call_event_get py_iter_or_empty_def)
  moreover have "filter (\<lambda>e. jget e ''op'' = JStr ''dispatch-checkin'') (wave_events p now kind seen) =
      map (\<lambda>(t, label). call_event t ''dispatch-checkin'' p label) seen"
    unfolding wave_events_def
    by (subst filter.simps(2)) (auto simp: call_event_get intro!: filter_True)
  moreover have "concat (map (\<lambda>x. [JStr (snd x)]) seen) = map (JStr \<circ> snd) seen"
    by (induction seen) auto
  ultimately show ?thesis by (simp add: files_with_op_def)
qed

lemma files_of_offers:
  "files_with_op ''dispatch-offer'' (wave_events p now kind seen) = Some [JStr kind]"
proof -
  have "filter (\<lambda>e. jget e ''op'' = JStr ''dispatch-offer'') (wave_events p now kind seen) =
      [call_event now ''dispatch-offer'' p kind]"
    by (auto simp: wave_events_def call_event_get filter_empty_conv)
  then show ?thesis by (simp add: files_with_op_def call_event_get py_iter_or_empty_def)
qed

lemma since_start_of_wave:
  assumes "Option.bind (step_start_times ctx step) json_max = Some (JStr since)"
    and "since \<le> now" "\<forall>(t, label) \<in> set seen. since \<le> t"
  shows "since_start ctx (wave_events p now kind seen) step = Some (map (JStr \<circ> snd) seen, [JStr kind])"
proof -
  have "map_option (\<lambda>ge. if ge then [e] else []) (json_ge (or_empty (jget e ''at'')) (JStr since)) = Some [e]"
    if e: "e \<in> set (wave_events p now kind seen)" for e
  proof -
    obtain t where "jget e ''at'' = JStr t" "since \<le> t"
    proof (cases "e = call_event now ''dispatch-offer'' p kind")
      case True
      have "jget e ''at'' = JStr now" unfolding True by (rule call_event_get) simp
      then show thesis using that assms(2) by blast
    next
      case False
      then obtain x where x: "x \<in> set seen" "e = call_event (fst x) ''dispatch-checkin'' p (snd x)"
        using e by (auto simp: wave_events_def)
      have "since \<le> fst x" using assms(3) x(1) by (cases x) auto
      moreover have "jget e ''at'' = JStr (fst x)" unfolding x(2) by (rule call_event_get) simp
      ultimately show thesis using that by blast
    qed
    then show ?thesis by (simp add: json_ge_def)
  qed
  note kept = traverse_map [OF this]
  have flat: "concat (map (\<lambda>e. [e]) xs) = xs" for xs :: "jdict list" by (induction xs) auto
  have one: "list_all hashable [JStr kind]" "remdups [JStr kind] = [JStr kind]" by (simp_all add: hashable_def)
  show ?thesis
    by (simp only: since_start_def assms(1) option.case kept flat files_of_checkins files_of_offers prod.case one if_True)
qed

subsection \<open>Counting the workers of a wave\<close>

lemma split_on_before: "c \<notin> set a \<Longrightarrow> split_on c (a @ c # b) = a # split_on c b"
  by (induction a) auto

lemma split_on_none: "c \<notin> set a \<Longrightarrow> split_on c a = [a]"
  by (induction a) auto

lemma no_colon_nat: "CHR '':'' \<notin> set (nat_text n)"
  using nat_text_decimal [of "CHR '':''" n] by (auto simp: is_decimal_def)

lemma digits_nat: "list_all is_digit_char (nat_text n)"
  using nat_text_decimal by (auto simp: list_all_iff is_digit_char_def)

lemma py_int_nat: "py_int (nat_text n) = Some (int n)"
  using py_int_text [of "int n"] by (simp add: int_text_def)

lemma offered_wave_kind: "offered_waves [JStr (wave_kind w n)] = Some [(w, n)]"
proof -
  have "split_on (CHR '':'') (wave_kind w n) = [''waves'', nat_text w, nat_text n]"
    using split_on_before [of "CHR '':''" "''waves''" "nat_text w @ CHR '':'' # nat_text n"]
    by (simp add: wave_kind_def split_on_before split_on_none no_colon_nat)
  then have "wave_offer (JStr (wave_kind w n)) = Some [(w, n)]"
    by (simp add: wave_offer_def digits_nat py_int_nat)
  then show ?thesis by (simp add: offered_waves_def)
qed

lemma wave_workers_card:
  "wave_workers (map (JStr \<circ> snd) (seen :: (string \<times> string) list)) w = Some (card {l \<in> snd ` set seen. prefix (wave_label w) l})"
proof -
  define keep where "keep x = (if prefix (wave_label w) (snd x) then [JStr (snd x)] else [])" for x :: "string \<times> string"
  have "traverse (\<lambda>l. map_option (\<lambda>yes. if yes then [l] else []) (starts_with (''wave: '' @ nat_text w @ ''.'') l))
      (map (JStr \<circ> snd) seen) = Some (map keep seen)"
    by (induction seen) (auto simp: starts_with_def keep_def wave_label_def)
  moreover have "set (concat (map keep seen)) = JStr ` {l \<in> snd ` set seen. prefix (wave_label w) l}"
    by (auto simp: keep_def)
  moreover have "card (JStr ` L) = card L" for L by (rule card_image) (simp add: inj_on_def)
  ultimately show ?thesis by (simp add: wave_workers_def length_remdups_card_conv)
qed

lemma wave_labels: "\<forall>b \<in> set (wave_briefs w tasks). prefix (wave_label w) (fst b)"
  by (auto simp: wave_briefs_def numbered_def)

lemma worker_count:
  assumes "\<forall>(t :: string, l) \<in> set seen. prefix (wave_label w) l \<longrightarrow> l \<in> fst ` set (wave_briefs w tasks)"
  shows "card {l \<in> snd ` set seen. prefix (wave_label w) l} < min (length tasks) MAX_READERS \<longleftrightarrow>
    \<not> fst ` set (wave_briefs w tasks) \<subseteq> snd ` set seen"
proof -
  define B where "B = fst ` set (wave_briefs w tasks)"
  have "B = set (map fst (wave_briefs w tasks))" by (simp add: B_def)
  then have B: "finite B" "card B = min (length tasks) MAX_READERS"
    using distinct_card [OF distinct_labels [of "wave_label w" "shares tasks"]]
    by (simp_all only: wave_briefs_def finite_set length_map length_numbered length_shares)
  have same: "{l \<in> snd ` set seen. prefix (wave_label w) l} = B \<inter> snd ` set seen"
    using assms wave_labels [of w tasks] unfolding B_def by (auto split: prod.splits)
  have "card (B \<inter> snd ` set seen) < card B \<longleftrightarrow> \<not> B \<subseteq> snd ` set seen"
  proof
    assume "\<not> B \<subseteq> snd ` set seen"
    then have "B \<inter> snd ` set seen \<subset> B" by blast
    then show "card (B \<inter> snd ` set seen) < card B" by (rule psubset_card_mono [OF B(1)])
  next
    assume less: "card (B \<inter> snd ` set seen) < card B"
    show "\<not> B \<subseteq> snd ` set seen"
    proof
      assume "B \<subseteq> snd ` set seen"
      then have "B \<inter> snd ` set seen = B" by blast
      then show False using less by simp
    qed
  qed
  then show ?thesis by (simp only: same B(2) flip: B_def)
qed

subsection \<open>A wave that was sent\<close>

lemma sent_wave:
  assumes "dispatch_main rq now err p (st, fs) = (Some (SendWave w briefs), st', fs')"
  obtains tasks where "briefs = wave_briefs w tasks" "4 \<le> length tasks"
    "fs' = offer now err p (wave_kind w (min (length tasks) MAX_READERS)) fs"
proof -
  have "send_wave now err p (st, fs) = (Some (SendWave w briefs), st', fs')"
    using assms
    by (auto simp: dispatch_main_def send_briefs_def split: option.splits list.splits if_splits json.splits)
  then show thesis
    using that by (auto simp: send_wave_def MIN_WAVE_def not_less split: outcome.splits option.splits if_splits prod.splits)
qed

lemma one_line_kind: "one_line (wave_kind w n)"
  using nat_text_decimal by (fastforce simp: one_line_def wave_kind_def is_decimal_def)

lemma one_line_call_event:
  "one_line_event (trace_event_of now (dispatch_call op p label)) \<longleftrightarrow>
   one_line now \<and> one_line (snd p) \<and> one_line label" if "op = ''dispatch-offer'' \<or> op = ''dispatch-checkin''"
  using that by (auto simp: one_line_event_def trace_event_of_def dispatch_call_def OPS_def one_line_def)

text \<open>The trace after an offer and the check-ins, when nothing of it was rolled off.\<close>

lemma wave_trace:
  assumes "text_of fs (trace_path p) = None" "\<not> refuses fs (trace_path p)"
    and "one_line now" "one_line (snd p)" "one_line kind" "\<forall>(t, l) \<in> set seen. one_line t \<and> one_line l \<and> l \<noteq> []"
    and "sd_place sd = p" "sd_files sd = snd (check_ins err p seen (st, offer now err p kind fs))"
    and "own_trace sd = Some (Some t)" "rd_truncated t = 0"
  shows "rd_events t = wave_events p now kind seen"
proof -
  define calls where "calls = (now, dispatch_call ''dispatch-offer'' p kind) # checkin_calls p seen"
  have files: "sd_files sd = record_run err p calls fs"
    using assms(6,8) by (subst (asm) check_ins_calls) (auto simp: calls_def record_run_def offer_def)
  have lines: "list_all one_line_event (run_events calls)"
    using assms(3-6) by (auto simp: calls_def run_events_def checkin_calls_def one_line_call_event list_all_iff)
  have start: "old_text fs (trace_path p) = trace_text None []"
    using assms(1) by (simp add: old_text_def trace_text_def)
  obtain h k where k: "text_of (record_run err p calls fs) (trace_path p) = Some (trace_text h (drop k (run_events calls)))"
      "(case h of None \<Rightarrow> 0 | Some n \<Rightarrow> n) = int k"
    using record_run_text [OF _ assms(2) start, of calls err] lines by (auto simp: calls_def)
  have "list_all one_line_event (drop k (run_events calls))"
    using lines by (auto simp: list_all_iff dest: in_set_dropD)
  then have "rd_events t = map as_dict (drop k (run_events calls)) \<and> rd_truncated t = int k"
    using assms(7,9) k by (auto simp: own_trace_def files read_trace_text)
  then show ?thesis
    using assms(10) run_wave_events [of now p kind seen] by (simp add: calls_def)
qed

lemma since_start_offered:
  assumes "since_start ctx evs step = Some (labels, offered)" "x \<in> set offered"
  shows "\<exists>e \<in> set evs. jget e ''op'' = JStr ''dispatch-offer'' \<and>
    (\<exists>xs. py_iter_or_empty (jget e ''files'') = Some xs \<and> x \<in> set xs)"
proof -
  obtain since kept off where k:
      "traverse (\<lambda>e. map_option (\<lambda>ge. if ge then [e] else []) (json_ge (or_empty (jget e ''at'')) since)) evs = Some kept"
      "files_with_op ''dispatch-offer'' (concat kept) = Some off" "offered = remdups off"
    using assms(1) by (auto simp: since_start_def split: option.splits if_splits)
  obtain yss where y: "traverse (\<lambda>e. py_iter_or_empty (jget e ''files''))
      (filter (\<lambda>e. jget e ''op'' = JStr ''dispatch-offer'') (concat kept)) = Some yss" "off = concat yss"
    using k(2) by (auto simp: files_with_op_def)
  have "x \<in> set (concat yss)" using assms(2) k(3) y(2) by simp
  then obtain e xs where e: "e \<in> set (concat kept)" "jget e ''op'' = JStr ''dispatch-offer''"
      "py_iter_or_empty (jget e ''files'') = Some xs" "x \<in> set xs"
    unfolding concat_traverse [OF y(1)] by auto
  have "e \<in> set evs" using e(1) unfolding concat_traverse [OF k(1)] by (auto split: if_splits)
  then show ?thesis using e by blast
qed

lemma offered_in_wave:
  assumes "since_start ctx (wave_events p now kind seen) step = Some (labels, offered)"
  shows "set offered \<subseteq> {JStr kind}"
proof
  fix x assume "x \<in> set offered"
  then obtain e xs where e: "e \<in> set (wave_events p now kind seen)" "jget e ''op'' = JStr ''dispatch-offer''"
      "py_iter_or_empty (jget e ''files'') = Some xs" "x \<in> set xs"
    using since_start_offered [OF assms] by blast
  have "e = call_event now ''dispatch-offer'' p kind"
    using e(1,2) by (auto simp: wave_events_def call_event_get)
  then show "x \<in> {JStr kind}" using e(3,4) by (auto simp: call_event_get py_iter_or_empty_def)
qed

lemma plan_is_not_faulted:
  assumes "plan_dispatch ctx (wave_events p now (wave_kind w n) seen) = Some gs"
  shows "gs = []"
proof -
  obtain labels offered areas where o: "since_start ctx (wave_events p now (wave_kind w n) seen) ''plan'' = Some (labels, offered)"
      "map_option concat (traverse (plan_expectation labels offered)
          [(if 2 \<le> areas then min areas 4 else 0, ''reader:'', ''readers''), (2, ''doc:'', ''docs'')]) = Some gs"
    using assms by (auto simp: plan_dispatch_def split: option.splits)
  have "wave_kind w n \<noteq> ''readers''" "wave_kind w n \<noteq> ''docs''" by (simp_all add: wave_kind_def)
  then have "JStr ''readers'' \<notin> set offered" "JStr ''docs'' \<notin> set offered"
    using offered_in_wave [OF o(1)] by auto
  then show ?thesis using o(2) by (simp add: plan_expectation_def)
qed

lemma implement_on_wave:
  assumes "Option.bind (step_start_times ctx ''implement'') json_max = Some (JStr since)"
    and "since \<le> now" "\<forall>(t, l) \<in> set seen. since \<le> t"
    and "\<forall>(t, l) \<in> set seen. prefix (wave_label w) l \<longrightarrow> l \<in> fst ` set (wave_briefs w tasks)"
  shows "implement_dispatch ctx (wave_events p now (wave_kind w (min (length tasks) MAX_READERS)) seen) True =
    Some (if fst ` set (wave_briefs w tasks) \<subseteq> snd ` set seen then []
          else [finding_at DispatchCheck Warning WavesInline [(''waves'', JList [json_int w])]])"
proof -
  let ?n = "min (length tasks) MAX_READERS"
  have start: "since_start ctx (wave_events p now (wave_kind w ?n) seen) ''implement'' =
      Some (map (JStr \<circ> snd) seen, [JStr (wave_kind w ?n)])"
    using assms(1-3) by (rule since_start_of_wave)
  have "skipped_waves (map (JStr \<circ> snd) seen) [(w, ?n)] =
      Some (if fst ` set (wave_briefs w tasks) \<subseteq> snd ` set seen then [] else [w])"
    using worker_count [OF assms(4)] by (simp add: skipped_waves_def wave_workers_card)
  moreover have "wave_kind w ?n \<noteq> ''living''" by (simp add: wave_kind_def)
  ultimately show ?thesis
    by (simp add: implement_dispatch_def start offered_wave_kind)
qed


text \<open>Below the cap nothing is rolled off.\<close>

lemma byte_size_append: "byte_size (a @ b) = byte_size a + byte_size b"
  by (simp add: byte_size_def)

lemma record_run_small:
  assumes "byte_size (trace_text None (es @ run_events calls)) \<le> MAX_BYTES" "\<not> refuses fs (trace_path p)"
    and "old_text fs (trace_path p) = trace_text None es" "calls \<noteq> []"
  shows "text_of (record_run err p calls fs) (trace_path p) = Some (trace_text None (es @ run_events calls))"
  using assms
proof (induction calls arbitrary: es fs)
  case (Cons x calls)
  obtain now c where x: "x = (now, c)" by (cases x)
  let ?e = "trace_event_of now c"
  have all: "es @ run_events (x # calls) = (es @ [?e]) @ run_events calls" by (simp add: run_events_def x)
  have grown: "old_text fs (trace_path p) @ event_line ?e = trace_text None (es @ [?e])"
    using Cons.prems(3) by (simp add: trace_text_def)
  have "byte_size (trace_text None (es @ [?e])) \<le> MAX_BYTES"
    using Cons.prems(1) unfolding all by (simp add: trace_text_def byte_size_append)
  then have capped: "enforce_cap (old_text fs (trace_path p) @ event_line ?e) = Some (trace_text None (es @ [?e]))"
    unfolding grown enforce_cap_def by simp
  have here: "text_of (trace_call now err p c fs) (trace_path p) = Some (trace_text None (es @ [?e]))"
    by (rule trace_call_text [OF Cons.prems(2) capped])
  have run: "record_run err p (x # calls) fs = record_run err p calls (trace_call now err p c fs)"
    by (simp add: record_run_def x)
  show ?case
  proof (cases "calls = []")
    case True
    then show ?thesis using here by (simp add: record_run_def run_events_def x)
  next
    case False
    have "text_of (record_run err p calls (trace_call now err p c fs)) (trace_path p) =
        Some (trace_text None ((es @ [?e]) @ run_events calls))"
      by (rule Cons.IH) (use Cons.prems(1,2) all here False in \<open>simp_all add: old_text_def\<close>)
    then show ?thesis unfolding run all .
  qed
qed simp

definition wave_tasks :: string where
  "wave_tasks = join nl [''## Phase 2: Foundational'', ''- [x] T001 a'', ''**--> Wait'',
     ''- [ ] T002 a'', ''- [ ] T003 b'', ''- [ ] T004 c'', ''- [ ] T005 d'', ''## Phase 3: Story'', ''- [ ] T006 e'']"

definition wave_feature :: feature where
  "wave_feature = (example_dir ''implementing'' ''implement'' [])\<lparr>tasks_md := Some wave_tasks\<rparr>"

definition wave_request :: request where
  "wave_request = \<lparr>rq_docs = False, rq_waves = True, rq_living = False, rq_checkin = None\<rparr>"

definition wave_ctx :: jdict where
  "wave_ctx = [(''history'', JList [
     JDict [(''step'', JStr ''implement''), (''kind'', JStr ''start''), (''at'', JStr ''1'')],
     JDict [(''step'', JStr ''implement''), (''kind'', JStr ''complete''), (''at'', JStr ''5'')]])]"

definition wave_place :: place where "wave_place = (''specs'', ''001-a'')"

definition wave_seen :: "(string \<times> string) list" where
  "wave_seen = [(''3'', ''wave: 2.2''), (''3'', ''wave: 2.1''), (''4'', ''wave: 2.4'')]"

definition wave_fs :: files where
  "wave_fs = offer ''2'' ''x'' wave_place (wave_kind 2 4) no_files"

definition wave_sd :: spec_dir where
  "wave_sd = (example_sd wave_ctx)
     \<lparr>sd_files := snd (check_ins ''x'' wave_place wave_seen (wave_feature, wave_fs))\<rparr>"

lemma wave_example_sent:
  "dispatch_main wave_request ''2'' ''x'' wave_place (wave_feature, no_files) =
   (Some (SendWave 2 (wave_briefs 2 [''T002'', ''T003'', ''T004'', ''T005''])), wave_feature, wave_fs)"
proof -
  define tasks where "tasks = [''T002'', ''T003'', ''T004'', ''T005'']"
  have len: "length tasks = 4" by (simp add: tasks_def)
  have phase: "has_phase wave_feature" by code_simp
  have next_one: "next_wave wave_feature = Some (2, tasks)" unfolding tasks_def by code_simp
  have "events wave_feature = None" by (simp add: wave_feature_def)
  then have "materialize_log ''ai'' wave_feature = (Declined, wave_feature)" by (simp add: materialize_log_def)
  then have "dispatch_main wave_request ''2'' ''x'' wave_place (wave_feature, no_files) =
      (Some (SendWave 2 (wave_briefs 2 tasks)), wave_feature, wave_fs)"
    by (simp add: dispatch_main_def wave_request_def send_wave_def MIN_WAVE_def MAX_READERS_def
        wave_fs_def phase next_one len)
  then show ?thesis by (simp only: tasks_def)
qed

lemma wave_example_trace:
  "\<exists>t. own_trace wave_sd = Some (Some t) \<and> rd_truncated t = 0 \<and> rd_events t = wave_events wave_place ''2'' (wave_kind 2 4) wave_seen"
proof -
  define calls where "calls = (''2'', dispatch_call ''dispatch-offer'' wave_place (wave_kind 2 4)) # checkin_calls wave_place wave_seen"
  have "sd_files wave_sd = record_run ''x'' wave_place calls no_files"
    by (simp add: wave_sd_def check_ins_calls wave_seen_def wave_fs_def calls_def record_run_def offer_def)
  moreover have "length (trace_text None ([] @ run_events calls)) < 2000"
    unfolding calls_def by code_simp
  then have "byte_size (trace_text None ([] @ run_events calls)) \<le> MAX_BYTES"
    using byte_size_le [of "trace_text None ([] @ run_events calls)"] by (simp add: MAX_BYTES_def)
  then have "text_of (record_run ''x'' wave_place calls no_files) (trace_path wave_place) = Some (trace_text None ([] @ run_events calls))"
    by (rule record_run_small) (simp_all add: no_files_def old_text_def trace_text_def calls_def)
  moreover have "list_all one_line_event (run_events calls)"
  proof -
    have "one_line ''2''" "one_line ''3''" "one_line ''4''" "one_line ''001-a''"
        "one_line ''wave: 2.1''" "one_line ''wave: 2.2''" "one_line ''wave: 2.4''"
      by (simp_all add: one_line_def)
    then show ?thesis
      by (simp add: calls_def run_events_def checkin_calls_def one_line_call_event one_line_kind
          wave_seen_def wave_place_def)
  qed
  moreover have "sd_place wave_sd = wave_place" by (simp add: wave_sd_def example_sd_def wave_place_def)
  moreover have "map as_dict (run_events calls) = wave_events wave_place ''2'' (wave_kind 2 4) wave_seen"
    unfolding calls_def by (rule run_wave_events)
  ultimately show ?thesis by (simp add: own_trace_def read_trace_text)
qed


end
