(* ===== verification/Coverage.thy ===== *)
theory Coverage
  imports ShapeCheck SpecLoad
begin

text \<open>
  The coverage report of a living spec (\<open>check-coverage.py\<close>): which requirements a spec lists, in the
  id form (\<open>FR-12\<close> at the head of a bullet or heading) or in the named form (a heading of level
  three), and which of them its coverage file names on a line with a test.  The second part shows that
  the requirements are those of a division of the spec into blocks, and that a requirement is reported
  as covered exactly when some line covers it.
\<close>

subsection \<open>Ids\<close>

definition strip_zeros :: "string \<Rightarrow> string" where
  "strip_zeros ds = (let r = dropWhile (\<lambda>c. c = CHR ''0'') ds in if r = [] then ''0'' else r)"

definition norm_id :: "bool \<Rightarrow> string \<Rightarrow> string" where
  "norm_id non ds = (if non then ''NFR-'' else ''FR-'') @ strip_zeros ds"

text \<open>An id at the front of a text, canonical, and what follows it.\<close>

definition id_at :: "string \<Rightarrow> (string \<times> string) option" where
  "id_at s =
     (let non = (lower (take 1 s) = ''n''); r = (if non then drop 1 s else s); t = drop 2 r;
          u = (if prefix ''-'' t then drop 1 t else t); ds = takeWhile is_decimal u; rest = drop (length ds) u
      in if lower (take 2 r) = ''fr'' \<and> ds \<noteq> [] \<and> (rest = [] \<or> \<not> is_word (hd rest))
         then Some (norm_id non ds, rest) else None)"

definition after_bullet_or_hashes :: "string \<Rightarrow> string option" where
  "after_bullet_or_hashes s =
     (case s of
        [] \<Rightarrow> None
      | c # r \<Rightarrow>
          if c \<in> set ''-*+'' then Some r
          else let hs = takeWhile (\<lambda>c. c = CHR ''#'') s
               in if 1 \<le> length hs \<and> length hs \<le> 6 then Some (drop (length hs) s) else None)"

definition req_id :: "string \<Rightarrow> string option" where
  "req_id line =
     (case after_bullet_or_hashes (lstrip line) of
        None \<Rightarrow> None
      | Some r \<Rightarrow> map_option fst (id_at (dropWhile (\<lambda>c. c = CHR ''*'') (lstrip r))))"

text \<open>Every id of a text that starts at a word boundary; the flag says whether a word character is before.\<close>

function ids_from :: "bool \<Rightarrow> string \<Rightarrow> string list" where
  "ids_from inside [] = []"
| "ids_from inside (c # cs) =
     (case (if inside then None else id_at (c # cs)) of
        Some (i, rest) \<Rightarrow> i # (if length rest \<le> length cs then ids_from True rest else [])
      | None \<Rightarrow> ids_from (is_word c) cs)"
  by pat_completeness auto
termination
  by (relation "measure (\<lambda>(_, s). length s)") auto

definition ids_in :: "string \<Rightarrow> string list" where
  "ids_in s = ids_from False s"

subsection \<open>Names\<close>

definition strip_chars :: "char list \<Rightarrow> string \<Rightarrow> string" where
  "strip_chars cs s = rstrip_chars cs (dropWhile (\<lambda>c. c \<in> set cs) s)"

function collapse :: "string \<Rightarrow> string" where
  "collapse [] = []"
| "collapse (c # cs) = (if is_space c then CHR '' '' # collapse (lstrip cs) else c # collapse cs)"
  by pat_completeness auto
termination
  by (relation "measure length") (auto simp: lstrip_def length_dropWhile_le le_imp_less_Suc)

definition drop_label :: "string \<Rightarrow> string" where
  "drop_label s =
     (let t = lstrip (dropWhile (\<lambda>c. c = CHR ''*'') s); r = drop 11 t;
          u = (if lower (take 1 r) = ''s'' then drop 1 r else r)
      in if lower (take 11 t) = ''requirement'' \<and> prefix '':'' u then lstrip (drop 1 u) else s)"

definition clean_name :: "string \<Rightarrow> string" where
  "clean_name name = strip (collapse (filter (\<lambda>c. c \<notin> set ''*_`'') (drop_label (strip name))))"

text \<open>The two dashes the code also strips are outside the characters of the model.\<close>

definition norm_name :: "string \<Rightarrow> string" where
  "norm_name name = lower (strip_chars '' .:;-'' (clean_name name))"

definition id_form :: "string \<Rightarrow> bool" where
  "id_form s \<longleftrightarrow>
     (\<exists>p \<in> set [''FR-'', ''NFR-'']. prefix p s \<and> drop (length p) s \<noteq> [] \<and> list_all is_decimal (drop (length p) s))"

definition is_named :: "string \<Rightarrow> bool" where
  "is_named rid \<longleftrightarrow> \<not> id_form rid"

definition cover_key :: "string \<Rightarrow> string" where
  "cover_key rid = (if is_named rid then norm_name rid else rid)"

subsection \<open>The requirements of a spec\<close>

text \<open>The level of a heading and its text.\<close>

definition heading_at :: "string \<Rightarrow> (nat \<times> string) option" where
  "heading_at line =
     (let hs = takeWhile (\<lambda>c. c = CHR ''#'') line; r = drop (length hs) line
      in if 1 \<le> length hs \<and> length hs \<le> 6 \<and> r \<noteq> [] \<and> is_space (hd r)
         then if strip r \<noteq> [] then Some (length hs, strip r)
              else if 2 \<le> length r then Some (length hs, [last r]) else None
         else None)"

definition closes_body :: "string \<Rightarrow> bool" where
  "closes_body line \<longleftrightarrow> (case heading_at line of Some (n, _) \<Rightarrow> n \<le> 3 | None \<Rightarrow> False)"

record req_scan =
  rs_out :: "string list"
  rs_seen :: "string list"
  rs_pending :: "string option"
  rs_section :: bool

definition flush_pending :: "req_scan \<Rightarrow> req_scan" where
  "flush_pending s =
     (let t = (case rs_pending s of
          Some name \<Rightarrow>
            if name \<noteq> [] \<and> \<not> rs_section s \<and> norm_name name \<noteq> [] \<and> norm_name name \<notin> set (rs_seen s)
            then s\<lparr>rs_seen := rs_seen s @ [norm_name name], rs_out := rs_out s @ [name]\<rparr> else s
        | None \<Rightarrow> s)
      in t\<lparr>rs_pending := None, rs_section := False\<rparr>)"

definition scan_line :: "string \<Rightarrow> req_scan \<Rightarrow> req_scan" where
  "scan_line line s0 =
     (let s = (if closes_body line then flush_pending s0 else s0) in
      case req_id line of
        Some rid \<Rightarrow>
          (let t = (if rid \<in> set (rs_seen s) then s
                    else s\<lparr>rs_seen := rs_seen s @ [rid], rs_out := rs_out s @ [rid]\<rparr>)
           in if rs_pending t \<noteq> None \<and> \<not> closes_body line then t\<lparr>rs_section := True\<rparr> else t)
      | None \<Rightarrow>
          (case heading_at line of
             Some (n, h) \<Rightarrow> if n = 3 then s\<lparr>rs_pending := Some (clean_name h)\<rparr> else s
           | None \<Rightarrow> s))"

definition spec_requirements :: "string \<Rightarrow> string list" where
  "spec_requirements content =
     rs_out (flush_pending (fold scan_line (splitlines content)
       \<lparr>rs_out = [], rs_seen = [], rs_pending = None, rs_section = False\<rparr>))"

subsection \<open>Tests\<close>

definition in_path :: "char \<Rightarrow> bool" where
  "in_path c \<longleftrightarrow> is_word c \<or> c \<in> set ''./-''"

text \<open>
  \<open>run infix word\<close>: a run of path characters that ends in the infix and word characters.  The run is
  greedy, so the last place of the infix that fits counts.
\<close>

definition infix_at :: "string \<Rightarrow> string \<Rightarrow> nat \<Rightarrow> bool" where
  "infix_at part s k \<longleftrightarrow>
     lower (take (length part) (drop k s)) = part \<and> takeWhile is_word (drop (k + length part) s) \<noteq> []"

definition run_with :: "string list \<Rightarrow> string \<Rightarrow> nat option" where
  "run_with parts s =
     (let ks = filter (\<lambda>k. \<exists>part \<in> set parts. infix_at part s k) [0..<Suc (length (takeWhile in_path s))]
      in if ks = [] then None
         else (let k = last ks; n = k + length (hd (filter (\<lambda>part. infix_at part s k) parts))
               in Some (n + length (takeWhile is_word (drop n s)))))"

definition tests_dir :: "string \<Rightarrow> nat option" where
  "tests_dir s =
     (let r = drop 4 s; u = (if lower (take 1 r) = ''s'' then drop 1 r else r); p = takeWhile in_path (drop 1 u)
      in if lower (take 4 s) = ''test'' \<and> prefix ''/'' u \<and> p \<noteq> []
         then Some (length s - length (drop 1 u) + length p) else None)"

definition node_id :: "string \<Rightarrow> nat option" where
  "node_id s =
     (let p = takeWhile in_path s; r = drop (length p) s; w = takeWhile is_word (drop 2 r)
      in if p \<noteq> [] \<and> prefix ''::'' r \<and> w \<noteq> [] then Some (length p + 2 + length w) else None)"

definition test_token :: "string \<Rightarrow> nat option" where
  "test_token s =
     (case run_with [''.test.'', ''.spec.''] s of Some n \<Rightarrow> Some n | None \<Rightarrow>
      (case run_with [''_test.''] s of Some n \<Rightarrow> Some n | None \<Rightarrow>
      (case tests_dir s of Some n \<Rightarrow> Some n | None \<Rightarrow> node_id s)))"

text \<open>The tests of a line, and the line with each of them replaced by a blank.\<close>

fun test_refs :: "string \<Rightarrow> string list" where
  "test_refs [] = []"
| "test_refs (c # cs) =
     (case test_token (c # cs) of
        Some n \<Rightarrow> take n (c # cs) # test_refs (drop (n - 1) cs)
      | None \<Rightarrow> test_refs cs)"

fun without_tests :: "string \<Rightarrow> string" where
  "without_tests [] = []"
| "without_tests (c # cs) =
     (case test_token (c # cs) of
        Some n \<Rightarrow> CHR '' '' # without_tests (drop (n - 1) cs)
      | None \<Rightarrow> c # without_tests cs)"

subsection \<open>The coverage map\<close>

definition is_lower_or_digit :: "char \<Rightarrow> bool" where
  "is_lower_or_digit c \<longleftrightarrow> (let n = (of_char c :: nat) in (48 \<le> n \<and> n \<le> 57) \<or> (97 \<le> n \<and> n \<le> 122))"

fun occurs_from :: "bool \<Rightarrow> string \<Rightarrow> string \<Rightarrow> bool" where
  "occurs_from inside k [] = (k = [] \<and> \<not> inside)"
| "occurs_from inside k (c # cs) =
     (\<not> inside \<and> prefix k (c # cs) \<and>
        (drop (length k) (c # cs) = [] \<or> \<not> is_lower_or_digit (hd (drop (length k) (c # cs))))
      \<or> occurs_from (is_lower_or_digit c) k cs)"

definition wanted_names :: "string list \<Rightarrow> string list" where
  "wanted_names names = filter (\<lambda>k. k \<noteq> []) (map norm_name (filter is_named names))"

definition line_keys :: "string list \<Rightarrow> string \<Rightarrow> string list" where
  "line_keys wanted line =
     (let t = without_tests line
      in remdups (ids_in t @ filter (\<lambda>k. occurs_from False k (norm_name t)) wanted))"

definition add_tests :: "string list \<Rightarrow> string \<Rightarrow> (string \<times> string list) list \<Rightarrow> (string \<times> string list) list" where
  "add_tests tests k m =
     AList.update k (merge_new (=) (case map_of m k of None \<Rightarrow> [] | Some b \<Rightarrow> b) tests) m"

definition coverage_map :: "string \<Rightarrow> string list \<Rightarrow> (string \<times> string list) list" where
  "coverage_map content names =
     fold (\<lambda>line. fold (add_tests (test_refs line)) (line_keys (wanted_names names) line)) (splitlines content) []"

subsection \<open>The report\<close>

record requirement_status =
  q_id :: string
  q_named :: bool
  q_covered :: bool
  q_tests :: "string list"

record coverage_entry =
  cv_name :: string
  cv_spec :: string
  cv_path :: "string option"
  cv_has :: bool
  cv_total :: nat
  cv_covered :: nat
  cv_uncovered :: nat
  cv_requirements :: "requirement_status list"

definition requirement_status_of :: "(string \<times> string list) list \<Rightarrow> string \<Rightarrow> requirement_status" where
  "requirement_status_of cmap rid =
     (let tests = (case map_of cmap (cover_key rid) of None \<Rightarrow> [] | Some ts \<Rightarrow> ts)
      in \<lparr>q_id = rid, q_named = is_named rid, q_covered = (tests \<noteq> []), q_tests = tests\<rparr>)"

definition check_capability :: "files \<Rightarrow> entry \<Rightarrow> coverage_entry" where
  "check_capability fs e =
     (let cov = map_of (e_tiers e) ''coverage''; path = map_option fst cov;
          has = (Option.bind cov snd = Some True);
          reqs = (case fs (e_spec e) of None \<Rightarrow> [] | Some content \<Rightarrow> spec_requirements content);
          cmap = (case (if has then Option.bind path fs else None) of
              None \<Rightarrow> [] | Some content \<Rightarrow> coverage_map content reqs);
          rows = map (requirement_status_of cmap) reqs;
          covered = length (filter q_covered rows)
      in \<lparr>cv_name = e_name e, cv_spec = e_spec e, cv_path = path, cv_has = has, cv_total = length rows,
          cv_covered = covered, cv_uncovered = length rows - covered, cv_requirements = rows\<rparr>)"

definition coverage_run :: "living \<Rightarrow> files \<Rightarrow> string option \<Rightarrow> bool \<times> coverage_entry list" where
  "coverage_run l fs only =
     (if \<not> enabled l then (False, [])
      else let entries = List.map_filter (entry_of fs) (capabilities l);
               chosen = (case only of
                   Some (c # cs) \<Rightarrow> filter (\<lambda>e. e_name e = c # cs) entries | _ \<Rightarrow> entries)
           in (True, map (check_capability fs) (filter e_exists chosen)))"

section \<open>The requirements as blocks\<close>

text \<open>
  The reference: a spec is cut at its headings of level one to three.  A block whose head is a heading
  of level three with no id in the block is one named requirement; any other block lists its ids.  Of
  requirements with one key the first counts, and a name that is nothing but punctuation is none.
\<close>

datatype requirement = ById string | ByName string

fun requirement_text :: "requirement \<Rightarrow> string" where
  "requirement_text (ById i) = i"
| "requirement_text (ByName n) = n"

fun requirement_key :: "requirement \<Rightarrow> string" where
  "requirement_key (ById i) = i"
| "requirement_key (ByName n) = norm_name n"

definition names_requirement :: "string \<Rightarrow> string option" where
  "names_requirement line =
     (case (req_id line, heading_at line) of (None, Some (n, h)) \<Rightarrow> if n = 3 then Some (clean_name h) else None | _ \<Rightarrow> None)"

definition ids_of :: "string list \<Rightarrow> requirement list" where
  "ids_of ls = map ById (List.map_filter req_id ls)"

definition block_requirements :: "string \<Rightarrow> string list \<Rightarrow> requirement list" where
  "block_requirements l0 ls =
     (case names_requirement l0 of
        Some n \<Rightarrow> if ids_of ls = [] then (if norm_name n = [] then [] else [ByName n]) else ids_of ls
      | None \<Rightarrow> ids_of (l0 # ls))"

function blocks :: "string list \<Rightarrow> requirement list" where
  "blocks [] = []"
| "blocks (l # ls) =
     block_requirements l (takeWhile (Not \<circ> closes_body) ls) @ blocks (dropWhile (Not \<circ> closes_body) ls)"
  by pat_completeness auto
termination
  by (relation "measure length") (auto simp: length_dropWhile_le le_imp_less_Suc)

abbreviation same_key :: "requirement \<Rightarrow> requirement \<Rightarrow> bool" where
  "same_key a b \<equiv> requirement_key a = requirement_key b"

definition listed :: "requirement list \<Rightarrow> requirement list" where
  "listed rs = merge_new same_key [] rs"

definition reference_requirements :: "string \<Rightarrow> string list" where
  "reference_requirements content = map requirement_text (listed (blocks (splitlines content)))"

subsection \<open>The scan finds the blocks\<close>

lemma seen_key: "k \<in> requirement_key ` set acc \<longleftrightarrow> (\<exists>y \<in> set acc. requirement_key y = k)"
  by auto

text \<open>The state of the scan after requirements were listed.\<close>

definition scan_of :: "requirement list \<Rightarrow> string option \<Rightarrow> bool \<Rightarrow> req_scan" where
  "scan_of acc pend sec =
     \<lparr>rs_out = map requirement_text acc, rs_seen = map requirement_key acc, rs_pending = pend, rs_section = sec\<rparr>"

lemma norm_name_Nil [simp]: "norm_name [] = []"
  by (simp add: norm_name_def clean_name_def drop_label_def strip_def lstrip_def rstrip_def rstrip_chars_def
      strip_chars_def lower_def)

definition pending_requirements :: "string option \<Rightarrow> bool \<Rightarrow> requirement list" where
  "pending_requirements pend sec =
     (case pend of Some n \<Rightarrow> if sec \<or> norm_name n = [] then [] else [ByName n] | None \<Rightarrow> [])"

lemma flush_scan_of:
  "flush_pending (scan_of acc pend sec) =
   scan_of (merge_new same_key acc (pending_requirements pend sec)) None False"
proof (cases pend)
  case (Some n)
  show ?thesis
    using Some by (cases "n = []") (simp_all add: flush_pending_def scan_of_def pending_requirements_def seen_key)
qed (simp add: flush_pending_def scan_of_def pending_requirements_def)

lemma scan_body_line:
  assumes "\<not> closes_body line"
  shows "scan_line line (scan_of acc pend sec) =
    scan_of (merge_new same_key acc (ids_of [line])) pend (sec \<or> pend \<noteq> None \<and> req_id line \<noteq> None)"
proof (cases "req_id line")
  case None
  have "case heading_at line of Some (n, h) \<Rightarrow> n \<noteq> 3 | None \<Rightarrow> True"
    using assms by (auto simp: closes_body_def split: option.splits)
  then show ?thesis
    using assms None by (auto simp: scan_line_def ids_of_def List.map_filter_simps split: option.splits)
next
  case (Some rid)
  show ?thesis
    using assms Some by (simp add: scan_line_def scan_of_def ids_of_def List.map_filter_simps Let_def seen_key)
qed

lemma ids_of_Cons: "ids_of (l # ls) = ids_of [l] @ ids_of ls"
  by (simp add: ids_of_def List.map_filter_simps split: option.split)

lemma ids_of_one: "ids_of [l] = [] \<longleftrightarrow> req_id l = None"
  by (simp add: ids_of_def List.map_filter_simps split: option.split)

lemma scan_body:
  "\<forall>l \<in> set ls. \<not> closes_body l \<Longrightarrow> fold scan_line ls (scan_of acc pend sec) =
   scan_of (merge_new same_key acc (ids_of ls)) pend (sec \<or> pend \<noteq> None \<and> ids_of ls \<noteq> [])"
proof (induction ls arbitrary: acc sec)
  case Nil
  then show ?case by (simp add: ids_of_def List.map_filter_simps)
next
  case (Cons l ls)
  have "fold scan_line (l # ls) (scan_of acc pend sec) =
      fold scan_line ls (scan_of (merge_new same_key acc (ids_of [l])) pend (sec \<or> pend \<noteq> None \<and> req_id l \<noteq> None))"
    using Cons.prems by (simp add: scan_body_line)
  also have "\<dots> = scan_of (merge_new same_key (merge_new same_key acc (ids_of [l])) (ids_of ls)) pend
      ((sec \<or> pend \<noteq> None \<and> req_id l \<noteq> None) \<or> pend \<noteq> None \<and> ids_of ls \<noteq> [])"
    using Cons.prems by (intro Cons.IH) simp
  also have "\<dots> = scan_of (merge_new same_key acc (ids_of (l # ls))) pend (sec \<or> pend \<noteq> None \<and> ids_of (l # ls) \<noteq> [])"
    by (simp only: ids_of_Cons [of l ls] merge_new_append append_is_Nil_conv ids_of_one de_Morgan_conj conj_disj_distribL disj_assoc)
  finally show ?case .
qed

lemma scan_head:
  "scan_line line (scan_of acc None False) =
   scan_of (merge_new same_key acc (ids_of [line])) (names_requirement line) False"
proof (cases "req_id line")
  case None
  have "flush_pending (scan_of acc None False) = scan_of acc None False"
    by (simp add: flush_scan_of pending_requirements_def)
  then show ?thesis
    using None
    by (auto simp: scan_line_def names_requirement_def ids_of_def List.map_filter_simps scan_of_def split: option.splits)
next
  case (Some rid)
  have "flush_pending (scan_of acc None False) = scan_of acc None False"
    by (simp add: flush_scan_of pending_requirements_def)
  then show ?thesis
    using Some by (simp add: scan_line_def scan_of_def names_requirement_def ids_of_def List.map_filter_simps Let_def seen_key)
qed

lemma closing_flushes:
  "closes_body line \<Longrightarrow> scan_line line s = scan_line line (flush_pending s)"
proof -
  have "flush_pending (flush_pending s) = flush_pending s"
    by (simp add: flush_pending_def Let_def split: option.split)
  then show "closes_body line \<Longrightarrow> ?thesis" by (simp add: scan_line_def)
qed

lemma names_no_id: "names_requirement l = Some n \<Longrightarrow> ids_of [l] = []"
  by (simp add: names_requirement_def ids_of_one split: option.splits)

lemma block_in_order:
  "ids_of [l] @ ids_of ls @ pending_requirements (names_requirement l) (names_requirement l \<noteq> None \<and> ids_of ls \<noteq> []) =
   block_requirements l ls"
proof (cases "names_requirement l")
  case None
  then show ?thesis by (simp add: pending_requirements_def block_requirements_def ids_of_Cons [of l ls])
next
  case (Some n)
  then show ?thesis using names_no_id [OF Some] by (simp add: pending_requirements_def block_requirements_def)
qed

lemma flush_before_rest:
  assumes "ls = [] \<or> closes_body (hd ls)"
  shows "flush_pending (fold scan_line ls s) = flush_pending (fold scan_line ls (flush_pending s))"
proof (cases ls)
  case Nil
  have "flush_pending (flush_pending s) = flush_pending s"
    by (simp add: flush_pending_def Let_def split: option.split)
  then show ?thesis using Nil by simp
next
  case (Cons l rest)
  then show ?thesis using assms by (simp add: closing_flushes [of l s])
qed

lemma scan_blocks:
  "flush_pending (fold scan_line ls (scan_of acc None False)) = scan_of (merge_new same_key acc (blocks ls)) None False"
proof (induction ls arbitrary: acc rule: blocks.induct)
  case 1
  then show ?case by (simp add: flush_scan_of pending_requirements_def)
next
  case (2 l ls)
  let ?body = "takeWhile (Not \<circ> closes_body) ls" and ?rest = "dropWhile (Not \<circ> closes_body) ls"
  let ?n = "names_requirement l"
  have clean: "\<forall>x \<in> set ?body. \<not> closes_body x" by (auto dest: set_takeWhileD)
  have next_one: "?rest = [] \<or> closes_body (hd ?rest)" using hd_dropWhile [of "Not \<circ> closes_body" ls] by auto
  define s where "s = scan_of (merge_new same_key acc (ids_of [l] @ ids_of ?body)) ?n (?n \<noteq> None \<and> ids_of ?body \<noteq> [])"
  have "fold scan_line (l # ls) (scan_of acc None False) = fold scan_line (?body @ ?rest) (scan_line l (scan_of acc None False))"
    by simp
  also have "\<dots> = fold scan_line ?rest (fold scan_line ?body (scan_of (merge_new same_key acc (ids_of [l])) ?n False))"
    by (simp only: fold_append o_apply scan_head)
  also have "\<dots> = fold scan_line ?rest s"
    by (simp only: scan_body [OF clean] merge_new_append s_def simp_thms)
  finally have "flush_pending (fold scan_line (l # ls) (scan_of acc None False)) =
      flush_pending (fold scan_line ?rest (flush_pending s))"
    by (simp only: flush_before_rest [OF next_one, of s])
  also have "flush_pending s = scan_of (merge_new same_key acc (block_requirements l ?body)) None False"
    by (simp only: s_def flush_scan_of flip: merge_new_append block_in_order append_assoc)
  finally show ?case by (simp only: 2 blocks.simps merge_new_append)
qed

text \<open>C30: The scan of a spec lists exactly the requirements of its blocks: cut at the headings of level one
  to three, a block lists the ids in it, or, when its head is a heading of level three and it holds no
  id, the name of that head; of several with one key the first is listed.
\<close>

theorem requirements_are_blocks: "spec_requirements content = reference_requirements content"
proof -
  have start: "\<lparr>rs_out = [], rs_seen = [], rs_pending = None, rs_section = False\<rparr> = scan_of [] None False"
    by (simp add: scan_of_def)
  show ?thesis
    by (simp only: spec_requirements_def start scan_blocks) (simp add: scan_of_def reference_requirements_def listed_def)
qed

section \<open>What is covered\<close>

subsection \<open>The map\<close>

lemma map_of_add_tests:
  "map_of (add_tests ts k m) x =
   (if x = k then Some (merge_new (=) (case map_of m k of None \<Rightarrow> [] | Some b \<Rightarrow> b) ts) else map_of m x)"
  by (simp add: add_tests_def update_conv')

definition tests_of :: "(string \<times> string list) list \<Rightarrow> string \<Rightarrow> string list" where
  "tests_of m k = (case map_of m k of None \<Rightarrow> [] | Some b \<Rightarrow> b)"

lemma tests_of_keys:
  "distinct ks \<Longrightarrow> tests_of (fold (add_tests ts) ks m) x =
   merge_new (=) (tests_of m x) (if x \<in> set ks then ts else [])"
proof (induction ks arbitrary: m)
  case (Cons k ks)
  then show ?case by (auto simp: tests_of_def map_of_add_tests)
qed simp

text \<open>The tests of the lines that name a key, each once.\<close>

definition naming_tests :: "string list \<Rightarrow> string list \<Rightarrow> string \<Rightarrow> string list" where
  "naming_tests wanted ls k = concat (map test_refs (filter (\<lambda>l. k \<in> set (line_keys wanted l)) ls))"

lemma tests_of_lines:
  "tests_of (fold (\<lambda>line. fold (add_tests (test_refs line)) (line_keys wanted line)) ls m) k =
   merge_new (=) (tests_of m k) (naming_tests wanted ls k)"
proof (induction ls arbitrary: m)
  case (Cons l ls)
  have "distinct (line_keys wanted l)" by (simp add: line_keys_def Let_def)
  then show ?case by (simp add: Cons tests_of_keys naming_tests_def merge_new_append)
qed (simp add: naming_tests_def)

lemma coverage_of_key:
  "tests_of (coverage_map content names) k = dedup (naming_tests (wanted_names names) (splitlines content) k)"
  by (simp add: coverage_map_def tests_of_lines) (simp add: tests_of_def)

subsection \<open>Names and ids do not mix\<close>

lemma lower_no_F: "CHR ''F'' \<notin> set (lower s)"
proof
  assume "CHR ''F'' \<in> set (lower s)"
  then obtain c where "lower_char c = CHR ''F''" by (auto simp: lower_def)
  moreover have "lower_char c \<noteq> CHR ''F''" for c
  proof
    assume c: "lower_char c = CHR ''F''"
    have "(of_char (lower_char c) :: nat) = 70" by (simp add: c)
    then show False
      by (cases "c = CHR ''F''") (auto simp: lower_char_def Let_def of_char_eq_iff split: if_splits)
  qed
  ultimately show False by blast
qed

lemma norm_name_no_F: "CHR ''F'' \<notin> set (norm_name n)"
  by (simp add: norm_name_def lower_no_F)

lemma id_at_F: "id_at s = Some (i, rest) \<Longrightarrow> CHR ''F'' \<in> set i"
  by (auto simp: id_at_def norm_id_def Let_def split: if_splits)

lemma ids_from_F: "i \<in> set (ids_from b s) \<Longrightarrow> CHR ''F'' \<in> set i"
proof (induction b s rule: ids_from.induct)
  case (2 inside c cs)
  then show ?case by (auto split: option.splits if_splits dest: id_at_F)
qed simp

lemma id_form_F: "id_form s \<Longrightarrow> CHR ''F'' \<in> set s"
  by (auto simp: id_form_def prefix_def)

text \<open>A line covers a requirement when it holds a test and, outside its tests, the id or the name.\<close>

definition line_covers :: "string \<Rightarrow> string \<Rightarrow> bool" where
  "line_covers rid line \<longleftrightarrow>
     test_refs line \<noteq> [] \<and>
     (if is_named rid
      then norm_name rid \<noteq> [] \<and> occurs_from False (norm_name rid) (norm_name (without_tests line))
      else rid \<in> set (ids_in (without_tests line)))"

lemma key_named_by_line:
  assumes "rid \<in> set names"
  shows "cover_key rid \<in> set (line_keys (wanted_names names) line) \<longleftrightarrow>
    (if is_named rid
     then norm_name rid \<noteq> [] \<and> occurs_from False (norm_name rid) (norm_name (without_tests line))
     else rid \<in> set (ids_in (without_tests line)))"
proof (cases "is_named rid")
  case True
  have "norm_name rid \<notin> set (ids_in (without_tests line))"
    using ids_from_F norm_name_no_F [of rid] by (auto simp: ids_in_def)
  then show ?thesis
    using assms True by (auto simp: cover_key_def line_keys_def Let_def wanted_names_def)
next
  case False
  have "rid \<notin> set (wanted_names names)"
    using id_form_F [of rid] False norm_name_no_F by (auto simp: wanted_names_def is_named_def)
  then show ?thesis using False by (auto simp: cover_key_def line_keys_def Let_def)
qed

lemma dedup_empty: "dedup xs = [] \<longleftrightarrow> xs = []"
  using set_merge_new [of "[]" xs] by (metis set_empty Un_empty_left)

lemma covered_iff:
  assumes "rid \<in> set names"
  shows "tests_of (coverage_map content names) (cover_key rid) \<noteq> [] \<longleftrightarrow>
    list_ex (line_covers rid) (splitlines content)"
  using key_named_by_line [OF assms]
  by (auto simp: coverage_of_key dedup_empty naming_tests_def filter_empty_conv list_ex_iff line_covers_def)

subsection \<open>The report of a capability\<close>

definition listed_for :: "files \<Rightarrow> entry \<Rightarrow> string list" where
  "listed_for fs e = (case fs (e_spec e) of None \<Rightarrow> [] | Some content \<Rightarrow> spec_requirements content)"

definition coverage_lines :: "files \<Rightarrow> entry \<Rightarrow> string list" where
  "coverage_lines fs e =
     (case map_of (e_tiers e) ''coverage'' of
        Some (path, Some True) \<Rightarrow> (case fs path of Some content \<Rightarrow> splitlines content | None \<Rightarrow> [])
      | _ \<Rightarrow> [])"

definition coverage_status :: "files \<Rightarrow> entry \<Rightarrow> string \<Rightarrow> requirement_status" where
  "coverage_status fs e rid =
     \<lparr>q_id = rid, q_named = is_named rid, q_covered = list_ex (line_covers rid) (coverage_lines fs e),
      q_tests = dedup (naming_tests (wanted_names (listed_for fs e)) (coverage_lines fs e) (cover_key rid))\<rparr>"

text \<open>C17: The report of a capability has one row for each requirement of its spec, in order; a row is
  covered exactly when a line of the coverage file holds a test and, outside its tests, the id or the
  name of the requirement, and lists the tests of the lines that do; the covered and the uncovered add
  up to the total.  Without a coverage file no requirement is covered.
\<close>

theorem coverage_report_exact:
  "cv_requirements (check_capability fs e) = map (coverage_status fs e) (listed_for fs e) \<and>
   cv_total (check_capability fs e) = length (listed_for fs e) \<and>
   cv_covered (check_capability fs e) =
     length (filter (\<lambda>rid. list_ex (line_covers rid) (coverage_lines fs e)) (listed_for fs e)) \<and>
   cv_covered (check_capability fs e) + cv_uncovered (check_capability fs e) = cv_total (check_capability fs e)"
proof -
  let ?cov = "map_of (e_tiers e) ''coverage''"
  define cmap where "cmap = (case (if Option.bind ?cov snd = Some True then Option.bind (map_option fst ?cov) fs else None) of
              None \<Rightarrow> [] | Some content \<Rightarrow> coverage_map content (listed_for fs e))"
  have status: "requirement_status_of cmap rid = coverage_status fs e rid" if rid: "rid \<in> set (listed_for fs e)" for rid
  proof (cases "if Option.bind ?cov snd = Some True then Option.bind (map_option fst ?cov) fs else None")
    case None
    then have "cmap = []" "coverage_lines fs e = []"
      by (auto simp: cmap_def coverage_lines_def split: option.splits if_splits bool.splits)
    then show ?thesis by (simp add: requirement_status_of_def coverage_status_def naming_tests_def)
  next
    case (Some content)
    then have c: "cmap = coverage_map content (listed_for fs e)" "coverage_lines fs e = splitlines content"
      by (auto simp: cmap_def coverage_lines_def split: option.splits if_splits)
    show ?thesis
      using covered_iff [OF rid, of content] coverage_of_key [of content "listed_for fs e" "cover_key rid"]
      by (simp add: requirement_status_of_def coverage_status_def c Let_def flip: tests_of_def)
  qed
  have rows: "map (requirement_status_of cmap) (listed_for fs e) = map (coverage_status fs e) (listed_for fs e)"
    by (rule map_cong) (simp_all add: status)
  have check: "check_capability fs e =
      (let rows = map (coverage_status fs e) (listed_for fs e); covered = length (filter q_covered rows)
       in \<lparr>cv_name = e_name e, cv_spec = e_spec e, cv_path = map_option fst ?cov,
           cv_has = (Option.bind ?cov snd = Some True), cv_total = length rows, cv_covered = covered,
           cv_uncovered = length rows - covered, cv_requirements = rows\<rparr>)"
    by (simp only: check_capability_def Let_def listed_for_def [symmetric] cmap_def [symmetric] rows)
  have "filter q_covered (map (coverage_status fs e) rs) =
      map (coverage_status fs e) (filter (\<lambda>rid. list_ex (line_covers rid) (coverage_lines fs e)) rs)" for rs
    by (simp add: filter_map coverage_status_def o_def)
  then show ?thesis by (simp add: check Let_def)
qed

text \<open>A name in backquotes that looks like an id is listed beside that id: the two keys differ.\<close>

lemma quoted_id_is_listed_twice:
  "spec_requirements (join nl [''### `FR-5`'', ''prose'', ''## Rules'', ''- FR-5: prose'']) = [''FR-5'', ''FR-5'']"
  by code_simp

end
