(* ===== verification/Recording.thy ===== *)
theory Recording
  imports PlanCheck FoldRun
begin

text \<open>
  The scripts that record a choice of the run: which living specs cover a change
  (\<open>record-living-specs.py\<close>), which plan blocks the plan step picked (\<open>plan-blocks.py\<close>), and what the
  check of the plan found (\<open>record_plan_report\<close> of \<open>capture.py\<close>).  Each is a composition of the
  resolver, the plan checker and the additive writers; the facts say that the record then holds what
  the later steps account for, and that the lifecycle is untouched.
\<close>

subsection \<open>Living specs that cover a change\<close>

datatype recording = NotConfigured | NoMatch | Loaded

definition per_capability :: "load_item list \<Rightarrow> (string \<times> string list option) list" where
  "per_capability items =
     fold (\<lambda>i m. AList.update (i_name i) (Some (map r_heading (i_reqs i))) m) (filter (\<lambda>i. \<not> i_whole i) items) []"

text \<open>
  The rules and the requirements are written after the names; an exception there is swallowed, one in
  the resolver or in the first write leaves the function (\<open>None\<close>).
\<close>

definition record_extras :: "living \<Rightarrow> files \<Rightarrow> string list \<Rightarrow> feature \<Rightarrow> feature" where
  "record_extras l fs changed st =
     (let st1 = snd (set_living_specs_rules (rules l) st)
      in case requirements_for_changed changed l fs False of
          None \<Rightarrow> st1
        | Some items \<Rightarrow> snd (set_living_specs_loaded_requirements (per_capability items) st1))"

definition record_specs ::
  "living \<Rightarrow> files \<Rightarrow> string list \<Rightarrow> feature \<Rightarrow> (string list \<times> recording) option \<times> feature" where
  "record_specs l fs changed st =
     (if \<not> enabled l then (Some ([], NotConfigured), st)
      else let given = filter (\<lambda>f. f \<noteq> [] \<and> strip f \<noteq> []) changed in
           if given = [] then (Some ([], NoMatch), st)
           else case match_changed given l fs of
               None \<Rightarrow> (None, st)
             | Some found \<Rightarrow>
                 (let names = map e_name found in
                  if names = [] then (Some ([], NoMatch), st)
                  else case set_living_specs_loaded names st of
                      (Raised, st1) \<Rightarrow> (None, st1)
                    | (_, st1) \<Rightarrow> (Some (names, Loaded), record_extras l fs given st1)))"

text \<open>The dash of the two other breadcrumbs, outside the characters of the model, is two hyphens.\<close>

definition breadcrumb :: "string list \<times> recording \<Rightarrow> string" where
  "breadcrumb r =
     (case snd r of
        Loaded \<Rightarrow> ''living specs loaded ('' @ join '', '' (fst r) @ '')''
      | NoMatch \<Rightarrow> ''living specs evaluated -- no capabilities matched''
      | NotConfigured \<Rightarrow> ''living specs evaluated -- skipped (not configured)'')"

definition record_specs_main ::
  "living \<Rightarrow> files \<Rightarrow> string list \<Rightarrow> feature \<Rightarrow> (string list \<times> recording) option \<times> feature" where
  "record_specs_main l fs changed st =
     (case record_specs l fs changed st of
        (None, st1) \<Rightarrow> (None, st1)
      | (Some r, st1) \<Rightarrow> (Some r, snd (set_fields [''last_action='' @ breadcrumb r] st1)))"

subsection \<open>The blocks of a plan\<close>

definition PARTS :: "(string \<times> string) list" where
  "PARTS = [(''calls'', ''call-paths''), (''code'', ''code-pins''), (''states'', ''states''), (''screens'', ''screens'')]"

definition names_refused :: "string list \<Rightarrow> bool" where
  "names_refused names \<longleftrightarrow>
     names = [] \<or> (\<exists>n \<in> set names. n \<notin> set (map fst PARTS @ [''none''])) \<or> ''none'' \<in> set names \<and> 1 < length names"

definition chosen_blocks :: "string list \<Rightarrow> string list" where
  "chosen_blocks names = (if names = [''none''] then [] else filter (\<lambda>n. n \<in> set names) (map fst PARTS))"

text \<open>The project's copy of a part wins over the shipped one; neither is an exception.\<close>

definition part_text :: "(string \<Rightarrow> string option) \<Rightarrow> (string \<Rightarrow> string option) \<Rightarrow> string \<Rightarrow> string option" where
  "part_text own stock part =
     (case own part of Some t \<Rightarrow> Some (strip t) | None \<Rightarrow> map_option strip (stock part))"

definition record_choice :: "string list \<Rightarrow> feature \<Rightarrow> outcome \<times> feature" where
  "record_choice chosen st =
     additive_write (\<lambda>ctx. Some (jput ''planBlocksPicked'' (JList (map JStr chosen))
       (jput ''planBlocks'' (JList (map JStr chosen)) ctx))) st"

datatype plan_answer = BadUsage | Grammars "string list" bool

text \<open>
  \<open>found\<close> says whether the feature directory was resolved; the answer is the texts printed and whether
  the choice was recorded, \<open>None\<close> the exception of a missing part.
\<close>

definition plan_blocks ::
  "(string \<Rightarrow> string option) \<Rightarrow> (string \<Rightarrow> string option) \<Rightarrow> bool \<Rightarrow> string list \<Rightarrow> feature \<Rightarrow> plan_answer option \<times> feature" where
  "plan_blocks own stock found names st =
     (if names_refused names then (Some BadUsage, st)
      else let chosen = chosen_blocks names in
           case traverse (\<lambda>n. part_text own stock (the (map_of PARTS n))) chosen of
             None \<Rightarrow> (None, st)
           | Some texts \<Rightarrow>
               if found then (Some (Grammars texts True), snd (record_choice chosen st))
               else (Some (Grammars texts False), st))"

subsection \<open>The result of the plan check\<close>

definition PLAN_CHECK_WHAT :: string where "PLAN_CHECK_WHAT = ''plan blocks check out''"

definition held_kinds :: "plan_report \<Rightarrow> string list" where
  "held_kinds r = map fst (filter (\<lambda>(kind, n). 0 < n)
     [(''calls'', p_blocks r), (''code'', p_code r), (''states'', p_state_blocks r), (''screens'', p_screens r)])"

definition pick_notes :: "json \<Rightarrow> string list \<Rightarrow> string list" where
  "pick_notes picked held =
     (case picked of
        JList ks \<Rightarrow>
          if ks = [] then []
          else map (\<lambda>k. ''picked '' @ py_str k @ '' but the plan has no '' @ py_str k @ '' block'')
                 (filter (\<lambda>k. k \<notin> set (map JStr held)) ks)
               @ map (\<lambda>k. ''the plan has a '' @ k @ '' block that was not picked'')
                 (filter (\<lambda>k. JStr k \<notin> set ks) held)
      | _ \<Rightarrow> [])"

text \<open>
  The entry of the check: \<open>shown\<close> is the feature directory as it is named, \<open>took\<close> the duration and
  \<open>rendered\<close> the report as it is printed.
\<close>

definition check_entry :: "string \<Rightarrow> json \<Rightarrow> string \<Rightarrow> nat \<Rightarrow> string list \<Rightarrow> jdict" where
  "check_entry shown took rendered wrong notes =
     (let ls = filter (\<lambda>ln. strip ln \<noteq> []) (splitlines (strip rendered)); tail = drop (length ls - 3) ls
      in [(''what'', JStr PLAN_CHECK_WHAT),
          (''command'', JStr (''python3 .specify/extensions/companion/scripts/check_plan.py --feature-dir '' @ shown @ '' --strict'')),
          (''source'', JStr ''derived''), (''exitCode'', JInt (if 0 < wrong then 1 else 0)),
          (''durationSeconds'', took), (''result'', JStr (join [CHR 0x20, CHR 0xB7, CHR 0x20] (tail @ notes)))]
         @ (if 0 < wrong then [(''warnings'', JList [JStr ''exited 1''])] else []))"

definition record_plan_report :: "string \<Rightarrow> json \<Rightarrow> string \<Rightarrow> plan_report \<Rightarrow> feature \<Rightarrow> outcome \<times> feature" where
  "record_plan_report shown took rendered r st =
     (let held = held_kinds r; picked = jget (read_ctx st) ''planBlocksPicked''; notes = pick_notes picked held in
      if \<not> has_blocks r then (if truthy picked then set_plan_blocks held st else (Declined, st))
      else let entry = check_entry shown took rendered (p_errors r) notes
           in case append_capture_entries ''verified'' ''what'' [json_dumps True (JDict entry)] True st of
               (Raised, st1) \<Rightarrow> (Raised, st1)
             | (path, st1) \<Rightarrow>
                 (case set_plan_blocks held st1 of (Raised, st2) \<Rightarrow> (Raised, st2) | (_, st2) \<Rightarrow> (path, st2)))"

section \<open>Facts\<close>

subsection \<open>The loaded list survives the later writes\<close>

definition holds_loaded :: "feature \<Rightarrow> json \<Rightarrow> bool" where
  "holds_loaded st v \<longleftrightarrow> (\<exists>d. jget (read_ctx st) ''livingSpecs'' = JDict d \<and> jget d ''loaded'' = v)"

lemma living_block_fill: "living_block (fill_required st ctx) = living_block ctx"
  by (simp add: living_block_def json_simps)

lemma holds_loaded_block: "holds_loaded st v \<Longrightarrow> jget (living_block (read_ctx st)) ''loaded'' = v"
  by (auto simp: holds_loaded_def living_block_def)

lemma read_ctx_doc [simp]: "read_ctx (st\<lparr>ctx_file := DocFile (JDict c)\<rparr>) = c"
  by (simp add: read_ctx_def)

lemma dict_write_keeps_loaded:
  assumes "holds_loaded st v" "key \<noteq> ''loaded''"
  shows "holds_loaded (snd (additive_write (\<lambda>ctx. map_option (\<lambda>m. put_living key (JDict m) ctx) (build ctx)) st)) v"
proof (cases rule: living_dict.effect [where key = key and build = build and st = st])
  case 1
  then show ?thesis using assms(1) by simp
next
  case (2 c)
  obtain m where c: "c = put_living key (JDict m) (fill_required st (read_ctx st))" using 2(1) by auto
  have "jget c ''livingSpecs'' = JDict (jput key (JDict m) (living_block (read_ctx st)))"
    by (simp add: c put_living_def json_simps living_block_fill)
  moreover have "jget (jput key (JDict m) (living_block (read_ctx st))) ''loaded'' = v"
    using holds_loaded_block [OF assms(1)] assms(2) by (simp add: json_simps)
  ultimately show ?thesis using 2(2) by (simp add: holds_loaded_def)
qed

lemma extras_keep_loaded: "holds_loaded st v \<Longrightarrow> holds_loaded (record_extras l fs changed st) v"
  by (auto simp: record_extras_def Let_def set_living_specs_rules_def set_living_specs_loaded_requirements_def
      dict_write_keeps_loaded split: option.split)

lemma action_keeps_loaded:
  assumes "holds_loaded st v"
  shows "holds_loaded (snd (set_fields [''last_action='' @ b] st)) v"
proof -
  have "cut_at ''='' (''last_action='' @ b) = Some (''last_action'', b)" by simp
  then have "set_pair (''last_action='' @ b) ctx = jput ''last_action'' (coerce_value (strip b)) ctx" for ctx
    by (simp add: set_pair_def PROTECTED_SET_KEYS_def strip_def lstrip_def rstrip_def rstrip_chars_def
        is_space_def space_chars_def)
  then show ?thesis
    using assms
    by (cases rule: fields.effect [where pairs = "[''last_action='' @ b]" and st = st])
       (auto simp: set_fields_def holds_loaded_def json_simps)
qed

lemma merge_names_strings: "merge_new py_eq (map JStr acc) (map JStr xs) = map JStr (merge_new (=) acc xs)"
proof (induction xs arbitrary: acc)
  case (Cons x xs)
  then show ?case using Cons [of "acc @ [x]"] by auto
qed simp

lemma set_loaded_holds:
  assumes "set_living_specs_loaded names st = (r, st')" "r = Wrote"
    and "list_or_empty (jget (living_block (read_ctx st)) ''loaded'') = map JStr prior"
  shows "holds_loaded st' (JList (map JStr (dedup (prior @ clean_names names))))"
proof -
  have "merge_names (jget (living_block (read_ctx st)) ''loaded'') (clean_names names) =
      JList (map JStr (dedup (prior @ clean_names names)))"
    using merge_names_strings [of "[]" "prior @ clean_names names"] assms(3) by (simp add: merge_names_def)
  then show ?thesis
    using assms(1,2)
    by (cases rule: living.effect [where key = "''loaded''" and v = "\<lambda>ctx. merge_names (jget (living_block ctx) ''loaded'') (clean_names names)" and st = st])
       (auto simp: set_living_specs_loaded_def holds_loaded_def put_living_def json_simps living_block_fill split: if_splits)
qed

lemma loaded_from_holds:
  assumes "holds_loaded st (JList (map JStr xs))"
  shows "loaded_capabilities st = Some (filter (\<lambda>n. strip n \<noteq> []) xs)"
proof -
  obtain d where d: "jget (read_ctx st) ''livingSpecs'' = JDict d" "jget d ''loaded'' = JList (map JStr xs)"
    using assms by (auto simp: holds_loaded_def)
  have "d \<noteq> []" using d(2) by (auto simp: jget_def)
  moreover have "List.map_filter named (map JStr xs) = filter (\<lambda>n. strip n \<noteq> []) xs"
    by (induction xs) (simp_all add: List.map_filter_simps named_def)
  moreover have "py_iter_or_empty (JList ys) = Some ys" for ys by (cases ys) (simp_all add: py_iter_or_empty_def)
  ultimately show ?thesis using d by (simp add: loaded_capabilities_def living_items_def)
qed

subsection \<open>What was recorded is what completion asks for\<close>

lemma writer_keeps_lifecycle:
  "lifecycle_same st (snd (set_living_specs_loaded names st))"
  "lifecycle_same st (snd (set_living_specs_rules rs st))"
  "lifecycle_same st (snd (set_living_specs_loaded_requirements per_cap st))"
  "lifecycle_same st (snd (set_fields pairs st))"
  "lifecycle_same st (snd (append_capture_entries ''verified'' key raws rep st))"
  "lifecycle_same st (snd (set_plan_blocks held st))"
  using capture_writer_lifecycle [of "SpecsLoaded names" st] capture_writer_lifecycle [of "RulesRecorded rs" st]
    capture_writer_lifecycle [of "RequirementsLoaded per_cap" st] capture_writer_lifecycle [of "SetFields pairs" st]
    capture_writer_lifecycle [of "Entries ''verified'' key raws rep" st] capture_writer_lifecycle [of "PlanBlocks held" st]
  by (simp_all add: PROTECTED_SET_KEYS_def)

lemma extras_keep_lifecycle: "lifecycle_same st (record_extras l fs changed st)"
  using lifecycle_same_trans writer_keeps_lifecycle(2,3)
  by (fastforce simp: record_extras_def Let_def split: option.split)

lemma main_keeps_lifecycle: "lifecycle_same st (snd (record_specs_main l fs changed st))"
proof -
  have "lifecycle_same st (snd (record_specs l fs changed st))"
  proof -
    have "lifecycle_same st (record_extras l fs given (snd (set_living_specs_loaded names st)))" for given names
      using lifecycle_same_trans [OF writer_keeps_lifecycle(1) extras_keep_lifecycle] .
    moreover have "lifecycle_same st st1" if "set_living_specs_loaded names st = (r, st1)" for names r st1
      using writer_keeps_lifecycle(1) [of st names] that by simp
    moreover have "lifecycle_same st (record_extras l fs given st1)"
      if "set_living_specs_loaded names st = (r, st1)" for names r st1 given
      using that lifecycle_same_trans writer_keeps_lifecycle(1) extras_keep_lifecycle by (metis snd_conv)
    ultimately show ?thesis
      by (auto simp: record_specs_def Let_def split: option.split prod.split outcome.split)
  qed
  then show ?thesis
    using lifecycle_same_trans writer_keeps_lifecycle(4)
    by (fastforce simp: record_specs_main_def split: prod.split option.split)
qed

text \<open>C19: What the recording of living specs writes is what completion asks for: after a run that loaded
  capabilities, the list of loaded capabilities that the accounting of the fold reads is the one that
  was there, followed by the names of the capabilities that claim a changed file, ranked as the
  resolver ranks them and each once; the log, the status and the current step are those of before.
\<close>

theorem recorded_specs_are_accounted:
  assumes "record_specs_main l fs changed st = (Some (names, Loaded), st')"
    and "list_or_empty (jget (living_block (read_ctx st)) ''loaded'') = map JStr prior"
    and "\<forall>n \<in> set prior. strip n \<noteq> []" "\<forall>n \<in> set names. n \<noteq> [] \<and> strip n = n"
  shows "loaded_capabilities st' = Some (dedup (prior @ names)) \<and>
    map_option (map e_name) (match_changed (filter (\<lambda>f. strip f \<noteq> []) changed) l fs) = Some names \<and>
    lifecycle_same st st'"
proof -
  define given where "given = filter (\<lambda>f. f \<noteq> [] \<and> strip f \<noteq> []) changed"
  have given: "given = filter (\<lambda>f. strip f \<noteq> []) changed"
    unfolding given_def by (rule filter_cong) (auto simp: strip_def lstrip_def rstrip_def rstrip_chars_def)
  obtain st1 where specs: "record_specs l fs changed st = (Some (names, Loaded), st1)"
      and st': "st' = snd (set_fields [''last_action='' @ breadcrumb (names, Loaded)] st1)"
    using assms(1) by (auto simp: record_specs_main_def split: prod.splits option.splits)
  obtain found r st2 where found: "match_changed given l fs = Some found" "names = map e_name found" "names \<noteq> []"
      and wrote: "set_living_specs_loaded names st = (r, st2)" "r \<noteq> Raised" "st1 = record_extras l fs given st2"
    using specs
    by (auto simp: record_specs_def Let_def given_def [symmetric] split: if_splits option.splits prod.splits outcome.splits)
  have "map strip names = names" using assms(4) by (intro map_idI) blast
  then have clean: "clean_names names = names" using assms(4) by (simp add: clean_names_def)
  have "r = Wrote"
    using wrote(1,2) found(3) clean
    by (cases rule: living.effect [where key = "''loaded''"
          and v = "\<lambda>ctx. merge_names (jget (living_block ctx) ''loaded'') (clean_names names)" and st = st])
       (auto simp: set_living_specs_loaded_def split: if_splits)
  then have "holds_loaded st2 (JList (map JStr (dedup (prior @ names))))"
    using set_loaded_holds [OF wrote(1) _ assms(2)] clean by simp
  then have "holds_loaded st' (JList (map JStr (dedup (prior @ names))))"
    unfolding st' wrote(3) by (intro action_keeps_loaded extras_keep_loaded)
  then have "loaded_capabilities st' = Some (filter (\<lambda>n. strip n \<noteq> []) (dedup (prior @ names)))"
    by (rule loaded_from_holds)
  moreover have "filter (\<lambda>n. strip n \<noteq> []) (dedup (prior @ names)) = dedup (prior @ names)"
  proof (rule filter_True)
    show "\<forall>n \<in> set (dedup (prior @ names)). strip n \<noteq> []" using assms(3,4) by auto
  qed
  moreover have "lifecycle_same st st'" using main_keeps_lifecycle [of st l fs changed] assms(1) by simp
  ultimately show ?thesis using found given by simp
qed

definition recorded_living :: living where
  "recorded_living = \<lparr>enabled = True, layout = ''central'', exempt = [],
     capabilities = [\<lparr>cap_name = ''billing'', cap_match = [''src/pay/**''], cap_exclude = [], cap_spec = ''billing.spec.md'',
       spec_defaulted = False, retire = False\<rparr>,
       \<lparr>cap_name = ''core'', cap_match = [''src/**''], cap_exclude = [], cap_spec = ''core.spec.md'',
       spec_defaulted = False, retire = False\<rparr>], rules = []\<rparr>"

definition recorded_dir :: feature where
  "recorded_dir = snd (record_specs_main recorded_living (\<lambda>_. None) [''src/pay/a.py'', '' ''] (example_dir ''specifying'' ''specify'' []))"

theorem recorded_specs_are_accounted_witness:
  "loaded_capabilities recorded_dir = Some [''billing'', ''core'']"
proof -
  have "fst (record_specs_main recorded_living (\<lambda>_. None) [''src/pay/a.py'', '' ''] (example_dir ''specifying'' ''specify'' [])) =
      Some ([''billing'', ''core''], Loaded)"
    by code_simp
  then have run: "record_specs_main recorded_living (\<lambda>_. None) [''src/pay/a.py'', '' ''] (example_dir ''specifying'' ''specify'' []) =
      (Some ([''billing'', ''core''], Loaded), recorded_dir)"
    by (simp add: recorded_dir_def prod_eq_iff)
  have "loaded_capabilities recorded_dir = Some (dedup ([] @ [''billing'', ''core'']))"
    using recorded_specs_are_accounted [OF run, of "[]"]
    by (simp add: read_ctx_def example_dir_def living_block_def jget_def strip_def lstrip_def rstrip_def
        rstrip_chars_def is_space_def space_chars_def)
  then show ?thesis by simp
qed

subsection \<open>The picked blocks and the plan\<close>

interpretation picks: additive_edit "\<lambda>ctx. Some (jput ''planBlocksPicked'' v (jput ''planBlocks'' w ctx))" for v w
  by unfold_locales (auto simp: json_simps PROTECTED_SET_KEYS_def)

interpretation verified: additive_edit "\<lambda>ctx. Some (jput ''verified'' (v ctx) ctx)" for v
  by unfold_locales (auto simp: json_simps PROTECTED_SET_KEYS_def)

lemma record_choice_reads:
  assumes "record_choice chosen st = (r, st')"
  shows "r = Wrote" "jget (read_ctx st') ''planBlocks'' = JList (map JStr chosen)"
    "jget (read_ctx st') ''planBlocksPicked'' = JList (map JStr chosen)" "lifecycle_same st st'"
  using assms picks.lifecycle
  by (cases rule: picks.effect [where v = "JList (map JStr chosen)" and w = "JList (map JStr chosen)" and st = st];
      auto simp: record_choice_def json_simps)+

lemma set_plan_blocks_reads:
  assumes "set_plan_blocks held st = (r, st')"
  shows "r = Wrote" "jget (read_ctx st') ''planBlocks'' = JList (map JStr held)"
    "jget (read_ctx st') ''planBlocksPicked'' = jget (read_ctx st) ''planBlocksPicked''"
  using assms
  by (cases rule: blocks.effect [where v = "JList (map JStr held)" and st = st];
      auto simp: set_plan_blocks_def json_simps)+

lemma verified_reads:
  assumes "append_capture_entries ''verified'' key raws rep st = (r, st')"
  shows "r \<noteq> Raised" "jget (read_ctx st') ''planBlocksPicked'' = jget (read_ctx st) ''planBlocksPicked''"
  using assms
  by (cases rule: verified.effect [where v = "\<lambda>ctx. JList (merge_entries rep key (list_or_empty (jget ctx ''verified''))
        (List.map_filter (\<lambda>r. coerce_entry r key) raws))" and st = st];
      auto simp: append_capture_entries_def Let_def json_simps split: if_splits)+

abbreviation kinds :: "string list" where
  "kinds \<equiv> [''calls'', ''code'', ''states'', ''screens'']"

lemma held_filter:
  "held_kinds r = filter (\<lambda>k. 0 < the (map_of [(''calls'', p_blocks r), (''code'', p_code r),
     (''states'', p_state_blocks r), (''screens'', p_screens r)] k)) kinds"
  by (simp add: held_kinds_def)

lemma chosen_filter: "\<not> names_refused names \<Longrightarrow> chosen_blocks names = filter (\<lambda>k. k \<in> set names) kinds"
  by (auto simp: chosen_blocks_def PARTS_def names_refused_def)

lemma same_filter: "set (filter P xs) = set (filter Q xs) \<Longrightarrow> filter P xs = filter Q xs"
  by (rule filter_cong) auto

lemma notes_empty:
  assumes "ks \<noteq> []" "ks = filter P kinds" "held = filter Q kinds"
  shows "pick_notes (JList (map JStr ks)) held = [] \<longleftrightarrow> ks = held"
proof -
  have "pick_notes (JList (map JStr ks)) held = [] \<longleftrightarrow> set ks \<subseteq> set held \<and> set held \<subseteq> set ks"
    using assms(1) by (auto simp: pick_notes_def filter_empty_conv)
  also have "\<dots> \<longleftrightarrow> ks = held"
    using same_filter [of P kinds Q] assms(2,3) by auto
  finally show ?thesis .
qed

text \<open>
  The pick of the plan step and the check of the plan meet in the record: once the blocks were
  picked and a plan with blocks was checked, \<open>planBlocks\<close> names exactly the kinds the plan holds and
  \<open>planBlocksPicked\<close> still the pick; the entry of the check carries a note exactly when something was
  picked and the two differ; and neither script touches the lifecycle or refuses to write.
\<close>

theorem pick_and_check_meet:
  assumes "plan_blocks own stock True names st = (Some (Grammars texts True), st1)"
    and "record_plan_report shown took rendered r st1 = (out, st2)" "has_blocks r"
  shows "out \<noteq> Raised \<and> jget (read_ctx st2) ''planBlocks'' = JList (map JStr (held_kinds r)) \<and>
    jget (read_ctx st2) ''planBlocksPicked'' = JList (map JStr (chosen_blocks names)) \<and>
    (pick_notes (jget (read_ctx st1) ''planBlocksPicked'') (held_kinds r) \<noteq> [] \<longleftrightarrow>
       chosen_blocks names \<noteq> [] \<and> chosen_blocks names \<noteq> held_kinds r) \<and>
    lifecycle_same st st2"
proof -
  have ok: "\<not> names_refused names" and st1: "record_choice (chosen_blocks names) st = (fst (record_choice (chosen_blocks names) st), st1)"
    using assms(1) by (auto simp: plan_blocks_def Let_def split: if_splits option.splits)
  note first = record_choice_reads [OF st1]
  obtain path st' where entry: "append_capture_entries ''verified'' ''what'' [json_dumps True (JDict (check_entry shown took rendered
      (p_errors r) (pick_notes (jget (read_ctx st1) ''planBlocksPicked'') (held_kinds r))))] True st1 = (path, st')"
    by (cases "append_capture_entries ''verified'' ''what'' [json_dumps True (JDict (check_entry shown took rendered
      (p_errors r) (pick_notes (jget (read_ctx st1) ''planBlocksPicked'') (held_kinds r))))] True st1")
  obtain path2 st'' where held: "set_plan_blocks (held_kinds r) st' = (path2, st'')" by (cases "set_plan_blocks (held_kinds r) st'")
  have "path \<noteq> Raised" "path2 = Wrote" using verified_reads(1) [OF entry] set_plan_blocks_reads(1) [OF held] by auto
  then have result: "out = path" "st2 = st''"
    using assms(2,3) entry held by (auto simp: record_plan_report_def Let_def split: outcome.splits)
  have "lifecycle_same st1 st'" "lifecycle_same st' st''"
    using writer_keeps_lifecycle(5) [of st1 "''what''"] writer_keeps_lifecycle(6) [of st'] entry held
    by (metis snd_conv)+
  then have "lifecycle_same st st2" using first(4) result lifecycle_same_trans by blast
  moreover have "pick_notes (JList (map JStr (chosen_blocks names))) (held_kinds r) \<noteq> [] \<longleftrightarrow>
      chosen_blocks names \<noteq> [] \<and> chosen_blocks names \<noteq> held_kinds r"
  proof (cases "chosen_blocks names = []")
    case True
    then show ?thesis by (simp add: pick_notes_def)
  next
    case False
    then show ?thesis using notes_empty [OF False chosen_filter [OF ok] held_filter] by simp
  qed
  ultimately show ?thesis
    using \<open>path \<noteq> Raised\<close> result first set_plan_blocks_reads [OF held] verified_reads(2) [OF entry] by simp
qed

definition picked_dir :: feature where
  "picked_dir = snd (plan_blocks (\<lambda>_. Some ''grammar'') (\<lambda>_. None) True [''states'', ''calls''] (example_dir ''planning'' ''plan'' []))"

definition calls_report :: plan_report where
  "calls_report = empty_report\<lparr>p_blocks := 1, p_errors := 1\<rparr>"

theorem pick_and_check_meet_witness:
  "jget (read_ctx (snd (record_plan_report ''specs/001-a'' (JFloat ''0.1'') ''1 error'' calls_report picked_dir))) ''planBlocks'' =
     JList [JStr ''calls''] \<and>
   pick_notes (jget (read_ctx picked_dir) ''planBlocksPicked'') [''calls''] \<noteq> []"
proof -
  have run: "plan_blocks (\<lambda>_. Some ''grammar'') (\<lambda>_. None) True [''states'', ''calls''] (example_dir ''planning'' ''plan'' []) =
      (Some (Grammars [''grammar'', ''grammar''] True), picked_dir)"
    by (simp add: picked_dir_def plan_blocks_def Let_def names_refused_def PARTS_def chosen_blocks_def part_text_def
        strip_def lstrip_def rstrip_def rstrip_chars_def is_space_def space_chars_def)
  have "held_kinds calls_report = [''calls'']" "has_blocks calls_report" "chosen_blocks [''states'', ''calls''] = [''calls'', ''states'']"
    by (simp_all add: held_kinds_def calls_report_def empty_report_def has_blocks_def chosen_blocks_def PARTS_def)
  then show ?thesis
    using pick_and_check_meet [OF run prod.collapse [symmetric], of calls_report] by simp
qed

end
