(* ===== verification/CommandLine.thy ===== *)
theory CommandLine
  imports Dispatch Recording
begin

text \<open>
  The command of the record (\<open>write-context.py\<close>, from \<open>_main\<close> on): which writers one invocation runs, in
  which order, what it exits with and what it tells the trace.  The arguments are those \<open>argparse\<close>
  gives; a message is the reason it states.  The facts lift the invariants of the writers to whole
  invocations, and show where the trace names an invocation after the half that did not run.
\<close>

subsection \<open>The arguments\<close>

record args =
  a_step :: string
  a_status :: "string option"
  a_by :: string
  a_kind :: string
  a_at :: "string option"
  a_substep :: "string option"
  a_feature_dir :: "string option"
  a_tasks_file :: "string option"
  a_task :: "string option"
  a_append :: bool
  a_materialize :: bool
  a_mark_complete :: bool
  a_finish :: bool
  a_advance :: bool
  a_did :: "string option"
  a_files :: "string option"
  a_set :: "string list"
  a_living :: "string list"
  a_skips :: "string list"
  a_fold :: bool
  a_decisions :: "string list"
  a_verified :: "string list"
  a_runs :: "string list"
  a_concerns :: "string list"
  a_expectations :: "string list"
  a_context :: "string list"
  a_cov_req :: "string option"
  a_cov_tests :: "string option"
  a_cov_tasks :: "string option"
  a_cov_title :: "string option"
  a_summary :: "string option"
  a_batch :: "string option"
  a_close_task :: "string option"
  a_classification :: "string option"

definition given :: "string option \<Rightarrow> bool" where
  "given x \<longleftrightarrow> x \<noteq> None \<and> x \<noteq> Some []"

definition value_of :: "string option \<Rightarrow> string" where
  "value_of x = (case x of None \<Rightarrow> [] | Some s \<Rightarrow> s)"

definition capture_mode :: "args \<Rightarrow> bool" where
  "capture_mode a \<longleftrightarrow>
     a_decisions a \<noteq> [] \<or> a_verified a \<noteq> [] \<or> a_runs a \<noteq> [] \<or> a_concerns a \<noteq> [] \<or> a_expectations a \<noteq> []
     \<or> given (a_cov_req a) \<or> given (a_summary a) \<or> given (a_classification a) \<or> a_context a \<noteq> [] \<or> given (a_batch a)"

definition plain_step_write :: "args \<Rightarrow> bool" where
  "plain_step_write a \<longleftrightarrow>
     \<not> (capture_mode a \<or> a_set a \<noteq> [] \<or> a_living a \<noteq> [] \<or> a_skips a \<noteq> [] \<or> a_fold a \<or> given (a_tasks_file a)
        \<or> given (a_task a) \<or> given (a_close_task a) \<or> a_mark_complete a \<or> a_finish a \<or> a_advance a \<or> a_materialize a)"

text \<open>
  What an invocation meets outside its arguments: the steps of the project, whether the task file and
  the directory agree and the directory was found, whether it came from the pointer, the clock reading
  of a stamp in UTC (\<open>None\<close> when it cannot be read or has no zone), the commands that are run, the task
  file handed in, the fold, and the tree, name, duration and printed form of the plan check.
\<close>

record environment =
  en_steps :: "string list"
  en_agree :: bool
  en_found :: bool
  en_no_pointer_env :: bool
  en_utc :: "string \<Rightarrow> string option"
  en_run :: "string \<Rightarrow> int \<times> string \<times> string"
  en_tasks :: "string option option"
  en_fold :: fold_env
  en_tree :: "tree"
  en_shown :: string
  en_took :: json
  en_rendered :: "plan_report \<Rightarrow> string"

definition pointer_resolved :: "environment \<Rightarrow> args \<Rightarrow> bool" where
  "pointer_resolved en a \<longleftrightarrow> \<not> given (a_feature_dir a) \<and> \<not> given (a_tasks_file a) \<and> en_no_pointer_env en"

definition unscoped_specify :: "environment \<Rightarrow> args \<Rightarrow> feature \<Rightarrow> bool option" where
  "unscoped_specify en a st =
     (if a_step a \<noteq> ''specify'' \<or> \<not> pointer_resolved en a then Some False
      else if \<not> (a_advance a \<or> plain_step_write a) then Some False
      else has_complete (canonical_log (read_ctx st)) ''specify'' None)"

subsection \<open>What an invocation comes to\<close>

datatype reason =
    UnknownStep | DirsDisagree | Unresolved | PreviousSpec | BadClassification | StampMisplaced | StampUnreadable
  | BadBatch | WriteFailed | KeysRefused | PartDeclined | NothingLanded | WriterDeclined

datatype call_outcome = Landed | Failed reason

text \<open>The feature and the project its living specs are in.\<close>

type_synonym place_state = "feature \<times> Registry.files"

subsection \<open>The capture flags\<close>

text \<open>A writer under a flag: it broke, it noted lines as captured, or its decline was noted.\<close>

datatype step_out = Broke | Noted nat | NotedDecline

type_synonym capture_step = "place_state \<Rightarrow> step_out \<times> place_state"

definition on_feature :: "(feature \<Rightarrow> outcome \<times> feature) \<Rightarrow> (outcome \<Rightarrow> step_out) \<Rightarrow> capture_step" where
  "on_feature w out s = (case w (fst s) of (r, st) \<Rightarrow> (out r, st, snd s))"

fun noted :: "outcome \<Rightarrow> step_out" where
  "noted Raised = Broke" | "noted Wrote = Noted 1" | "noted Declined = Noted 1"

fun noted_if_written :: "outcome \<Rightarrow> step_out" where
  "noted_if_written Raised = Broke" | "noted_if_written Wrote = Noted 1" | "noted_if_written Declined = Noted 0"

fun noted_or_declined :: "outcome \<Rightarrow> step_out" where
  "noted_or_declined Raised = Broke" | "noted_or_declined Wrote = Noted 1" | "noted_or_declined Declined = NotedDecline"

definition comma_list :: "string option \<Rightarrow> json" where
  "comma_list x =
     (if given x then JList (map JStr (filter (\<lambda>t. t \<noteq> []) (map strip (split_on (CHR '','') (value_of x))))) else JNull)"

definition verify_step :: "environment \<Rightarrow> string list \<Rightarrow> capture_step" where
  "verify_step en specs s =
     (case append_verification_runs (en_run en) specs (fst s) of
        ((r, st), skipped) \<Rightarrow>
          ((case noted_if_written r of Noted n \<Rightarrow> Noted (length skipped + n) | x \<Rightarrow> x), st, snd s))"

definition skip_of :: "string \<Rightarrow> json" where
  "skip_of raw =
     (case (case cut_at '':'' raw of None \<Rightarrow> (raw, []) | Some p \<Rightarrow> p) of
        (name, reason) \<Rightarrow> JDict [(''name'', JStr (strip name)), (''reason'', JStr (strip reason))])"

text \<open>The line of the fold joins the synced names, which raises on one that is no text.\<close>

definition fold_step :: "environment \<Rightarrow> capture_step" where
  "fold_step en s =
     (case fold_living_spec (en_fold en) (fst s) (snd s) of
        (Raised, s') \<Rightarrow> (Broke, s')
      | (Declined, s') \<Rightarrow> (Noted 0, s')
      | (Wrote, s') \<Rightarrow>
          (case living_items ''synced'' (fst s') of
             Some items \<Rightarrow> (if list_all is_str items then Noted 1 else Broke, s')
           | None \<Rightarrow> (Broke, s')))"

definition capture_steps :: "environment \<Rightarrow> args \<Rightarrow> capture_step list" where
  "capture_steps en a =
     (if given (a_classification a) then [on_feature (set_classification (value_of (a_classification a))) noted] else [])
   @ (if a_set a \<noteq> [] then [on_feature (set_fields (a_set a)) noted] else [])
   @ (if given (a_batch a)
      then [on_feature (\<lambda>st. case apply_batch (value_of (a_batch a)) (a_step a) st of ((r, _), st') \<Rightarrow> (r, st')) noted_if_written]
      else [])
   @ (if a_decisions a \<noteq> [] then [on_feature (append_capture_entries ''decisions'' ''decision'' (a_decisions a) False) noted] else [])
   @ (if a_verified a \<noteq> [] then [on_feature (append_capture_entries ''verified'' ''what'' (a_verified a) False) noted] else [])
   @ (if a_runs a \<noteq> [] then [verify_step en (a_runs a)] else [])
   @ (if a_concerns a \<noteq> [] then [on_feature (append_capture_entries ''concerns'' ''note'' (a_concerns a) False) noted] else [])
   @ (if a_expectations a \<noteq> [] then [on_feature (append_string_list ''expectations'' (a_expectations a)) noted] else [])
   @ (if a_context a \<noteq> [] then [on_feature (append_string_list ''context'' (a_context a)) noted] else [])
   @ (if given (a_cov_req a)
      then [on_feature (upsert_coverage (JStr (value_of (a_cov_req a))) (comma_list (a_cov_tasks a)) (comma_list (a_cov_tests a))
              (case a_cov_title a of None \<Rightarrow> JNull | Some t \<Rightarrow> JStr t)) noted_or_declined]
      else [])
   @ (if given (a_summary a)
      then [on_feature (upsert_step_summary (JStr (a_step a)) (value_of (a_summary a))) noted] else [])
   @ (if a_living a \<noteq> [] then [on_feature (set_living_specs_loaded (a_living a)) noted] else [])
   @ (if a_skips a \<noteq> [] then [on_feature (set_living_specs_skipped (map skip_of (a_skips a))) noted_if_written] else [])
   @ (if a_fold a then [fold_step en] else [])"

text \<open>The steps one after another; an exception ends them, and what was written before it stays.\<close>

fun run_steps :: "capture_step list \<Rightarrow> place_state \<Rightarrow> (nat \<times> nat) option \<times> place_state" where
  "run_steps [] s = (Some (0, 0), s)"
| "run_steps (w # ws) s =
     (case w s of
        (Broke, s1) \<Rightarrow> (None, s1)
      | (Noted n, s1) \<Rightarrow> (case run_steps ws s1 of (r, s2) \<Rightarrow> (map_option (\<lambda>(c, d). (n + c, d)) r, s2))
      | (NotedDecline, s1) \<Rightarrow> (case run_steps ws s1 of (r, s2) \<Rightarrow> (map_option (\<lambda>(c, d). (c, Suc d)) r, s2)))"

subsection \<open>The lifecycle flags\<close>

definition opt_text :: "string option \<Rightarrow> json" where
  "opt_text x = (if given x then JStr (strip (value_of x)) else JNull)"

definition lifecycle_op :: "environment \<Rightarrow> args \<Rightarrow> string option \<Rightarrow> lifecycle_op" where
  "lifecycle_op en a at =
     (if given (a_tasks_file a)
      then SyncTasks (en_tasks en) (case a_status a of None \<Rightarrow> ''implemented'' | Some s \<Rightarrow> s) (a_by a)
      else if a_mark_complete a then MarkComplete (a_by a)
      else if a_finish a then Finish (a_step a) (a_by a) (a_substep a)
      else if a_advance a then Advance (a_step a) (a_by a)
      else if a_materialize a then Materialize (a_by a)
      else if given (a_close_task a)
      then CloseTask (value_of (a_close_task a)) (a_by a) (opt_text (a_did a)) (comma_list (a_files a))
      else if given (a_task a)
      then (if a_append a then TaskAppend (value_of (a_task a)) (a_by a) (opt_text (a_did a)) (comma_list (a_files a))
            else TaskFinish (value_of (a_task a)) (a_by a) (opt_text (a_did a)) (comma_list (a_files a)))
      else UpdateContext (a_step a) (a_status a) (a_by a) (a_kind a) (a_substep a) at)"

definition closes_plan :: "args \<Rightarrow> bool" where
  "closes_plan a \<longleftrightarrow>
     a_step a = ''plan'' \<and> \<not> given (a_substep a) \<and>
     (a_finish a \<or> a_advance a \<or>
      \<not> (a_mark_complete a \<or> a_materialize a \<or> given (a_close_task a) \<or> given (a_task a) \<or> given (a_tasks_file a))
      \<and> a_kind a = ''complete'')"

definition SIDE_FILES :: "string list" where "SIDE_FILES = [''call-paths.md'', ''screens.md'']"

definition record_plan_check :: "environment \<Rightarrow> feature \<Rightarrow> outcome \<times> feature" where
  "record_plan_check en st =
     (case check_files (en_tree en) (map (map_of (md_files st)) (''plan.md'' # SIDE_FILES)) (Some (ctx_file st, tasks_md st)) of
        None \<Rightarrow> (Raised, st)
      | Some r \<Rightarrow> record_plan_report (en_shown en) (en_took en) (en_rendered en r) r st)"

definition run_lifecycle :: "environment \<Rightarrow> args \<Rightarrow> string option \<Rightarrow> feature \<Rightarrow> call_outcome \<times> feature" where
  "run_lifecycle en a at st =
     (case run_op (lifecycle_op en a at) st of
        (Raised, st1) \<Rightarrow> (Failed WriteFailed, st1)
      | (Declined, st1) \<Rightarrow> (Failed WriterDeclined, st1)
      | (Wrote, st1) \<Rightarrow> (Landed, if closes_plan a then snd (record_plan_check en st1) else st1))"

subsection \<open>One invocation\<close>

definition refused_keys :: "args \<Rightarrow> string list" where
  "refused_keys a = filter (\<lambda>k. k \<in> set PROTECTED_SET_KEYS) (map (\<lambda>p. strip (takeWhile (\<lambda>c. c \<noteq> CHR ''='') p)) (a_set a))"

definition other_capture :: "args \<Rightarrow> bool" where
  "other_capture a \<longleftrightarrow> capture_mode a \<or> a_living a \<noteq> [] \<or> a_skips a \<noteq> [] \<or> a_fold a"

definition lifecycle_flag :: "args \<Rightarrow> bool" where
  "lifecycle_flag a \<longleftrightarrow> a_advance a \<or> a_finish a \<or> a_mark_complete a"

definition capture_outcome :: "args \<Rightarrow> nat \<times> nat \<Rightarrow> call_outcome" where
  "capture_outcome a cd =
     (if refused_keys a \<noteq> [] then Failed KeysRefused
      else if 0 < snd cd then Failed PartDeclined
      else if 0 < fst cd then Landed else Failed NothingLanded)"

definition run_flags :: "environment \<Rightarrow> args \<Rightarrow> string option \<Rightarrow> place_state \<Rightarrow> call_outcome \<times> place_state" where
  "run_flags en a at s =
     (case run_steps (capture_steps en a) s of
        (None, s1) \<Rightarrow> (Failed WriteFailed, s1)
      | (Some cd, s1) \<Rightarrow>
          if \<not> (lifecycle_flag a \<and> a_set a \<noteq> [] \<and> \<not> other_capture a)
             \<and> (0 < fst cd \<or> a_set a \<noteq> [] \<or> other_capture a)
          then (capture_outcome a cd, s1)
          else (case run_lifecycle en a at (fst s1) of (r, st) \<Rightarrow> (r, st, snd s1)))"

definition lifecycle_other :: "args \<Rightarrow> bool" where
  "lifecycle_other a \<longleftrightarrow>
     a_advance a \<or> a_finish a \<or> a_materialize a \<or> a_mark_complete a \<or> given (a_tasks_file a) \<or> given (a_task a)
     \<or> given (a_close_task a)"

text \<open>The checks after the directory is known: the exit code 2, or the stamp the writers get.\<close>

definition refusal :: "environment \<Rightarrow> args \<Rightarrow> feature \<Rightarrow> (reason + string option) option" where
  "refusal en a st =
     (case unscoped_specify en a st of
        None \<Rightarrow> None
      | Some True \<Rightarrow> Some (Inl PreviousSpec)
      | Some False \<Rightarrow>
          if given (a_classification a) \<and> parsed_classification (value_of (a_classification a)) = None
          then Some (Inl BadClassification)
          else if given (a_at a) \<and> (a_kind a \<noteq> ''start'' \<or> lifecycle_other a) then Some (Inl StampMisplaced)
          else if given (a_at a) \<and> en_utc en (value_of (a_at a)) = None then Some (Inl StampUnreadable)
          else if given (a_batch a) \<and> parsed_batch (value_of (a_batch a)) = None then Some (Inl BadBatch)
          else Some (Inr (if given (a_at a) then en_utc en (value_of (a_at a)) else a_at a)))"

text \<open>The exit code, the outcome and the state; \<open>None\<close> is an exception that leaves \<open>_main\<close>.\<close>

definition run_command :: "environment \<Rightarrow> args \<Rightarrow> place_state \<Rightarrow> (nat \<times> call_outcome \<times> place_state) option" where
  "run_command en a s =
     (if plain_step_write a \<and> (a_step a = ''done'' \<or> a_step a \<notin> set (en_steps en)) then Some (0, Failed UnknownStep, s)
      else if given (a_tasks_file a) \<and> given (a_feature_dir a) \<and> \<not> en_agree en then Some (0, Failed DirsDisagree, s)
      else if \<not> en_found en then Some (0, Failed Unresolved, s)
      else case refusal en a (fst s) of
          None \<Rightarrow> None
        | Some (Inl why) \<Rightarrow> Some (2, Failed why, s)
        | Some (Inr at) \<Rightarrow> (case run_flags en a at s of (r, s1) \<Rightarrow> Some (0, r, s1)))"

subsection \<open>The trace of an invocation\<close>

definition has_flag :: "string list \<Rightarrow> string \<Rightarrow> bool" where
  "has_flag argv flag \<longleftrightarrow> list_ex (\<lambda>a. a = flag \<or> prefix (flag @ ''='') a) argv"

definition CAPTURE_FLAGS :: "string list" where
  "CAPTURE_FLAGS = [''--batch'', ''--decision'', ''--verified'', ''--concern'', ''--expectation'', ''--context'',
     ''--coverage-req'', ''--step-summary'', ''--classification'', ''--living-specs'', ''--living-spec-skip'']"

definition OP_FLAGS :: "(string \<times> string) list" where
  "OP_FLAGS = [(''--mark-complete'', ''mark-complete''), (''--materialize'', ''materialize''),
     (''--tasks-file'', ''tasks-sync''), (''--fold-living-spec'', ''fold-living-spec''),
     (''--finish'', ''finish''), (''--advance'', ''advance'')]"

definition classify_op :: "string list \<Rightarrow> string" where
  "classify_op argv =
     (if has_flag argv ''--close-task'' then ''task-close''
      else if has_flag argv ''--task'' then (if has_flag argv ''--append'' then ''task-append'' else ''task-journal'')
      else if list_ex (has_flag argv) CAPTURE_FLAGS then ''capture''
      else if has_flag argv ''--set'' then ''set''
      else case find (has_flag argv \<circ> fst) OP_FLAGS of
          Some (_, oper) \<Rightarrow> oper
        | None \<Rightarrow> if has_flag argv ''--step'' \<or> has_flag argv ''--kind'' then ''lifecycle'' else ''unknown'')"

text \<open>\<open>None\<close> when the flag is not there, \<open>Some None\<close> when nothing follows it.\<close>

fun flag_value :: "string list \<Rightarrow> string \<Rightarrow> string option" where
  "flag_value [] flag = None"
| "flag_value (a # rest) flag =
     (if a = flag then (case rest of v # _ \<Rightarrow> Some v | [] \<Rightarrow> None)
      else if prefix (flag @ ''='') a then Some (drop (length flag + 1) a)
      else flag_value rest flag)"

text \<open>
  The call handed to the tracer: \<open>words\<close> states a reason, \<open>target\<close> is the size of the file of the
  operation when it exists, \<open>ms\<close> the duration.
\<close>

definition op_file :: "string \<Rightarrow> string" where
  "op_file oper = (if oper = ''task-append'' then ''.spec-context.events.jsonl'' else ''.spec-context.json'')"

definition traced_call ::
  "(reason option \<Rightarrow> string) \<Rightarrow> string list \<Rightarrow> call_outcome option \<Rightarrow> string option \<Rightarrow> (string \<Rightarrow> int option) \<Rightarrow> int \<Rightarrow> RunTrace.call" where
  "traced_call words argv out spec target ms =
     (let oper = classify_op argv; ok = (out = Some Landed);
          size = (if ok \<and> spec \<noteq> None then target (op_file oper) else None)
      in \<lparr>c_tool = ''write-context'', c_op = oper, c_ok = ok,
          c_reason = (case out of Some Landed \<Rightarrow> None | Some (Failed why) \<Rightarrow> Some (words (Some why)) | None \<Rightarrow> Some (words None)),
          c_spec = spec, c_files = (case size of None \<Rightarrow> [] | Some _ \<Rightarrow> [op_file oper]),
          c_written = (case size of None \<Rightarrow> 0 | Some n \<Rightarrow> n), c_read = int (sum_list (map length argv)), c_ms = ms\<rparr>)"

text \<open>
  The command with its trace: the call is recorded whatever came of it, on the directory that the
  \<open>--feature-dir\<close> of the raw words resolves to.
\<close>

record trace_env =
  tr_root :: string
  tr_is_dir :: "string \<Rightarrow> bool"
  tr_now :: string
  tr_err :: string
  tr_words :: "reason option \<Rightarrow> string"
  tr_place :: "string option \<Rightarrow> place option"
  tr_size :: "string \<Rightarrow> int option"
  tr_ms :: int

definition main_call ::
  "environment \<Rightarrow> trace_env \<Rightarrow> args \<Rightarrow> string list \<Rightarrow> place_state \<times> RunTrace.files \<Rightarrow> nat option \<times> place_state \<times> RunTrace.files" where
  "main_call en tr a argv s =
     (let result = run_command en a (fst s); place = tr_place tr (flag_value argv ''--feature-dir'');
          c = traced_call (tr_words tr) argv (map_option (fst \<circ> snd) result) (map_option snd place) (tr_size tr) (tr_ms tr)
      in (map_option fst result, (case result of None \<Rightarrow> fst s | Some (_, _, s1) \<Rightarrow> s1),
          record_call (tr_root tr) (tr_is_dir tr) (tr_now tr) (tr_err tr) place c (snd s)))"

section \<open>Facts\<close>

subsection \<open>Capture flags leave the lifecycle alone\<close>

definition keeps_lifecycle :: "capture_step \<Rightarrow> bool" where
  "keeps_lifecycle w \<longleftrightarrow> (\<forall>s. lifecycle_same (fst s) (fst (snd (w s))))"

lemma keepsD: "keeps_lifecycle w \<Longrightarrow> w s = (out, s1) \<Longrightarrow> lifecycle_same (fst s) (fst s1)"
  unfolding keeps_lifecycle_def by (metis snd_conv)

lemma keeps_on_feature:
  "(\<And>st. lifecycle_same st (snd (w st))) \<Longrightarrow> keeps_lifecycle (on_feature w out)"
  by (auto simp: keeps_lifecycle_def on_feature_def split: prod.split) (metis snd_conv)

lemma run_steps_lifecycle:
  "list_all keeps_lifecycle ws \<Longrightarrow> lifecycle_same (fst s) (fst (snd (run_steps ws s)))"
proof (induction ws s rule: run_steps.induct)
  case (2 w ws s)
  obtain out s1 where w: "w s = (out, s1)" by (cases "w s")
  have first: "lifecycle_same (fst s) (fst s1)" using 2(3) w by (auto intro: keepsD)
  show ?case
  proof (cases out)
    case Broke
    then show ?thesis using first w by simp
  next
    case (Noted n)
    have "lifecycle_same (fst s1) (fst (snd (run_steps ws s1)))" using 2 w Noted by simp
    then show ?thesis using first w Noted lifecycle_same_trans by (auto split: prod.split)
  next
    case NotedDecline
    have "lifecycle_same (fst s1) (fst (snd (run_steps ws s1)))" using 2 w NotedDecline by simp
    then show ?thesis using first w NotedDecline lifecycle_same_trans by (auto split: prod.split)
  qed
qed simp

lemma verify_keeps: "keeps_lifecycle (verify_step en specs)"
proof -
  have "lifecycle_same st (snd (fst (append_verification_runs run specs st)))" for run st
    using writer_keeps_lifecycle(5) by (auto simp: append_verification_runs_def Let_def split: prod.split)
  then show ?thesis
    by (auto simp: keeps_lifecycle_def verify_step_def split: prod.split) (metis fst_conv snd_conv)
qed

lemma fold_keeps: "keeps_lifecycle (fold_step en)"
proof -
  have "lifecycle_same st (fst (snd (fold_living_spec env st fs)))" for env st fs
    using fold_state [of env st fs] synced_lifecycle note_lifecycle by fastforce
  then show ?thesis
    by (auto simp: keeps_lifecycle_def fold_step_def split: prod.split outcome.split option.split) (metis fst_conv snd_conv)+
qed

lemma batch_keeps: "lifecycle_same st (snd (apply_batch raw step st))"
  using batch_writes_capture is_capture_lifecycle
  by (auto simp: apply_batch_def split: option.split intro!: run_writes_lifecycle)

lemma writer_of_op:
  assumes "plain_field oper" "\<And>st. w st = run_capture oper st"
  shows "keeps_lifecycle (on_feature w out)"
  by (rule keeps_on_feature) (simp add: assms capture_writer_lifecycle)

lemma capture_steps_keep: "list_all keeps_lifecycle (capture_steps en a)"
proof -
  have entries: "keeps_lifecycle (on_feature (append_capture_entries field key raws rep) out)"
    if "field \<notin> set PROTECTED_SET_KEYS" for field key raws rep out
    by (rule writer_of_op [of "Entries field key raws rep"]) (use that in simp_all)
  have strings: "keeps_lifecycle (on_feature (append_string_list field xs) out)"
    if "field \<notin> set PROTECTED_SET_KEYS" for field xs out
    by (rule writer_of_op [of "Strings field xs"]) (use that in simp_all)
  have classify: "keeps_lifecycle (on_feature (set_classification raw) out)" for raw out
    by (rule writer_of_op [of "Classify raw"]) simp_all
  have fields: "keeps_lifecycle (on_feature (set_fields pairs) out)" for pairs out
    by (rule writer_of_op [of "SetFields pairs"]) simp_all
  have coverage: "keeps_lifecycle (on_feature (upsert_coverage req tasks tests title) out)" for req tasks tests title out
    by (rule writer_of_op [of "Coverage req tasks tests title"]) simp_all
  have summary: "keeps_lifecycle (on_feature (upsert_step_summary st raw) out)" for st raw out
    by (rule writer_of_op [of "StepSummary st raw"]) simp_all
  have loaded: "keeps_lifecycle (on_feature (set_living_specs_loaded names) out)" for names out
    by (rule writer_of_op [of "SpecsLoaded names"]) simp_all
  have skipped: "keeps_lifecycle (on_feature (set_living_specs_skipped skips) out)" for skips out
    by (rule writer_of_op [of "SpecsSkipped skips"]) simp_all
  have batch: "keeps_lifecycle (on_feature (\<lambda>st. case apply_batch raw step st of ((r, _), st') \<Rightarrow> (r, st')) out)" for raw step out
  proof (rule keeps_on_feature)
    fix st
    show "lifecycle_same st (snd (case apply_batch raw step st of ((r, _), st') \<Rightarrow> (r, st')))"
      using batch_keeps [of st raw step] by (simp add: case_prod_beta)
  qed
  show ?thesis
    by (simp add: capture_steps_def entries strings classify fields coverage summary loaded skipped batch verify_keeps fold_keeps PROTECTED_SET_KEYS_def)
qed

subsection \<open>Whole invocations\<close>

lemma plan_report_keeps: "lifecycle_same st (snd (record_plan_report shown took rendered r st))"
proof -
  have "lifecycle_same st st2"
    if "append_capture_entries ''verified'' key raws rep st = (r1, st1)" "set_plan_blocks held st1 = (r2, st2)"
    for key raws rep r1 st1 held r2 st2
    using that lifecycle_same_trans writer_keeps_lifecycle(5,6) by (metis snd_conv)
  moreover have "lifecycle_same st st1" if "append_capture_entries ''verified'' key raws rep st = (r1, st1)" for key raws rep r1 st1
    using that writer_keeps_lifecycle(5) by (metis snd_conv)
  ultimately show ?thesis
    using writer_keeps_lifecycle(6)
    by (auto simp: record_plan_report_def Let_def split: prod.split outcome.split)
qed

lemma plan_check_keeps: "lifecycle_same st (snd (record_plan_check en st))"
  by (auto simp: record_plan_check_def plan_report_keeps split: option.split)

lemma run_lifecycle_grows:
  assumes "run_lifecycle en a at st = (out, st')"
  shows "log_grows (log_of st) (log_of st')"
proof -
  obtain r st1 where op: "run_op (lifecycle_op en a at) st = (r, st1)" by (cases "run_op (lifecycle_op en a at) st")
  have grows: "log_grows (log_of st) (log_of st1)" by (rule run_op_grows [OF op])
  have "st' = st1 \<or> st' = snd (record_plan_check en st1)"
    using assms op by (auto simp: run_lifecycle_def split: outcome.splits if_splits)
  then have "log_of st' = log_of st1" using lifecycle_same_log [OF plan_check_keeps] by auto
  then show ?thesis using grows by simp
qed

lemma run_steps_keep: "run_steps (capture_steps en a) s = (r, s1) \<Longrightarrow> lifecycle_same (fst s) (fst s1)"
  using run_steps_lifecycle [OF capture_steps_keep, of s en a] by simp

lemma run_flags_effect:
  assumes "run_flags en a at (st, fs) = (out, st', fs')"
  shows "log_grows (log_of st) (log_of st')" "other_capture a \<Longrightarrow> lifecycle_same st st'"
proof -
  obtain r s1 where steps: "run_steps (capture_steps en a) (st, fs) = (r, s1)"
    by (cases "run_steps (capture_steps en a) (st, fs)")
  have same: "lifecycle_same st (fst s1)" using run_steps_keep [OF steps] by simp
  then have log: "log_of (fst s1) = log_of st" by (simp add: lifecycle_same_log)
  have split: "st' = fst s1 \<or> \<not> other_capture a \<and> (\<exists>out1. run_lifecycle en a at (fst s1) = (out1, st'))"
    using assms steps by (auto simp: run_flags_def split: option.splits if_splits prod.splits)
  show "log_grows (log_of st) (log_of st')"
    using split run_lifecycle_grows [of en a at "fst s1"] log by (auto simp: log_grows_def)
  show "lifecycle_same st st'" if "other_capture a"
    using split that same by auto
qed


definition no_args :: args where
  "no_args = \<lparr>a_step = ''specify'', a_status = None, a_by = ''extension'', a_kind = ''start'', a_at = None, a_substep = None,
     a_feature_dir = Some ''specs/001-a'', a_tasks_file = None, a_task = None, a_append = False, a_materialize = False,
     a_mark_complete = False, a_finish = False, a_advance = False, a_did = None, a_files = None, a_set = [], a_living = [],
     a_skips = [], a_fold = False, a_decisions = [], a_verified = [], a_runs = [], a_concerns = [], a_expectations = [],
     a_context = [], a_cov_req = None, a_cov_tests = None, a_cov_tasks = None, a_cov_title = None, a_summary = None,
     a_batch = None, a_close_task = None, a_classification = None\<rparr>"

definition an_env :: environment where
  "an_env = \<lparr>en_steps = CANONICAL_STEPS, en_agree = True, en_found = True, en_no_pointer_env = True, en_utc = (\<lambda>_. None),
     en_run = (\<lambda>_. (0, [], ''0.1'')), en_tasks = None, en_fold = example_env, en_tree = (\<lambda>_. Absent), en_shown = ''specs/001-a'',
     en_took = JInt 0, en_rendered = (\<lambda>_. [])\<rparr>"

definition deciding_args :: args where
  "deciding_args = no_args\<lparr>a_decisions := [''use a queue''], a_mark_complete := True\<rparr>"

definition decided :: "(nat \<times> call_outcome \<times> place_state) option" where
  "decided = run_command an_env deciding_args (example_dir ''implemented'' ''implement'' [], \<lambda>_. None)"


subsection \<open>Lifecycle flags on a shipped spec\<close>

lemma no_capture_no_steps: "\<not> other_capture a \<Longrightarrow> a_set a = [] \<Longrightarrow> capture_steps en a = []"
  by (auto simp: capture_steps_def other_capture_def capture_mode_def)

text \<open>
  A shipped spec takes no lifecycle flag: without a capture flag an invocation on it changes nothing,
  and the trace is never told that it landed.
\<close>

lemma shipped_takes_no_lifecycle:
  assumes "shipped st" "run_command en a (st, fs) = Some (code, out, st', fs')" "\<not> other_capture a" "a_set a = []"
  shows "out \<noteq> Landed \<and> st' = st \<and> fs' = fs"
proof -
  have "run_flags en a at (st, fs) = (Failed WriterDeclined, st, fs)" for at
    using no_capture_no_steps [OF assms(3,4)] run_op_shipped [OF assms(1)] assms(3,4)
    by (simp add: run_flags_def run_lifecycle_def)
  then show ?thesis using assms(2) by (auto simp: run_command_def split: if_splits option.splits sum.splits)
qed

text \<open>What a lifecycle invocation tells the trace is what its writer returned.\<close>

lemma landed_iff_wrote:
  assumes "run_flags en a at (st, fs) = (out, st', fs')" "\<not> other_capture a" "a_set a = []"
  shows "out = Landed \<longleftrightarrow> fst (run_op (lifecycle_op en a at) st) = Wrote"
  using assms no_capture_no_steps [OF assms(2,3), of en]
  by (auto simp: run_flags_def run_lifecycle_def split: prod.splits outcome.splits)

subsection \<open>What the trace does not see\<close>

text \<open>
  A capture whose writer declined is told to the trace as landed: of the list writers only the
  coverage, the skips, the batch and the fold look at what the writer returned.
\<close>

lemma empty_decision_counts_as_landed:
  "run_command an_env (no_args\<lparr>a_decisions := ['' '']\<rparr>) (example_dir ''planning'' ''plan'' [], \<lambda>_. None) =
   Some (0, Landed, example_dir ''planning'' ''plan'' [], \<lambda>_. None)"
proof -
  have steps: "capture_steps an_env (no_args\<lparr>a_decisions := ['' '']\<rparr>) =
      [on_feature (append_capture_entries ''decisions'' ''decision'' ['' ''] False) noted]"
    by (simp add: capture_steps_def no_args_def given_def)
  have declined: "append_capture_entries ''decisions'' ''decision'' ['' ''] False st = (Declined, st)" for st
    by (simp add: append_capture_entries_def List.map_filter_simps coerce_entry_def strip_def lstrip_def rstrip_def
        rstrip_chars_def is_space_def space_chars_def)
  have "refusal an_env (no_args\<lparr>a_decisions := ['' '']\<rparr>) st = Some (Inr None)" for st
    by (simp add: refusal_def unscoped_specify_def pointer_resolved_def no_args_def given_def)
  then show ?thesis
    by (simp add: run_command_def run_flags_def steps declined on_feature_def plain_step_write_def capture_mode_def
        other_capture_def capture_outcome_def refused_keys_def)
       (simp add: an_env_def no_args_def lifecycle_flag_def given_def)
qed

text \<open>
  \<open>--set\<close> may ride with a lifecycle flag, and then both run, but the trace files the invocation under
  \<open>set\<close>: a completion that was refused in such a call is no completion attempt for the doctor.
\<close>

definition completing_words :: "string list" where
  "completing_words = [''--mark-complete'', ''--set'', ''workflow=companion'']"

lemma riding_set_hides_completion:
  "c_op (traced_call words completing_words out spec target ms) = ''set'' \<and>
   \<not> is_completion (as_dict (trace_event_of now (traced_call words completing_words out spec target ms)))"
proof -
  have "classify_op completing_words = ''set''" by code_simp
  then show ?thesis
    by (simp add: traced_call_def Let_def is_completion_def as_dict_def trace_event_of_def OPS_def jget_def)
qed

text \<open>The same with the flag alone is one, with the reason of the refusal.\<close>

lemma plain_completion_is_seen:
  "is_completion (as_dict (trace_event_of now (traced_call words [''--mark-complete''] out spec target ms)))"
proof -
  have "classify_op [''--mark-complete''] = ''mark-complete''" by code_simp
  then show ?thesis
    by (simp add: traced_call_def Let_def is_completion_def as_dict_def trace_event_of_def OPS_def jget_def)
qed

text \<open>A task flag beside a capture flag does not run, and the trace files the call under the task.\<close>

lemma capture_filed_under_task:
  "classify_op [''--close-task'', ''T001'', ''--decision'', ''d''] = ''task-close''"
  by code_simp

text \<open>A verification that is run is no capture for the trace.\<close>

lemma verify_run_is_unknown: "classify_op [''--verify-run'', ''tests::pytest''] = ''unknown''"
  by code_simp

end
