(* ===== verification/FeatureDir.thy ===== *)
theory FeatureDir
  imports Store
begin

text \<open>
  Which feature directory a command is about (\<open>resolve_feature_dir\<close> of \<open>spec_context.py\<close>): the flag, the two
  environment variables, the pointer \<open>.specify/feature.json\<close>, and the branch, matched by its number.
  The directories, the text of the pointer and the answer of git are arguments; a path is its text.
\<close>

subsection \<open>Paths\<close>

definition joined :: "string \<Rightarrow> string \<Rightarrow> string" where
  "joined root p = (if prefix ''/'' p then p else root @ ''/'' @ p)"

definition parent_of :: "string \<Rightarrow> string" where
  "parent_of p = rev (drop 1 (dropWhile (\<lambda>c. c \<noteq> CHR ''/'') (rev p)))"

definition feature_dir_from_tasks_file :: "string \<Rightarrow> string \<Rightarrow> string" where
  "feature_dir_from_tasks_file root tasks_file = parent_of (joined root tasks_file)"

subsection \<open>Matching by number\<close>

text \<open>\<open>^(\d+)-\<close>, as a number: \<open>007-x\<close> and \<open>7-y\<close> have the same.\<close>

definition number_of :: "string \<Rightarrow> int option" where
  "number_of name =
     (let ds = takeWhile is_decimal name
      in if ds \<noteq> [] \<and> prefix ''-'' (drop (length ds) name) then Some (decimal_value ds) else None)"

definition same_number :: "string \<Rightarrow> string list \<Rightarrow> string list" where
  "same_number name children = filter (\<lambda>c. number_of c \<noteq> None \<and> number_of c = number_of name) (sort children)"

text \<open>\<open>children\<close> are the directories in \<open>specs\<close>; two with the number are ambiguous and match nothing.\<close>

definition match_by_prefix :: "(string \<Rightarrow> bool) \<Rightarrow> string list \<Rightarrow> string \<Rightarrow> string \<Rightarrow> string option" where
  "match_by_prefix is_dir children specs name =
     (if is_dir (joined specs name) then Some (joined specs name)
      else if number_of name = None then None
      else case same_number name children of [c] \<Rightarrow> Some (joined specs c) | _ \<Rightarrow> None)"

subsection \<open>The resolution\<close>

record surroundings =
  sr_is_dir :: "string \<Rightarrow> bool"
  sr_children :: "string list"
  sr_env_dir :: "string option"
  sr_env_feature :: "string option"
  sr_pointer :: "string option"
  sr_branch :: "string option"

datatype pointed = Raises | Nowhere | Points string

text \<open>What the pointer says: a document that is no object, or a path that is no text, raises.\<close>

definition pointed_dir :: "surroundings \<Rightarrow> string \<Rightarrow> pointed" where
  "pointed_dir sr root =
     (case sr_pointer sr of
        None \<Rightarrow> Nowhere
      | Some content \<Rightarrow>
          (case json_loads content of
             None \<Rightarrow> Nowhere
           | Some (JDict d) \<Rightarrow>
               (let fd = (if truthy (jget d ''feature_directory'') then jget d ''feature_directory'' else jget d ''FEATURE_DIR'')
                in if \<not> truthy fd then Nowhere
                   else case fd of
                       JStr p \<Rightarrow> if sr_is_dir sr (joined root p) then Points (joined root p) else Nowhere
                     | _ \<Rightarrow> Raises)
           | Some _ \<Rightarrow> Raises))"

definition named_by :: "surroundings \<Rightarrow> string \<Rightarrow> string option \<Rightarrow> string option" where
  "named_by sr root name =
     (case name of
        Some (c # cs) \<Rightarrow> match_by_prefix (sr_is_dir sr) (sr_children sr) (joined root ''specs'') (c # cs)
      | _ \<Rightarrow> None)"

text \<open>\<open>None\<close> is an exception, \<open>Some None\<close> no directory.\<close>

definition resolve_feature_dir :: "surroundings \<Rightarrow> string \<Rightarrow> string option \<Rightarrow> string option option" where
  "resolve_feature_dir sr root explicit =
     (case explicit of
        Some (c # cs) \<Rightarrow> Some (Some (joined root (c # cs)))
      | _ \<Rightarrow>
          (case sr_env_dir sr of
             Some (c # cs) \<Rightarrow> Some (Some (joined root (c # cs)))
           | _ \<Rightarrow>
               (case named_by sr root (sr_env_feature sr) of
                  Some hit \<Rightarrow> Some (Some hit)
                | None \<Rightarrow>
                    (case pointed_dir sr root of
                       Raises \<Rightarrow> None
                     | Points d \<Rightarrow> Some (Some d)
                     | Nowhere \<Rightarrow> Some (named_by sr root (sr_branch sr))))))"

section \<open>Facts\<close>

lemma match_is_dir:
  assumes "match_by_prefix is_dir children specs name = Some d" "\<forall>c \<in> set children. is_dir (joined specs c)"
  shows "is_dir d"
proof (cases "is_dir (joined specs name)")
  case True
  then show ?thesis using assms(1) by (simp add: match_by_prefix_def)
next
  case False
  then obtain c where c: "same_number name children = [c]" "d = joined specs c"
    using assms(1) by (auto simp: match_by_prefix_def split: if_splits list.splits)
  have "c \<in> set (same_number name children)" by (simp add: c(1))
  then show ?thesis using assms(2) c(2) by (auto simp: same_number_def)
qed

text \<open>A number that two directories share resolves to neither of them.\<close>

lemma shared_number_matches_nothing:
  assumes "a \<in> set children" "b \<in> set children" "a \<noteq> b" "number_of a = number_of name" "number_of b = number_of name"
    and "\<not> is_dir (joined specs name)"
  shows "match_by_prefix is_dir children specs name = None"
proof -
  have "a \<in> set (same_number name children) \<and> b \<in> set (same_number name children)" if "number_of name \<noteq> None"
    using assms that by (auto simp: same_number_def)
  then show ?thesis
    using assms(3,6) by (cases "number_of name = None") (auto simp: match_by_prefix_def split: list.split)
qed

text \<open>
  A directory that was not named outright exists: without the flag and the variable that hold a path,
  whatever is resolved is a directory, either the one the pointer names or one matched by name or by
  number, and the branch is asked only when the pointer leads nowhere.
\<close>

theorem resolved_dir_exists:
  assumes "resolve_feature_dir sr root None = Some (Some d)" "sr_env_dir sr = None"
    and "\<forall>c \<in> set (sr_children sr). sr_is_dir sr (joined (joined root ''specs'') c)"
  shows "sr_is_dir sr d \<and>
    (named_by sr root (sr_env_feature sr) = Some d \<or>
     named_by sr root (sr_env_feature sr) = None \<and>
       (pointed_dir sr root = Points d \<or> pointed_dir sr root = Nowhere \<and> named_by sr root (sr_branch sr) = Some d))"
proof -
  have names: "sr_is_dir sr d" if "named_by sr root name = Some d" for name
    using that match_is_dir [OF _ assms(3)] by (auto simp: named_by_def split: option.splits list.splits)
  have points: "sr_is_dir sr d" if "pointed_dir sr root = Points d"
    using that by (auto simp: pointed_dir_def Let_def split: option.splits json.splits if_splits)
  show ?thesis
    using assms(1,2) names points
    by (auto simp: resolve_feature_dir_def split: option.splits pointed.splits)
qed

definition two_specs :: surroundings where
  "two_specs = \<lparr>sr_is_dir = (\<lambda>p. p \<in> {''/r/specs/007-pay'', ''/r/specs/8-ship''}), sr_children = [''007-pay'', ''8-ship''],
     sr_env_dir = None, sr_env_feature = None,
     sr_pointer = Some ''{}'', sr_branch = Some ''7-payments''\<rparr>"

theorem resolved_dir_exists_witness:
  "resolve_feature_dir two_specs ''/r'' None = Some (Some ''/r/specs/007-pay'') \<and>
   named_by two_specs ''/r'' (sr_branch two_specs) = Some ''/r/specs/007-pay''"
proof -
  have run: "resolve_feature_dir two_specs ''/r'' None = Some (Some ''/r/specs/007-pay'')" by code_simp
  have none: "pointed_dir two_specs ''/r'' = Nowhere" by code_simp
  have env: "sr_env_dir two_specs = None" "named_by two_specs ''/r'' (sr_env_feature two_specs) = None"
      "\<forall>c \<in> set (sr_children two_specs). sr_is_dir two_specs (joined (joined ''/r'' ''specs'') c)"
    by (simp_all add: two_specs_def named_by_def joined_def)
  show ?thesis
    using resolved_dir_exists [OF run env(1,3)] none env(2) run by auto
qed

text \<open>The resolution is said never to raise; a pointer file that holds a list makes it raise.\<close>

lemma listed_pointer_raises:
  "resolve_feature_dir (two_specs\<lparr>sr_pointer := Some ''[]''\<rparr>) ''/r'' None = None"
  by code_simp

end
