(* ===== verification/DriftTrace.thy ===== *)
theory DriftTrace
  imports Drift RunTrace
begin

text \<open>
  What surrounds the computation of \<open>drift.py\<close>: the answers of git as the commands it runs, the files a
  feature changed (\<open>_git_changed_files\<close> of \<open>living_spec_fold.py\<close>), and the trace every evaluation leaves: its
  event in the run trace and, behind it, the verdict itself.
\<close>

subsection \<open>The commands\<close>

text \<open>A run of git: whether it succeeded, and its standard output.\<close>

type_synonym git_run = "string list \<Rightarrow> bool \<times> string"

datatype file_read = Missing | Unreadable_file | Contents string

definition ok_output :: "bool \<times> string \<Rightarrow> string option" where
  "ok_output r = (if fst r then Some (snd r) else None)"

definition shallow_boundaries :: "string \<Rightarrow> git_run \<Rightarrow> (string \<Rightarrow> file_read) \<Rightarrow> string list option" where
  "shallow_boundaries root run read_at =
     (case ok_output (run [''rev-parse'', ''--git-path'', ''shallow'']) of
        None \<Rightarrow> None
      | Some out \<Rightarrow>
          if strip out = [] then None
          else case read_at (if prefix ''/'' (strip out) then strip out else root @ ''/'' @ strip out) of
              Contents t \<Rightarrow> Some (filter (\<lambda>l. l \<noteq> []) (map strip (split_on (CHR 0x0A) (unix_newlines t))))
            | Missing \<Rightarrow> Some []
            | Unreadable_file \<Rightarrow> None)"

definition pathspec_args :: "string option \<Rightarrow> string list" where
  "pathspec_args p = (case p of None \<Rightarrow> [] | Some s \<Rightarrow> [''--'', s])"

definition git_of :: "string \<Rightarrow> git_run \<Rightarrow> (string \<Rightarrow> file_read) \<Rightarrow> git" where
  "git_of root run read_at =
     \<lparr>inside_work_tree = ok_output (run [''rev-parse'', ''--is-inside-work-tree'']),
      shallow_file = shallow_boundaries root run read_at,
      verify_head = fst (run [''rev-parse'', ''--verify'', ''--quiet'', ''HEAD'']),
      last_commit = (\<lambda>spec. ok_output (run [''log'', ''-n'', ''1'', ''--format=%H'', ''--'', spec])),
      diff_names = (\<lambda>working commit pathspec.
        ok_output (run ([''diff'', ''--name-only'', (if working then commit else commit @ ''..HEAD'')] @ pathspec_args pathspec))),
      untracked_names = (\<lambda>pathspec.
        ok_output (run ([''ls-files'', ''--others'', ''--exclude-standard''] @ pathspec_args pathspec))),
      merge_base = (\<lambda>ref. snd (run [''merge-base'', ref, ''HEAD'']))\<rparr>"

subsection \<open>The files of a feature\<close>

definition BASES :: "string list" where
  "BASES = [''origin/main'', ''main'', ''origin/master'', ''master'']"

definition merge_base_with :: "git_run \<Rightarrow> string \<Rightarrow> string option" where
  "merge_base_with run base =
     (case ok_output (run [''merge-base'', base, ''HEAD'']) of
        None \<Rightarrow> None | Some out \<Rightarrow> if strip out = [] then None else Some (strip out))"

text \<open>\<open>str(PurePosixPath(f).parent)\<close> of a path as git prints it.\<close>

definition pure_parent :: "string \<Rightarrow> string" where
  "pure_parent f = (if parent_dir f = [] then ''.'' else parent_dir f)"

definition changed_dirs :: "string \<Rightarrow> string list" where
  "changed_dirs out =
     (let ds = remdups (sort (map pure_parent (filter (\<lambda>x. strip x \<noteq> []) (splitlines out))))
      in if ds = [] then [''.''] else ds)"

definition git_changed_files :: "git_run \<Rightarrow> string list" where
  "git_changed_files run =
     (case find (\<lambda>b. merge_base_with run b \<noteq> None) BASES of
        None \<Rightarrow> []
      | Some base \<Rightarrow>
          (case ok_output (run [''diff'', ''--name-only'', the (merge_base_with run base)]) of
             None \<Rightarrow> []
           | Some out \<Rightarrow>
               (case ok_output (run ([''ls-files'', ''--others'', ''--exclude-standard'', ''--''] @ changed_dirs out)) of
                  None \<Rightarrow> []
                | Some added \<Rightarrow> filter (\<lambda>f. f \<noteq> []) (map strip (splitlines (out @ added))))))"

subsection \<open>The verdict\<close>

definition drifted_names :: "drift_report \<Rightarrow> string list" where
  "drifted_names r = map d_name (filter (\<lambda>c. \<not> d_in_sync c) (dr_capabilities r))"

definition drifted_files :: "drift_report \<Rightarrow> string list" where
  "drifted_files r = remdups (sort (concat (map (\<lambda>c. map snd (d_drifted c)) (dr_capabilities r))))"

definition verdict_of :: "drift_report \<Rightarrow> jdict" where
  "verdict_of r =
     [(''working'', JBool (dr_working r)), (''checked'', JInt (int (dr_checked r))),
      (''drifted'', JList (map JStr (drifted_names r))), (''skipped'', JList (map (JStr \<circ> fst) (dr_skipped r)))]"

definition verdict_entry :: "string \<Rightarrow> drift_report \<Rightarrow> jdict" where
  "verdict_entry now r = [(''at'', JStr now), (''tool'', JStr ''drift''), (''verdict'', JDict (verdict_of r))]"

subsection \<open>Tracing an evaluation\<close>

text \<open>The event: \<open>why\<close> is the text of the exception of an evaluation that raised.\<close>

definition evaluation_call :: "living \<Rightarrow> string \<Rightarrow> int \<Rightarrow> drift_report option \<Rightarrow> call" where
  "evaluation_call l why ms result =
     \<lparr>c_tool = ''drift'', c_op = ''drift-compute'', c_ok = (result \<noteq> None),
      c_reason = (case result of None \<Rightarrow> Some (strip why) | Some _ \<Rightarrow> None), c_spec = None,
      c_files = (case result of None \<Rightarrow> [] | Some r \<Rightarrow> drifted_files r), c_written = 0,
      c_read = int (length (capabilities l)), c_ms = ms\<rparr>"

text \<open>The directory of the verdict is under the root that was examined; a write that is refused is given up.\<close>

definition record_verdict :: "string \<Rightarrow> (string \<Rightarrow> bool) \<Rightarrow> string \<Rightarrow> drift_report \<Rightarrow> RunTrace.files \<Rightarrow> RunTrace.files" where
  "record_verdict root is_dir now r fs =
     (if \<not> is_dir (under root UNATTRIBUTED_DIR) then fs
      else let path = trace_path (root, UNATTRIBUTED_DIR);
               fs1 = ensure_ignored (dir_of (root, UNATTRIBUTED_DIR)) fs
           in put path (old_text fs1 path @ json_compact (JDict (verdict_entry now r)) @ nl) fs1)"

text \<open>What is known around an evaluation: the repository of the shell, the directories, the clock.\<close>

record trace_place =
  tp_home :: string
  tp_is_dir :: "string \<Rightarrow> bool"
  tp_event_at :: string
  tp_verdict_at :: string
  tp_why :: string
  tp_err :: string
  tp_ms :: int

definition trace_drift ::
  "trace_place \<Rightarrow> string \<Rightarrow> living \<Rightarrow> drift_report option \<Rightarrow> RunTrace.files \<Rightarrow> RunTrace.files" where
  "trace_drift tp root l result fs =
     (let fs1 = record_call (tp_home tp) (tp_is_dir tp) (tp_event_at tp) (tp_err tp) None
                  (evaluation_call l (tp_why tp) (tp_ms tp) result) fs
      in case result of None \<Rightarrow> fs1 | Some r \<Rightarrow> record_verdict root (tp_is_dir tp) (tp_verdict_at tp) r fs1)"

definition traced_drift ::
  "trace_place \<Rightarrow> string \<Rightarrow> Registry.files \<Rightarrow> git \<Rightarrow> living \<Rightarrow> bool \<Rightarrow> string option \<Rightarrow> RunTrace.files
    \<Rightarrow> drift_report option \<times> RunTrace.files" where
  "traced_drift tp root fs g l working since tfs =
     (let result = compute_drift fs g l working since in (result, trace_drift tp root l result tfs))"

section \<open>Facts\<close>

subsection \<open>The entries of an evaluation\<close>

record evaluation =
  ev_place :: trace_place
  ev_project :: Registry.files
  ev_git :: git
  ev_living :: living
  ev_working :: bool
  ev_since :: "string option"

definition result_of :: "evaluation \<Rightarrow> drift_report option" where
  "result_of e = compute_drift (ev_project e) (ev_git e) (ev_living e) (ev_working e) (ev_since e)"

definition event_of :: "evaluation \<Rightarrow> trace_event" where
  "event_of e = trace_event_of (tp_event_at (ev_place e))
     (evaluation_call (ev_living e) (tp_why (ev_place e)) (tp_ms (ev_place e)) (result_of e))"

definition verdict_entry_of :: "evaluation \<Rightarrow> jdict list" where
  "verdict_entry_of e = (case result_of e of None \<Rightarrow> [] | Some r \<Rightarrow> [verdict_entry (tp_verdict_at (ev_place e)) r])"

definition entries_of :: "evaluation \<Rightarrow> jdict list" where
  "entries_of e = as_dict (event_of e) # verdict_entry_of e"

definition run_evaluation :: "string \<Rightarrow> evaluation \<Rightarrow> RunTrace.files \<Rightarrow> RunTrace.files" where
  "run_evaluation root e tfs =
     snd (traced_drift (ev_place e) root (ev_project e) (ev_git e) (ev_living e) (ev_working e) (ev_since e) tfs)"

text \<open>An evaluation from a shell in the repository it examines, whose directory of specs is there.\<close>

definition at_home :: "string \<Rightarrow> evaluation \<Rightarrow> bool" where
  "at_home root e \<longleftrightarrow> tp_home (ev_place e) = root \<and> tp_is_dir (ev_place e) (under root UNATTRIBUTED_DIR)"

lemma plain_texts: "plain_list (map (JStr \<circ> f) xs)"
  by (induction xs) auto

lemma sound_verdict: "one_line_json (JDict (verdict_entry now r)) \<Longrightarrow> sound_entry (verdict_entry now r)"
  by (simp add: sound_entry_def verdict_entry_def verdict_of_def has_key_def plain_strings plain_texts
      del: one_line_json.simps)

lemma sound_entries:
  "\<forall>d \<in> set (entries_of e). one_line_json (JDict d) \<Longrightarrow> list_all sound_entry (entries_of e)"
  by (auto simp: entries_of_def verdict_entry_of_def sound_event sound_verdict simp del: one_line_json.simps
      split: option.split)

abbreviation home_trace :: "string \<Rightarrow> string" where
  "home_trace root \<equiv> trace_path (root, UNATTRIBUTED_DIR)"

lemma run_evaluation_def':
  assumes "at_home root e"
  shows "run_evaluation root e tfs =
    (let tfs1 = trace_call (tp_event_at (ev_place e)) (tp_err (ev_place e)) (root, UNATTRIBUTED_DIR)
                  (evaluation_call (ev_living e) (tp_why (ev_place e)) (tp_ms (ev_place e)) (result_of e)) tfs
     in case result_of e of None \<Rightarrow> tfs1
        | Some r \<Rightarrow> record_verdict root (tp_is_dir (ev_place e)) (tp_verdict_at (ev_place e)) r tfs1)"
  using assms by (simp add: run_evaluation_def traced_drift_def trace_drift_def record_call_def at_home_def result_of_def Let_def)

lemma refuses_evaluation: "refuses (run_evaluation root e tfs) = refuses tfs"
  by (simp add: run_evaluation_def traced_drift_def trace_drift_def record_call_def record_verdict_def Let_def
      split: option.split)

lemma run_evaluation_text:
  assumes "at_home root e" "\<not> refuses tfs (home_trace root)" "old_text tfs (home_trace root) = log_text h ds"
    and "list_all sound_entry (ds @ entries_of e)"
  shows "\<exists>h' k. k \<le> Suc (length ds) \<and>
    text_of (run_evaluation root e tfs) (home_trace root) = Some (log_text h' (drop k (ds @ entries_of e))) \<and>
    (case h' of None \<Rightarrow> 0 | Some n \<Rightarrow> n) = (case h of None \<Rightarrow> 0 | Some n \<Rightarrow> n) + int k"
proof -
  have sound: "list_all sound_entry (ds @ [as_dict (event_of e)])" using assms(4) by (simp add: entries_of_def)
  obtain h' k where k: "k \<le> length (ds @ [as_dict (event_of e)])"
      "enforce_cap (log_text h (ds @ [as_dict (event_of e)])) = Some (log_text h' (drop k (ds @ [as_dict (event_of e)])))"
      "(case h' of None \<Rightarrow> 0 | Some n \<Rightarrow> n) = (case h of None \<Rightarrow> 0 | Some n \<Rightarrow> n) + int k"
    using enforce_cap_log [OF sound, of h] by blast
  define tfs1 where "tfs1 = trace_call (tp_event_at (ev_place e)) (tp_err (ev_place e)) (root, UNATTRIBUTED_DIR)
      (evaluation_call (ev_living e) (tp_why (ev_place e)) (tp_ms (ev_place e)) (result_of e)) tfs"
  have traced: "text_of tfs1 (home_trace root) = Some (log_text h' (drop k (ds @ [as_dict (event_of e)])))"
    unfolding tfs1_def
    by (rule trace_call_text [OF assms(2)])
       (use k(2) assms(3) log_text_snoc in \<open>simp add: event_line_def event_of_def del: json_compact.simps\<close>)
  have "ds @ entries_of e = (ds @ [as_dict (event_of e)]) @ verdict_entry_of e" by (simp add: entries_of_def)
  then have kept: "drop k (ds @ entries_of e) = drop k (ds @ [as_dict (event_of e)]) @ verdict_entry_of e"
    using k(1) by (simp only: drop_append [of k "ds @ [as_dict (event_of e)]"] diff_is_0_eq' drop_0)
  have run: "run_evaluation root e tfs = (case result_of e of None \<Rightarrow> tfs1
      | Some r \<Rightarrow> record_verdict root (tp_is_dir (ev_place e)) (tp_verdict_at (ev_place e)) r tfs1)"
    unfolding tfs1_def by (simp only: run_evaluation_def' [OF assms(1)] Let_def)
  have refused: "refuses tfs1 = refuses tfs" by (simp add: tfs1_def)
  have old: "old_text (ensure_ignored (dir_of (root, UNATTRIBUTED_DIR)) tfs1) (home_trace root) =
      log_text h' (drop k (ds @ [as_dict (event_of e)]))"
    using traced by (simp only: old_text_trace) (simp only: old_text_def option.case)
  have "text_of (run_evaluation root e tfs) (home_trace root) =
      Some (log_text h' (drop k (ds @ [as_dict (event_of e)]) @ verdict_entry_of e))"
  proof (cases "result_of e")
    case None
    then show ?thesis using traced by (simp add: run verdict_entry_of_def)
  next
    case (Some r)
    have "text_of (record_verdict root (tp_is_dir (ev_place e)) (tp_verdict_at (ev_place e)) r tfs1) (home_trace root) =
        Some (log_text h' (drop k (ds @ [as_dict (event_of e)])) @ entry_line (verdict_entry (tp_verdict_at (ev_place e)) r))"
      using assms(1,2) old refused
      by (simp add: record_verdict_def at_home_def Let_def text_of_put del: json_compact.simps drop_append)
    then show ?thesis
      using Some by (simp add: run verdict_entry_of_def log_text_snoc del: json_compact.simps drop_append)
  qed
  then show ?thesis
    using k(1,3) by (intro exI [of _ h'] exI [of _ k]) (simp add: kept del: drop_append)
qed

definition run_evaluations :: "string \<Rightarrow> evaluation list \<Rightarrow> RunTrace.files \<Rightarrow> RunTrace.files" where
  "run_evaluations root es tfs = fold (run_evaluation root) es tfs"

lemma run_evaluations_text:
  assumes "list_all (at_home root) es" "\<not> refuses tfs (home_trace root)" "old_text tfs (home_trace root) = log_text h ds"
    and "list_all sound_entry (ds @ concat (map entries_of es))" "es \<noteq> []"
  shows "\<exists>h' k. k \<le> length (ds @ concat (map entries_of es)) - length (verdict_entry_of (last es)) \<and>
    text_of (run_evaluations root es tfs) (home_trace root) =
      Some (log_text h' (drop k (ds @ concat (map entries_of es)))) \<and>
    (case h' of None \<Rightarrow> 0 | Some n \<Rightarrow> n) = (case h of None \<Rightarrow> 0 | Some n \<Rightarrow> n) + int k"
  using assms
proof (induction es arbitrary: h ds tfs)
  case (Cons e es)
  define tfs' where "tfs' = run_evaluation root e tfs"
  have "list_all sound_entry (ds @ entries_of e)" using Cons.prems(4) by simp
  then obtain h1 k1 where k1: "k1 \<le> Suc (length ds)"
      "text_of tfs' (home_trace root) = Some (log_text h1 (drop k1 (ds @ entries_of e)))"
      "(case h1 of None \<Rightarrow> 0 | Some n \<Rightarrow> n) = (case h of None \<Rightarrow> 0 | Some n \<Rightarrow> n) + int k1"
    using run_evaluation_text [of root e tfs h ds] Cons.prems(1-3) by (auto simp: tfs'_def)
  define every where "every = ds @ concat (map entries_of (e # es))"
  have all: "every = (ds @ entries_of e) @ concat (map entries_of es)" by (simp add: every_def)
  have within: "k1 \<le> length (ds @ entries_of e)" using k1(1) by (simp add: entries_of_def)
  have tail: "drop k1 (ds @ entries_of e) @ concat (map entries_of es) = drop k1 every"
    using within by (simp only: all drop_append [of k1 "ds @ entries_of e"] diff_is_0_eq' drop_0)
  show ?case
  proof (cases "es = []")
    case True
    then have "every = ds @ entries_of e" by (simp add: every_def)
    moreover have "length (ds @ entries_of e) - length (verdict_entry_of e) = Suc (length ds)"
      by (simp add: entries_of_def)
    ultimately show ?thesis
      using k1 True by (intro exI [of _ h1] exI [of _ k1])
        (simp add: run_evaluations_def tfs'_def every_def [symmetric] del: drop_append)
  next
    case False
    have "list_all sound_entry (drop k1 (ds @ entries_of e) @ concat (map entries_of es))"
      using Cons.prems(4) unfolding tail every_def by (auto simp: list_all_iff dest: in_set_dropD)
    then obtain h' k where k: "k \<le> length (drop k1 every) - length (verdict_entry_of (last es))"
        "text_of (run_evaluations root es tfs') (home_trace root) = Some (log_text h' (drop k (drop k1 every)))"
        "(case h' of None \<Rightarrow> 0 | Some n \<Rightarrow> n) = (case h1 of None \<Rightarrow> 0 | Some n \<Rightarrow> n) + int k"
      using Cons.IH [of tfs' h1 "drop k1 (ds @ entries_of e)"] Cons.prems(1,2) k1(2) False
      by (auto simp: old_text_def tfs'_def refuses_evaluation tail simp del: drop_append)
    have "length (verdict_entry_of (last es)) \<le> length (concat (map entries_of es))"
      using False by (cases es rule: rev_cases) (auto simp: entries_of_def)
    then have "length (verdict_entry_of (last es)) + k1 \<le> length every"
      using within by (simp only: all length_append)
    then have "k1 + k \<le> length every - length (verdict_entry_of (last es))" using k(1) by simp
    moreover have "drop k (drop k1 every) = drop (k1 + k) every" by (simp add: add.commute)
    ultimately show ?thesis
      using k(2,3) k1(3) False unfolding every_def [symmetric]
      by (intro exI [of _ h'] exI [of _ "k1 + k"]) (simp add: run_evaluations_def tfs'_def)
  qed
qed simp


definition idle_git :: git where
  "idle_git = git_of ''/r'' (\<lambda>args. if args = [''rev-parse'', ''--is-inside-work-tree''] then (True, ''true'') else (False, []))
     (\<lambda>_. Missing)"

definition one_living :: living where
  "one_living = fst (resolve_living_specs (\<lambda>p. if p = ''living-specs.yml''
     then Some (join nl [''enabled: true'', ''capabilities:'', ''- name: app'', ''  match: [src/**]'', ''  spec: app.spec.md'']) else None))"

definition an_evaluation :: "string \<Rightarrow> evaluation" where
  "an_evaluation home = \<lparr>ev_place = \<lparr>tp_home = home, tp_is_dir = (\<lambda>_. True), tp_event_at = ''1'', tp_verdict_at = ''2'',
     tp_why = [], tp_err = [], tp_ms = 3\<rparr>, ev_project = (\<lambda>_. None), ev_git = idle_git, ev_living = one_living,
     ev_working = False, ev_since = None\<rparr>"

definition unread_report :: drift_report where
  "unread_report = \<lparr>dr_enabled = True, dr_working = False, dr_checked = 0, dr_capabilities = [],
     dr_skipped = [(''app'', SkipUnreadable)]\<rparr>"

lemma an_evaluation_result: "result_of (an_evaluation home) = Some unread_report"
proof -
  have "compute_drift (\<lambda>_. None) idle_git one_living False None = Some unread_report" by code_simp
  then show ?thesis by (simp add: result_of_def an_evaluation_def)
qed


text \<open>
  Away from home the two halves are parted: an evaluation of another root leaves its event in the
  repository of the shell, and the trace of the root gets the verdict alone.
\<close>

lemma verdict_parted_from_event:
  "text_of (run_evaluation ''/r'' (an_evaluation ''/home'') no_files) (home_trace ''/r'') =
   Some (entry_line (verdict_entry ''2'' unread_report))"
proof -
  let ?e = "an_evaluation ''/home''"
  define tfs1 where "tfs1 = trace_call ''1'' [] (''/home'', UNATTRIBUTED_DIR) (evaluation_call one_living [] 3 (Some unread_report)) no_files"
  have elsewhere: "home_trace ''/r'' \<notin> trace_files (''/home'', UNATTRIBUTED_DIR)"
    by (simp add: trace_files_def under_def dir_of_def UNATTRIBUTED_DIR_def)
  have "text_of tfs1 (home_trace ''/r'') = None"
    unfolding tfs1_def by (subst trace_call_touches_only_its_files)
      (simp only: override_on_apply_notin [OF elsewhere], simp add: no_files_def)
  then have old: "old_text (ensure_ignored (dir_of (''/r'', UNATTRIBUTED_DIR)) tfs1) (home_trace ''/r'') = []"
    by (simp only: old_text_trace) (simp add: old_text_def)
  have run: "run_evaluation ''/r'' ?e no_files = record_verdict ''/r'' (\<lambda>_. True) ''2'' unread_report tfs1"
    using an_evaluation_result [of "''/home''"]
    by (simp add: run_evaluation_def traced_drift_def trace_drift_def record_call_def Let_def result_of_def)
       (simp add: an_evaluation_def tfs1_def)
  have "refuses tfs1 = (\<lambda>_. False)" by (simp add: tfs1_def no_files_def)
  then show ?thesis
    using old by (simp add: run record_verdict_def Let_def text_of_put del: json_compact.simps)
qed

subsection \<open>The files of a feature\<close>

text \<open>
  The files of a feature are listed against the first base git knows, and against no other: a base that
  is not there is passed over, and what the diff names is listed with what is untracked beside it.
\<close>

lemma changed_files_of_first_base:
  assumes "git_changed_files run \<noteq> []"
  shows "\<exists>earlier base later mb out. BASES = earlier @ base # later \<and>
    (\<forall>b \<in> set earlier. merge_base_with run b = None) \<and> merge_base_with run base = Some mb \<and>
    run [''diff'', ''--name-only'', mb] = (True, out)"
proof -
  obtain base where base: "find (\<lambda>b. merge_base_with run b \<noteq> None) BASES = Some base"
    using assms by (cases "find (\<lambda>b. merge_base_with run b \<noteq> None) BASES") (simp_all add: git_changed_files_def)
  obtain mb where mb: "merge_base_with run base = Some mb"
    using base by (auto simp: find_Some_iff)
  obtain k where k: "k < length BASES" "BASES ! k = base" "\<forall>j < k. merge_base_with run (BASES ! j) = None"
    using base by (auto simp: find_Some_iff)
  have "BASES = take k BASES @ base # drop (Suc k) BASES"
    using k(1,2) by (metis id_take_nth_drop)
  moreover have "\<forall>b \<in> set (take k BASES). merge_base_with run b = None"
    using k(1,3) by (auto simp: in_set_conv_nth)
  moreover have "\<exists>out. run [''diff'', ''--name-only'', mb] = (True, out)"
    using assms base mb by (cases "run [''diff'', ''--name-only'', mb]")
      (auto simp: git_changed_files_def ok_output_def split: if_splits)
  ultimately show ?thesis using mb by blast
qed

end
