(* ===== verification/Scripts.thy ===== *)
theory Scripts
  imports SpecLoad RegistryTools ShapeReport Drift Coverage
begin

text \<open>
  The commands of the living specs around their computations: what \<open>resolve-spec-paths.py\<close> answers to which
  flag and prints, the exit codes of \<open>register-capability.py\<close> and \<open>relocate-capability.py\<close>, and the lines
  that \<open>drift.py\<close>, \<open>living_validate.py\<close> and \<open>check-coverage.py\<close> print.  A line is kept by what it says, its
  marks and its wording are not; the JSON form prints the report itself.
\<close>

subsection \<open>Asking for specs\<close>

text \<open>The flags; a text that is not given is empty.\<close>

record query =
  q_changed :: "string list"
  q_all :: bool
  q_orphans :: bool
  q_follow :: bool
  q_for :: bool
  q_headings :: string
  q_requirement :: string
  q_file :: string
  q_leaned :: string
  q_capability :: string
  q_rules :: bool

type_synonym rule_set = "(string \<times> string list) list"

datatype answer =
    RulesAnswer rule_set
  | HeadingsAnswer headings_view
  | RequirementAnswer string "payload list" "(string \<times> string) list"
  | LeanedAnswer "payload list"
  | FileAnswer string "(load_item \<times> payload list) list"
  | OrphansAnswer "string list"
  | AllAnswer string "entry list" "string list"
  | LoadAnswer "load_item list" rule_set
  | MatchedAnswer "entry list"

definition no_rules :: rule_set where
  "no_rules = fst (load_rules JNull)"

definition rules_or_none :: "living \<Rightarrow> rule_set" where
  "rules_or_none l = (if rules l = [] then no_rules else rules l)"

definition inert_answer :: "query \<Rightarrow> answer" where
  "inert_answer q =
     (if q_rules q then RulesAnswer no_rules
      else if q_headings q \<noteq> [] then HeadingsAnswer (NotRegistered (q_headings q) [])
      else if q_requirement q \<noteq> [] then RequirementAnswer (q_requirement q) [] []
      else if q_leaned q \<noteq> [] then LeanedAnswer []
      else if q_file q \<noteq> [] then FileAnswer (q_file q) []
      else if q_orphans q then OrphansAnswer []
      else if q_all q then AllAnswer ''central'' [] []
      else if q_for q then LoadAnswer [] no_rules
      else MatchedAnswer [])"

text \<open>\<open>None\<close> is the \<open>ValueError\<close> of a spec path that cannot be resolved.\<close>

definition live_answer :: "query \<Rightarrow> living \<Rightarrow> files \<Rightarrow> dir_tree \<Rightarrow> answer option" where
  "live_answer q l fs tree =
     (if q_rules q then Some (RulesAnswer (rules_or_none l))
      else if q_headings q \<noteq> [] then map_option HeadingsAnswer (show_headings (q_headings q) l fs)
      else if q_requirement q \<noteq> []
      then map_option (\<lambda>(ms, hs). RequirementAnswer (q_requirement q) ms hs)
             (show_requirement (q_requirement q) l fs (q_capability q))
      else if q_leaned q \<noteq> [] then map_option LeanedAnswer (show_leaned_on_by (q_leaned q) l fs)
      else if q_file q \<noteq> [] then map_option (FileAnswer (q_file q)) (show_for_file (q_file q) l fs)
      else if q_orphans q then map_option OrphansAnswer (find_orphans l tree)
      else if q_all q
      then (case find_orphans l tree of
              None \<Rightarrow> None
            | Some orphans \<Rightarrow>
                map_option (\<lambda>es. AllAnswer (if layout l = [] then ''central'' else layout l) es orphans)
                  (discover_all l fs orphans))
      else if q_for q
      then map_option (\<lambda>items. LoadAnswer items (rules_or_none l)) (requirements_for_changed (q_changed q) l fs (q_follow q))
      else map_option MatchedAnswer (match_changed (q_changed q) l fs))"

definition answer_of :: "query \<Rightarrow> living \<Rightarrow> files \<Rightarrow> dir_tree \<Rightarrow> answer option" where
  "answer_of q l fs tree = (if enabled l then live_answer q l fs tree else Some (inert_answer q))"

subsection \<open>What is printed\<close>

definition named_heading :: "string \<Rightarrow> string \<Rightarrow> string" where
  "named_heading h c = h @ ''  ('' @ c @ '')''"

definition listing_of :: "(string \<times> string) list \<Rightarrow> string" where
  "listing_of hs = join nl (map (\<lambda>(c, h). ''- '' @ named_heading h c) hs)"

definition render_requirement :: "string \<Rightarrow> payload list \<Rightarrow> (string \<times> string) list \<Rightarrow> string" where
  "render_requirement requested ms hs =
     (let quoted = [CHR 0x22] @ requested @ [CHR 0x22] in
      case ms of
        [m] \<Rightarrow> rstrip (''### '' @ named_heading (p_heading m) (p_capability m) @ nl @ nl @ p_body m)
      | _ # _ # _ \<Rightarrow>
          quoted @ '' names more than one requirement:'' @ nl
          @ listing_of (map (\<lambda>m. (p_capability m, p_heading m)) ms) @ nl @ nl @ ''Name the capability to pick one.''
      | [] \<Rightarrow>
          if hs = [] then quoted @ '': nothing to search -- no living spec is readable''
          else quoted @ '' matches no requirement. These exist:'' @ nl @ listing_of hs)"

definition counted :: "string \<Rightarrow> 'a list \<Rightarrow> string" where
  "counted name reqs = name @ '': '' @ nat_text (length reqs) @ '' requirements''"

fun render_headings :: "headings_view \<Rightarrow> string" where
  "render_headings (NotRegistered name names) =
     name @ '': not a registered capability; registered: '' @ fmt_list names"
| "render_headings (HeadingsView name present spec reqs names) =
     (if \<not> present then name @ '': registered, but no spec file on disk''
      else join nl (counted name reqs # map (\<lambda>(h, _). ''- '' @ h) reqs))"

definition render_file :: "string \<Rightarrow> (load_item \<times> payload list) list \<Rightarrow> string" where
  "render_file path caps =
     (if caps = [] then path @ '': no living spec claims this file''
      else join nl (concat (map (\<lambda>(i, reqs).
          counted (i_name i @ '' ('' @ i_spec i @ '')'') reqs # map (\<lambda>m. ''- '' @ p_heading m) reqs) caps)))"

fun render_answer :: "answer \<Rightarrow> string" where
  "render_answer (RulesAnswer rs) = render_rules rs"
| "render_answer (HeadingsAnswer v) = render_headings v"
| "render_answer (RequirementAnswer requested ms hs) = render_requirement requested ms hs"
| "render_answer (LeanedAnswer ms) = join nl (map (\<lambda>m. p_capability m @ ''#'' @ p_heading m) ms)"
| "render_answer (FileAnswer path caps) = render_file path caps"
| "render_answer (OrphansAnswer os) = fmt_list os"
| "render_answer (AllAnswer _ es os) = render_all es os"
| "render_answer (LoadAnswer items _) = render_load items"
| "render_answer (MatchedAnswer es) = render_matched es"

text \<open>The exit code, and what is printed.\<close>

definition resolve_main :: "query \<Rightarrow> living \<Rightarrow> files \<Rightarrow> dir_tree \<Rightarrow> nat \<times> string option" where
  "resolve_main q l fs tree =
     (case answer_of q l fs tree of None \<Rightarrow> (2, None) | Some a \<Rightarrow> (0, Some (render_answer a)))"

subsection \<open>The tools that write\<close>

definition register_main ::
  "files \<Rightarrow> string \<Rightarrow> string list \<Rightarrow> string list \<Rightarrow> string \<Rightarrow> string list \<Rightarrow> nat \<times> files" where
  "register_main fs name match_globs exclude spec replaces =
     (if match_globs = [] then (2, fs)
      else case register fs name match_globs exclude spec replaces of
          None \<Rightarrow> (2, fs)
        | Some (_, fs') \<Rightarrow> (0, fs'))"

definition relocate_main ::
  "(nat \<Rightarrow> bool) \<Rightarrow> bool \<Rightarrow> files \<Rightarrow> storage \<Rightarrow> string \<Rightarrow> bool \<Rightarrow> string \<Rightarrow> nat \<times> files" where
  "relocate_main fault config_fault fs to name every override =
     (if (name \<noteq> []) = every then (2, fs)
      else if override \<noteq> [] \<and> every then (2, fs)
      else case relocate fault config_fault fs to (if every then None else Some name) override of
          (RefusedRun, fs') \<Rightarrow> (2, fs')
        | (RolledBack, fs') \<Rightarrow> (2, fs')
        | (Finished moving unchanged skipped, fs') \<Rightarrow> (if skipped \<noteq> [] then 1 else 0, fs'))"

subsection \<open>The printed drift report\<close>

text \<open>The reason of all skips, when they share one.\<close>

definition shared_reason :: "(string \<times> skip_reason) list \<Rightarrow> skip_reason option" where
  "shared_reason skipped = (case remdups (map snd skipped) of [r] \<Rightarrow> Some r | _ \<Rightarrow> None)"

datatype drift_line =
    SkipNote string skip_reason | NoCapabilities | CountsOf nat nat "skip_reason option" | ShallowHint
  | PartlyInSync nat nat "skip_reason option" | AllInSync nat | DriftTitle bool | InSyncLine string | DriftGap
  | SpecLine string string | ChangedCount nat | DriftFile string string | FoldHint

definition shallow_hint :: "drift_report \<Rightarrow> drift_line list" where
  "shallow_hint r = (if list_ex (\<lambda>(_, why). why = SkipShallow) (dr_skipped r) then [ShallowHint] else [])"

definition counts_of :: "drift_report \<Rightarrow> drift_line" where
  "counts_of r = CountsOf (dr_checked r) (length (dr_skipped r)) (shared_reason (dr_skipped r))"

definition capability_lines :: "drift_cap \<Rightarrow> drift_line list" where
  "capability_lines c =
     (if d_drifted c = [] then [InSyncLine (d_name c)]
      else [DriftGap, SpecLine (d_spec c) (d_commit c), ChangedCount (length (d_drifted c))]
           @ map (\<lambda>(severity, f). DriftFile severity f) (d_drifted c))"

definition drift_lines :: "drift_report \<Rightarrow> drift_line list" where
  "drift_lines r =
     (let notes = map (\<lambda>(n, why). SkipNote n why) (dr_skipped r) in
      if \<not> dr_enabled r then []
      else if dr_checked r = 0
      then (if dr_skipped r = [] then [NoCapabilities] else notes @ [counts_of r] @ shallow_hint r)
      else if \<not> list_ex (\<lambda>c. d_drifted c \<noteq> []) (dr_capabilities r)
      then notes @ (if dr_skipped r \<noteq> []
                    then PartlyInSync (dr_checked r) (length (dr_skipped r)) (shared_reason (dr_skipped r)) # shallow_hint r
                    else [AllInSync (dr_checked r)])
      else notes @ [DriftTitle (dr_working r)] @ concat (map capability_lines (dr_capabilities r))
           @ [DriftGap, counts_of r] @ shallow_hint r @ [FoldHint])"

subsection \<open>The printed shape report\<close>

datatype shape_line =
    SpecsAreOff | NothingWasChecked | SkippedLine skip | CleanReport nat | ShapeTotals nat nat nat | ShapeGap
  | ShapeFinding ShapeCheck.finding | SkippedHead

definition shape_lines :: "report \<Rightarrow> shape_line list" where
  "shape_lines r =
     (if \<not> rep_enabled r then
        (if rep_skipped r = [] then [SpecsAreOff] else NothingWasChecked # map SkippedLine (rep_skipped r))
      else (if rep_findings r = [] then [CleanReport (rep_checked r)]
            else let found = length (filter (\<lambda>f. f_severity f = Error) (rep_findings r))
                 in [ShapeTotals (rep_checked r) found (length (rep_findings r) - found), ShapeGap]
                    @ concat (map (\<lambda>f. [ShapeFinding f, ShapeGap]) (rep_findings r)))
           @ (if rep_skipped r = [] then [] else SkippedHead # map SkippedLine (rep_skipped r)))"

subsection \<open>The printed coverage report\<close>

datatype coverage_line =
    NoSpecs | CoverageTitle | NoCoverageFile string nat | CoverageOf string nat nat
  | CoveredLine string "string list" | UncoveredLine string

definition coverage_entry_lines :: "coverage_entry \<Rightarrow> coverage_line list" where
  "coverage_entry_lines c =
     (if cv_has c then CoverageOf (cv_name c) (cv_covered c) (cv_total c) else NoCoverageFile (cv_name c) (cv_total c))
     # map (\<lambda>q. if q_covered q then CoveredLine (q_id q) (q_tests q) else UncoveredLine (q_id q)) (cv_requirements c)"

definition coverage_report_lines :: "bool \<times> coverage_entry list \<Rightarrow> coverage_line list" where
  "coverage_report_lines r =
     (if \<not> fst r then [] else if snd r = [] then [NoSpecs]
      else CoverageTitle # concat (map coverage_entry_lines (snd r)))"

section \<open>Facts\<close>

subsection \<open>Asking for specs\<close>

text \<open>A project whose living specs are off answers every question the same way, whatever files it has.\<close>

lemma switched_off_is_inert:
  assumes "\<not> enabled l"
  shows "resolve_main q l fs tree = (0, Some (render_answer (inert_answer q)))"
  using assms by (simp add: resolve_main_def answer_of_def)

text \<open>The registry is not read for a query about rules, so no bad path of a capability can stop it.\<close>

lemma rules_always_answered: "q_rules q \<Longrightarrow> fst (resolve_main q l fs tree) = 0"
  by (simp add: resolve_main_def answer_of_def live_answer_def split: if_split)

subsection \<open>The tools that write\<close>

lemma carried_outcomes:
  "carry_out fault config_fault fs l m results = (out, fs') \<Longrightarrow>
   out \<noteq> RefusedRun \<and> (\<forall>moving unchanged skipped. out = Finished moving unchanged skipped \<longrightarrow> skipped = skips_of results)"
  by (auto simp: carry_out_def Let_def split: if_splits prod.splits)

lemma refused_changes_nothing:
  "relocate fault config_fault fs to name override = (RefusedRun, fs') \<Longrightarrow> fs' = fs"
  by (auto simp: relocate_def Let_def case_prod_beta dest: carried_outcomes split: if_splits option.splits)

lemma single_never_skips:
  "relocate fault config_fault fs to (Some name) override = (Finished moving unchanged skipped, fs') \<Longrightarrow> skipped = []"
  by (auto simp: relocate_def Let_def case_prod_beta dest: carried_outcomes split: if_splits option.splits)


definition stopped_move :: "nat \<times> files" where
  "stopped_move = relocate_main (\<lambda>k. k = 1) False two_files Colocated ''a'' False []"

definition unmatched_name :: "nat \<times> files" where
  "unmatched_name = register_main two_files ''b'' [] [] [] []"


subsection \<open>Honest reports\<close>

lemma drift_counts:
  "compute_drift fs g l working since = Some r \<Longrightarrow> dr_checked r = length (dr_capabilities r)"
  by (auto simp: compute_drift_def Let_def split: if_splits)

text \<open>
  The drift report names exactly the files that drifted and every skip with its reason, and the line that
  all is in sync stands only where every capability was checked and none of them drifted.
\<close>

theorem drift_lines_honest:
  assumes "compute_drift fs g l working since = Some r"
  shows "(DriftFile severity f \<in> set (drift_lines r) \<longleftrightarrow> (\<exists>c \<in> set (dr_capabilities r). (severity, f) \<in> set (d_drifted c))) \<and>
    (SkipNote name why \<in> set (drift_lines r) \<longleftrightarrow> (name, why) \<in> set (dr_skipped r)) \<and>
    (AllInSync n \<in> set (drift_lines r) \<longleftrightarrow>
       dr_enabled r \<and> dr_skipped r = [] \<and> n = length (dr_capabilities r) \<and> n \<noteq> 0 \<and> (\<forall>c \<in> set (dr_capabilities r). d_drifted c = []))"
proof -
  have off: "dr_capabilities r = [] \<and> dr_skipped r = []" if "\<not> dr_enabled r"
    using assms that by (auto simp: compute_drift_def Let_def split: if_splits)
  have own: "DriftFile severity f \<in> set (capability_lines c) \<longleftrightarrow> (severity, f) \<in> set (d_drifted c)"
    "SkipNote name why \<notin> set (capability_lines c)" "AllInSync n \<notin> set (capability_lines c)" for c
    by (auto simp: capability_lines_def)
  show ?thesis
    using off drift_counts [OF assms] own
    by (auto simp: drift_lines_def Let_def counts_of_def shallow_hint_def list_ex_iff split: if_splits)
qed

text \<open>The shape report prints every finding, and calls a run clean only when it checked and found none.\<close>

theorem shape_lines_honest:
  assumes "rep_enabled r"
  shows "(ShapeFinding f \<in> set (shape_lines r) \<longleftrightarrow> f \<in> set (rep_findings r)) \<and>
    (CleanReport n \<in> set (shape_lines r) \<longleftrightarrow> n = rep_checked r \<and> rep_findings r = [])"
  using assms by (auto simp: shape_lines_def Let_def)

text \<open>The coverage report prints a requirement as covered exactly when the capability's entry says so.\<close>

theorem coverage_lines_honest:
  "CoveredLine rid tests \<in> set (coverage_report_lines (True, es)) \<longleftrightarrow>
     (\<exists>c \<in> set es. \<exists>q \<in> set (cv_requirements c). q_covered q \<and> q_id q = rid \<and> q_tests q = tests)"
  by (cases "es = []") (auto simp: coverage_report_lines_def coverage_entry_lines_def split: if_splits)

end
