(* ===== verification/Spec2Isabelle.thy ===== *)
theory Spec2Isabelle
  imports Lifecycle Status SpecLoad FoldRun WriteLock ShapeReport Drift RegistryTools PlanCheck DoctorRun Dispatch Coverage Recording CommandLine FeatureDir DriftTrace Scripts
begin

text \<open>
  A model of the companion scripts of this repository
  (\<open>.specify/extensions/companion/scripts\<close>, Python), with the theorems that make it correct.

  The scripts keep the record of a feature while it moves through the pipeline
  specify, clarify, plan, tasks, analyze, implement, converge.  A feature directory holds
  \<open>.spec-context.json\<close> (status, current step, append-only history, captured notes), \<open>tasks.md\<close> (the
  checkboxes) and \<open>.spec-context.events.jsonl\<close> (task finishes appended by parallel workers).  The
  project holds a registry of capabilities (\<open>living-specs.yml\<close>), each with a living spec, into which
  a completed feature folds the deltas of its own spec.

  The theories, in the order the code builds on itself:

  \<^item> \<open>Prelude\<close>: folds that may fail, order-preserving deduplication.
  \<^item> \<open>PyText\<close>: \<open>str\<close> operations of the language: strip, splitlines, split, int.
  \<^item> \<open>Json\<close>: JSON values, dictionaries with their order, \<open>json.loads\<close>, \<open>json.dumps\<close>, \<open>str\<close> of a value.
  \<^item> \<open>History\<close> (\<open>spec_context.py\<close>): steps, statuses, history entries, \<open>append_complete\<close>,
    \<open>_guard_append_only\<close>, \<open>_is_more_advanced\<close>.
  \<^item> \<open>Store\<close> (\<open>spec_context.py\<close>): the feature directory as a record, \<open>read_ctx\<close>, \<open>fill_required\<close>,
    \<open>atomic_write\<close>; the locale \<open>record_store\<close> is the contract of reading and publishing, interpreted
    on the model.
  \<^item> \<open>TaskSync\<close> (\<open>task_sync.py\<close>): task markers, the checkbox flip, live and appended task finishes, the
    fold of the append log, the sync, the close of the implement step.
  \<^item> \<open>Lifecycle\<close> (\<open>write-context.py\<close>): \<open>update_context\<close>, \<open>journal_finish\<close>, \<open>journal_advance\<close>,
    \<open>mark_spec_complete\<close>; \<open>life\<close> is the step relation of all writers interleaved with changes from
    outside, and the invariants are proved by induction on it.
  \<^item> \<open>Status\<close> (\<open>derive-from-files.py\<close>, \<open>status-context.py\<close>): rebuilding a record from the files, and the
    resolution of where a feature stands; the two agree, and deriving is idempotent.
  \<^item> \<open>Capture\<close> (\<open>capture.py\<close>): the additive writers and the batch; the locale \<open>additive_edit\<close> is what
    an edit owes the lifecycle, interpreted on every edit of the code.
  \<^item> \<open>LivingText\<close> (\<open>resolve-spec-paths.py\<close>, \<open>living_validate.py\<close>): fences, headings, markers, slices.
  \<^item> \<open>Deltas\<close> (\<open>spec_deltas.py\<close>): the parser of delta blocks.
  \<^item> \<open>Yaml\<close> (\<open>companion_config.py\<close>): the YAML subset reader.
  \<^item> \<open>Registry\<close> (\<open>companion_config.py\<close>): loading, resolving, rendering and splicing the registry, the
    recipe order, phases and hooks.
  \<^item> \<open>Globs\<close> (\<open>resolve-spec-paths.py\<close>): globs, their translation and matching, against the language
    they stand for.
  \<^item> \<open>SpecPaths\<close> (\<open>resolve-spec-paths.py\<close>): which capability claims a file, specificity and ranking,
    the tiers of a spec, the walk over the project tree and the discovery of unregistered specs.
  \<^item> \<open>SpecLoad\<close> (\<open>resolve-spec-paths.py\<close>): the requirements a change is briefed on, the edges between
    capabilities, and the show queries with their rendering.
  \<^item> \<open>ShapeCheck\<close>, \<open>ShapeFacts\<close> (\<open>living_validate.py\<close>): the check of a living spec and of the deltas of a
    feature; when it reports an error, and where its findings point.  \<open>ShapeReport\<close>: the report over a
    project.
  \<^item> \<open>Fold\<close>, \<open>FoldFacts\<close> (\<open>living_spec_fold.py\<close>): applying a delta set to a living spec; the headings
    after a fold, folding twice, rename chains, markers.
  \<^item> \<open>FoldRun\<close> (\<open>living_spec_fold.py\<close>): the accounting of loaded capabilities, the targets, the
    shape check before the write, and one run of the fold over a project.
  \<^item> \<open>Drift\<close> (\<open>drift.py\<close>): the drift verdict on every capability, with git as a record of answers, and the
    acceptance of a spec as it is.
  \<^item> \<open>RegistryTools\<close> (\<open>register-capability.py\<close>, \<open>relocate-capability.py\<close>): the tools that rewrite the
    registry; a relocation with its rollback, whichever of its steps fails.
  \<^item> \<open>PlanText\<close>, \<open>PlanStates\<close>, \<open>PlanCheck\<close> (\<open>check_plan.py\<close>): the blocks of a plan, the check of a state block
    with its walk over the arrows, and the check of call paths, screens and code blocks against the
    source tree, as a function from paths; what a plan without errors says about the code.
  \<^item> \<open>JsonRound\<close> (\<open>json.dumps\<close>, \<open>json.loads\<close>): a value written on one line is read back as itself, and the
    line holds no separator but its own end.
  \<^item> \<open>RunTrace\<close> (\<open>run_trace.py\<close>): the trace of calls beside the record: its bounds, its events, what is
    read back from it; every sequence of calls is accounted for.
  \<^item> \<open>Doctor\<close> (\<open>doctor.py\<close>): findings, reports and the frame that runs the checks; the locale
    \<open>check_module\<close> is what a check owes the frame.  \<open>DoctorRecord\<close>, \<open>DoctorTrace\<close>
    (\<open>doctor_checks.py\<close>): the checks of the record, and of the documents, the trace and the dispatch.
    \<open>DoctorDrift\<close> (\<open>doctor_drift.py\<close>): the claims of a document against the drift verdicts.
    \<open>DoctorBleed\<close> (\<open>doctor_bleed.py\<close>): bursts of steps journaled together.  \<open>DoctorRun\<close>: the whole
    examination, with \<open>check_module\<close> interpreted on every check of the code.
  \<^item> \<open>Dispatch\<close> (\<open>dispatch-briefs.py\<close>): the shares of the workers, the waves of the Foundational
    phase, what is offered and who checks in; the doctor reads the trace back the way it was meant.
  \<^item> \<open>Coverage\<close> (\<open>check-coverage.py\<close>): the requirements of a spec, against a division into blocks, and
    which of them a line of the coverage file covers.
  \<^item> \<open>Recording\<close> (\<open>record-living-specs.py\<close>, \<open>plan-blocks.py\<close>, \<open>record_plan_report\<close>): the loaded living
    specs, the picked plan blocks and the result of the plan check, on the additive writers.
  \<^item> \<open>CommandLine\<close> (\<open>write-context.py\<close>, \<open>_main\<close>): one invocation of the command of the record: what is
    refused, which writers run in which order, the exit code, and the call the trace is told of.
  \<^item> \<open>FeatureDir\<close> (\<open>spec_context.py\<close>): which feature directory a command is about.
  \<^item> \<open>DriftTrace\<close> (\<open>drift.py\<close>, \<open>living_spec_fold.py\<close>): the commands git is asked, and the trace of every drift
    evaluation: its event and, behind it, its verdict; what the reader gets back after any run of them.
  \<^item> \<open>Scripts\<close>: what \<open>resolve-spec-paths.py\<close> answers to its flags and prints, the exit codes of the tools
    that write the registry, and the printed reports of drift, shape and coverage.
  \<^item> \<open>WriteLock\<close> (\<open>spec_context.py\<close>): the lock protocol of the writers as a step relation over any
    number of processes that may die, its exclusion and its race.

  Conventions.  A string is a list of the characters U+0000 to U+00FF.  A raised exception is \<open>None\<close>,
  or the outcome \<open>Raised\<close> of a writer.  A JSON object is an association list in insertion order, and
  an absent key reads as \<open>JNull\<close>, as \<open>dict.get\<close> does.  A clock reading is \<open>clock st k\<close> for a tick
  \<open>k\<close>.  The YAML reader takes its recursion as fuel; \<open>Yaml.yaml_reader_terminates\<close> shows that the
  fuel it is given is always enough.  \<open>Fold.resolve_rename\<close> follows at most one link more than the
  map has, and \<open>FoldFacts.rename_resolves\<close> shows that this reaches the end.  A project is a map from
  paths to texts; a directory tree is a finite datatype, so the walk ends.

  Not modelled: the parsing of command lines and the commands of the smaller scripts, messages on the
  error stream, subprocesses (git, the verification command), the place of files outside the project,
  and what else the scripts only print; the wording of the findings of the plan checker and of the
  doctor; the text of the doctor's audit of chat transcripts; the Java library and the shell scripts of
  the repository, which are in other languages.  What a modelled function takes from such a part is an
  argument of its definition.
\<close>

end
